(* ===== verification/Prelude.thy ===== *)
theory Prelude
  imports Main "HOL-Library.Word"
begin

section \<open>Prelude: faults, sequencing, loops and the word and list lemmas every component uses\<close>

text \<open>
  Everything the components share.  A C++ function that can throw, abort the process or run into
  undefined behaviour returns a \<open>result\<close>: \<open>Inl f\<close> names what went wrong, \<open>Inr x\<close> is the value
  or the new state.  \<open>bindE\<close> is the sequencing of statements, \<open>foldE\<close> a range-based \<open>for\<close> loop
  whose body may fault.  The collection \<open>res_simps\<close> holds the facts that take a successful
  sequence of statements apart; \<open>kept\<close> is the predicate "every run of this statement
  that returns keeps the invariant", with introduction rules for each way of composing statements.
\<close>

subsection \<open>Faults\<close>

text \<open>
  \<^item> \<open>Undefined_Behaviour\<close>: out-of-range accesses, overlapping copies, signed overflow;
  \<^item> \<open>Use_After_Free\<close>: a pointer to an object that is gone (or null) is dereferenced;
  \<^item> \<open>Length_Error\<close>: \<open>std::length_error\<close> of a container that would pass its maximal size;
  \<^item> \<open>Bad_Function_Call\<close>: an empty \<open>std::function\<close> is called;
  \<^item> \<open>Abort\<close>, \<open>Exit\<close>: the \<open>abort()\<close> and \<open>exit(-1)\<close> after a \<open>LOG_FATAL\<close>.
\<close>

datatype fault =
    Undefined_Behaviour
  | Use_After_Free
  | Length_Error
  | Bad_Function_Call
  | Abort
  | Exit

type_synonym 'a result = "fault + 'a"

type_synonym byte = "8 word"
type_synonym size_t = "64 word"
type_synonym int32 = "32 word"
type_synonym int64 = "64 word"
type_synonym uint32 = "32 word"

text \<open>File descriptors and thread ids are only compared, so they are mathematical integers.\<close>

type_synonym fd = int
type_synonym tid = int

named_theorems res_simps \<open>decomposition of a sequence of statements\<close>
named_theorems kept_intros \<open>introduction rules for invariants of statements\<close>

subsection \<open>Sequencing\<close>

definition bindE :: "('e + 'a) \<Rightarrow> ('a \<Rightarrow> 'e + 'b) \<Rightarrow> 'e + 'b" where
  "bindE m f = (case m of Inl e \<Rightarrow> Inl e | Inr x \<Rightarrow> f x)"

lemma bindE_Inl [simp]: "bindE (Inl e) f = Inl e"
  by (simp add: bindE_def)

lemma bindE_Inr [simp]: "bindE (Inr x) f = f x"
  by (simp add: bindE_def)

lemma bindE_eq_Inr [res_simps]: "bindE m f = Inr y \<longleftrightarrow> (\<exists>x. m = Inr x \<and> f x = Inr y)"
  by (cases m) auto

lemma bindE_eq_Inl [res_simps]:
  "bindE m f = Inl e \<longleftrightarrow> m = Inl e \<or> (\<exists>x. m = Inr x \<and> f x = Inl e)"
  by (cases m) auto

lemma bindE_assoc: "bindE (bindE m f) g = bindE m (\<lambda>x. bindE (f x) g)"
  by (cases m) auto

text \<open>Reading a pointer: an object that is not in the store is gone.\<close>

definition deref :: "('p \<Rightarrow> 'a option) \<Rightarrow> 'p \<Rightarrow> 'a result" where
  "deref m p = (case m p of None \<Rightarrow> Inl Use_After_Free | Some x \<Rightarrow> Inr x)"

lemma deref_Some [simp]: "m p = Some x \<Longrightarrow> deref m p = Inr x"
  by (simp add: deref_def)

lemma deref_None [simp]: "m p = None \<Longrightarrow> deref m p = Inl Use_After_Free"
  by (simp add: deref_def)

lemma deref_eq_Inr [res_simps]: "deref m p = Inr x \<longleftrightarrow> m p = Some x"
  by (simp add: deref_def split: option.splits)

subsection \<open>Loops over a vector\<close>

fun foldE :: "('a \<Rightarrow> 's \<Rightarrow> 'e + 's) \<Rightarrow> 'a list \<Rightarrow> 's \<Rightarrow> 'e + 's" where
  "foldE f [] s = Inr s"
| "foldE f (x # xs) s = bindE (f x s) (foldE f xs)"

lemma foldE_append: "foldE f (xs @ ys) s = bindE (foldE f xs s) (foldE f ys)"
proof (induction xs arbitrary: s)
  case (Cons x xs)
  then have "foldE f (xs @ ys) = (\<lambda>t. bindE (foldE f xs t) (foldE f ys))" by blast
  then show ?case by (simp add: bindE_assoc)
qed simp

lemma foldE_pure: "foldE (\<lambda>x s. Inr (f x s)) xs s = Inr (fold f xs s)"
  by (induction xs arbitrary: s) simp_all

subsection \<open>Invariants of statements\<close>

definition kept :: "('s \<Rightarrow> bool) \<Rightarrow> ('s \<Rightarrow> 'e + 's) \<Rightarrow> bool" where
  "kept I f \<longleftrightarrow> (\<forall>s s'. I s \<longrightarrow> f s = Inr s' \<longrightarrow> I s')"

lemma keptI: "(\<And>s s'. I s \<Longrightarrow> f s = Inr s' \<Longrightarrow> I s') \<Longrightarrow> kept I f"
  unfolding kept_def by blast

lemma keptD: "kept I f \<Longrightarrow> f s = Inr s' \<Longrightarrow> I s \<Longrightarrow> I s'"
  unfolding kept_def by blast

lemma kept_return [kept_intros]: "kept I Inr"
  by (simp add: kept_def)

lemma kept_bind [kept_intros]: "kept I f \<Longrightarrow> kept I g \<Longrightarrow> kept I (\<lambda>s. bindE (f s) g)"
proof (rule keptI)
  fix s s'
  assume f: "kept I f" and g: "kept I g" and s: "I s" and "bindE (f s) g = Inr s'"
  from this(4) obtain t where t: "f s = Inr t" "g t = Inr s'" by (auto simp: bindE_eq_Inr)
  from f t(1) s have "I t" by (rule keptD)
  with g t(2) show "I s'" by (rule keptD)
qed

lemma kept_if [kept_intros]:
  "kept I f \<Longrightarrow> kept I g \<Longrightarrow> kept I (\<lambda>s. if b s then f s else g s)"
  by (rule keptI) (metis keptD)

lemma kept_foldE [kept_intros]: "(\<And>x. x \<in> set xs \<Longrightarrow> kept I (f x)) \<Longrightarrow> kept I (foldE f xs)"
proof (induction xs)
  case Nil
  show ?case by (simp add: kept_def)
next
  case (Cons x xs)
  have "kept I (\<lambda>s. bindE (f x s) (foldE f xs))"
    using Cons by (intro kept_bind) auto
  then show ?case by (simp add: kept_def)
qed

subsection \<open>Transition systems\<close>

text \<open>
  The concurrent protocols (the wake-up of an event loop, the start of a loop thread) are
  transition systems whose steps are the atomic actions of the threads.  The locale is the
  contract between such a protocol and the facts about its reachable states: give a start
  predicate, a step relation and an invariant that every step keeps.
\<close>

locale transition_system =
  fixes start :: "'s \<Rightarrow> bool"
    and step :: "'s \<Rightarrow> 's \<Rightarrow> bool"
    and inv :: "'s \<Rightarrow> bool"
  assumes start_inv: "start s \<Longrightarrow> inv s"
    and step_inv: "inv s \<Longrightarrow> step s t \<Longrightarrow> inv t"
begin

lemma run_inv: "step\<^sup>*\<^sup>* s t \<Longrightarrow> inv s \<Longrightarrow> inv t"
  by (induction rule: rtranclp_induct) (auto intro: step_inv)

lemma reachable_inv: "start s \<Longrightarrow> step\<^sup>*\<^sup>* s t \<Longrightarrow> inv t"
  by (blast intro: run_inv start_inv)

end

subsection \<open>Signed machine arithmetic\<close>

text \<open>
  Signed overflow is undefined behaviour in C++: the result of a signed operation is computed in
  the integers and is a fault when it does not fit the type.
\<close>

definition s_int :: "int \<Rightarrow> 'a::len word result" where
  "s_int x = (if - (2 ^ (LENGTH('a) - 1)) \<le> x \<and> x < 2 ^ (LENGTH('a) - 1)
              then Inr (word_of_int x) else Inl Undefined_Behaviour)"

lemma sint_range: "- (2 ^ (LENGTH('a) - 1)) \<le> sint (w :: 'a::len word)"
    "sint (w :: 'a::len word) < 2 ^ (LENGTH('a) - 1)"
  using sint_ge [of w] sint_lt [of w] by simp_all

lemma sint_eq_iff: "sint a = sint b \<longleftrightarrow> a = b" for a b :: "'a::len word"
proof
  assume "sint a = sint b"
  then have "(of_int (sint a) :: 'a word) = of_int (sint b)" by simp
  then show "a = b" by simp
qed simp

lemma s_int_eq_Inr [res_simps]: "s_int x = Inr (w :: 'a::len word) \<longleftrightarrow> sint w = x"
proof
  assume *: "s_int x = Inr w"
  then have "- (2 ^ (LENGTH('a) - 1)) \<le> x" "x < 2 ^ (LENGTH('a) - 1)" "w = word_of_int x"
    by (auto simp: s_int_def split: if_splits)
  then show "sint w = x" by (simp add: sint_sbintrunc' signed_take_bit_int_eq_self)
next
  assume "sint w = x"
  then show "s_int x = Inr w"
    using sint_range [of w] by (auto simp: s_int_def)
qed

lemma sint_word_of_int_small:
  "- (2 ^ (LENGTH('a) - 1)) \<le> x \<Longrightarrow> x < 2 ^ (LENGTH('a) - 1) \<Longrightarrow>
     sint (word_of_int x :: 'a::len word) = x"
  by (simp add: sint_sbintrunc' signed_take_bit_int_eq_self)

lemma s_int_eq_Inl [res_simps]:
  "s_int x = (Inl e :: 'a::len word result) \<longleftrightarrow>
     e = Undefined_Behaviour \<and> (x < - (2 ^ (LENGTH('a) - 1)) \<or> 2 ^ (LENGTH('a) - 1) \<le> x)"
  by (auto simp: s_int_def)

subsection \<open>Lists and words\<close>

lemma take_drop_split: "i \<le> j \<Longrightarrow> take j xs = take i xs @ take (j - i) (drop i xs)"
  by (metis le_add_diff_inverse take_add)

lemma unat_below: "unat (x :: 'a::len word) < 2 ^ LENGTH('a)"
  by (rule unsigned_less)

lemma unat_sub_le: "(b :: 'a::len word) \<le> a \<Longrightarrow> unat (a - b) = unat a - unat b"
  by (simp add: unat_sub)

lemma unat_add_small:
  "unat (a :: 'a::len word) + unat b < 2 ^ LENGTH('a) \<Longrightarrow> unat (a + b) = unat a + unat b"
  by (simp add: unat_word_ariths)

lemma unat_of_nat_small: "n < 2 ^ LENGTH('a) \<Longrightarrow> unat (of_nat n :: 'a::len word) = n"
  by (simp add: unat_of_nat take_bit_eq_mod)

end
