(* ===== verification/OS.thy ===== *)
theory OS
  imports Prelude
begin

section \<open>The operating system: a history of system calls and an oracle for their results\<close>

text \<open>
  The kernel is not part of the program.  What the program can observe of it are the results of
  its system calls, so the model keeps the \<^emph>\<open>history\<close> of the calls made so far, each with its
  arguments and result, and takes the results from an \<^emph>\<open>oracle\<close>: the record \<open>os\<close> has, for every
  call the sources use, a function from the history and the arguments to the result.  Any
  behaviour of the kernel, of the network and of the peers is such an oracle; the oracle is a
  parameter of every definition that makes a system call.  A failed call is \<open>Inl errno\<close>.

  What the documentation of a call promises is stated as a predicate over the oracle
  (\<open>epoll_ok\<close>, \<open>write_ok\<close>, ...) and is a named hypothesis of the theorems that need it.
  What the calls have done so far (which descriptors an epoll instance watches, which bytes a
  socket has accepted) is a function of the history.
\<close>

type_synonym errno = int

definition EPERM :: errno where "EPERM = 1"
definition EINTR :: errno where "EINTR = 4"
definition EBADF :: errno where "EBADF = 9"
definition EAGAIN :: errno where "EAGAIN = 11"
definition EACCES :: errno where "EACCES = 13"
definition EFAULT :: errno where "EFAULT = 14"
definition EMFILE :: errno where "EMFILE = 24"
definition EPIPE :: errno where "EPIPE = 32"
definition ENOTSOCK :: errno where "ENOTSOCK = 88"
definition EAFNOSUPPORT :: errno where "EAFNOSUPPORT = 97"
definition EADDRINUSE :: errno where "EADDRINUSE = 98"
definition EADDRNOTAVAIL :: errno where "EADDRNOTAVAIL = 99"
definition ENETUNREACH :: errno where "ENETUNREACH = 101"
definition ECONNRESET :: errno where "ECONNRESET = 104"
definition EISCONN :: errno where "EISCONN = 106"
definition ECONNREFUSED :: errno where "ECONNREFUSED = 111"
definition EALREADY :: errno where "EALREADY = 114"
definition EINPROGRESS :: errno where "EINPROGRESS = 115"

lemmas errno_defs = EPERM_def EINTR_def EBADF_def EAGAIN_def EACCES_def EFAULT_def EMFILE_def
  EPIPE_def ENOTSOCK_def EAFNOSUPPORT_def EADDRINUSE_def EADDRNOTAVAIL_def ENETUNREACH_def
  ECONNRESET_def EISCONN_def ECONNREFUSED_def EALREADY_def EINPROGRESS_def

datatype ctl_op = EPOLL_CTL_ADD | EPOLL_CTL_DEL | EPOLL_CTL_MOD

text \<open>A pointer to a \<open>Channel\<close> object; it is also the \<open>data.ptr\<close> of an \<open>epoll_event\<close>.\<close>

type_synonym chan_ptr = nat

text \<open>
  An internet address: \<open>sin_addr.s_addr\<close> and \<open>sin_port\<close>, as a little-endian machine reads the bytes
  that are in network order.
\<close>

type_synonym sockaddr = "32 word \<times> 16 word"

datatype sockopt = TCP_NODELAY | SO_REUSEADDR | SO_REUSEPORT | SO_KEEPALIVE

datatype sysevent =
    Gettimeofday int64 int64
  | Epoll_ctl fd ctl_op fd uint32 chan_ptr "errno + unit"
  | Epoll_wait fd nat "errno + (chan_ptr \<times> uint32) list"
  | Write fd "byte list" "errno + nat"
  | Read fd nat "errno + byte list"
  | Readv fd "nat list" "errno + byte list"
  | Timerfd_settime fd int64 int64
  | Shutdown fd "errno + unit"
  | Close fd "errno + unit"
  | Getsockopt_error fd "errno + errno"
  | Setsockopt fd sockopt bool
  | Socket "errno + fd"
  | Bind fd sockaddr "errno + unit"
  | Listen fd "errno + unit"
  | Accept fd "errno + fd \<times> sockaddr"
  | Connect fd sockaddr "errno + unit"
  | Getsockname fd "errno + sockaddr"
  | Getpeername fd "errno + sockaddr"

record os =
  os_gettimeofday :: "sysevent list \<Rightarrow> int64 \<times> int64"
  os_epoll_ctl :: "sysevent list \<Rightarrow> fd \<Rightarrow> ctl_op \<Rightarrow> fd \<Rightarrow> uint32 \<Rightarrow> chan_ptr \<Rightarrow> errno + unit"
  os_epoll_wait :: "sysevent list \<Rightarrow> fd \<Rightarrow> nat \<Rightarrow> errno + (chan_ptr \<times> uint32) list"
  os_write :: "sysevent list \<Rightarrow> fd \<Rightarrow> byte list \<Rightarrow> errno + nat"
  os_read :: "sysevent list \<Rightarrow> fd \<Rightarrow> nat \<Rightarrow> errno + byte list"
  os_readv :: "sysevent list \<Rightarrow> fd \<Rightarrow> nat list \<Rightarrow> errno + byte list"
  os_shutdown :: "sysevent list \<Rightarrow> fd \<Rightarrow> errno + unit"
  os_close :: "sysevent list \<Rightarrow> fd \<Rightarrow> errno + unit"
  os_getsockopt_error :: "sysevent list \<Rightarrow> fd \<Rightarrow> errno + errno"
  os_socket :: "sysevent list \<Rightarrow> errno + fd"
  os_bind :: "sysevent list \<Rightarrow> fd \<Rightarrow> sockaddr \<Rightarrow> errno + unit"
  os_listen :: "sysevent list \<Rightarrow> fd \<Rightarrow> errno + unit"
  os_accept :: "sysevent list \<Rightarrow> fd \<Rightarrow> errno + fd \<times> sockaddr"
  os_connect :: "sysevent list \<Rightarrow> fd \<Rightarrow> sockaddr \<Rightarrow> errno + unit"
  os_getsockname :: "sysevent list \<Rightarrow> fd \<Rightarrow> errno + sockaddr"
  os_getpeername :: "sysevent list \<Rightarrow> fd \<Rightarrow> errno + sockaddr"

text \<open>The part of the program's world that every component extends: the history.\<close>

record os_world =
  hist :: "sysevent list"

subsection \<open>Views of the history\<close>

text \<open>
  What an epoll instance watches: the effect of the \<open>epoll_ctl\<close> calls that succeeded.  Closing a
  descriptor removes it from every epoll instance.
\<close>

fun interest_step :: "fd \<Rightarrow> sysevent \<Rightarrow> (fd \<rightharpoonup> uint32 \<times> chan_ptr) \<Rightarrow> (fd \<rightharpoonup> uint32 \<times> chan_ptr)" where
  "interest_step ep (Epoll_ctl ep' op f ev p r) m =
     (if ep' = ep \<and> r = Inr ()
      then (case op of EPOLL_CTL_DEL \<Rightarrow> m(f := None) | _ \<Rightarrow> m(f \<mapsto> (ev, p)))
      else m)"
| "interest_step ep (Close f r) m = m(f := None)"
| "interest_step ep _ m = m"

definition interest :: "sysevent list \<Rightarrow> fd \<Rightarrow> fd \<rightharpoonup> uint32 \<times> chan_ptr" where
  "interest h ep = fold (interest_step ep) h Map.empty"

lemma interest_Nil [simp]: "interest [] ep = Map.empty"
  by (simp add: interest_def)

lemma interest_append [simp]: "interest (h @ h') ep = fold (interest_step ep) h' (interest h ep)"
  by (simp add: interest_def)

text \<open>The bytes a descriptor has accepted, in order.\<close>

fun accepted_by :: "fd \<Rightarrow> sysevent \<Rightarrow> byte list" where
  "accepted_by f (Write f' bs (Inr n)) = (if f' = f then take n bs else [])"
| "accepted_by f _ = []"

definition sent :: "sysevent list \<Rightarrow> fd \<Rightarrow> byte list" where
  "sent h f = concat (map (accepted_by f) h)"

lemma sent_Nil [simp]: "sent [] f = []"
  by (simp add: sent_def)

lemma sent_append [simp]: "sent (h @ h') f = sent h f @ sent h' f"
  by (simp add: sent_def)

lemma sent_Cons [simp]: "sent (e # h) f = accepted_by f e @ sent h f"
  by (simp add: sent_def)

text \<open>The bytes read from a descriptor, in order.\<close>

fun delivered_by :: "fd \<Rightarrow> sysevent \<Rightarrow> byte list" where
  "delivered_by f (Readv f' _ (Inr bs)) = (if f' = f then bs else [])"
| "delivered_by f _ = []"

definition received :: "sysevent list \<Rightarrow> fd \<Rightarrow> byte list" where
  "received h f = concat (map (delivered_by f) h)"

lemma received_append [simp]: "received (h @ h') f = received h f @ received h' f"
  by (simp add: received_def)

lemma received_Cons [simp]: "received (e # h) f = delivered_by f e @ received h f"
  by (simp add: received_def)

lemma received_Nil [simp]: "received [] f = []"
  by (simp add: received_def)

text \<open>
  How a timer descriptor was last armed: the clock reading before the \<open>timerfd_settime\<close> call and
  the delay given to it, both in microseconds.
\<close>

fun arming_step :: "fd \<Rightarrow> sysevent \<Rightarrow> int \<times> (int \<times> int) option \<Rightarrow> int \<times> (int \<times> int) option" where
  "arming_step f (Gettimeofday s u) (t, a) = (sint s * 1000000 + sint u, a)"
| "arming_step f (Timerfd_settime f' s ns) (t, a) =
     (t, if f' = f then Some (t, sint s * 1000000 + sint ns div 1000) else a)"
| "arming_step f _ ta = ta"

definition arming_state :: "sysevent list \<Rightarrow> fd \<Rightarrow> int \<times> (int \<times> int) option" where
  "arming_state h f = fold (arming_step f) h (0, None)"

definition arming :: "sysevent list \<Rightarrow> fd \<Rightarrow> (int \<times> int) option" where
  "arming h f = snd (arming_state h f)"

lemma arming_state_append [simp]:
  "arming_state (h @ h') f = fold (arming_step f) h' (arming_state h f)"
  by (simp add: arming_state_def)

subsection \<open>System calls as operations on the world\<close>

definition sys_gettimeofday :: "os \<Rightarrow> 'w os_world_scheme \<Rightarrow> (int64 \<times> int64) \<times> 'w os_world_scheme" where
  "sys_gettimeofday os w =
     (let r = os_gettimeofday os (hist w)
      in (r, w\<lparr>hist := hist w @ [Gettimeofday (fst r) (snd r)]\<rparr>))"

definition sys_epoll_ctl ::
  "os \<Rightarrow> fd \<Rightarrow> ctl_op \<Rightarrow> fd \<Rightarrow> uint32 \<Rightarrow> chan_ptr \<Rightarrow> 'w os_world_scheme
     \<Rightarrow> (errno + unit) \<times> 'w os_world_scheme" where
  "sys_epoll_ctl os ep op f ev p w =
     (let r = os_epoll_ctl os (hist w) ep op f ev p
      in (r, w\<lparr>hist := hist w @ [Epoll_ctl ep op f ev p r]\<rparr>))"

definition sys_epoll_wait ::
  "os \<Rightarrow> fd \<Rightarrow> nat \<Rightarrow> 'w os_world_scheme
     \<Rightarrow> (errno + (chan_ptr \<times> uint32) list) \<times> 'w os_world_scheme" where
  "sys_epoll_wait os ep n w =
     (let r = os_epoll_wait os (hist w) ep n
      in (r, w\<lparr>hist := hist w @ [Epoll_wait ep n r]\<rparr>))"

definition sys_write ::
  "os \<Rightarrow> fd \<Rightarrow> byte list \<Rightarrow> 'w os_world_scheme \<Rightarrow> (errno + nat) \<times> 'w os_world_scheme" where
  "sys_write os f bs w =
     (let r = os_write os (hist w) f bs
      in (r, w\<lparr>hist := hist w @ [Write f bs r]\<rparr>))"

definition sys_read ::
  "os \<Rightarrow> fd \<Rightarrow> nat \<Rightarrow> 'w os_world_scheme \<Rightarrow> (errno + byte list) \<times> 'w os_world_scheme" where
  "sys_read os f n w =
     (let r = os_read os (hist w) f n
      in (r, w\<lparr>hist := hist w @ [Read f n r]\<rparr>))"

definition sys_readv ::
  "os \<Rightarrow> fd \<Rightarrow> nat list \<Rightarrow> 'w os_world_scheme \<Rightarrow> (errno + byte list) \<times> 'w os_world_scheme" where
  "sys_readv os f lens w =
     (let r = os_readv os (hist w) f lens
      in (r, w\<lparr>hist := hist w @ [Readv f lens r]\<rparr>))"

definition sys_timerfd_settime :: "fd \<Rightarrow> int64 \<Rightarrow> int64 \<Rightarrow> 'w os_world_scheme \<Rightarrow> 'w os_world_scheme" where
  "sys_timerfd_settime f s ns w = w\<lparr>hist := hist w @ [Timerfd_settime f s ns]\<rparr>"

definition sys_shutdown ::
  "os \<Rightarrow> fd \<Rightarrow> 'w os_world_scheme \<Rightarrow> (errno + unit) \<times> 'w os_world_scheme" where
  "sys_shutdown os f w =
     (let r = os_shutdown os (hist w) f
      in (r, w\<lparr>hist := hist w @ [Shutdown f r]\<rparr>))"

definition sys_close ::
  "os \<Rightarrow> fd \<Rightarrow> 'w os_world_scheme \<Rightarrow> (errno + unit) \<times> 'w os_world_scheme" where
  "sys_close os f w =
     (let r = os_close os (hist w) f
      in (r, w\<lparr>hist := hist w @ [Close f r]\<rparr>))"

definition sys_getsockopt_error ::
  "os \<Rightarrow> fd \<Rightarrow> 'w os_world_scheme \<Rightarrow> (errno + errno) \<times> 'w os_world_scheme" where
  "sys_getsockopt_error os f w =
     (let r = os_getsockopt_error os (hist w) f
      in (r, w\<lparr>hist := hist w @ [Getsockopt_error f r]\<rparr>))"

definition sys_setsockopt :: "fd \<Rightarrow> sockopt \<Rightarrow> bool \<Rightarrow> 'w os_world_scheme \<Rightarrow> 'w os_world_scheme" where
  "sys_setsockopt f opt on w = w\<lparr>hist := hist w @ [Setsockopt f opt on]\<rparr>"

definition sys_socket :: "os \<Rightarrow> 'w os_world_scheme \<Rightarrow> (errno + fd) \<times> 'w os_world_scheme" where
  "sys_socket os w = (let r = os_socket os (hist w) in (r, w\<lparr>hist := hist w @ [Socket r]\<rparr>))"

definition sys_bind ::
  "os \<Rightarrow> fd \<Rightarrow> sockaddr \<Rightarrow> 'w os_world_scheme \<Rightarrow> (errno + unit) \<times> 'w os_world_scheme" where
  "sys_bind os f a w =
     (let r = os_bind os (hist w) f a in (r, w\<lparr>hist := hist w @ [Bind f a r]\<rparr>))"

definition sys_listen :: "os \<Rightarrow> fd \<Rightarrow> 'w os_world_scheme \<Rightarrow> (errno + unit) \<times> 'w os_world_scheme" where
  "sys_listen os f w =
     (let r = os_listen os (hist w) f in (r, w\<lparr>hist := hist w @ [Listen f r]\<rparr>))"

definition sys_accept ::
  "os \<Rightarrow> fd \<Rightarrow> 'w os_world_scheme \<Rightarrow> (errno + fd \<times> sockaddr) \<times> 'w os_world_scheme" where
  "sys_accept os f w =
     (let r = os_accept os (hist w) f in (r, w\<lparr>hist := hist w @ [Accept f r]\<rparr>))"

definition sys_connect ::
  "os \<Rightarrow> fd \<Rightarrow> sockaddr \<Rightarrow> 'w os_world_scheme \<Rightarrow> (errno + unit) \<times> 'w os_world_scheme" where
  "sys_connect os f a w =
     (let r = os_connect os (hist w) f a in (r, w\<lparr>hist := hist w @ [Connect f a r]\<rparr>))"

definition sys_getsockname ::
  "os \<Rightarrow> fd \<Rightarrow> 'w os_world_scheme \<Rightarrow> (errno + sockaddr) \<times> 'w os_world_scheme" where
  "sys_getsockname os f w =
     (let r = os_getsockname os (hist w) f in (r, w\<lparr>hist := hist w @ [Getsockname f r]\<rparr>))"

definition sys_getpeername ::
  "os \<Rightarrow> fd \<Rightarrow> 'w os_world_scheme \<Rightarrow> (errno + sockaddr) \<times> 'w os_world_scheme" where
  "sys_getpeername os f w =
     (let r = os_getpeername os (hist w) f in (r, w\<lparr>hist := hist w @ [Getpeername f r]\<rparr>))"

lemmas sys_defs = sys_gettimeofday_def sys_epoll_ctl_def sys_epoll_wait_def sys_write_def
  sys_read_def sys_readv_def sys_timerfd_settime_def sys_shutdown_def sys_close_def
  sys_getsockopt_error_def sys_setsockopt_def sys_socket_def sys_bind_def sys_listen_def
  sys_accept_def sys_connect_def sys_getsockname_def sys_getpeername_def

subsection \<open>Documented behaviour\<close>

text \<open>
  \<open>gettimeofday\<close>: the microseconds are below one million, and the seconds are those of a date
  before the year 36812 (\<open>2 ^ 40\<close> seconds), so that no conversion to microseconds overflows.
\<close>

definition clock_ok :: "os \<Rightarrow> bool" where
  "clock_ok os \<longleftrightarrow>
     (\<forall>h. 0 \<le> sint (fst (os_gettimeofday os h)) \<and> sint (fst (os_gettimeofday os h)) < 2 ^ 40 \<and>
          0 \<le> sint (snd (os_gettimeofday os h)) \<and> sint (snd (os_gettimeofday os h)) < 1000000)"

text \<open>\<open>write\<close> and \<open>readv\<close> never report more bytes than they were offered room or data for.\<close>

definition write_ok :: "os \<Rightarrow> bool" where
  "write_ok os \<longleftrightarrow> (\<forall>h f bs n. os_write os h f bs = Inr n \<longrightarrow> n \<le> length bs)"

definition readv_ok :: "os \<Rightarrow> bool" where
  "readv_ok os \<longleftrightarrow> (\<forall>h f lens bs. os_readv os h f lens = Inr bs \<longrightarrow> length bs \<le> sum_list lens)"

text \<open>
  \<open>epoll_ctl\<close>: adding a watched descriptor fails with \<open>EEXIST\<close>; removing or modifying a watched
  descriptor succeeds, and fails with \<open>ENOENT\<close> for one that is not watched.  \<open>epoll_wait\<close>
  returns at most as many events as asked for, each carrying the pointer of a watched descriptor,
  and no descriptor twice.
\<close>

definition epoll_ok :: "os \<Rightarrow> bool" where
  "epoll_ok os \<longleftrightarrow>
     (\<forall>h ep f ev p.
        (os_epoll_ctl os h ep EPOLL_CTL_ADD f ev p = Inr () \<longrightarrow> interest h ep f = None) \<and>
        (os_epoll_ctl os h ep EPOLL_CTL_DEL f ev p = Inr () \<longleftrightarrow> interest h ep f \<noteq> None) \<and>
        (os_epoll_ctl os h ep EPOLL_CTL_MOD f ev p = Inr () \<longleftrightarrow> interest h ep f \<noteq> None)) \<and>
     (\<forall>h ep n evs. os_epoll_wait os h ep n = Inr evs \<longrightarrow>
        length evs \<le> n \<and>
        (\<exists>fds. distinct fds \<and> length fds = length evs \<and>
           (\<forall>i < length evs. \<exists>ev. interest h ep (fds ! i) = Some (ev, fst (evs ! i)))))"

text \<open>epoll takes a descriptor that it does not watch yet.\<close>

definition epoll_adds :: "os \<Rightarrow> fd \<Rightarrow> fd \<Rightarrow> bool" where
  "epoll_adds os ep f \<longleftrightarrow>
     (\<forall>h ev p. interest h ep f = None \<longrightarrow> os_epoll_ctl os h ep EPOLL_CTL_ADD f ev p = Inr ())"

lemma write_okD: "write_ok os \<Longrightarrow> os_write os h f bs = Inr n \<Longrightarrow> n \<le> length bs"
  by (simp add: write_ok_def)

lemma readv_okD: "readv_ok os \<Longrightarrow> os_readv os h f lens = Inr bs \<Longrightarrow> length bs \<le> sum_list lens"
  by (simp add: readv_ok_def)

end
