(* ===== verification/SimOS.thy ===== *)
theory SimOS
  imports OS
begin

section \<open>A concrete operating system for the witnesses\<close>

text \<open>
  An oracle that has all the documented behaviour: descriptors are watched as \<open>epoll_ctl\<close> asks, a
  write accepts everything, a read finds nothing, nothing is ever ready, new descriptors are fresh,
  connecting is in progress, and the clock stands still at \<open>1000\<close> seconds.  A witness that needs another answer of a call overrides that field.
\<close>

definition sim_epoll_ctl ::
  "sysevent list \<Rightarrow> fd \<Rightarrow> ctl_op \<Rightarrow> fd \<Rightarrow> uint32 \<Rightarrow> chan_ptr \<Rightarrow> errno + unit" where
  "sim_epoll_ctl h ep op f ev p =
     (case op of
        EPOLL_CTL_ADD \<Rightarrow> if interest h ep f = None then Inr () else Inl 17
      | _ \<Rightarrow> if interest h ep f = None then Inl 2 else Inr ())"

definition sim_os :: os where
  "sim_os = \<lparr>
     os_gettimeofday = (\<lambda>h. (1000, 0)),
     os_epoll_ctl = sim_epoll_ctl,
     os_epoll_wait = (\<lambda>h ep n. Inr []),
     os_write = (\<lambda>h f bs. Inr (length bs)),
     os_read = (\<lambda>h f n. Inr (replicate n 0)),
     os_readv = (\<lambda>h f lens. Inr []),
     os_shutdown = (\<lambda>h f. Inr ()),
     os_close = (\<lambda>h f. Inr ()),
     os_getsockopt_error = (\<lambda>h f. Inr 0),
     os_socket = (\<lambda>h. Inr (100 + int (length h))),
     os_bind = (\<lambda>h f a. Inr ()),
     os_listen = (\<lambda>h f. Inr ()),
     os_accept = (\<lambda>h f. Inr (100 + int (length h), (1, 1))),
     os_connect = (\<lambda>h f a. Inl EINPROGRESS),
     os_getsockname = (\<lambda>h f. Inr (1, 1)),
     os_getpeername = (\<lambda>h f. Inr (1, 2))\<rparr>"

lemma clock_ok_sim: "os_gettimeofday os = os_gettimeofday sim_os \<Longrightarrow> clock_ok os"
  by (simp add: clock_ok_def sim_os_def)

lemma write_ok_sim: "os_write os = os_write sim_os \<Longrightarrow> write_ok os"
  by (simp add: write_ok_def sim_os_def)

lemma readv_ok_sim: "os_readv os = os_readv sim_os \<Longrightarrow> readv_ok os"
  by (simp add: readv_ok_def sim_os_def)

lemma epoll_ok_sim:
  assumes "os_epoll_ctl os = sim_epoll_ctl" "os_epoll_wait os = os_epoll_wait sim_os"
  shows "epoll_ok os"
  using assms by (auto simp: epoll_ok_def sim_epoll_ctl_def sim_os_def)

lemma epoll_adds_sim: "os_epoll_ctl os = sim_epoll_ctl \<Longrightarrow> epoll_adds os ep f"
  by (simp add: epoll_adds_def sim_epoll_ctl_def)

lemma sim_os_sel [simp]:
  "os_gettimeofday sim_os = (\<lambda>h. (1000, 0))" "os_epoll_ctl sim_os = sim_epoll_ctl"
  "os_epoll_wait sim_os = (\<lambda>h ep n. Inr [])" "os_write sim_os = (\<lambda>h f bs. Inr (length bs))"
  "os_read sim_os = (\<lambda>h f n. Inr (replicate n 0))" "os_readv sim_os = (\<lambda>h f lens. Inr [])"
  "os_shutdown sim_os = (\<lambda>h f. Inr ())" "os_close sim_os = (\<lambda>h f. Inr ())"
  "os_getsockopt_error sim_os = (\<lambda>h f. Inr 0)"
  "os_socket sim_os = (\<lambda>h. Inr (100 + int (length h)))" "os_bind sim_os = (\<lambda>h f a. Inr ())"
  "os_listen sim_os = (\<lambda>h f. Inr ())"
  "os_accept sim_os = (\<lambda>h f. Inr (100 + int (length h), (1, 1)))"
  "os_connect sim_os = (\<lambda>h f a. Inl EINPROGRESS)" "os_getsockname sim_os = (\<lambda>h f. Inr (1, 1))"
  "os_getpeername sim_os = (\<lambda>h f. Inr (1, 2))"
  by (simp_all add: sim_os_def)

lemma sim_os_ok: "clock_ok sim_os" "write_ok sim_os" "readv_ok sim_os" "epoll_ok sim_os"
  by (auto intro: clock_ok_sim write_ok_sim readv_ok_sim epoll_ok_sim)

end
