(* ===== verification/Timestamps.thy ===== *)
theory Timestamps
  imports SimOS
begin

section \<open>Timestamps: microseconds since the epoch\<close>

text \<open>
  \<open>src/src/Timestamp.h\<close> and \<open>src/src/Timestamp.cc\<close>.  A \<open>Timestamp\<close> wraps a signed 64-bit
  count of microseconds; its order is the signed order of the counts.  \<open>addTime\<close> multiplies the
  seconds by one million in 32 bits before it widens them, which the model keeps.
\<close>

datatype timestamp = Timestamp (microSecondsSinceEpoch: int64)

definition kMicroSecondsPerSecond :: int32 where
  "kMicroSecondsPerSecond = 1000 * 1000"

definition Timestamp_zero :: timestamp where
  "Timestamp_zero = Timestamp 0"

definition Timestamp_less :: "timestamp \<Rightarrow> timestamp \<Rightarrow> bool" where
  "Timestamp_less lhs rhs \<longleftrightarrow> sint (microSecondsSinceEpoch lhs) < sint (microSecondsSinceEpoch rhs)"

definition Timestamp_eq :: "timestamp \<Rightarrow> timestamp \<Rightarrow> bool" where
  "Timestamp_eq lhs rhs \<longleftrightarrow> microSecondsSinceEpoch lhs = microSecondsSinceEpoch rhs"

definition Timestamp_now :: "os \<Rightarrow> 'w os_world_scheme \<Rightarrow> (timestamp \<times> 'w os_world_scheme) result" where
  "Timestamp_now os w =
     (case sys_gettimeofday os w of ((seconds, usec), w') \<Rightarrow>
        bindE (s_int (sint seconds * sint kMicroSecondsPerSecond) :: int64 result) (\<lambda>us.
        bindE (s_int (sint us + sint usec) :: int64 result) (\<lambda>t.
        Inr (Timestamp t, w'))))"

definition addTime :: "timestamp \<Rightarrow> int32 \<Rightarrow> timestamp result" where
  "addTime timestamp sec =
     bindE (s_int (sint sec * sint kMicroSecondsPerSecond) :: int32 result) (\<lambda>product.
       let delta = (scast product :: int64)
       in bindE (s_int (sint (microSecondsSinceEpoch timestamp) + sint delta) :: int64 result) (\<lambda>t.
          Inr (Timestamp t)))"

subsection \<open>The order\<close>

text \<open>The library's order on timestamps is \<open>operator<\<close>.\<close>

instantiation timestamp :: linorder
begin

definition less_timestamp :: "timestamp \<Rightarrow> timestamp \<Rightarrow> bool" where
  "less_timestamp a b \<longleftrightarrow> Timestamp_less a b"

definition less_eq_timestamp :: "timestamp \<Rightarrow> timestamp \<Rightarrow> bool" where
  "less_eq_timestamp a b \<longleftrightarrow> Timestamp_less a b \<or> Timestamp_eq a b"

instance
proof
  fix x y z :: timestamp
  show "x < y \<longleftrightarrow> x \<le> y \<and> \<not> y \<le> x"
    by (auto simp: less_timestamp_def less_eq_timestamp_def Timestamp_less_def Timestamp_eq_def)
  show "x \<le> x"
    by (simp add: less_eq_timestamp_def Timestamp_eq_def)
  show "x \<le> y \<Longrightarrow> y \<le> z \<Longrightarrow> x \<le> z"
    by (auto simp: less_eq_timestamp_def Timestamp_less_def Timestamp_eq_def)
  show "x \<le> y \<Longrightarrow> y \<le> x \<Longrightarrow> x = y"
    by (cases x; cases y) (auto simp: less_eq_timestamp_def Timestamp_less_def Timestamp_eq_def)
  show "x \<le> y \<or> y \<le> x"
    by (auto simp: sint_eq_iff [symmetric] less_eq_timestamp_def Timestamp_less_def Timestamp_eq_def)
qed

end

definition micros :: "timestamp \<Rightarrow> int" where
  "micros t = sint (microSecondsSinceEpoch t)"

lemma timestamp_less_iff [simp]: "a < b \<longleftrightarrow> micros a < micros b" for a b :: timestamp
  by (simp add: less_timestamp_def Timestamp_less_def micros_def)

lemma timestamp_le_iff [simp]: "a \<le> b \<longleftrightarrow> micros a \<le> micros b" for a b :: timestamp
  using timestamp_less_iff [of b a] by (simp add: not_less [symmetric])

lemma Timestamp_less_iff: "Timestamp_less a b \<longleftrightarrow> micros a < micros b"
  by (simp add: Timestamp_less_def micros_def)

lemma timestamp_eq_iff: "a = b \<longleftrightarrow> micros a = micros b" for a b :: timestamp
  by (cases a; cases b) (auto simp: micros_def sint_eq_iff)

lemma micros_Timestamp [simp]: "micros (Timestamp t) = sint t"
  by (simp add: micros_def)

lemma micros_zero [simp]: "micros Timestamp_zero = 0"
  by (simp add: Timestamp_zero_def)

lemma sint_kMicroSecondsPerSecond [simp]: "sint kMicroSecondsPerSecond = 1000000"
  by (simp add: kMicroSecondsPerSecond_def)

subsection \<open>Reading the clock and adding seconds\<close>

lemma Timestamp_now_ok:
  assumes "clock_ok os"
  shows "\<exists>t. Timestamp_now os w =
     Inr (t, snd (sys_gettimeofday os w)) \<and>
     micros t = sint (fst (os_gettimeofday os (hist w))) * 1000000
                + sint (snd (os_gettimeofday os (hist w)))"
proof -
  obtain s u where r: "os_gettimeofday os (hist w) = (s, u)" by force
  with assms have b: "0 \<le> sint s" "sint s < 2 ^ 40" "0 \<le> sint u" "sint u < 1000000"
    unfolding clock_ok_def by (metis fst_conv snd_conv)+
  then have "(s_int (sint s * 1000000) :: int64 result) = Inr (word_of_int (sint s * 1000000))"
    by (simp add: s_int_def)
  moreover from this have "sint (word_of_int (sint s * 1000000) :: int64) = sint s * 1000000"
    by (simp add: s_int_eq_Inr)
  moreover have "(s_int (sint s * 1000000 + sint u) :: int64 result)
      = Inr (word_of_int (sint s * 1000000 + sint u))"
    using b by (simp add: s_int_def)
  moreover from this have "sint (word_of_int (sint s * 1000000 + sint u) :: int64)
      = sint s * 1000000 + sint u"
    by (simp add: s_int_eq_Inr)
  ultimately show ?thesis
    by (simp add: Timestamp_now_def sys_gettimeofday_def r)
qed

lemma Timestamp_now_frame:
  "Timestamp_now os w = Inr (t, w') \<Longrightarrow> w' = snd (sys_gettimeofday os w)"
  by (auto simp: Timestamp_now_def res_simps split: prod.splits)

lemma addTime_eq_Inr:
  "addTime t sec = Inr t' \<longleftrightarrow>
     \<bar>sint sec\<bar> \<le> 2147 \<and> micros t' = micros t + sint sec * 1000000"
proof -
  have fits: "(\<exists>p :: int32. sint p = sint sec * 1000000) \<longleftrightarrow> \<bar>sint sec\<bar> \<le> 2147" (is "?l \<longleftrightarrow> ?r")
  proof
    assume ?l
    then obtain p :: int32 where "sint p = sint sec * 1000000" ..
    with sint_range [of p] show ?r by simp
  next
    assume ?r
    then have "(s_int (sint sec * 1000000) :: int32 result)
        = Inr (word_of_int (sint sec * 1000000))"
      unfolding s_int_def by (simp; arith)
    then show ?l by (auto simp: s_int_eq_Inr)
  qed
  have sc: "sint (scast p :: int64) = sint p" for p :: int32
    by (simp add: sint_up_scast is_up)
  have "addTime t sec = Inr t' \<longleftrightarrow>
      (\<exists>p :: int32. sint p = sint sec * 1000000 \<and> micros t' = micros t + sint p)"
    by (cases t') (auto simp: addTime_def res_simps Let_def sc micros_def)
  also have "\<dots> \<longleftrightarrow> (\<exists>p :: int32. sint p = sint sec * 1000000)
      \<and> micros t' = micros t + sint sec * 1000000"
    by auto
  finally show ?thesis by (simp only: fits)
qed

subsection \<open>Properties\<close>

text \<open>C33: \<open>addTime\<close> is defined exactly when the delay is at most 2147 seconds either way and the sum
  fits: the product of the seconds and one million is computed in 32 bits.  Then the result is the
  time that many seconds later.\<close>

theorem addTime_defined_iff:
  "addTime t sec = Inr t' \<longleftrightarrow> \<bar>sint sec\<bar> \<le> 2147 \<and> micros t' = micros t + sint sec * 1000000"
  by (rule addTime_eq_Inr)

end
