(* ===== verification/Callbacks.thy ===== *)
theory Callbacks
  imports Timestamps
begin

section \<open>The callbacks of the program as data\<close>

text \<open>
  \<open>src/src/Callbacks.h\<close>.  Every \<open>std::function\<close> the program stores, queues or hands over is made
  by a \<open>std::bind\<close> in the sources or comes from the application.  The model keeps such a value as
  a constructor naming the bound member function and its bound arguments, so that a channel, a
  timer or a list of pending functors can hold it; what a constructor does when it is called is the
  definition of that member function.  Functions of the application are numbered, and what they do
  is a parameter: a record of functions from the world to the world.
\<close>

type_synonym loop_ptr = nat
type_synonym conn_ptr = nat
type_synonym server_ptr = nat
type_synonym client_ptr = nat
type_synonym connector_ptr = nat
type_synonym timer_ptr = "64 word"
type_synonym mem_ptr = nat
type_synonym user_fn = nat

text \<open>The close callback of a connection: set by its server or its client, never by the application.\<close>

datatype close_callback =
    Bind_TcpServer_removeConnection server_ptr
  | Bind_TcpClient_removeConnection client_ptr
  | Bind_detail_removeConnection loop_ptr

datatype closure =
    Bind_user user_fn
  | Bind_EventLoop_handleRead loop_ptr
  | Bind_TimerQueue_handleRead loop_ptr
  | Bind_TimerQueue_addTimerInLoop loop_ptr timer_ptr
  | Bind_Acceptor_handleRead server_ptr
  | Bind_Acceptor_listen server_ptr
  | Bind_TcpConnection_handleRead conn_ptr
  | Bind_TcpConnection_handleWrite conn_ptr
  | Bind_TcpConnection_handleClose conn_ptr
  | Bind_TcpConnection_handleError conn_ptr
  | Bind_TcpConnection_sendInLoop conn_ptr mem_ptr size_t
  | Bind_TcpConnection_shutdownInLoop conn_ptr
  | Bind_TcpConnection_forceCloseInLoop conn_ptr
  | Bind_TcpConnection_connectEstablished conn_ptr
  | Bind_TcpConnection_connectDestroyed conn_ptr
  | Bind_TcpConnection_setCloseCallback conn_ptr close_callback
  | Bind_writeComplete user_fn conn_ptr
  | Bind_highWaterMark user_fn conn_ptr size_t
  | Bind_TcpServer_removeConnectionInLoop server_ptr conn_ptr
  | Bind_Connector_startInLoop connector_ptr
  | Bind_Connector_stopInLoop connector_ptr
  | Bind_Connector_resetChannel connector_ptr
  | Bind_Connector_handleWriter connector_ptr
  | Bind_Connector_handleError connector_ptr

text \<open>
  The connection and message callbacks of a connection: the library's defaults (a client starts
  with them) or functions of the application.
\<close>

datatype connection_callback = Default_connection | App_connection user_fn
datatype message_callback = Default_message | App_message user_fn

text \<open>The application: one function for every callback type of \<open>Callbacks.h\<close>.\<close>

record 'w app =
  app_functor :: "user_fn \<Rightarrow> 'w \<Rightarrow> 'w result"
  app_threadInit :: "user_fn \<Rightarrow> loop_ptr \<Rightarrow> 'w \<Rightarrow> 'w result"
  app_connection :: "user_fn \<Rightarrow> conn_ptr \<Rightarrow> 'w \<Rightarrow> 'w result"
  app_message :: "user_fn \<Rightarrow> conn_ptr \<Rightarrow> timestamp \<Rightarrow> 'w \<Rightarrow> 'w result"
  app_writeComplete :: "user_fn \<Rightarrow> conn_ptr \<Rightarrow> 'w \<Rightarrow> 'w result"
  app_highWaterMark :: "user_fn \<Rightarrow> conn_ptr \<Rightarrow> size_t \<Rightarrow> 'w \<Rightarrow> 'w result"

end
