(* ===== verification/Channel.thy ===== *)
theory Channel
  imports Callbacks
begin

unbundle bit_operations_syntax

section \<open>Channel: a descriptor, its events and its callbacks\<close>

text \<open>
  \<open>src/src/Channel.h\<close> and \<open>src/src/Channel.cc\<close>.  Channels are shared through raw pointers: the
  poller writes \<open>revents_\<close> and \<open>index_\<close> of a channel that a connection, an acceptor, a timer queue
  or a loop owns.  They live in the store \<open>chans\<close>; a pointer whose channel is gone is a fault to
  follow.  The fields \<open>logHup_\<close>, \<open>eventHandling_\<close> and \<open>addedToLoop_\<close> are never read or written by
  the sources and have no counterpart.  The operations that end in \<open>update()\<close> are in the theory
  of the event loop, which \<open>update()\<close> calls.
\<close>

definition EPOLLIN :: uint32 where "EPOLLIN = 0x1"
definition EPOLLPRI :: uint32 where "EPOLLPRI = 0x2"
definition EPOLLOUT :: uint32 where "EPOLLOUT = 0x4"
definition EPOLLERR :: uint32 where "EPOLLERR = 0x8"
definition EPOLLHUP :: uint32 where "EPOLLHUP = 0x10"

lemmas epoll_flags = EPOLLIN_def EPOLLPRI_def EPOLLOUT_def EPOLLERR_def EPOLLHUP_def

definition kNoneEvent :: uint32 where "kNoneEvent = 0"
definition kReadEvent :: uint32 where "kReadEvent = EPOLLIN OR EPOLLPRI"
definition kWriteEvent :: uint32 where "kWriteEvent = EPOLLOUT"

lemmas kEvents = kNoneEvent_def kReadEvent_def kWriteEvent_def

record channel =
  ch_loop :: loop_ptr
  ch_fd :: fd
  ch_events :: uint32
  ch_revents :: uint32
  ch_index :: int
  ch_tie :: "conn_ptr option"
  ch_tied :: bool
  ch_readCallback :: "closure option"
  ch_writeCallback :: "closure option"
  ch_closeCallback :: "closure option"
  ch_errorCallback :: "closure option"

record chan_world = os_world +
  chans :: "chan_ptr \<rightharpoonup> channel"

definition Channel_new :: "loop_ptr \<Rightarrow> fd \<Rightarrow> channel" where
  "Channel_new loop f = \<lparr>ch_loop = loop, ch_fd = f, ch_events = 0, ch_revents = 0, ch_index = -1,
     ch_tie = None, ch_tied = False, ch_readCallback = None, ch_writeCallback = None,
     ch_closeCallback = None, ch_errorCallback = None\<rparr>"

text \<open>The setters of the callbacks; an empty \<open>std::function\<close> is \<open>None\<close> and is never passed.\<close>

definition Channel_setReadCallback :: "closure \<Rightarrow> channel \<Rightarrow> channel" where
  "Channel_setReadCallback cb ch = ch\<lparr>ch_readCallback := Some cb\<rparr>"

definition Channel_setWriteCallback :: "closure \<Rightarrow> channel \<Rightarrow> channel" where
  "Channel_setWriteCallback cb ch = ch\<lparr>ch_writeCallback := Some cb\<rparr>"

definition Channel_setCloseCallback :: "closure \<Rightarrow> channel \<Rightarrow> channel" where
  "Channel_setCloseCallback cb ch = ch\<lparr>ch_closeCallback := Some cb\<rparr>"

definition Channel_setErrorCallback :: "closure \<Rightarrow> channel \<Rightarrow> channel" where
  "Channel_setErrorCallback cb ch = ch\<lparr>ch_errorCallback := Some cb\<rparr>"

text \<open>A write through a pointer to a channel.\<close>

definition upd_chan :: "chan_ptr \<Rightarrow> (channel \<Rightarrow> channel) \<Rightarrow> 'w chan_world_scheme \<Rightarrow> 'w chan_world_scheme" where
  "upd_chan c g w = w\<lparr>chans := (chans w)(c := map_option g (chans w c))\<rparr>"

definition Channel_set_revents :: "uint32 \<Rightarrow> channel \<Rightarrow> channel" where
  "Channel_set_revents revt ch = ch\<lparr>ch_revents := revt\<rparr>"

definition Channel_set_index :: "int \<Rightarrow> channel \<Rightarrow> channel" where
  "Channel_set_index idx ch = ch\<lparr>ch_index := idx\<rparr>"

definition Channel_tie :: "conn_ptr \<Rightarrow> channel \<Rightarrow> channel" where
  "Channel_tie obj ch = ch\<lparr>ch_tie := Some obj, ch_tied := True\<rparr>"

text \<open>The event masks: what each operation leaves in \<open>events_\<close> before it calls \<open>update()\<close>.\<close>

definition add_events :: "uint32 \<Rightarrow> channel \<Rightarrow> channel" where
  "add_events m ch = ch\<lparr>ch_events := ch_events ch OR m\<rparr>"

definition del_events :: "uint32 \<Rightarrow> channel \<Rightarrow> channel" where
  "del_events m ch = ch\<lparr>ch_events := ch_events ch AND NOT m\<rparr>"

definition clear_events :: "channel \<Rightarrow> channel" where
  "clear_events ch = ch\<lparr>ch_events := kNoneEvent\<rparr>"

definition isNoneEvent :: "channel \<Rightarrow> bool" where
  "isNoneEvent ch \<longleftrightarrow> ch_events ch = kNoneEvent"

definition isWriting :: "channel \<Rightarrow> bool" where
  "isWriting ch \<longleftrightarrow> ch_events ch AND kWriteEvent \<noteq> 0"

definition isReading :: "channel \<Rightarrow> bool" where
  "isReading ch \<longleftrightarrow> ch_events ch AND kReadEvent \<noteq> 0"

subsection \<open>Dispatching the events of a channel\<close>

text \<open>
  \<open>handleEventWithGuard\<close> tests \<open>revents_\<close> four times and calls up to four callbacks.  Each test
  reads the channel again, because the callback before it may have changed or freed it.  \<open>invoke\<close>
  runs a callback; the time of the poll is the argument of the read callback.
\<close>

definition dispatch_if ::
  "(closure \<Rightarrow> 'w chan_world_scheme \<Rightarrow> 'w chan_world_scheme result) \<Rightarrow> (uint32 \<Rightarrow> bool)
     \<Rightarrow> (channel \<Rightarrow> closure option) \<Rightarrow> chan_ptr \<Rightarrow> 'w chan_world_scheme
     \<Rightarrow> 'w chan_world_scheme result" where
  "dispatch_if run cond callback c w =
     bindE (deref (chans w) c) (\<lambda>ch.
       if cond (ch_revents ch)
       then (case callback ch of Some cb \<Rightarrow> run cb w | None \<Rightarrow> Inr w)
       else Inr w)"

definition wants_close :: "uint32 \<Rightarrow> bool" where
  "wants_close r \<longleftrightarrow> r AND EPOLLHUP \<noteq> 0 \<and> \<not> r AND EPOLLIN \<noteq> 0"

definition wants_error :: "uint32 \<Rightarrow> bool" where
  "wants_error r \<longleftrightarrow> r AND EPOLLERR \<noteq> 0"

definition wants_read :: "uint32 \<Rightarrow> bool" where
  "wants_read r \<longleftrightarrow> r AND (EPOLLIN OR EPOLLPRI) \<noteq> 0"

definition wants_write :: "uint32 \<Rightarrow> bool" where
  "wants_write r \<longleftrightarrow> r AND EPOLLOUT \<noteq> 0"

definition Channel_handleEventWithGuard ::
  "(closure \<Rightarrow> timestamp \<Rightarrow> 'w chan_world_scheme \<Rightarrow> 'w chan_world_scheme result) \<Rightarrow> chan_ptr
     \<Rightarrow> timestamp \<Rightarrow> 'w chan_world_scheme \<Rightarrow> 'w chan_world_scheme result" where
  "Channel_handleEventWithGuard invoke c receiveTime w =
     (let run = (\<lambda>cb. invoke cb receiveTime) in
      bindE (dispatch_if run wants_close ch_closeCallback c w) (\<lambda>w.
      bindE (dispatch_if run wants_error ch_errorCallback c w) (\<lambda>w.
      bindE (dispatch_if run wants_read ch_readCallback c w) (\<lambda>w.
      dispatch_if run wants_write ch_writeCallback c w))))"

text \<open>
  \<open>handleEvent\<close>: a tied channel runs its callbacks only when the tied object can be locked.
  \<open>alive\<close> says which objects still have a strong reference.  A \<open>weak_ptr\<close> that was never set
  cannot be locked.
\<close>

definition Channel_handleEvent ::
  "(closure \<Rightarrow> timestamp \<Rightarrow> 'w chan_world_scheme \<Rightarrow> 'w chan_world_scheme result)
     \<Rightarrow> (conn_ptr \<Rightarrow> 'w chan_world_scheme \<Rightarrow> bool) \<Rightarrow> chan_ptr \<Rightarrow> timestamp
     \<Rightarrow> 'w chan_world_scheme \<Rightarrow> 'w chan_world_scheme result" where
  "Channel_handleEvent invoke alive c receiveTime w =
     bindE (deref (chans w) c) (\<lambda>ch.
       if ch_tied ch
       then (case ch_tie ch of
               Some obj \<Rightarrow> if alive obj w then Channel_handleEventWithGuard invoke c receiveTime w
                           else Inr w
             | None \<Rightarrow> Inr w)
       else Channel_handleEventWithGuard invoke c receiveTime w)"

subsection \<open>Facts\<close>

lemma upd_chan_simps [simp]:
  "chans (upd_chan c g w) = (chans w)(c := map_option g (chans w c))"
  "hist (upd_chan c g w) = hist w"
  by (simp_all add: upd_chan_def)

lemma events_ops_simps [simp]:
  "ch_events (add_events m ch) = ch_events ch OR m"
  "ch_events (del_events m ch) = ch_events ch AND NOT m"
  "ch_events (clear_events ch) = kNoneEvent"
  "ch_fd (add_events m ch) = ch_fd ch" "ch_fd (del_events m ch) = ch_fd ch"
  "ch_fd (clear_events ch) = ch_fd ch"
  "ch_loop (add_events m ch) = ch_loop ch" "ch_loop (del_events m ch) = ch_loop ch"
  "ch_loop (clear_events ch) = ch_loop ch"
  "ch_index (add_events m ch) = ch_index ch" "ch_index (del_events m ch) = ch_index ch"
  "ch_index (clear_events ch) = ch_index ch"
  by (simp_all add: add_events_def del_events_def clear_events_def)

lemma Channel_set_index_simps [simp]:
  "ch_index (Channel_set_index i ch) = i" "ch_fd (Channel_set_index i ch) = ch_fd ch"
  "ch_loop (Channel_set_index i ch) = ch_loop ch" "ch_events (Channel_set_index i ch) = ch_events ch"
  by (simp_all add: Channel_set_index_def)

lemma Channel_set_revents_simps [simp]:
  "ch_index (Channel_set_revents r ch) = ch_index ch" "ch_fd (Channel_set_revents r ch) = ch_fd ch"
  "ch_loop (Channel_set_revents r ch) = ch_loop ch"
  "ch_events (Channel_set_revents r ch) = ch_events ch"
  "ch_revents (Channel_set_revents r ch) = r"
  by (simp_all add: Channel_set_revents_def)

lemma single_bit_mask: "(w OR m) AND m = m" "(w AND NOT m) AND m = 0" for w m :: "'a::len word"
  by (auto intro!: bit_word_eqI simp: bit_simps)

lemma disjoint_mask:
  "m AND n = 0 \<Longrightarrow> (w OR n) AND m = w AND m"
  "m AND n = 0 \<Longrightarrow> (w AND NOT n) AND m = w AND m" for w m n :: "'a::len word"
  by (auto intro!: bit_word_eqI simp: bit_eq_iff bit_simps)

lemma read_write_disjoint: "kReadEvent AND kWriteEvent = 0" "kWriteEvent AND kReadEvent = 0"
  by (simp_all add: kEvents epoll_flags)

lemma kEvents_nonzero: "kReadEvent \<noteq> 0" "kWriteEvent \<noteq> 0"
  by (simp_all add: kEvents epoll_flags)

lemma interest_bits [simp]:
  "isWriting (add_events kWriteEvent ch)" "isReading (add_events kReadEvent ch)"
  "\<not> isWriting (del_events kWriteEvent ch)" "\<not> isReading (del_events kReadEvent ch)"
  "isWriting (add_events kReadEvent ch) = isWriting ch"
  "isReading (add_events kWriteEvent ch) = isReading ch"
  "isWriting (del_events kReadEvent ch) = isWriting ch"
  "isReading (del_events kWriteEvent ch) = isReading ch"
  "\<not> isWriting (clear_events ch)" "\<not> isReading (clear_events ch)" "isNoneEvent (clear_events ch)"
  by (simp_all add: isWriting_def isReading_def isNoneEvent_def single_bit_mask disjoint_mask
      read_write_disjoint kEvents_nonzero kNoneEvent_def)

lemma isNoneEvent_iff: "isNoneEvent ch \<Longrightarrow> \<not> isWriting ch \<and> \<not> isReading ch"
  by (simp add: isNoneEvent_def isWriting_def isReading_def kNoneEvent_def)

lemma Channel_new_simps [simp]:
  "ch_index (Channel_new L f) = -1" "ch_fd (Channel_new L f) = f" "ch_loop (Channel_new L f) = L"
  "ch_events (Channel_new L f) = 0" "ch_tied (Channel_new L f) = False"
  by (simp_all add: Channel_new_def)

end
