(* ===== verification/EPollPoller.thy ===== *)
theory EPollPoller
  imports Channel
begin

section \<open>EPollPoller: the channels of a loop and what the kernel watches for it\<close>

text \<open>
  \<open>src/src/Poller.h\<close>, \<open>src/src/Poller.cc\<close>, \<open>src/src/DefaultPoller.cc\<close>, \<open>src/src/EPollPoller.h\<close> and \<open>src/src/EPollPoller.cc\<close>.
  A poller belongs to one loop and is named by it.  It keeps the map \<open>channels_\<close> from descriptors
  to channels; the \<open>index_\<close> of a channel says whether the poller has never seen it (\<open>kNew\<close>), has
  registered it with epoll (\<open>kAdded\<close>) or has kept it in the map but taken it out of epoll
  (\<open>kDeleted\<close>).  \<open>po_capacity\<close> is \<open>events_.size()\<close>.
\<close>

definition kNew :: int where "kNew = -1"
definition kAdded :: int where "kAdded = 1"
definition kDeleted :: int where "kDeleted = 2"

lemmas kIndex_defs = kNew_def kAdded_def kDeleted_def

definition kInitEventListSize :: nat where "kInitEventListSize = 16"

record poller =
  po_epollfd :: fd
  po_channels :: "fd \<rightharpoonup> chan_ptr"
  po_capacity :: nat

record poller_world = chan_world +
  pollers :: "loop_ptr \<Rightarrow> poller"

definition upd_poller :: "loop_ptr \<Rightarrow> (poller \<Rightarrow> poller) \<Rightarrow> 'w poller_world_scheme \<Rightarrow> 'w poller_world_scheme" where
  "upd_poller L g w = w\<lparr>pollers := (pollers w)(L := g (pollers w L))\<rparr>"

text \<open>The constructor aborts when \<open>epoll_create1\<close> fails; \<open>epollfd\<close> is the descriptor it returned.\<close>

definition EPollPoller_new :: "errno + fd \<Rightarrow> poller result" where
  "EPollPoller_new epollfd =
     (case epollfd of
        Inl e \<Rightarrow> Inl Abort
      | Inr f \<Rightarrow> Inr \<lparr>po_epollfd = f, po_channels = Map.empty, po_capacity = kInitEventListSize\<rparr>)"

text \<open>
  \<open>newDefaultPoller\<close>: with the environment variable \<open>MUDUO_USE_POLL\<close> set there is no poller at all.
\<close>

definition Poller_newDefaultPoller :: "bool \<Rightarrow> errno + fd \<Rightarrow> poller option result" where
  "Poller_newDefaultPoller use_poll epollfd =
     (if use_poll then Inr None else bindE (EPollPoller_new epollfd) (\<lambda>p. Inr (Some p)))"

definition Poller_hasChannel :: "loop_ptr \<Rightarrow> chan_ptr \<Rightarrow> 'w poller_world_scheme \<Rightarrow> bool result" where
  "Poller_hasChannel L c w =
     bindE (deref (chans w) c) (\<lambda>ch. Inr (po_channels (pollers w L) (ch_fd ch) = Some c))"

definition EPollPoller_update ::
  "os \<Rightarrow> loop_ptr \<Rightarrow> ctl_op \<Rightarrow> chan_ptr \<Rightarrow> 'w poller_world_scheme \<Rightarrow> 'w poller_world_scheme result" where
  "EPollPoller_update os L operation c w =
     bindE (deref (chans w) c) (\<lambda>ch.
     case sys_epoll_ctl os (po_epollfd (pollers w L)) operation (ch_fd ch) (ch_events ch) c w of
       (Inr _, w') \<Rightarrow> Inr w'
     | (Inl _, w') \<Rightarrow> if operation = EPOLL_CTL_DEL then Inr w' else Inl Abort)"

definition EPollPoller_updateChannel ::
  "os \<Rightarrow> loop_ptr \<Rightarrow> chan_ptr \<Rightarrow> 'w poller_world_scheme \<Rightarrow> 'w poller_world_scheme result" where
  "EPollPoller_updateChannel os L c w =
     bindE (deref (chans w) c) (\<lambda>ch.
     let index = ch_index ch in
     if index = kNew \<or> index = kDeleted then
       let w1 = (if index = kNew
                 then upd_poller L (\<lambda>p. p\<lparr>po_channels := (po_channels p)(ch_fd ch \<mapsto> c)\<rparr>) w
                 else w)
       in bindE (EPollPoller_update os L EPOLL_CTL_ADD c w1) (\<lambda>w2.
          Inr (upd_chan c (Channel_set_index kAdded) w2))
     else if isNoneEvent ch then
       bindE (EPollPoller_update os L EPOLL_CTL_DEL c w) (\<lambda>w1.
       Inr (upd_chan c (Channel_set_index kDeleted) w1))
     else EPollPoller_update os L EPOLL_CTL_MOD c w)"

definition EPollPoller_removeChannel ::
  "os \<Rightarrow> loop_ptr \<Rightarrow> chan_ptr \<Rightarrow> 'w poller_world_scheme \<Rightarrow> 'w poller_world_scheme result" where
  "EPollPoller_removeChannel os L c w =
     bindE (deref (chans w) c) (\<lambda>ch.
     let w1 = upd_poller L (\<lambda>p. p\<lparr>po_channels := (po_channels p)(ch_fd ch := None)\<rparr>) w
     in bindE (if ch_index ch = kAdded then EPollPoller_update os L EPOLL_CTL_DEL c w1 else Inr w1)
          (\<lambda>w2. Inr (upd_chan c (Channel_set_index kNew) w2)))"

text \<open>One event of the list: follow \<open>data.ptr\<close>, set the channel's \<open>revents_\<close>, push the channel.\<close>

fun fillActiveChannels ::
  "(chan_ptr \<times> uint32) list \<Rightarrow> 'w poller_world_scheme \<times> chan_ptr list
     \<Rightarrow> ('w poller_world_scheme \<times> chan_ptr list) result" where
  "fillActiveChannels [] s = Inr s"
| "fillActiveChannels ((p, ev) # evs) (w, active) =
     bindE (deref (chans w) p) (\<lambda>_.
     fillActiveChannels evs (upd_chan p (Channel_set_revents ev) w, active @ [p]))"

text \<open>
  \<open>poll\<close>: errors of \<open>epoll_wait\<close> are only logged.  More events than \<open>events_\<close> has room for would
  have been written outside the vector.
\<close>

definition EPollPoller_poll ::
  "os \<Rightarrow> loop_ptr \<Rightarrow> chan_ptr list \<Rightarrow> 'w poller_world_scheme
     \<Rightarrow> (timestamp \<times> chan_ptr list \<times> 'w poller_world_scheme) result" where
  "EPollPoller_poll os L activeChannels w =
     (case sys_epoll_wait os (po_epollfd (pollers w L)) (po_capacity (pollers w L)) w of (r, w1) \<Rightarrow>
      bindE (Timestamp_now os w1) (\<lambda>(now, w2).
      case r of
        Inl _ \<Rightarrow> Inr (now, activeChannels, w2)
      | Inr evs \<Rightarrow>
          if evs = [] then Inr (now, activeChannels, w2)
          else if po_capacity (pollers w L) < length evs then Inl Undefined_Behaviour
          else bindE (fillActiveChannels evs (w2, activeChannels)) (\<lambda>(w3, active).
            Inr (now, active,
                 if length evs = po_capacity (pollers w3 L)
                 then upd_poller L (\<lambda>p. p\<lparr>po_capacity := po_capacity p * 2\<rparr>) w3 else w3))))"

subsection \<open>The invariant\<close>

text \<open>
  \<open>channels_\<close> holds live channels of this loop under their own descriptors, and no channel that
  the poller has not seen; a channel is watched by epoll exactly when its index is \<open>kAdded\<close>; every
  descriptor epoll watches is one of \<open>channels_\<close>, with that channel's pointer.
\<close>

definition chan_ok :: "loop_ptr \<Rightarrow> 'w poller_world_scheme \<Rightarrow> chan_ptr \<Rightarrow> channel \<Rightarrow> bool" where
  "chan_ok L w c ch \<longleftrightarrow>
     (let reg = po_channels (pollers w L) (ch_fd ch);
          watch = interest (hist w) (po_epollfd (pollers w L)) (ch_fd ch)
      in (ch_index ch = kNew \<and> reg \<noteq> Some c) \<or>
         (ch_index ch = kAdded \<and> reg = Some c \<and> (\<exists>ev. watch = Some (ev, c))) \<or>
         (ch_index ch = kDeleted \<and> reg = Some c \<and> watch = None))"

definition poller_inv :: "loop_ptr \<Rightarrow> 'w poller_world_scheme \<Rightarrow> bool" where
  "poller_inv L w \<longleftrightarrow>
     (\<forall>f c. po_channels (pollers w L) f = Some c \<longrightarrow>
        (\<exists>ch. chans w c = Some ch \<and> ch_loop ch = L \<and> ch_fd ch = f)) \<and>
     (\<forall>c ch. chans w c = Some ch \<longrightarrow> ch_loop ch = L \<longrightarrow> chan_ok L w c ch) \<and>
     (\<forall>f ev c. interest (hist w) (po_epollfd (pollers w L)) f = Some (ev, c) \<longrightarrow>
        po_channels (pollers w L) f = Some c)"

text \<open>The kernel watches the channel for exactly the events the channel asks for.\<close>

definition in_sync :: "loop_ptr \<Rightarrow> 'w poller_world_scheme \<Rightarrow> chan_ptr \<Rightarrow> bool" where
  "in_sync L w c \<longleftrightarrow>
     (\<forall>ch ev. chans w c = Some ch \<longrightarrow>
        interest (hist w) (po_epollfd (pollers w L)) (ch_fd ch) = Some (ev, c) \<longrightarrow>
        ev = ch_events ch)"

lemma poller_invD:
  assumes "poller_inv L w"
  shows "po_channels (pollers w L) f = Some c \<Longrightarrow>
      \<exists>ch. chans w c = Some ch \<and> ch_loop ch = L \<and> ch_fd ch = f"
    and "chans w c = Some ch \<Longrightarrow> ch_loop ch = L \<Longrightarrow> chan_ok L w c ch"
    and "interest (hist w) (po_epollfd (pollers w L)) f = Some (ev, c) \<Longrightarrow>
      po_channels (pollers w L) f = Some c"
  using assms unfolding poller_inv_def by blast+

lemma upd_poller_simps [simp]:
  "pollers (upd_poller L g w) = (pollers w)(L := g (pollers w L))"
  "hist (upd_poller L g w) = hist w" "chans (upd_poller L g w) = chans w"
  by (simp_all add: upd_poller_def)

lemma upd_chan_pollers [simp]: "pollers (upd_chan c g w) = pollers w"
  by (simp add: upd_chan_def)

lemma sys_poller_frame [simp]:
  "pollers (snd (sys_epoll_ctl os ep op f ev p w)) = pollers w"
  "pollers (snd (sys_epoll_wait os ep n w)) = pollers w"
  "pollers (snd (sys_gettimeofday os w)) = pollers w"
  "chans (snd (sys_epoll_ctl os ep op f ev p v)) = chans v"
  "chans (snd (sys_epoll_wait os ep n v)) = chans v"
  "chans (snd (sys_gettimeofday os v)) = chans v"
  by (simp_all add: sys_defs Let_def)

text \<open>What \<open>EPollPoller::update\<close> leaves behind, in every case that does not abort.\<close>

lemma EPollPoller_update_Inr:
  assumes "EPollPoller_update os L op c w = Inr w'" "chans w c = Some ch"
  shows "\<exists>r. r = os_epoll_ctl os (hist w) (po_epollfd (pollers w L)) op (ch_fd ch) (ch_events ch) c \<and>
    w' = w\<lparr>hist := hist w @ [Epoll_ctl (po_epollfd (pollers w L)) op (ch_fd ch) (ch_events ch) c r]\<rparr> \<and>
    (op \<noteq> EPOLL_CTL_DEL \<longrightarrow> r = Inr ())"
  using assms
  by (auto simp: EPollPoller_update_def sys_epoll_ctl_def Let_def split: sum.splits if_splits)

lemma poller_frame [simp]:
  "poller_world.more (upd_poller L g w) = poller_world.more w"
  "poller_world.more (upd_chan c h w) = poller_world.more w"
  by (simp_all add: upd_poller_def upd_chan_def)

lemma sys_poller_more [simp]:
  "poller_world.more (snd (sys_epoll_wait os ep n w)) = poller_world.more w"
  "poller_world.more (snd (sys_gettimeofday os w)) = poller_world.more w"
  "poller_world.more (hist_update f w) = poller_world.more w"
  by (simp_all add: sys_defs Let_def)

subsection \<open>updateChannel\<close>

text \<open>The index a channel gets, and what epoll watches for its descriptor afterwards.\<close>

definition next_index :: "channel \<Rightarrow> int" where
  "next_index ch = (if ch_index ch = kAdded \<and> isNoneEvent ch then kDeleted else kAdded)"

definition next_watch :: "chan_ptr \<Rightarrow> channel \<Rightarrow> (uint32 \<times> chan_ptr) option" where
  "next_watch c ch =
     (if ch_index ch = kAdded \<and> isNoneEvent ch then None else Some (ch_events ch, c))"

lemma chan_ok_cases:
  assumes "chan_ok L w c ch"
  obtains (new) "ch_index ch = kNew" "po_channels (pollers w L) (ch_fd ch) \<noteq> Some c"
  | (added) ev where "ch_index ch = kAdded" "po_channels (pollers w L) (ch_fd ch) = Some c"
      "interest (hist w) (po_epollfd (pollers w L)) (ch_fd ch) = Some (ev, c)"
  | (deleted) "ch_index ch = kDeleted" "po_channels (pollers w L) (ch_fd ch) = Some c"
      "interest (hist w) (po_epollfd (pollers w L)) (ch_fd ch) = None"
  using assms unfolding chan_ok_def Let_def by metis

lemma interest_other_poller:
  "ep' \<noteq> ep \<Longrightarrow> interest (h @ [Epoll_ctl ep op f ev p r]) ep' = interest h ep'"
  by simp

lemma updateChannel_effect:
  assumes "EPollPoller_updateChannel os L c w = Inr w'" and os: "epoll_ok os"
    and inv: "poller_inv L w" and ch: "chans w c = Some ch" "ch_loop ch = L"
  shows "chans w' = (chans w)(c \<mapsto> Channel_set_index (next_index ch) ch)"
    and "po_channels (pollers w' L) = (po_channels (pollers w L))(ch_fd ch \<mapsto> c)"
    and "po_epollfd (pollers w' L) = po_epollfd (pollers w L)"
    and "po_capacity (pollers w' L) = po_capacity (pollers w L)"
    and "\<And>L'. L' \<noteq> L \<Longrightarrow> pollers w' L' = pollers w L'"
    and "interest (hist w') (po_epollfd (pollers w L))
           = (interest (hist w) (po_epollfd (pollers w L)))(ch_fd ch := next_watch c ch)"
    and "poller_world.more w' = poller_world.more w"
    and "\<exists>e. hist w' = hist w @ [e] \<and> (\<exists>op r. e = Epoll_ctl (po_epollfd (pollers w L)) op
           (ch_fd ch) (ch_events ch) c r)"
proof -
  let ?ep = "po_epollfd (pollers w L)" and ?f = "ch_fd ch"
  have del: "os_epoll_ctl os (hist w) ?ep EPOLL_CTL_DEL ?f (ch_events ch) c = Inr ()"
    if "interest (hist w) ?ep ?f \<noteq> None" using os that by (simp add: epoll_ok_def)
  let ?goal = "chans w' = (chans w)(c \<mapsto> Channel_set_index (next_index ch) ch) \<and>
    po_channels (pollers w' L) = (po_channels (pollers w L))(?f \<mapsto> c) \<and>
    po_epollfd (pollers w' L) = ?ep \<and>
    po_capacity (pollers w' L) = po_capacity (pollers w L) \<and>
    (\<forall>L'. L' \<noteq> L \<longrightarrow> pollers w' L' = pollers w L') \<and>
    interest (hist w') ?ep = (interest (hist w) ?ep)(?f := next_watch c ch) \<and>
    poller_world.more w' = poller_world.more w \<and>
    (\<exists>e. hist w' = hist w @ [e] \<and> (\<exists>op r. e = Epoll_ctl ?ep op ?f (ch_events ch) c r))"
  from poller_invD(2) [OF inv ch] have ?goal
  proof (cases rule: chan_ok_cases)
    case new
    with assms(1) ch show ?thesis
      by (auto simp: EPollPoller_updateChannel_def Let_def res_simps kIndex_defs next_index_def
          next_watch_def dest!: EPollPoller_update_Inr)
  next
    case (deleted)
    with assms(1) ch show ?thesis
      by (auto simp: EPollPoller_updateChannel_def Let_def res_simps kIndex_defs next_index_def
          next_watch_def fun_upd_idem dest!: EPollPoller_update_Inr)
  next
    case (added ev)
    with assms(1) ch del show ?thesis
      by (auto simp: EPollPoller_updateChannel_def Let_def res_simps kIndex_defs next_index_def
          next_watch_def fun_upd_idem Channel_set_index_def dest!: EPollPoller_update_Inr
          split: if_splits)
  qed
  then show "chans w' = (chans w)(c \<mapsto> Channel_set_index (next_index ch) ch)"
    and "po_channels (pollers w' L) = (po_channels (pollers w L))(?f \<mapsto> c)"
    and "po_epollfd (pollers w' L) = ?ep"
    and "po_capacity (pollers w' L) = po_capacity (pollers w L)"
    and "\<And>L'. L' \<noteq> L \<Longrightarrow> pollers w' L' = pollers w L'"
    and "interest (hist w') ?ep = (interest (hist w) ?ep)(?f := next_watch c ch)"
    and "poller_world.more w' = poller_world.more w"
    and "\<exists>e. hist w' = hist w @ [e] \<and> (\<exists>op r. e = Epoll_ctl ?ep op ?f (ch_events ch) c r)"
    by blast+
qed

lemma updateChannel_inv:
  assumes upd: "EPollPoller_updateChannel os L c w = Inr w'" and os: "epoll_ok os"
    and inv: "poller_inv L w" and ch: "chans w c = Some ch" "ch_loop ch = L"
    and fresh: "ch_index ch = kNew \<Longrightarrow> po_channels (pollers w L) (ch_fd ch) = None"
  shows "poller_inv L w'" and "in_sync L w' c"
proof -
  note eff = updateChannel_effect [OF upd os inv ch]
  note cok = poller_invD(2) [OF inv ch]
  have same: "c' = c" if "chans w c' = Some ch'" "ch_loop ch' = L" "ch_fd ch' = ch_fd ch"
      "ch_index ch' \<noteq> kNew" for c' ch'
  proof -
    from poller_invD(2) [OF inv that(1,2)] that(3,4)
    have "po_channels (pollers w L) (ch_fd ch) = Some c'" by (auto simp: chan_ok_def Let_def)
    with cok fresh show "c' = c" by (cases rule: chan_ok_cases) auto
  qed
  have "chan_ok L w' c' ch'" if c': "chans w' c' = Some ch'" "ch_loop ch' = L" for c' ch'
  proof (cases "c' = c")
    case True
    with c' eff(1) have ch': "ch' = Channel_set_index (next_index ch) ch" by simp
    show ?thesis
      by (auto simp: chan_ok_def ch' True eff(2,3,6) next_index_def next_watch_def Let_def)
  next
    case False
    with c' eff(1) have old: "chans w c' = Some ch'" by simp
    from poller_invD(2) [OF inv old c'(2)] same [OF old c'(2)] False show ?thesis
      by (auto simp: chan_ok_def eff(2,3,6) Let_def)
  qed
  moreover have "\<exists>ch'. chans w' c' = Some ch' \<and> ch_loop ch' = L \<and> ch_fd ch' = f"
    if "po_channels (pollers w' L) f = Some c'" for f c'
    using that poller_invD(1) [OF inv, of f c'] ch by (auto simp: eff(1,2) split: if_splits)
  moreover have "po_channels (pollers w' L) f = Some c'"
    if "interest (hist w') (po_epollfd (pollers w' L)) f = Some (ev, c')" for f ev c'
    using that poller_invD(3) [OF inv] by (auto simp: eff(2,3,6) next_watch_def split: if_splits)
  ultimately show "poller_inv L w'" unfolding poller_inv_def by blast
  show "in_sync L w' c"
    by (auto simp: in_sync_def eff(1,3,6) next_watch_def split: if_splits)
qed

text \<open>A loop's invariant does not depend on what another loop's poller does.\<close>

lemma updateChannel_other_loop:
  assumes upd: "EPollPoller_updateChannel os L c w = Inr w'" and os: "epoll_ok os"
    and inv: "poller_inv L w" "poller_inv L' w" and ch: "chans w c = Some ch" "ch_loop ch = L"
    and other: "L' \<noteq> L" "po_epollfd (pollers w L') \<noteq> po_epollfd (pollers w L)"
  shows "poller_inv L' w'"
proof -
  note eff = updateChannel_effect [OF upd os inv(1) ch]
  from eff(8) other have int: "interest (hist w') (po_epollfd (pollers w L'))
      = interest (hist w) (po_epollfd (pollers w L'))"
    by auto
  have pol: "pollers w' L' = pollers w L'" using eff(5) other by simp
  have cok: "chan_ok L' w' c' ch' = chan_ok L' w c' ch'" for c' ch'
    by (simp add: chan_ok_def int pol)
  have loop: "chans w' c' = Some ch' \<Longrightarrow> ch_loop ch' = L' \<Longrightarrow> chans w c' = Some ch'" for c' ch'
    using ch other by (auto simp: eff(1) split: if_splits)
  have live: "\<exists>ch'. chans w' c' = Some ch' \<and> ch_loop ch' = L' \<and> ch_fd ch' = f"
    if "po_channels (pollers w L') f = Some c'" for f c'
    using poller_invD(1) [OF inv(2) that] ch other by (auto simp: eff(1))
  show ?thesis
    using poller_invD(2,3) [OF inv(2)] loop live
    unfolding poller_inv_def pol int cok by blast
qed

subsection \<open>removeChannel\<close>

lemma removeChannel_effect:
  assumes "EPollPoller_removeChannel os L c w = Inr w'" and os: "epoll_ok os"
    and inv: "poller_inv L w" and ch: "chans w c = Some ch" "ch_loop ch = L"
    and reg: "ch_index ch = kNew \<Longrightarrow> po_channels (pollers w L) (ch_fd ch) = None"
  shows "chans w' = (chans w)(c \<mapsto> Channel_set_index kNew ch)"
    and "po_channels (pollers w' L) = (po_channels (pollers w L))(ch_fd ch := None)"
    and "po_epollfd (pollers w' L) = po_epollfd (pollers w L)"
    and "\<And>L'. L' \<noteq> L \<Longrightarrow> pollers w' L' = pollers w L'"
    and "interest (hist w') (po_epollfd (pollers w L))
           = (interest (hist w) (po_epollfd (pollers w L)))(ch_fd ch := None)"
    and "poller_world.more w' = poller_world.more w"
proof -
  let ?ep = "po_epollfd (pollers w L)" and ?f = "ch_fd ch"
  have del: "os_epoll_ctl os (hist w) ?ep EPOLL_CTL_DEL ?f (ch_events ch) c = Inr ()"
    if "interest (hist w) ?ep ?f \<noteq> None" using os that by (simp add: epoll_ok_def)
  have none: "interest (hist w) ?ep ?f = None" if "po_channels (pollers w L) ?f = None"
    using poller_invD(3) [OF inv, of ?f] that by (cases "interest (hist w) ?ep ?f") auto
  let ?goal = "chans w' = (chans w)(c \<mapsto> Channel_set_index kNew ch) \<and>
    po_channels (pollers w' L) = (po_channels (pollers w L))(?f := None) \<and>
    po_epollfd (pollers w' L) = ?ep \<and> (\<forall>L'. L' \<noteq> L \<longrightarrow> pollers w' L' = pollers w L') \<and>
    interest (hist w') ?ep = (interest (hist w) ?ep)(?f := None) \<and>
    poller_world.more w' = poller_world.more w"
  from poller_invD(2) [OF inv ch] have ?goal
  proof (cases rule: chan_ok_cases)
    case new
    with assms(1) ch reg none show ?thesis
      by (auto simp: EPollPoller_removeChannel_def Let_def res_simps kIndex_defs fun_upd_idem)
  next
    case deleted
    with assms(1) ch show ?thesis
      by (auto simp: EPollPoller_removeChannel_def Let_def res_simps kIndex_defs fun_upd_idem)
  next
    case (added ev)
    with assms(1) ch del show ?thesis
      by (auto simp: EPollPoller_removeChannel_def Let_def res_simps kIndex_defs
          dest!: EPollPoller_update_Inr)
  qed
  then show "chans w' = (chans w)(c \<mapsto> Channel_set_index kNew ch)"
    and "po_channels (pollers w' L) = (po_channels (pollers w L))(?f := None)"
    and "po_epollfd (pollers w' L) = ?ep"
    and "\<And>L'. L' \<noteq> L \<Longrightarrow> pollers w' L' = pollers w L'"
    and "interest (hist w') ?ep = (interest (hist w) ?ep)(?f := None)"
    and "poller_world.more w' = poller_world.more w"
    by blast+
qed

lemma removeChannel_inv:
  assumes rem: "EPollPoller_removeChannel os L c w = Inr w'" and os: "epoll_ok os"
    and inv: "poller_inv L w" and ch: "chans w c = Some ch" "ch_loop ch = L"
    and reg: "ch_index ch = kNew \<Longrightarrow> po_channels (pollers w L) (ch_fd ch) = None"
  shows "poller_inv L w'" and "po_channels (pollers w' L) f \<noteq> Some c"
    and "interest (hist w') (po_epollfd (pollers w' L)) f \<noteq> Some (ev, c)"
proof -
  note eff = removeChannel_effect [OF rem os inv ch reg]
  have "chan_ok L w' c' ch'" if c': "chans w' c' = Some ch'" "ch_loop ch' = L" for c' ch'
  proof (cases "c' = c")
    case True
    with c' eff(1) have ch': "ch' = Channel_set_index kNew ch" by simp
    show ?thesis by (simp add: chan_ok_def ch' True eff(2))
  next
    case False
    with c' eff(1) have old: "chans w c' = Some ch'" by simp
    have "ch_fd ch' \<noteq> ch_fd ch" if "ch_index ch' \<noteq> kNew"
    proof
      assume same: "ch_fd ch' = ch_fd ch"
      from poller_invD(2) [OF inv old c'(2)] that same
      have "po_channels (pollers w L) (ch_fd ch) = Some c'" by (auto simp: chan_ok_def Let_def)
      with poller_invD(2) [OF inv ch] reg False show "False" by (cases rule: chan_ok_cases) auto
    qed
    with poller_invD(2) [OF inv old c'(2)] show ?thesis
      by (auto simp: chan_ok_def eff(2,3,5) Let_def)
  qed
  moreover have "\<exists>ch'. chans w' c' = Some ch' \<and> ch_loop ch' = L \<and> ch_fd ch' = f"
    if "po_channels (pollers w' L) f = Some c'" for f c'
    using that poller_invD(1) [OF inv, of f c'] ch by (auto simp: eff(1,2) split: if_splits)
  moreover have int: "po_channels (pollers w' L) f = Some c'"
    if "interest (hist w') (po_epollfd (pollers w' L)) f = Some (ev, c')" for f ev c'
    using that poller_invD(3) [OF inv] by (auto simp: eff(2,3,5) split: if_splits)
  ultimately show "poller_inv L w'" unfolding poller_inv_def by blast
  show gone: "po_channels (pollers w' L) f \<noteq> Some c" for f
    using poller_invD(1) [OF inv, of f c] ch by (auto simp: eff(2))
  show "interest (hist w') (po_epollfd (pollers w' L)) f \<noteq> Some (ev, c)"
    using int gone by blast
qed

text \<open>Once it is removed, a channel may be destroyed: no pointer to it is left in the poller.\<close>

lemma poller_inv_delete_chan:
  assumes "poller_inv L w" and "\<And>f. po_channels (pollers w L) f \<noteq> Some c"
  shows "poller_inv L (w\<lparr>chans := (chans w)(c := None)\<rparr>)"
  using assms unfolding poller_inv_def chan_ok_def Let_def by (auto split: if_splits)

lemma poller_inv_new_chan:
  assumes "poller_inv L w" and "chans w c = None" and "ch_index ch = kNew"
  shows "poller_inv L (w\<lparr>chans := (chans w)(c \<mapsto> ch)\<rparr>)"
proof -
  have "po_channels (pollers w L) f \<noteq> Some c" for f
    using poller_invD(1) [OF assms(1), of f c] assms(2) by auto
  with assms show ?thesis
    unfolding poller_inv_def chan_ok_def Let_def by (auto split: if_splits)
qed

subsection \<open>poll\<close>

lemma fillActiveChannels_ok:
  assumes "\<forall>p \<in> set (map fst evs). chans w p \<noteq> None"
  shows "\<exists>w'. fillActiveChannels evs (w, active) = Inr (w', active @ map fst evs) \<and>
    hist w' = hist w \<and> pollers w' = pollers w \<and> poller_world.more w' = poller_world.more w \<and>
    (\<forall>c. chans w' c = map_option (\<lambda>ch. case map_of (rev evs) c of
            Some ev \<Rightarrow> Channel_set_revents ev ch | None \<Rightarrow> ch) (chans w c))"
  using assms
proof (induction evs arbitrary: w active)
  case Nil
  have "map_option (\<lambda>ch. ch) (chans w c) = chans w c" for c
    by (cases "chans w c") auto
  then show ?case by simp
next
  case (Cons e evs)
  obtain p ev where e: "e = (p, ev)" by force
  with Cons.prems obtain ch where p: "chans w p = Some ch" by auto
  let ?w = "upd_chan p (Channel_set_revents ev) w"
  from Cons.prems p have "\<forall>p \<in> set (map fst evs). chans ?w p \<noteq> None"
    by (auto simp: e)
  from Cons.IH [OF this, of "active @ [p]"] obtain w' where
    w': "fillActiveChannels evs (?w, active @ [p]) = Inr (w', active @ [p] @ map fst evs)"
      "hist w' = hist w" "pollers w' = pollers w" "poller_world.more w' = poller_world.more w"
      "\<And>c. chans w' c = map_option (\<lambda>ch. case map_of (rev evs) c of
            Some ev \<Rightarrow> Channel_set_revents ev ch | None \<Rightarrow> ch) (chans ?w c)"
    by auto
  have "chans w' c = map_option (\<lambda>ch. case map_of (rev (e # evs)) c of
            Some ev \<Rightarrow> Channel_set_revents ev ch | None \<Rightarrow> ch) (chans w c)" for c
    by (cases "c = p"; cases "chans w c"; cases "map_of (rev evs) c")
       (auto simp: w'(5) e p map_add_def Channel_set_revents_def)
  with w'(1-4) p show ?case by (auto simp: e)
qed

text \<open>
  Every event of \<open>epoll_wait\<close> names a descriptor the kernel watches, so under the invariant every
  pointer it returns is a live, registered channel: \<open>poll\<close> never follows a dangling pointer.
\<close>

lemma poll_no_fault:
  assumes os: "epoll_ok os" "clock_ok os" and inv: "poller_inv L w"
  shows "\<exists>now active w' evs. EPollPoller_poll os L [] w = Inr (now, active, w') \<and>
    active = map fst evs \<and> distinct active \<and> length evs \<le> po_capacity (pollers w L) \<and>
    (\<forall>p \<in> set active. \<exists>ch. chans w p = Some ch \<and> ch_loop ch = L \<and> ch_index ch = kAdded \<and>
       po_channels (pollers w L) (ch_fd ch) = Some p) \<and>
    (\<forall>c. chans w' c = map_option (\<lambda>ch. case map_of (rev evs) c of
       Some ev \<Rightarrow> Channel_set_revents ev ch | None \<Rightarrow> ch) (chans w c)) \<and>
    po_capacity (pollers w' L) = (if evs \<noteq> [] \<and> length evs = po_capacity (pollers w L)
       then 2 * po_capacity (pollers w L) else po_capacity (pollers w L)) \<and>
    po_channels (pollers w' L) = po_channels (pollers w L) \<and>
    po_epollfd (pollers w' L) = po_epollfd (pollers w L) \<and>
    (\<forall>L'. L' \<noteq> L \<longrightarrow> pollers w' L' = pollers w L') \<and>
    interest (hist w') = interest (hist w) \<and> poller_world.more w' = poller_world.more w"
proof -
  let ?ep = "po_epollfd (pollers w L)" and ?n = "po_capacity (pollers w L)"
  let ?r = "os_epoll_wait os (hist w) ?ep ?n"
  let ?w1 = "w\<lparr>hist := hist w @ [Epoll_wait ?ep ?n ?r]\<rparr>"
  from Timestamp_now_ok [OF os(2)] obtain now where
    now: "Timestamp_now os ?w1 = Inr (now, snd (sys_gettimeofday os ?w1))"
    by blast
  let ?w2 = "snd (sys_gettimeofday os ?w1)"
  have int: "interest (hist ?w2) = interest (hist w)"
    by (rule ext) (simp add: sys_gettimeofday_def Let_def)
  have frame: "chans ?w2 = chans w" "pollers ?w2 = pollers w"
      "poller_world.more ?w2 = poller_world.more w"
    by (simp_all add: sys_gettimeofday_def Let_def)
  have id: "map_option (\<lambda>ch. ch) x = x" for x :: "channel option" by (cases x) auto
  show ?thesis
  proof (cases "?r")
    case (Inl e)
    then have "EPollPoller_poll os L [] w = Inr (now, [], ?w2)"
      using now by (simp add: EPollPoller_poll_def sys_epoll_wait_def Let_def)
    then show ?thesis using frame int
      by (intro exI [of _ now] exI [of _ "[]"] exI [of _ ?w2]) (simp add: id)
  next
    case (Inr evs)
    with os(1) obtain fds where fds: "length evs \<le> ?n" "length fds = length evs"
      "\<forall>i < length evs. \<exists>ev. interest (hist w) ?ep (fds ! i) = Some (ev, fst (evs ! i))" "distinct fds"
      unfolding epoll_ok_def by blast
    have live: "\<exists>ch. chans w p = Some ch \<and> ch_loop ch = L \<and> ch_index ch = kAdded \<and>
        po_channels (pollers w L) (ch_fd ch) = Some p" if "p \<in> set (map fst evs)" for p
    proof -
      from that obtain i where "i < length evs" "p = fst (evs ! i)" by (auto simp: in_set_conv_nth)
      with fds(3) obtain ev where ev: "interest (hist w) ?ep (fds ! i) = Some (ev, p)" by blast
      from poller_invD(3) [OF inv this] have reg: "po_channels (pollers w L) (fds ! i) = Some p" .
      from poller_invD(1) [OF inv this] obtain ch
        where ch: "chans w p = Some ch" "ch_loop ch = L" "ch_fd ch = fds ! i" by blast
      from poller_invD(2) [OF inv ch(1,2)] ch reg ev show ?thesis
        by (cases rule: chan_ok_cases) auto
    qed
    have dist: "distinct (map fst evs)"
    proof (rule distinct_conv_nth [THEN iffD2], intro allI impI notI)
      fix i j assume ij: "i < length (map fst evs)" "j < length (map fst evs)" "i \<noteq> j" "map fst evs ! i = map fst evs ! j"
      with fds(3) obtain a b where
        "interest (hist w) ?ep (fds ! i) = Some (a, fst (evs ! i))" "interest (hist w) ?ep (fds ! j) = Some (b, fst (evs ! i))"
        by (metis length_map nth_map)
      then have "po_channels (pollers w L) (fds ! i) = Some (fst (evs ! i))"
        "po_channels (pollers w L) (fds ! j) = Some (fst (evs ! i))" using poller_invD(3) [OF inv] by blast+
      then have "fds ! i = fds ! j" using poller_invD(1) [OF inv] by (metis option.inject)
      with ij fds(2,4) show False by (simp add: nth_eq_iff_index_eq)
    qed
    show ?thesis
    proof (cases "evs = []")
      case True
      with Inr now have "EPollPoller_poll os L [] w = Inr (now, [], ?w2)"
        by (simp add: EPollPoller_poll_def sys_epoll_wait_def Let_def)
      then show ?thesis using frame int
        by (intro exI [of _ now] exI [of _ "[]"] exI [of _ ?w2]) (simp add: id)
    next
      case False
      have "\<forall>p \<in> set (map fst evs). chans ?w2 p \<noteq> None"
        using live unfolding frame(1) by blast
      from fillActiveChannels_ok [OF this, of "[]"] obtain w3 where
        w3: "fillActiveChannels evs (?w2, []) = Inr (w3, map fst evs)" "hist w3 = hist ?w2"
          "pollers w3 = pollers w" "poller_world.more w3 = poller_world.more w"
          "\<And>c. chans w3 c = map_option (\<lambda>ch. case map_of (rev evs) c of
             Some ev \<Rightarrow> Channel_set_revents ev ch | None \<Rightarrow> ch) (chans w c)"
        unfolding frame by auto
      let ?w' = "if length evs = ?n
        then upd_poller L (\<lambda>p. p\<lparr>po_capacity := po_capacity p * 2\<rparr>) w3 else w3"
      have "EPollPoller_poll os L [] w = Inr (now, map fst evs, ?w')"
        using Inr False now w3(1) fds(1)
        by (simp add: EPollPoller_poll_def sys_epoll_wait_def Let_def w3(3))
      moreover have "interest (hist ?w') = interest (hist w)" using w3(2) int by simp
      ultimately show ?thesis using live dist False fds(1) w3(3-5)
        by (intro exI [of _ now] exI [of _ "map fst evs"] exI [of _ ?w'] exI [of _ evs]) auto
    qed
  qed
qed

end
