(* ===== verification/EventLoop.thy ===== *)
theory EventLoop
  imports EPollPoller
begin

section \<open>EventLoop: the reactor of a thread\<close>

text \<open>
  \<open>src/src/EventLoop.h\<close> and \<open>src/src/EventLoop.cc\<close>, and the operations of \<open>Channel\<close> that end in
  \<open>update()\<close>.  A loop is named by its pointer; \<open>current_tid\<close> is the thread that executes the code,
  and \<open>t_loopInThisThread\<close> the thread-local pointer of each thread.  \<open>invoke\<close> runs a callback,
  \<open>alive\<close> tells whether a tied object can still be locked; both are supplied by the theory that
  knows all components.  The operations here are sequential: what threads can do to each other
  between two of their statements is in the theory of the wake-up protocol.
\<close>

record eventloop =
  lp_looping :: bool
  lp_quit :: bool
  lp_threadId :: tid
  lp_pollReturnTime :: timestamp
  lp_wakeupFd :: fd
  lp_wakeupChannel :: chan_ptr
  lp_activeChannels :: "chan_ptr list"
  lp_callingPendingFunctors :: bool
  lp_pendingFunctors :: "closure list"

record loop_world = poller_world +
  loops :: "loop_ptr \<Rightarrow> eventloop"
  current_tid :: tid
  t_loopInThisThread :: "tid \<rightharpoonup> loop_ptr"

type_synonym 'w invoker =
  "closure \<Rightarrow> timestamp \<Rightarrow> 'w loop_world_scheme \<Rightarrow> 'w loop_world_scheme result"

definition upd_loop :: "loop_ptr \<Rightarrow> (eventloop \<Rightarrow> eventloop) \<Rightarrow> 'w loop_world_scheme \<Rightarrow> 'w loop_world_scheme" where
  "upd_loop L g w = w\<lparr>loops := (loops w)(L := g (loops w L))\<rparr>"

definition isInLoopThread :: "loop_ptr \<Rightarrow> 'w loop_world_scheme \<Rightarrow> bool" where
  "isInLoopThread L w \<longleftrightarrow> lp_threadId (loops w L) = current_tid w"

text \<open>The eight bytes of \<open>uint64_t one = 1\<close> on a little-endian machine.\<close>

definition one_bytes :: "byte list" where
  "one_bytes = [1, 0, 0, 0, 0, 0, 0, 0]"

definition EventLoop_wakeup :: "os \<Rightarrow> loop_ptr \<Rightarrow> 'w loop_world_scheme \<Rightarrow> 'w loop_world_scheme" where
  "EventLoop_wakeup os L w = snd (sys_write os (lp_wakeupFd (loops w L)) one_bytes w)"

definition EventLoop_handleRead :: "os \<Rightarrow> loop_ptr \<Rightarrow> 'w loop_world_scheme \<Rightarrow> 'w loop_world_scheme" where
  "EventLoop_handleRead os L w = snd (sys_read os (lp_wakeupFd (loops w L)) 8 w)"

definition EventLoop_quit :: "os \<Rightarrow> loop_ptr \<Rightarrow> 'w loop_world_scheme \<Rightarrow> 'w loop_world_scheme" where
  "EventLoop_quit os L w =
     (let w1 = upd_loop L (\<lambda>l. l\<lparr>lp_quit := True\<rparr>) w
      in if \<not> isInLoopThread L w1 then EventLoop_wakeup os L w1 else w1)"

definition EventLoop_queueInLoop ::
  "os \<Rightarrow> loop_ptr \<Rightarrow> closure \<Rightarrow> 'w loop_world_scheme \<Rightarrow> 'w loop_world_scheme" where
  "EventLoop_queueInLoop os L cb w =
     (let w1 = upd_loop L (\<lambda>l. l\<lparr>lp_pendingFunctors := lp_pendingFunctors l @ [cb]\<rparr>) w
      in if \<not> isInLoopThread L w1 \<or> lp_callingPendingFunctors (loops w1 L)
         then EventLoop_wakeup os L w1 else w1)"

text \<open>
  \<open>runInLoop(cb)\<close>: \<open>cb\<close> is the bound function as a value, for the queue, and \<open>body\<close> what calling
  it does.
\<close>

definition EventLoop_runInLoop ::
  "os \<Rightarrow> loop_ptr \<Rightarrow> closure \<Rightarrow> ('w loop_world_scheme \<Rightarrow> 'w loop_world_scheme result)
     \<Rightarrow> 'w loop_world_scheme \<Rightarrow> 'w loop_world_scheme result" where
  "EventLoop_runInLoop os L cb body w =
     (if isInLoopThread L w then body w else Inr (EventLoop_queueInLoop os L cb w))"

definition EventLoop_updateChannel ::
  "os \<Rightarrow> loop_ptr \<Rightarrow> chan_ptr \<Rightarrow> 'w loop_world_scheme \<Rightarrow> 'w loop_world_scheme result" where
  "EventLoop_updateChannel os L c w = EPollPoller_updateChannel os L c w"

definition EventLoop_removeChannel ::
  "os \<Rightarrow> loop_ptr \<Rightarrow> chan_ptr \<Rightarrow> 'w loop_world_scheme \<Rightarrow> 'w loop_world_scheme result" where
  "EventLoop_removeChannel os L c w = EPollPoller_removeChannel os L c w"

definition EventLoop_hasChannel :: "loop_ptr \<Rightarrow> chan_ptr \<Rightarrow> 'w loop_world_scheme \<Rightarrow> bool result" where
  "EventLoop_hasChannel L c w = Poller_hasChannel L c w"

subsection \<open>The operations of a channel that reach the poller\<close>

definition Channel_update :: "os \<Rightarrow> chan_ptr \<Rightarrow> 'w loop_world_scheme \<Rightarrow> 'w loop_world_scheme result" where
  "Channel_update os c w = bindE (deref (chans w) c) (\<lambda>ch. EventLoop_updateChannel os (ch_loop ch) c w)"

definition Channel_remove :: "os \<Rightarrow> chan_ptr \<Rightarrow> 'w loop_world_scheme \<Rightarrow> 'w loop_world_scheme result" where
  "Channel_remove os c w = bindE (deref (chans w) c) (\<lambda>ch. EventLoop_removeChannel os (ch_loop ch) c w)"

definition Channel_enableReading :: "os \<Rightarrow> chan_ptr \<Rightarrow> 'w loop_world_scheme \<Rightarrow> 'w loop_world_scheme result" where
  "Channel_enableReading os c w = Channel_update os c (upd_chan c (add_events kReadEvent) w)"

definition Channel_disableReading :: "os \<Rightarrow> chan_ptr \<Rightarrow> 'w loop_world_scheme \<Rightarrow> 'w loop_world_scheme result" where
  "Channel_disableReading os c w = Channel_update os c (upd_chan c (del_events kReadEvent) w)"

definition Channel_enableWriting :: "os \<Rightarrow> chan_ptr \<Rightarrow> 'w loop_world_scheme \<Rightarrow> 'w loop_world_scheme result" where
  "Channel_enableWriting os c w = Channel_update os c (upd_chan c (add_events kWriteEvent) w)"

definition Channel_disableWriting :: "os \<Rightarrow> chan_ptr \<Rightarrow> 'w loop_world_scheme \<Rightarrow> 'w loop_world_scheme result" where
  "Channel_disableWriting os c w = Channel_update os c (upd_chan c (del_events kWriteEvent) w)"

definition Channel_disableAll :: "os \<Rightarrow> chan_ptr \<Rightarrow> 'w loop_world_scheme \<Rightarrow> 'w loop_world_scheme result" where
  "Channel_disableAll os c w = Channel_update os c (upd_chan c clear_events w)"

subsection \<open>The loop\<close>

text \<open>
  \<open>doPendingFunctors\<close> swaps the queue with an empty one and runs what it took; what the functors
  queue is left for the next time.
\<close>

definition EventLoop_doPendingFunctors ::
  "'w invoker \<Rightarrow> loop_ptr \<Rightarrow> 'w loop_world_scheme \<Rightarrow> 'w loop_world_scheme result" where
  "EventLoop_doPendingFunctors invoke L w =
     (let w1 = upd_loop L (\<lambda>l. l\<lparr>lp_callingPendingFunctors := True\<rparr>) w;
          functors = lp_pendingFunctors (loops w1 L);
          w2 = upd_loop L (\<lambda>l. l\<lparr>lp_pendingFunctors := []\<rparr>) w1
      in bindE (foldE (\<lambda>functor. invoke functor Timestamp_zero) functors w2) (\<lambda>w3.
         Inr (upd_loop L (\<lambda>l. l\<lparr>lp_callingPendingFunctors := False\<rparr>) w3)))"

text \<open>
  The body of the \<open>while\<close> loop of \<open>EventLoop::loop\<close>: the poll and the events it returns, then the
  functors.
\<close>

definition EventLoop_events ::
  "os \<Rightarrow> 'w invoker \<Rightarrow> (conn_ptr \<Rightarrow> 'w loop_world_scheme \<Rightarrow> bool) \<Rightarrow> loop_ptr
     \<Rightarrow> 'w loop_world_scheme \<Rightarrow> 'w loop_world_scheme result" where
  "EventLoop_events os invoke alive L w =
     (let w1 = upd_loop L (\<lambda>l. l\<lparr>lp_activeChannels := []\<rparr>) w in
      bindE (EPollPoller_poll os L (lp_activeChannels (loops w1 L)) w1) (\<lambda>(now, active, w2).
      foldE (\<lambda>channel w. Channel_handleEvent invoke alive channel (lp_pollReturnTime (loops w L)) w) active
        (upd_loop L (\<lambda>l. l\<lparr>lp_pollReturnTime := now, lp_activeChannels := active\<rparr>) w2)))"

definition EventLoop_iteration ::
  "os \<Rightarrow> 'w invoker \<Rightarrow> (conn_ptr \<Rightarrow> 'w loop_world_scheme \<Rightarrow> bool) \<Rightarrow> loop_ptr
     \<Rightarrow> 'w loop_world_scheme \<Rightarrow> 'w loop_world_scheme result" where
  "EventLoop_iteration os invoke alive L w =
     bindE (EventLoop_events os invoke alive L w) (EventLoop_doPendingFunctors invoke L)"

text \<open>The \<open>while (!quit_)\<close> loop; \<open>None\<close> is a run that never ends.\<close>

partial_function (option) EventLoop_while ::
  "os \<Rightarrow> 'w invoker \<Rightarrow> (conn_ptr \<Rightarrow> 'w loop_world_scheme \<Rightarrow> bool) \<Rightarrow> loop_ptr
     \<Rightarrow> 'w loop_world_scheme \<Rightarrow> 'w loop_world_scheme result option" where
  "EventLoop_while os invoke alive L w =
     (if lp_quit (loops w L) then Some (Inr w)
      else case EventLoop_iteration os invoke alive L w of
             Inl e \<Rightarrow> Some (Inl e)
           | Inr w' \<Rightarrow> EventLoop_while os invoke alive L w')"

definition EventLoop_loop ::
  "os \<Rightarrow> 'w invoker \<Rightarrow> (conn_ptr \<Rightarrow> 'w loop_world_scheme \<Rightarrow> bool) \<Rightarrow> loop_ptr
     \<Rightarrow> 'w loop_world_scheme \<Rightarrow> 'w loop_world_scheme result option" where
  "EventLoop_loop os invoke alive L w =
     map_option (\<lambda>r. bindE r (\<lambda>w'. Inr (upd_loop L (\<lambda>l. l\<lparr>lp_looping := False\<rparr>) w')))
       (EventLoop_while os invoke alive L
          (upd_loop L (\<lambda>l. l\<lparr>lp_looping := True, lp_quit := False\<rparr>) w))"

subsection \<open>Facts\<close>

lemma upd_loop_simps [simp]:
  "loops (upd_loop L g w) = (loops w)(L := g (loops w L))"
  "hist (upd_loop L g w) = hist w" "chans (upd_loop L g w) = chans w"
  "pollers (upd_loop L g w) = pollers w" "current_tid (upd_loop L g w) = current_tid w"
  "loop_world.more (upd_loop L g w) = loop_world.more w"
  by (simp_all add: upd_loop_def)

lemma upd_chan_loop_simps [simp]:
  "loops (upd_chan c g w) = loops w" "current_tid (upd_chan c g w) = current_tid w"
  "loop_world.more (upd_chan c g w) = loop_world.more w"
  by (simp_all add: upd_chan_def)

lemma upd_poller_loop_simps [simp]:
  "loops (upd_poller L' p w) = loops w" "current_tid (upd_poller L' p w) = current_tid w"
  "t_loopInThisThread (upd_poller L' p w) = t_loopInThisThread w"
  by (simp_all add: upd_poller_def)

lemma wakeup_simps [simp]:
  "loops (EventLoop_wakeup os L w) = loops w" "chans (EventLoop_wakeup os L w) = chans w"
  "pollers (EventLoop_wakeup os L w) = pollers w"
  "current_tid (EventLoop_wakeup os L w) = current_tid w"
  "loop_world.more (EventLoop_wakeup os L w) = loop_world.more w"
  by (simp_all add: EventLoop_wakeup_def sys_write_def Let_def)

lemma interest_wakeup [simp]: "interest (hist (EventLoop_wakeup os L w)) ep = interest (hist w) ep"
  by (simp add: EventLoop_wakeup_def sys_write_def Let_def)

lemma queueInLoop_simps [simp]:
  "chans (EventLoop_queueInLoop os L cb w) = chans w"
  "pollers (EventLoop_queueInLoop os L cb w) = pollers w"
  "current_tid (EventLoop_queueInLoop os L cb w) = current_tid w"
  "loop_world.more (EventLoop_queueInLoop os L cb w) = loop_world.more w"
  "interest (hist (EventLoop_queueInLoop os L cb w)) ep = interest (hist w) ep"
  "loops (EventLoop_queueInLoop os L cb w) = (loops w)
     (L := (loops w L)\<lparr>lp_pendingFunctors := lp_pendingFunctors (loops w L) @ [cb]\<rparr>)"
  by (simp_all add: EventLoop_queueInLoop_def Let_def)

lemma poller_inv_cong:
  assumes "chans w' = chans w" "pollers w' L = pollers w L"
    "interest (hist w') (po_epollfd (pollers w L)) = interest (hist w) (po_epollfd (pollers w L))"
  shows "poller_inv L w' = poller_inv L w"
  using assms by (simp add: poller_inv_def chan_ok_def)

lemma poller_inv_upd_loop [simp]: "poller_inv L (upd_loop L' g w) = poller_inv L w"
  by (rule poller_inv_cong) simp_all

lemma poller_inv_queueInLoop [simp]:
  "poller_inv L (EventLoop_queueInLoop os L' cb w) = poller_inv L w"
  by (rule poller_inv_cong) simp_all

text \<open>Changing the events of a channel before \<open>update()\<close> does not touch the poller's invariant.\<close>

lemma poller_inv_events:
  assumes "poller_inv L w" and g: "\<And>ch. ch_index (g ch) = ch_index ch" "\<And>ch. ch_fd (g ch) = ch_fd ch"
    "\<And>ch. ch_loop (g ch) = ch_loop ch"
  shows "poller_inv L (upd_chan c g w)"
proof -
  have ok: "chan_ok M (upd_chan c g w) c' ch' = chan_ok M w c' ch'"
      "chan_ok M w c' (g ch') = chan_ok M w c' ch'" for M c' ch'
    by (simp_all add: chan_ok_def g)
  have live: "\<exists>ch. chans (upd_chan c g w) c' = Some ch \<and> ch_loop ch = L \<and> ch_fd ch = f"
    if "po_channels (pollers w L) f = Some c'" for f c'
    using poller_invD(1) [OF assms(1) that] by (auto simp: g)
  have "chan_ok L w c' ch'" if "chans (upd_chan c g w) c' = Some ch'" "ch_loop ch' = L" for c' ch'
    using that poller_invD(2) [OF assms(1)] by (auto simp: g ok split: if_splits)
  with live poller_invD(3) [OF assms(1)] show ?thesis
    unfolding poller_inv_def ok by simp
qed

text \<open>What the poller does not touch, for the fields a loop adds to the world.\<close>

lemma loop_frameD:
  fixes w w' :: "'w loop_world_scheme"
  assumes "poller_world.more w' = poller_world.more w"
  shows "loops w' = loops w" "current_tid w' = current_tid w"
    "t_loopInThisThread w' = t_loopInThisThread w" "loop_world.more w' = loop_world.more w"
  using assms by (cases w; cases w'; simp)+

subsection \<open>Channel operations\<close>

text \<open>
  One lemma for \<open>enableReading\<close>, \<open>disableReading\<close>, \<open>enableWriting\<close>, \<open>disableWriting\<close> and
  \<open>disableAll\<close>: \<open>g\<close> is the change of the mask.
\<close>

lemmas Channel_op_defs = Channel_enableReading_def Channel_disableReading_def
  Channel_enableWriting_def Channel_disableWriting_def Channel_disableAll_def

lemma Channel_update_effect:
  assumes upd: "Channel_update os c (upd_chan c g w) = Inr w'" and os: "epoll_ok os"
    and inv: "poller_inv L w" and ch: "chans w c = Some ch" "ch_loop ch = L"
    and g: "\<And>ch. ch_index (g ch) = ch_index ch" "\<And>ch. ch_fd (g ch) = ch_fd ch"
      "\<And>ch. ch_loop (g ch) = ch_loop ch"
    and fresh: "ch_index ch = kNew \<Longrightarrow> po_channels (pollers w L) (ch_fd ch) = None"
  shows "poller_inv L w'" and "in_sync L w' c"
    and "chans w' = (chans w)(c \<mapsto> Channel_set_index (next_index (g ch)) (g ch))"
    and "interest (hist w') (po_epollfd (pollers w L))
           = (interest (hist w) (po_epollfd (pollers w L)))(ch_fd ch := next_watch c (g ch))"
    and "po_channels (pollers w' L) = (po_channels (pollers w L))(ch_fd ch \<mapsto> c)"
    and "po_epollfd (pollers w' L) = po_epollfd (pollers w L)"
    and "\<And>L'. L' \<noteq> L \<Longrightarrow> pollers w' L' = pollers w L'"
    and "poller_world.more w' = poller_world.more w"
    and "\<exists>e. hist w' = hist w @ [e] \<and> (\<exists>op r. e = Epoll_ctl (po_epollfd (pollers w L)) op
           (ch_fd ch) (ch_events (g ch)) c r)"
proof -
  let ?w = "upd_chan c g w"
  have c: "chans ?w c = Some (g ch)" "ch_loop (g ch) = L" using ch g by simp_all
  have u: "EPollPoller_updateChannel os L c ?w = Inr w'"
    using upd c by (simp add: Channel_update_def EventLoop_updateChannel_def)
  have i: "poller_inv L ?w" using inv g by (rule poller_inv_events)
  have f: "ch_index (g ch) = kNew \<Longrightarrow> po_channels (pollers ?w L) (ch_fd (g ch)) = None"
    using fresh g by simp
  note eff = updateChannel_effect [OF u os i c]
  show "poller_inv L w'" "in_sync L w' c" using updateChannel_inv [OF u os i c f] by auto
  show "chans w' = (chans w)(c \<mapsto> Channel_set_index (next_index (g ch)) (g ch))"
    using eff(1) by simp
  show "interest (hist w') (po_epollfd (pollers w L))
      = (interest (hist w) (po_epollfd (pollers w L)))(ch_fd ch := next_watch c (g ch))"
    using eff(6) g by simp
  show "po_channels (pollers w' L) = (po_channels (pollers w L))(ch_fd ch \<mapsto> c)"
    using eff(2) g by simp
  show "po_epollfd (pollers w' L) = po_epollfd (pollers w L)" using eff(3) by simp
  show "\<And>L'. L' \<noteq> L \<Longrightarrow> pollers w' L' = pollers w L'" using eff(5) by simp
  show "poller_world.more w' = poller_world.more w" using eff(7) by simp
  show "\<exists>e. hist w' = hist w @ [e] \<and> (\<exists>op r. e = Epoll_ctl (po_epollfd (pollers w L)) op
      (ch_fd ch) (ch_events (g ch)) c r)"
    using eff(8) g by simp
qed

text \<open>
  A registered channel that still wants some event can always be updated: the kernel has its
  descriptor, so \<open>EPOLL_CTL_MOD\<close> succeeds.  Taking a registered channel out succeeds too.
\<close>

lemma Channel_update_added_Inr:
  assumes os: "epoll_ok os" and inv: "poller_inv L w" and ch: "chans w c = Some ch" "ch_loop ch = L"
    and g: "\<And>ch. ch_index (g ch) = ch_index ch" "\<And>ch. ch_fd (g ch) = ch_fd ch"
      "\<And>ch. ch_loop (g ch) = ch_loop ch"
    and added: "ch_index ch = kAdded"
  shows "\<exists>w'. Channel_update os c (upd_chan c g w) = Inr w'"
proof -
  let ?ep = "po_epollfd (pollers w L)"
  from poller_invD(2) [OF inv ch] added obtain ev
    where "interest (hist w) ?ep (ch_fd ch) = Some (ev, c)"
    by (cases rule: chan_ok_cases) (auto simp: kIndex_defs)
  with os have "os_epoll_ctl os (hist w) ?ep EPOLL_CTL_MOD (ch_fd ch) e c = Inr ()"
      "os_epoll_ctl os (hist w) ?ep EPOLL_CTL_DEL (ch_fd ch) e c = Inr ()" for e
    by (simp_all add: epoll_ok_def)
  with ch added show ?thesis
    by (auto simp: Channel_update_def EventLoop_updateChannel_def EPollPoller_updateChannel_def
        EPollPoller_update_def sys_epoll_ctl_def Let_def kIndex_defs g)
qed

lemma next_index_added:
  "ch_index ch = kAdded \<Longrightarrow> \<not> isNoneEvent ch \<Longrightarrow> next_index ch = kAdded"
  by (simp add: next_index_def)

lemma reading_not_none: "isReading ch \<Longrightarrow> \<not> isNoneEvent ch"
  using isNoneEvent_iff by blast

subsection \<open>The loop ends when it is told to\<close>

text \<open>\<open>runs_to n\<close>: \<open>n\<close> iterations, each started with \<open>quit_\<close> unset.\<close>

fun runs_to ::
  "os \<Rightarrow> 'w invoker \<Rightarrow> (conn_ptr \<Rightarrow> 'w loop_world_scheme \<Rightarrow> bool) \<Rightarrow> loop_ptr \<Rightarrow> nat
     \<Rightarrow> 'w loop_world_scheme \<Rightarrow> 'w loop_world_scheme \<Rightarrow> bool" where
  "runs_to os invoke alive L 0 w w' \<longleftrightarrow> w' = w"
| "runs_to os invoke alive L (Suc n) w w' \<longleftrightarrow>
     \<not> lp_quit (loops w L) \<and>
     (\<exists>w1. EventLoop_iteration os invoke alive L w = Inr w1 \<and> runs_to os invoke alive L n w1 w')"

lemma EventLoop_while_ends:
  "runs_to os invoke alive L n w w' \<Longrightarrow> lp_quit (loops w' L) \<Longrightarrow>
     EventLoop_while os invoke alive L w = Some (Inr w')"
proof (induction n arbitrary: w)
  case 0
  then show ?case by (simp add: EventLoop_while.simps)
next
  case (Suc n)
  then obtain w1 where "\<not> lp_quit (loops w L)" "EventLoop_iteration os invoke alive L w = Inr w1"
      "EventLoop_while os invoke alive L w1 = Some (Inr w')"
    by auto
  then show ?case by (subst EventLoop_while.simps) simp
qed

text \<open>How a result of the loop comes about: by rounds up to one that fails, or to the end.\<close>

definition loop_outcome ::
  "os \<Rightarrow> 'w invoker \<Rightarrow> (conn_ptr \<Rightarrow> 'w loop_world_scheme \<Rightarrow> bool) \<Rightarrow> loop_ptr
     \<Rightarrow> 'w loop_world_scheme \<Rightarrow> 'w loop_world_scheme result \<Rightarrow> bool" where
  "loop_outcome os invoke alive L w r \<longleftrightarrow>
     (\<exists>n w1. runs_to os invoke alive L n w w1 \<and>
        (case r of Inr w' \<Rightarrow> w' = w1 \<and> lp_quit (loops w1 L)
         | Inl e \<Rightarrow> \<not> lp_quit (loops w1 L) \<and> EventLoop_iteration os invoke alive L w1 = Inl e))"

lemma loop_outcome_step:
  assumes "\<not> lp_quit (loops w L)" "EventLoop_iteration os invoke alive L w = Inr w1"
    and "loop_outcome os invoke alive L w1 r"
  shows "loop_outcome os invoke alive L w r"
proof -
  from assms(3) obtain n w2 where "runs_to os invoke alive L n w1 w2"
      "case r of Inr w' \<Rightarrow> w' = w2 \<and> lp_quit (loops w2 L)
       | Inl e \<Rightarrow> \<not> lp_quit (loops w2 L) \<and> EventLoop_iteration os invoke alive L w2 = Inl e"
    unfolding loop_outcome_def by blast
  with assms(1,2) show ?thesis
    unfolding loop_outcome_def by (intro exI [of _ "Suc n"] exI [of _ w2]) simp
qed

lemma EventLoop_while_outcome:
  assumes "EventLoop_while os invoke alive L w = Some r"
  shows "loop_outcome os invoke alive L w r"
proof (rule EventLoop_while.raw_induct [where P = loop_outcome, OF _ assms])
  fix rec os invoke alive L and w :: "'a loop_world_scheme" and r
  assume IH: "\<And>os invoke alive L (w :: 'a loop_world_scheme) r.
      rec os invoke alive L w = Some r \<Longrightarrow> loop_outcome os invoke alive L w r"
    and eq: "(if lp_quit (loops w L) then Some (Inr w)
      else case EventLoop_iteration os invoke alive L w of Inl e \<Rightarrow> Some (Inl e)
           | Inr w' \<Rightarrow> rec os invoke alive L w') = Some r"
  show "loop_outcome os invoke alive L w r"
  proof (cases "lp_quit (loops w L)")
    case True
    with eq show ?thesis unfolding loop_outcome_def by (intro exI [of _ 0] exI [of _ w]) auto
  next
    case False
    show ?thesis
    proof (cases "EventLoop_iteration os invoke alive L w")
      case (Inl e)
      with False eq show ?thesis
        unfolding loop_outcome_def by (intro exI [of _ 0] exI [of _ w]) auto
    next
      case (Inr w1)
      with False eq have "rec os invoke alive L w1 = Some r" by simp
      with False Inr show ?thesis by (intro loop_outcome_step [OF _ _ IH])
    qed
  qed
qed

lemma EventLoop_while_fails:
  "runs_to os invoke alive L n w w1 \<Longrightarrow> \<not> lp_quit (loops w1 L) \<Longrightarrow>
     EventLoop_iteration os invoke alive L w1 = Inl e \<Longrightarrow>
     EventLoop_while os invoke alive L w = Some (Inl e)"
proof (induction n arbitrary: w)
  case 0
  then show ?case by (subst EventLoop_while.simps) simp
next
  case (Suc n)
  then obtain w2 where "\<not> lp_quit (loops w L)" "EventLoop_iteration os invoke alive L w = Inr w2"
      "EventLoop_while os invoke alive L w2 = Some (Inl e)"
    by auto
  then show ?case by (subst EventLoop_while.simps) simp
qed

lemma EventLoop_while_iff:
  "EventLoop_while os invoke alive L w = Some r \<longleftrightarrow> loop_outcome os invoke alive L w r"
proof
  assume "loop_outcome os invoke alive L w r"
  then obtain n w1 where "runs_to os invoke alive L n w w1" and
      r: "case r of Inr w' \<Rightarrow> w' = w1 \<and> lp_quit (loops w1 L)
       | Inl e \<Rightarrow> \<not> lp_quit (loops w1 L) \<and> EventLoop_iteration os invoke alive L w1 = Inl e"
    unfolding loop_outcome_def by blast
  then show "EventLoop_while os invoke alive L w = Some r"
    using EventLoop_while_ends EventLoop_while_fails by (cases r) fastforce+
qed (rule EventLoop_while_outcome)

subsection \<open>The size of the event list\<close>

text \<open>Only \<open>poll\<close> changes it.\<close>

lemma poller_update_hist:
  assumes "EPollPoller_update os L op p w = Inr w'" "chans w p = Some ch"
  shows "w' = w\<lparr>hist := hist w @ [Epoll_ctl (po_epollfd (pollers w L)) op (ch_fd ch) (ch_events ch) p
    (os_epoll_ctl os (hist w) (po_epollfd (pollers w L)) op (ch_fd ch) (ch_events ch) p)]\<rparr>"
  using assms
  by (simp add: EPollPoller_update_def sys_epoll_ctl_def Let_def split: sum.splits if_splits)

lemma update_pollers: "EPollPoller_update os L op c w = Inr w' \<Longrightarrow> pollers w' = pollers w"
proof -
  assume u: "EPollPoller_update os L op c w = Inr w'"
  then obtain ch where "chans w c = Some ch" by (cases "chans w c") (auto simp: EPollPoller_update_def deref_def)
  from poller_update_hist [OF u this] show ?thesis by simp
qed

lemma Channel_update_capacity:
  "Channel_update os c w = Inr w' \<Longrightarrow> \<forall>M. po_capacity (pollers w' M) = po_capacity (pollers w M)"
  by (auto simp: Channel_update_def EventLoop_updateChannel_def EPollPoller_updateChannel_def Let_def res_simps upd_chan_def
      dest!: update_pollers split: if_splits)

lemma Channel_remove_capacity:
  "Channel_remove os c w = Inr w' \<Longrightarrow> \<forall>M. po_capacity (pollers w' M) = po_capacity (pollers w M)"
  by (auto simp: Channel_remove_def EventLoop_removeChannel_def EPollPoller_removeChannel_def Let_def res_simps upd_chan_def
      dest!: update_pollers split: if_splits)

subsection \<open>Properties\<close>


end
