(* ===== verification/StdSet.thy ===== *)
theory StdSet
  imports Prelude
begin

section \<open>std::set as a strictly sorted list\<close>

text \<open>
  The \<open>std::set\<close> operations that \<open>TimerQueue\<close> uses: \<open>insert\<close>, \<open>begin\<close>, and the pair
  \<open>lower_bound\<close>/\<open>erase\<close> that cuts off everything below a bound.  The locale is the contract: the
  elements as a mathematical set, the least one first, and the cut; what the timer queue needs
  beyond it is derived once inside the locale.
\<close>

fun set_insert :: "'a::linorder \<Rightarrow> 'a list \<Rightarrow> 'a list" where
  "set_insert x [] = [x]"
| "set_insert x (y # ys) =
     (if x < y then x # y # ys else if y < x then y # set_insert x ys else y # ys)"

definition set_begin :: "'a list \<Rightarrow> 'a option" where
  "set_begin xs = (case xs of [] \<Rightarrow> None | x # _ \<Rightarrow> Some x)"

text \<open>\<open>[begin, lower_bound(b))\<close> and the rest.\<close>

definition set_cut :: "'a::linorder \<Rightarrow> 'a list \<Rightarrow> 'a list \<times> 'a list" where
  "set_cut b xs = (takeWhile (\<lambda>x. x < b) xs, dropWhile (\<lambda>x. x < b) xs)"

abbreviation strictly_sorted :: "'a::linorder list \<Rightarrow> bool" where
  "strictly_sorted \<equiv> sorted_wrt (<)"

locale ordered_set =
  fixes elems :: "'s \<Rightarrow> 'a::linorder set"
    and ok :: "'s \<Rightarrow> bool"
    and ins :: "'a \<Rightarrow> 's \<Rightarrow> 's"
    and least :: "'s \<Rightarrow> 'a option"
    and cut :: "'a \<Rightarrow> 's \<Rightarrow> 'a list \<times> 's"
  assumes finite_elems: "finite (elems s)"
    and ins_law: "ok s \<Longrightarrow> ok (ins x s) \<and> elems (ins x s) = insert x (elems s)"
    and least_law: "ok s \<Longrightarrow> least s = (if elems s = {} then None else Some (Min (elems s)))"
    and cut_law: "ok s \<Longrightarrow> cut b s = (xs, s') \<Longrightarrow>
      ok s' \<and> strictly_sorted xs \<and> set xs = {x \<in> elems s. x < b} \<and> elems s' = {x \<in> elems s. \<not> x < b}"
begin

lemma least_ins:
  "ok s \<Longrightarrow> least (ins x s) = Some (case least s of None \<Rightarrow> x | Some y \<Rightarrow> min x y)"
proof (cases "elems s = {}")
  case True
  then show "ok s \<Longrightarrow> ?thesis" using ins_law [of s x] least_law [of s] least_law [of "ins x s"] by simp
next
  case False
  assume s: "ok s"
  have "Min (insert x (elems s)) = min x (Min (elems s))"
    using False finite_elems by (rule Min_insert [rotated])
  with s False ins_law [OF s, of x] least_law [OF s] least_law [of "ins x s"] show ?thesis by simp
qed

lemma least_le: "ok s \<Longrightarrow> least s = Some x \<Longrightarrow> y \<in> elems s \<Longrightarrow> x \<le> y"
  using least_law [of s] finite_elems [of s] by (auto split: if_splits)

lemma least_mem: "ok s \<Longrightarrow> least s = Some x \<Longrightarrow> x \<in> elems s"
  using least_law [of s] Min_in [OF finite_elems [of s]] by (auto split: if_splits)

lemma cut_partition:
  "ok s \<Longrightarrow> cut b s = (xs, s') \<Longrightarrow> set xs \<union> elems s' = elems s \<and> set xs \<inter> elems s' = {}"
  using cut_law [of s b xs s'] by auto

lemma least_None: "ok s \<Longrightarrow> least s = None \<longleftrightarrow> elems s = {}"
  using least_law [of s] by simp

end

lemma set_set_insert [simp]: "set (set_insert x xs) = insert x (set xs)"
  by (induction xs) auto

lemma strictly_sorted_set_insert: "strictly_sorted xs \<Longrightarrow> strictly_sorted (set_insert x xs)"
  by (induction xs) auto

lemma set_begin_Min:
  "strictly_sorted xs \<Longrightarrow> set_begin xs = (if set xs = {} then None else Some (Min (set xs)))"
proof (cases xs)
  case (Cons x ys)
  assume "strictly_sorted xs"
  with Cons have "\<forall>y \<in> set ys. x < y" by simp
  then have "Min (insert x (set ys)) = x" by (intro Min_eqI) auto
  with Cons show ?thesis by (simp add: set_begin_def)
qed (simp add: set_begin_def)

lemma sorted_takeWhile_filter:
  "strictly_sorted xs \<Longrightarrow> takeWhile (\<lambda>x. x < b) xs = filter (\<lambda>x. x < b) xs"
proof (induction xs)
  case (Cons x xs)
  show ?case
  proof (cases "x < b")
    case True
    with Cons show ?thesis by simp
  next
    case False
    with Cons.prems have "filter (\<lambda>x. x < b) xs = []" by (auto simp: filter_empty_conv)
    with False show ?thesis by simp
  qed
qed simp

lemma sorted_dropWhile_filter:
  "strictly_sorted xs \<Longrightarrow> dropWhile (\<lambda>x. x < b) xs = filter (\<lambda>x. \<not> x < b) xs"
proof (induction xs)
  case (Cons x xs)
  show ?case
  proof (cases "x < b")
    case True
    with Cons show ?thesis by simp
  next
    case False
    with Cons.prems have "filter (\<lambda>x. \<not> x < b) xs = xs" by (auto simp: filter_id_conv)
    with False show ?thesis by simp
  qed
qed simp

lemma set_cut_filter:
  "strictly_sorted xs \<Longrightarrow>
     set_cut b xs = (filter (\<lambda>x. x < b) xs, filter (\<lambda>x. \<not> x < b) xs)"
  by (simp add: set_cut_def sorted_takeWhile_filter sorted_dropWhile_filter)

interpretation oset: ordered_set set strictly_sorted set_insert set_begin set_cut
  by unfold_locales
     (auto simp: set_cut_filter sorted_wrt_filter strictly_sorted_set_insert set_begin_Min)

end
