(* ===== verification/TimerQueue.thy ===== *)
theory TimerQueue
  imports EventLoop StdSet "HOL-Library.Product_Lexorder"
begin

section \<open>Timers and the timer queue of a loop\<close>

text \<open>
  \<open>src/src/Timer.h\<close>, \<open>Timer.cc\<close>, \<open>TimerId.h\<close>, \<open>TimerQueue.h\<close> and \<open>TimerQueue.cc\<close>, and the
  operations of \<open>EventLoop\<close> that use the queue.  Timers are heap objects: the store \<open>timers\<close> maps
  the address of a live timer to it.  The queue of a loop is the ordered set \<open>timers_\<close> of pairs of
  an expiration and an address, compared lexicographically; an address is a 64-bit word, so that
  the sentry \<open>UINTPTR_MAX\<close> is the largest one.  \<open>activeTimers_\<close> is declared but never used.
\<close>

subsection \<open>Timers\<close>

record timer =
  tm_callback :: closure
  tm_expiration :: timestamp
  tm_interval :: int32
  tm_repeat :: bool
  tm_sequence :: int64

type_synonym entry = "timestamp \<times> timer_ptr"

record timerqueue =
  tq_timerfd :: fd
  tq_timerfdChannel :: chan_ptr
  tq_timers :: "entry list"
  tq_callingExpiredTimers :: bool

record timer_world = loop_world +
  timers :: "timer_ptr \<rightharpoonup> timer"
  s_numCreated :: int64
  timerqueues :: "loop_ptr \<Rightarrow> timerqueue"

record timer_id =
  ti_timer :: timer_ptr
  ti_sequence :: int64

text \<open>\<open>new Timer(...)\<close> at the address \<open>p\<close>: the atomic counter gives the sequence number.\<close>

definition Timer_new ::
  "timer_ptr \<Rightarrow> closure \<Rightarrow> timestamp \<Rightarrow> int32 \<Rightarrow> 'w timer_world_scheme \<Rightarrow> 'w timer_world_scheme" where
  "Timer_new p cb when interval w =
     (let n = s_numCreated w + 1
      in w\<lparr>s_numCreated := n,
           timers := (timers w)(p \<mapsto> \<lparr>tm_callback = cb, tm_expiration = when, tm_interval = interval,
             tm_repeat = (0 < sint interval), tm_sequence = n\<rparr>)\<rparr>)"

definition Timer_restart :: "timestamp \<Rightarrow> timer \<Rightarrow> timer result" where
  "Timer_restart now t =
     (if tm_repeat t
      then bindE (addTime now (tm_interval t)) (\<lambda>e. Inr (t\<lparr>tm_expiration := e\<rparr>))
      else Inr (t\<lparr>tm_expiration := Timestamp_zero\<rparr>))"

subsection \<open>The timer descriptor\<close>

definition howMuchTimeFromNow ::
  "os \<Rightarrow> timestamp \<Rightarrow> 'w timer_world_scheme \<Rightarrow> ((int64 \<times> int64) \<times> 'w timer_world_scheme) result" where
  "howMuchTimeFromNow os when w =
     bindE (Timestamp_now os w) (\<lambda>(now, w1).
     bindE (s_int (micros when - micros now) :: int64 result) (\<lambda>diff.
     let microseconds = (if sint diff < 100 then 100 else sint diff)
     in Inr ((word_of_int (microseconds div 1000000),
              word_of_int (microseconds mod 1000000 * 1000)), w1)))"

definition resetTimerfd ::
  "os \<Rightarrow> fd \<Rightarrow> timestamp \<Rightarrow> 'w timer_world_scheme \<Rightarrow> 'w timer_world_scheme result" where
  "resetTimerfd os timerfd expiration w =
     bindE (howMuchTimeFromNow os expiration w) (\<lambda>((sec, nsec), w1).
     Inr (sys_timerfd_settime timerfd sec nsec w1))"

definition readTimerfd :: "os \<Rightarrow> fd \<Rightarrow> 'w timer_world_scheme \<Rightarrow> 'w timer_world_scheme" where
  "readTimerfd os timerfd w = snd (sys_read os timerfd 8 w)"

subsection \<open>The queue\<close>

definition upd_tq :: "loop_ptr \<Rightarrow> (timerqueue \<Rightarrow> timerqueue) \<Rightarrow> 'w timer_world_scheme \<Rightarrow> 'w timer_world_scheme" where
  "upd_tq L g w = w\<lparr>timerqueues := (timerqueues w)(L := g (timerqueues w L))\<rparr>"

definition TimerQueue_insert ::
  "loop_ptr \<Rightarrow> timer_ptr \<Rightarrow> 'w timer_world_scheme \<Rightarrow> (bool \<times> 'w timer_world_scheme) result" where
  "TimerQueue_insert L p w =
     bindE (deref (timers w) p) (\<lambda>timer.
     let when = tm_expiration timer;
         earliestChanged = (case set_begin (tq_timers (timerqueues w L)) of
                              None \<Rightarrow> True | Some e \<Rightarrow> Timestamp_less when (fst e))
     in Inr (earliestChanged,
             upd_tq L (\<lambda>q. q\<lparr>tq_timers := set_insert (when, p) (tq_timers q)\<rparr>) w))"

definition TimerQueue_addTimerInLoop ::
  "os \<Rightarrow> loop_ptr \<Rightarrow> timer_ptr \<Rightarrow> 'w timer_world_scheme \<Rightarrow> 'w timer_world_scheme result" where
  "TimerQueue_addTimerInLoop os L p w =
     bindE (TimerQueue_insert L p w) (\<lambda>(earliestChanged, w1).
     if earliestChanged
     then bindE (deref (timers w1) p) (\<lambda>timer.
          resetTimerfd os (tq_timerfd (timerqueues w1 L)) (tm_expiration timer) w1)
     else Inr w1)"

text \<open>
  \<open>addTimer\<close>: the sequence number is read through the pointer after the timer has been handed to
  the loop.  \<open>p\<close> is the address \<open>new\<close> returns.
\<close>

definition TimerQueue_addTimer ::
  "os \<Rightarrow> loop_ptr \<Rightarrow> timer_ptr \<Rightarrow> closure \<Rightarrow> timestamp \<Rightarrow> int32 \<Rightarrow> 'w timer_world_scheme
     \<Rightarrow> (timer_id \<times> 'w timer_world_scheme) result" where
  "TimerQueue_addTimer os L p cb when interval w =
     bindE (EventLoop_runInLoop os L (Bind_TimerQueue_addTimerInLoop L p)
              (TimerQueue_addTimerInLoop os L p) (Timer_new p cb when interval w)) (\<lambda>w1.
     bindE (deref (timers w1) p) (\<lambda>timer.
     Inr (\<lparr>ti_timer = p, ti_sequence = tm_sequence timer\<rparr>, w1)))"

definition TimerQueue_getExpired ::
  "loop_ptr \<Rightarrow> timestamp \<Rightarrow> 'w timer_world_scheme \<Rightarrow> entry list \<times> 'w timer_world_scheme" where
  "TimerQueue_getExpired L now w =
     (let sentry = (now, -1 :: timer_ptr);
          (expired, rest) = set_cut sentry (tq_timers (timerqueues w L))
      in (expired, upd_tq L (\<lambda>q. q\<lparr>tq_timers := rest\<rparr>) w))"

text \<open>\<open>delete\<close> of a timer; deleting one that is gone is a double free.\<close>

definition Timer_delete :: "timer_ptr \<Rightarrow> 'w timer_world_scheme \<Rightarrow> 'w timer_world_scheme result" where
  "Timer_delete p w = bindE (deref (timers w) p) (\<lambda>_. Inr (w\<lparr>timers := (timers w)(p := None)\<rparr>))"

definition TimerQueue_reset ::
  "os \<Rightarrow> loop_ptr \<Rightarrow> entry list \<Rightarrow> timestamp \<Rightarrow> 'w timer_world_scheme \<Rightarrow> 'w timer_world_scheme result" where
  "TimerQueue_reset os L expired now w =
     bindE (foldE (\<lambda>it. Timer_delete (snd it)) expired w) (\<lambda>w1.
     bindE (case set_begin (tq_timers (timerqueues w1 L)) of
              None \<Rightarrow> Inr Timestamp_zero
            | Some e \<Rightarrow> bindE (deref (timers w1) (snd e)) (\<lambda>t. Inr (tm_expiration t))) (\<lambda>nextExpire.
     if 0 < micros nextExpire
     then resetTimerfd os (tq_timerfd (timerqueues w1 L)) nextExpire w1
     else Inr w1))"

definition Timer_run ::
  "(closure \<Rightarrow> 'w timer_world_scheme \<Rightarrow> 'w timer_world_scheme result) \<Rightarrow> timer_ptr
     \<Rightarrow> 'w timer_world_scheme \<Rightarrow> 'w timer_world_scheme result" where
  "Timer_run run p w = bindE (deref (timers w) p) (\<lambda>t. run (tm_callback t) w)"

definition TimerQueue_handleRead ::
  "os \<Rightarrow> (closure \<Rightarrow> 'w timer_world_scheme \<Rightarrow> 'w timer_world_scheme result) \<Rightarrow> loop_ptr
     \<Rightarrow> 'w timer_world_scheme \<Rightarrow> 'w timer_world_scheme result" where
  "TimerQueue_handleRead os run L w =
     bindE (Timestamp_now os w) (\<lambda>(now, w1).
     let w2 = readTimerfd os (tq_timerfd (timerqueues w1 L)) w1 in
     case TimerQueue_getExpired L now w2 of (expired, w3) \<Rightarrow>
     let w4 = upd_tq L (\<lambda>q. q\<lparr>tq_callingExpiredTimers := True\<rparr>) w3 in
     bindE (foldE (\<lambda>it. Timer_run run (snd it)) expired w4) (\<lambda>w5.
     let w6 = upd_tq L (\<lambda>q. q\<lparr>tq_callingExpiredTimers := False\<rparr>) w5 in
     TimerQueue_reset os L expired now w6))"

text \<open>
  The constructor, given the descriptor of \<open>timerfd_create\<close> and the address of the channel; and the
  destructor, which closes the descriptor but leaves the timers that are still queued.
\<close>

definition TimerQueue_ctor ::
  "os \<Rightarrow> loop_ptr \<Rightarrow> fd \<Rightarrow> chan_ptr \<Rightarrow> 'w timer_world_scheme \<Rightarrow> 'w timer_world_scheme result" where
  "TimerQueue_ctor os L timerfd c w =
     (let w1 = upd_tq L (\<lambda>q. \<lparr>tq_timerfd = timerfd, tq_timerfdChannel = c, tq_timers = [],
                              tq_callingExpiredTimers = tq_callingExpiredTimers q\<rparr>)
                 (w\<lparr>chans := (chans w)(c \<mapsto> (Channel_new L timerfd)
                     \<lparr>ch_readCallback := Some (Bind_TimerQueue_handleRead L)\<rparr>)\<rparr>)
      in Channel_enableReading os c w1)"

definition TimerQueue_dtor ::
  "os \<Rightarrow> loop_ptr \<Rightarrow> 'w timer_world_scheme \<Rightarrow> 'w timer_world_scheme result" where
  "TimerQueue_dtor os L w =
     (let c = tq_timerfdChannel (timerqueues w L) in
      bindE (Channel_disableAll os c w) (\<lambda>w1.
      bindE (Channel_remove os c w1) (\<lambda>w2.
      Inr ((snd (sys_close os (tq_timerfd (timerqueues w2 L)) w2))
             \<lparr>chans := (chans w2)(c := None)\<rparr>))))"

subsection \<open>The operations of the loop that use the queue\<close>

definition EventLoop_runAt ::
  "os \<Rightarrow> loop_ptr \<Rightarrow> timer_ptr \<Rightarrow> timestamp \<Rightarrow> closure \<Rightarrow> 'w timer_world_scheme
     \<Rightarrow> (timer_id \<times> 'w timer_world_scheme) result" where
  "EventLoop_runAt os L p time cb w = TimerQueue_addTimer os L p cb time 0 w"

definition EventLoop_runAfter ::
  "os \<Rightarrow> loop_ptr \<Rightarrow> timer_ptr \<Rightarrow> int32 \<Rightarrow> closure \<Rightarrow> 'w timer_world_scheme
     \<Rightarrow> (timer_id \<times> 'w timer_world_scheme) result" where
  "EventLoop_runAfter os L p delay cb w =
     bindE (Timestamp_now os w) (\<lambda>(now, w1).
     bindE (addTime now delay) (\<lambda>time.
     EventLoop_runAt os L p time cb w1))"

text \<open>
  The constructor of a loop: the poller, the wake-up descriptor and its channel, and the timer
  queue, in the order of the members; then the check that the thread has no loop yet.  Without a
  poller the timer queue registers its channel through a null pointer.  \<open>epollfd\<close>,
  \<open>evfd\<close> are the results of \<open>epoll_create1\<close> and \<open>eventfd\<close>, \<open>timerfd\<close> that of \<open>timerfd_create\<close>,
  \<open>cw\<close> and \<open>ct\<close> the addresses of the two channels.
\<close>

definition EventLoop_ctor ::
  "os \<Rightarrow> loop_ptr \<Rightarrow> bool \<Rightarrow> errno + fd \<Rightarrow> errno + fd \<Rightarrow> fd \<Rightarrow> chan_ptr \<Rightarrow> chan_ptr
     \<Rightarrow> 'w timer_world_scheme \<Rightarrow> 'w timer_world_scheme result" where
  "EventLoop_ctor os L use_poll epollfd evfd timerfd cw ct w =
     bindE (Poller_newDefaultPoller use_poll epollfd) (\<lambda>pollerptr.
     case evfd of Inl _ \<Rightarrow> Inl Abort | Inr wakeupFd \<Rightarrow>
     case pollerptr of None \<Rightarrow> Inl Use_After_Free | Some poller \<Rightarrow>
     let w1 = upd_poller L (\<lambda>_. poller) w;
         w2 = upd_loop L (\<lambda>l. \<lparr>lp_looping = False, lp_quit = False, lp_threadId = current_tid w1,
                lp_pollReturnTime = Timestamp_zero, lp_wakeupFd = wakeupFd, lp_wakeupChannel = cw,
                lp_activeChannels = [], lp_callingPendingFunctors = False,
                lp_pendingFunctors = []\<rparr>) w1;
         w3 = w2\<lparr>chans := (chans w2)(cw \<mapsto> Channel_new L wakeupFd)\<rparr>
     in bindE (TimerQueue_ctor os L timerfd ct w3) (\<lambda>w4.
        if t_loopInThisThread w4 (current_tid w4) \<noteq> None then Inl Exit
        else let w5 = w4\<lparr>t_loopInThisThread := (t_loopInThisThread w4)(current_tid w4 \<mapsto> L)\<rparr>
          in Channel_enableReading os cw
               (upd_chan cw (\<lambda>ch. ch\<lparr>ch_readCallback := Some (Bind_EventLoop_handleRead L)\<rparr>) w5)))"

definition EventLoop_dtor ::
  "os \<Rightarrow> loop_ptr \<Rightarrow> 'w timer_world_scheme \<Rightarrow> 'w timer_world_scheme result" where
  "EventLoop_dtor os L w =
     (let cw = lp_wakeupChannel (loops w L) in
      bindE (Channel_disableAll os cw w) (\<lambda>w1.
      bindE (Channel_remove os cw w1) (\<lambda>w2.
      let w3 = snd (sys_close os (lp_wakeupFd (loops w2 L)) w2);
          w4 = w3\<lparr>t_loopInThisThread := (t_loopInThisThread w3)(current_tid w3 := None)\<rparr>
      in bindE (TimerQueue_dtor os L w4) (\<lambda>w5.
         Inr ((snd (sys_close os (po_epollfd (pollers w5 L)) w5))
                \<lparr>chans := (chans w5)(cw := None)\<rparr>)))))"

subsection \<open>Arming the timer descriptor\<close>

lemma upd_tq_simps [simp]:
  "timerqueues (upd_tq L g w) = (timerqueues w)(L := g (timerqueues w L))"
  "hist (upd_tq L g w) = hist w" "timers (upd_tq L g w) = timers w" "chans (upd_tq L g w) = chans w"
  "loops (upd_tq L g w) = loops w" "pollers (upd_tq L g w) = pollers w"
  "current_tid (upd_tq L g w) = current_tid w"
  by (simp_all add: upd_tq_def)

text \<open>The range of expirations for which no subtraction of two times overflows.\<close>

definition sane_time :: "timestamp \<Rightarrow> bool" where
  "sane_time t \<longleftrightarrow> 0 < micros t \<and> micros t < 2 ^ 62"

lemma howMuchTimeFromNow_ok:
  assumes clock: "clock_ok os" and range: "- (2 ^ 62) \<le> micros when" "micros when < 2 ^ 62"
  shows "\<exists>now sec nsec. Timestamp_now os w = Inr (now, snd (sys_gettimeofday os w)) \<and>
    howMuchTimeFromNow os when w = Inr ((sec, nsec), snd (sys_gettimeofday os w)) \<and>
    sint sec = max 100 (micros when - micros now) div 1000000 \<and>
    sint nsec = max 100 (micros when - micros now) mod 1000000 * 1000 \<and>
    micros now = sint (fst (os_gettimeofday os (hist w))) * 1000000
                 + sint (snd (os_gettimeofday os (hist w)))"
proof -
  from Timestamp_now_ok [OF clock, of w] obtain now where
    now: "Timestamp_now os w = Inr (now, snd (sys_gettimeofday os w))" and
    v: "micros now = sint (fst (os_gettimeofday os (hist w))) * 1000000
                 + sint (snd (os_gettimeofday os (hist w)))"
    by blast
  have b: "0 \<le> micros now" "micros now < 2 ^ 61"
  proof -
    have "0 \<le> sint (fst (os_gettimeofday os (hist w)))" "sint (fst (os_gettimeofday os (hist w))) < 2 ^ 40"
      "0 \<le> sint (snd (os_gettimeofday os (hist w)))" "sint (snd (os_gettimeofday os (hist w))) < 1000000"
      using clock by (auto simp: clock_ok_def)
    then show "0 \<le> micros now" "micros now < 2 ^ 61" by (simp_all add: v)
  qed
  let ?d = "micros when - micros now"
  have d: "- (2 ^ 63) \<le> ?d" "?d < 2 ^ 63" using b range by simp_all
  then have s: "(s_int ?d :: int64 result) = Inr (word_of_int ?d)" by (simp add: s_int_def)
  have sd: "sint (word_of_int ?d :: int64) = ?d"
    using d by (intro sint_word_of_int_small) simp_all
  let ?u = "max 100 ?d"
  have u: "(if sint (word_of_int ?d :: int64) < 100 then 100 else sint (word_of_int ?d :: int64)) = ?u"
    using sd by simp
  have "0 \<le> ?u div 1000000" by (simp add: pos_imp_zdiv_nonneg_iff)
  moreover have "?u div 1000000 \<le> ?u" using zdiv_mono2 [of ?u 1 1000000] by simp
  ultimately have "0 \<le> ?u div 1000000 \<and> ?u div 1000000 < 2 ^ 63" using d by linarith
  then have "sint (word_of_int (?u div 1000000) :: int64) = ?u div 1000000"
    by (intro sint_word_of_int_small) simp_all
  moreover have "0 \<le> ?u mod 1000000" "?u mod 1000000 < 1000000" by simp_all
  then have "sint (word_of_int (?u mod 1000000 * 1000) :: int64) = ?u mod 1000000 * 1000"
    by (intro sint_word_of_int_small) simp_all
  ultimately show ?thesis
    using now s v u by (auto simp: howMuchTimeFromNow_def Let_def)
qed

lemma resetTimerfd_ok:
  assumes "clock_ok os" "sane_time e"
  shows "\<exists>w' n. resetTimerfd os f e w = Inr w' \<and> w' = w\<lparr>hist := hist w'\<rparr> \<and>
    arming (hist w') f = Some (n, max 100 (micros e - n)) \<and> interest (hist w') = interest (hist w)"
proof -
  from assms(2) have "- (2 ^ 62) \<le> micros e" "micros e < 2 ^ 62" by (auto simp: sane_time_def)
  from howMuchTimeFromNow_ok [OF assms(1) this, of w] obtain now sec nsec where
    h: "howMuchTimeFromNow os e w = Inr ((sec, nsec), snd (sys_gettimeofday os w))"
    and s: "sint sec = max 100 (micros e - micros now) div 1000000"
      "sint nsec = max 100 (micros e - micros now) mod 1000000 * 1000"
    and n: "micros now = sint (fst (os_gettimeofday os (hist w))) * 1000000
                 + sint (snd (os_gettimeofday os (hist w)))"
    by blast
  let ?w = "sys_timerfd_settime f sec nsec (snd (sys_gettimeofday os w))"
  have "sint sec * 1000000 + sint nsec div 1000 = max 100 (micros e - micros now)"
    unfolding s by simp
  then have "arming (hist ?w) f = Some (micros now, max 100 (micros e - micros now))"
    by (cases "arming_state (hist w) f")
       (simp add: arming_def sys_timerfd_settime_def sys_gettimeofday_def Let_def n)
  moreover have "resetTimerfd os f e w = Inr ?w" by (simp add: resetTimerfd_def h)
  moreover have "?w = w\<lparr>hist := hist ?w\<rparr>"
    by (simp add: sys_timerfd_settime_def sys_gettimeofday_def Let_def)
  moreover have "interest (hist ?w) = interest (hist w)"
    by (rule ext) (simp add: sys_timerfd_settime_def sys_gettimeofday_def Let_def)
  ultimately show ?thesis by blast
qed

subsection \<open>The invariant of the queue\<close>

definition tq_entries :: "loop_ptr \<Rightarrow> 'w timer_world_scheme \<Rightarrow> entry list" where
  "tq_entries L w = tq_timers (timerqueues w L)"

definition entry_ok :: "('w timer_world_scheme) \<Rightarrow> entry \<Rightarrow> bool" where
  "entry_ok w e \<longleftrightarrow> snd e \<noteq> -1 \<and> sane_time (fst e) \<and>
     (\<exists>t. timers w (snd e) = Some t \<and> tm_expiration t = fst e)"

definition timers_wf :: "loop_ptr \<Rightarrow> 'w timer_world_scheme \<Rightarrow> bool" where
  "timers_wf L w \<longleftrightarrow> strictly_sorted (tq_entries L w) \<and> (\<forall>e \<in> set (tq_entries L w). entry_ok w e)"

text \<open>The descriptor is armed for the earliest timer, at least 100 microseconds ahead.\<close>

definition timers_armed :: "loop_ptr \<Rightarrow> 'w timer_world_scheme \<Rightarrow> bool" where
  "timers_armed L w \<longleftrightarrow>
     (\<forall>e. set_begin (tq_entries L w) = Some e \<longrightarrow>
        (\<exists>n. arming (hist w) (tq_timerfd (timerqueues w L)) = Some (n, max 100 (micros (fst e) - n))))"

lemma same_pointer_same_entry:
  "timers_wf L w \<Longrightarrow> e \<in> set (tq_entries L w) \<Longrightarrow> e' \<in> set (tq_entries L w) \<Longrightarrow>
     snd e = snd e' \<Longrightarrow> e = e'"
  unfolding timers_wf_def entry_ok_def by (metis option.inject prod.expand)

lemma addTimerInLoop_ok:
  assumes clock: "clock_ok os" and wf: "timers_wf L w" and armed: "timers_armed L w"
    and p: "timers w p = Some t" "p \<noteq> -1" "sane_time (tm_expiration t)"
  shows "\<exists>w'. TimerQueue_addTimerInLoop os L p w = Inr w' \<and> timers_wf L w' \<and> timers_armed L w' \<and>
    set (tq_entries L w') = insert (tm_expiration t, p) (set (tq_entries L w)) \<and>
    timers w' = timers w \<and> interest (hist w') = interest (hist w)"
proof -
  let ?e = "(tm_expiration t, p)" and ?q = "timerqueues w L"
  let ?w = "upd_tq L (\<lambda>q. q\<lparr>tq_timers := set_insert ?e (tq_timers q)\<rparr>) w"
  let ?changed = "case set_begin (tq_timers ?q) of
    None \<Rightarrow> True | Some e \<Rightarrow> Timestamp_less (tm_expiration t) (fst e)"
  have ins: "TimerQueue_insert L p w = Inr (?changed, ?w)"
    using p by (simp add: TimerQueue_insert_def Let_def)
  have sorted: "strictly_sorted (tq_entries L w)" using wf by (simp add: timers_wf_def)
  have ent: "tq_entries L ?w = set_insert ?e (tq_entries L w)" by (simp add: tq_entries_def)
  have wf': "timers_wf L ?w"
    using wf p oset.ins_law [OF sorted, of ?e] by (auto simp: timers_wf_def ent entry_ok_def)
  have begin': "set_begin (tq_entries L ?w)
      = Some (case set_begin (tq_entries L w) of None \<Rightarrow> ?e | Some y \<Rightarrow> min ?e y)"
    unfolding ent by (rule oset.least_ins [OF sorted])
  show ?thesis
  proof (cases ?changed)
    case True
    with begin' have first: "set_begin (tq_entries L ?w) = Some ?e"
      by (auto simp: tq_entries_def min_def less_eq_prod_def Timestamp_less_iff split: option.splits)
    from resetTimerfd_ok [OF clock p(3), of "tq_timerfd (timerqueues ?w L)" ?w] obtain w' n where
      w': "resetTimerfd os (tq_timerfd (timerqueues ?w L)) (tm_expiration t) ?w = Inr w'"
        "w' = ?w\<lparr>hist := hist w'\<rparr>"
        "arming (hist w') (tq_timerfd (timerqueues ?w L))
           = Some (n, max 100 (micros (tm_expiration t) - n))"
        "interest (hist w') = interest (hist ?w)"
      by blast
    have same: "timers w' = timers w" "timerqueues w' = timerqueues ?w"
      by (subst w'(2), simp)+
    have "TimerQueue_addTimerInLoop os L p w = Inr w'"
      using ins True w'(1) p by (simp add: TimerQueue_addTimerInLoop_def)
    moreover have "timers_wf L w'"
      using wf' by (simp add: timers_wf_def tq_entries_def entry_ok_def same)
    moreover have "timers_armed L w'"
      using first w'(3) by (simp add: timers_armed_def tq_entries_def same)
    moreover have "set (tq_entries L w') = insert ?e (set (tq_entries L w))"
      by (simp add: tq_entries_def same)
    ultimately show ?thesis using same w'(4) by auto
  next
    case False
    then obtain y where y: "set_begin (tq_entries L w) = Some y" "\<not> tm_expiration t < fst y"
      by (auto simp: tq_entries_def Timestamp_less_iff split: option.splits)
    then have "fst (min ?e y) = fst y"
      by (cases y) (auto simp: min_def less_eq_prod_def timestamp_eq_iff)
    with begin' y(1) armed have "timers_armed L ?w"
      by (simp add: timers_armed_def)
    moreover have "TimerQueue_addTimerInLoop os L p w = Inr ?w"
      using ins False by (simp add: TimerQueue_addTimerInLoop_def)
    ultimately show ?thesis using wf' by (auto simp: ent)
  qed
qed

subsection \<open>getExpired\<close>

lemma getExpired_ok:
  assumes wf: "timers_wf L w"
  shows "TimerQueue_getExpired L now w =
    (filter (\<lambda>e. fst e \<le> now) (tq_entries L w),
     upd_tq L (\<lambda>q. q\<lparr>tq_timers := filter (\<lambda>e. now < fst e) (tq_entries L w)\<rparr>) w)"
proof -
  have below: "e < (now, -1) \<longleftrightarrow> fst e \<le> now" if "e \<in> set (tq_entries L w)" for e
  proof -
    have "snd e \<noteq> -1" using wf that by (auto simp: timers_wf_def entry_ok_def)
    then have "snd e < -1" by (simp add: word_order.not_eq_extremum)
    then show ?thesis by (cases e) (auto simp: less_prod_def' timestamp_eq_iff)
  qed
  have "filter (\<lambda>e. e < (now, -1)) (tq_entries L w) = filter (\<lambda>e. fst e \<le> now) (tq_entries L w)"
    by (rule filter_cong) (simp_all only: below)
  moreover have "filter (\<lambda>e. \<not> e < (now, -1)) (tq_entries L w)
      = filter (\<lambda>e. now < fst e) (tq_entries L w)"
    by (rule filter_cong) (simp_all only: below not_le)
  moreover have "strictly_sorted (tq_timers (timerqueues w L))"
    using wf by (simp add: timers_wf_def tq_entries_def)
  ultimately show ?thesis
    by (simp add: TimerQueue_getExpired_def set_cut_filter tq_entries_def Let_def)
qed

subsection \<open>Running the expired timers\<close>

text \<open>
  What a timer callback may do to the queue: add timers, which are new objects, but not touch the
  timers that exist (there is no way to cancel one).
\<close>

definition adds_timers_only ::
  "loop_ptr \<Rightarrow> 'w timer_world_scheme \<Rightarrow> 'w timer_world_scheme \<Rightarrow> bool" where
  "adds_timers_only L w w' \<longleftrightarrow>
     timers_wf L w' \<and> (\<forall>p t. timers w p = Some t \<longrightarrow> timers w' p = Some t) \<and>
     tq_timerfd (timerqueues w' L) = tq_timerfd (timerqueues w L) \<and>
     set (tq_entries L w) \<subseteq> set (tq_entries L w') \<and>
     (\<forall>e \<in> set (tq_entries L w'). e \<in> set (tq_entries L w) \<or> timers w (snd e) = None)"

definition timer_callbacks_ok ::
  "(closure \<Rightarrow> 'w timer_world_scheme \<Rightarrow> 'w timer_world_scheme result) \<Rightarrow> loop_ptr \<Rightarrow> bool" where
  "timer_callbacks_ok run L \<longleftrightarrow>
     (\<forall>cb w w'. timers_wf L w \<longrightarrow> run cb w = Inr w' \<longrightarrow> adds_timers_only L w w')"

lemma adds_timers_only_refl: "timers_wf L w \<Longrightarrow> adds_timers_only L w w"
  by (simp add: adds_timers_only_def)

lemma adds_timers_only_trans:
  assumes "adds_timers_only L w1 w2" "adds_timers_only L w2 w3"
  shows "adds_timers_only L w1 w3"
proof -
  have none: "timers w1 p = None" if "timers w2 p = None" for p
  proof (cases "timers w1 p")
    case (Some t)
    with assms(1) have "timers w2 p = Some t" by (simp add: adds_timers_only_def)
    with that show ?thesis by simp
  qed
  have sub: "set (tq_entries L w1) \<subseteq> set (tq_entries L w3)"
    using assms by (auto simp: adds_timers_only_def)
  have new: "e \<in> set (tq_entries L w1) \<or> timers w1 (snd e) = None"
    if "e \<in> set (tq_entries L w3)" for e
  proof (cases "e \<in> set (tq_entries L w2)")
    case True
    with assms(1) show ?thesis by (simp add: adds_timers_only_def)
  next
    case False
    with assms(2) that have "timers w2 (snd e) = None" by (auto simp: adds_timers_only_def)
    then show ?thesis using none by simp
  qed
  from assms have "timers_wf L w3" "\<And>p t. timers w1 p = Some t \<Longrightarrow> timers w3 p = Some t"
      "tq_timerfd (timerqueues w3 L) = tq_timerfd (timerqueues w1 L)"
    by (simp_all add: adds_timers_only_def)
  with sub new show ?thesis by (simp add: adds_timers_only_def)
qed

lemma foldE_adds_timers_only:
  assumes "timer_callbacks_ok run L"
  shows "timers_wf L w \<Longrightarrow> foldE run cbs w = Inr w' \<Longrightarrow> adds_timers_only L w w'"
proof (induction cbs arbitrary: w)
  case Nil
  then show ?case by (simp add: adds_timers_only_refl)
next
  case (Cons cb cbs)
  then obtain w1 where w1: "run cb w = Inr w1" "foldE run cbs w1 = Inr w'"
    by (auto simp: res_simps)
  with assms Cons.prems(1) have "adds_timers_only L w w1" by (simp add: timer_callbacks_ok_def)
  moreover from this have "timers_wf L w1" by (simp add: adds_timers_only_def)
  then have "adds_timers_only L w1 w'" using w1(2) by (rule Cons.IH)
  ultimately show ?case by (rule adds_timers_only_trans)
qed

text \<open>
  Running the expired entries runs their callbacks, each exactly once and in the order of the set:
  the timers stay alive and unchanged while the callbacks run.
\<close>

lemma run_expired:
  assumes run: "timer_callbacks_ok run L"
  shows "timers_wf L w \<Longrightarrow> \<forall>e \<in> set es. \<exists>t. timers w (snd e) = Some t \<Longrightarrow>
    foldE (\<lambda>it. Timer_run run (snd it)) es w
      = foldE run (map (\<lambda>e. tm_callback (the (timers w (snd e)))) es) w"
proof (induction es arbitrary: w)
  case Nil
  show ?case by simp
next
  case (Cons e es)
  then obtain t where t: "timers w (snd e) = Some t" by auto
  show ?case
  proof (cases "run (tm_callback t) w")
    case (Inl x)
    with t show ?thesis by (simp add: Timer_run_def)
  next
    case (Inr w1)
    with run Cons.prems(1) have only: "adds_timers_only L w w1"
      by (simp add: timer_callbacks_ok_def)
    then have wf: "timers_wf L w1" and kept: "\<And>p t. timers w p = Some t \<Longrightarrow> timers w1 p = Some t"
      by (auto simp: adds_timers_only_def)
    have "map (\<lambda>e. tm_callback (the (timers w1 (snd e)))) es
        = map (\<lambda>e. tm_callback (the (timers w (snd e)))) es"
      using Cons.prems(2) by (intro map_cong refl) (auto simp: kept)
    moreover have "\<forall>e \<in> set es. \<exists>t. timers w1 (snd e) = Some t"
      using Cons.prems(2) kept by fastforce
    ultimately show ?thesis using Cons.IH [OF wf] t Inr
      by (simp add: Timer_run_def cong: map_cong)
  qed
qed

subsection \<open>Deleting the expired timers and arming the descriptor again\<close>

lemma delete_all_ok:
  assumes "distinct (map snd es)" "\<forall>e \<in> set es. timers w (snd e) \<noteq> None"
  shows "foldE (\<lambda>it. Timer_delete (snd it)) es w
    = Inr (w\<lparr>timers := (\<lambda>p. if p \<in> snd ` set es then None else timers w p)\<rparr>)"
  using assms
proof (induction es arbitrary: w)
  case Nil
  show ?case by simp
next
  case (Cons e es)
  let ?w = "w\<lparr>timers := (timers w)(snd e := None)\<rparr>"
  from Cons.prems obtain t where "timers w (snd e) = Some t" by auto
  then have "Timer_delete (snd e) w = Inr ?w" by (simp add: Timer_delete_def)
  moreover have "\<forall>e' \<in> set es. timers ?w (snd e') \<noteq> None"
    using Cons.prems by (auto simp: image_iff)
  ultimately show ?case using Cons by (auto simp: fun_eq_iff cong: if_cong)
qed

lemma reset_ok:
  assumes clock: "clock_ok os" and wf: "timers_wf L w"
    and es: "distinct (map snd es)" "\<forall>e \<in> set es. timers w (snd e) \<noteq> None"
    and apart: "snd ` set es \<inter> snd ` set (tq_entries L w) = {}"
  shows "\<exists>w'. TimerQueue_reset os L es now w = Inr w' \<and> timers_wf L w' \<and> timers_armed L w' \<and>
    tq_entries L w' = tq_entries L w \<and>
    (\<forall>p. timers w' p = (if p \<in> snd ` set es then None else timers w p)) \<and>
    interest (hist w') = interest (hist w)"
proof -
  let ?w = "w\<lparr>timers := (\<lambda>p. if p \<in> snd ` set es then None else timers w p)\<rparr>"
  have del: "foldE (\<lambda>it. Timer_delete (snd it)) es w = Inr ?w" using es by (rule delete_all_ok)
  have ent: "tq_entries L ?w = tq_entries L w" by (simp add: tq_entries_def)
  have wf': "timers_wf L ?w"
    using wf apart unfolding timers_wf_def ent entry_ok_def by (auto simp: image_iff)
  show ?thesis
  proof (cases "set_begin (tq_entries L w)")
    case None
    then have "TimerQueue_reset os L es now w = Inr ?w"
      using del by (simp add: TimerQueue_reset_def tq_entries_def)
    moreover have "timers_armed L ?w" using None by (simp add: timers_armed_def ent)
    ultimately show ?thesis using wf' ent by auto
  next
    case (Some e)
    then have "e \<in> set (tq_entries L w)"
      using wf by (intro oset.least_mem) (auto simp: timers_wf_def)
    with wf' have "entry_ok ?w e" unfolding timers_wf_def ent by blast
    then obtain t where t: "timers ?w (snd e) = Some t" "tm_expiration t = fst e"
      and sane: "sane_time (fst e)"
      unfolding entry_ok_def by blast
    from resetTimerfd_ok [OF clock sane, of "tq_timerfd (timerqueues ?w L)" ?w] obtain w' n where
      w': "resetTimerfd os (tq_timerfd (timerqueues ?w L)) (fst e) ?w = Inr w'"
        "w' = ?w\<lparr>hist := hist w'\<rparr>" "interest (hist w') = interest (hist ?w)"
        "arming (hist w') (tq_timerfd (timerqueues ?w L)) = Some (n, max 100 (micros (fst e) - n))"
      by blast
    have same: "timers w' = timers ?w" "timerqueues w' = timerqueues w"
      by (subst w'(2), simp)+
    have "TimerQueue_reset os L es now w = Inr w'"
      using del Some t w'(1) sane by (simp add: TimerQueue_reset_def tq_entries_def sane_time_def)
    moreover have "timers_wf L w'"
      using wf' by (simp add: timers_wf_def tq_entries_def entry_ok_def same)
    moreover have "timers_armed L w'"
      using Some w'(4) by (simp add: timers_armed_def tq_entries_def same)
    moreover have "tq_entries L w' = tq_entries L w" by (simp add: tq_entries_def same)
    ultimately show ?thesis using w'(3) same(1) by simp
  qed
qed

lemma timers_wf_distinct: "timers_wf L w \<Longrightarrow> distinct (map snd (tq_entries L w))"
proof -
  assume wf: "timers_wf L w"
  then have "distinct (tq_entries L w)"
    by (auto simp: timers_wf_def strict_sorted_iff)
  then show ?thesis
    using same_pointer_same_entry [OF wf] by (auto simp: distinct_map inj_on_def)
qed

text \<open>The expired callbacks of a world at a time, in order.\<close>

definition expired_callbacks :: "loop_ptr \<Rightarrow> timestamp \<Rightarrow> 'w timer_world_scheme \<Rightarrow> closure list" where
  "expired_callbacks L now w =
     map (\<lambda>e. tm_callback (the (timers w (snd e)))) (filter (\<lambda>e. fst e \<le> now) (tq_entries L w))"

subsection \<open>handleRead\<close>

text \<open>The world in which the expired callbacks run: their entries are out of the set already.\<close>

definition expiring :: "os \<Rightarrow> loop_ptr \<Rightarrow> timestamp \<Rightarrow> 'w timer_world_scheme \<Rightarrow> 'w timer_world_scheme" where
  "expiring os L now w =
     upd_tq L (\<lambda>q. q\<lparr>tq_timers := filter (\<lambda>e. now < fst e) (tq_timers q),
                      tq_callingExpiredTimers := True\<rparr>)
       (readTimerfd os (tq_timerfd (timerqueues w L)) (snd (sys_gettimeofday os w)))"

lemma sys_timer_frame [simp]:
  "timers (snd (sys_gettimeofday os w)) = timers w"
  "timerqueues (snd (sys_gettimeofday os w)) = timerqueues w"
  "timers (readTimerfd os f w) = timers w" "timerqueues (readTimerfd os f w) = timerqueues w"
  by (simp_all add: sys_defs readTimerfd_def Let_def)

lemma tq_entries_frame:
  "timerqueues w' = timerqueues w \<Longrightarrow> tq_entries L w' = tq_entries L w"
  by (simp add: tq_entries_def)

lemma timers_wf_frame:
  "timerqueues w' = timerqueues w \<Longrightarrow> timers w' = timers w \<Longrightarrow> timers_wf L w' = timers_wf L w"
  by (simp add: timers_wf_def tq_entries_def entry_ok_def)

lemma tq_entries_expiring:
  "tq_entries L (expiring os L now w) = filter (\<lambda>e. now < fst e) (tq_entries L w)"
  "timers (expiring os L now w) = timers w"
  by (simp_all add: expiring_def tq_entries_def)

lemma timers_wf_expiring: "timers_wf L w \<Longrightarrow> timers_wf L (expiring os L now w)"
  by (auto simp: timers_wf_def tq_entries_expiring entry_ok_def sorted_wrt_filter)

lemma handleRead_unfold:
  assumes clock: "clock_ok os" and wf: "timers_wf L w"
    and now: "Timestamp_now os w = Inr (now, snd (sys_gettimeofday os w))"
  shows "TimerQueue_handleRead os run L w =
    bindE (foldE (\<lambda>it. Timer_run run (snd it)) (filter (\<lambda>e. fst e \<le> now) (tq_entries L w))
      (expiring os L now w)) (\<lambda>w5.
    TimerQueue_reset os L (filter (\<lambda>e. fst e \<le> now) (tq_entries L w)) now
      (upd_tq L (\<lambda>q. q\<lparr>tq_callingExpiredTimers := False\<rparr>) w5))"
proof -
  let ?w2 = "readTimerfd os (tq_timerfd (timerqueues w L)) (snd (sys_gettimeofday os w))"
  have "timers_wf L ?w2" using wf timers_wf_frame [of ?w2 w L] by simp
  moreover have "tq_entries L ?w2 = tq_entries L w" by (simp add: tq_entries_def)
  ultimately have "TimerQueue_getExpired L now ?w2 =
    (filter (\<lambda>e. fst e \<le> now) (tq_entries L w),
     upd_tq L (\<lambda>q. q\<lparr>tq_timers := filter (\<lambda>e. now < fst e) (tq_entries L w)\<rparr>) ?w2)"
    using getExpired_ok [of L ?w2 now] by simp
  then show ?thesis
    by (simp add: TimerQueue_handleRead_def now expiring_def upd_tq_def tq_entries_def Let_def)
qed

lemma handleRead_ok:
  assumes clock: "clock_ok os" and wf: "timers_wf L w" and run: "timer_callbacks_ok run L"
    and now: "Timestamp_now os w = Inr (now, snd (sys_gettimeofday os w))"
  shows "case foldE run (expired_callbacks L now w) (expiring os L now w) of
      Inl e \<Rightarrow> TimerQueue_handleRead os run L w = Inl e
    | Inr w5 \<Rightarrow> \<exists>w'. TimerQueue_handleRead os run L w = Inr w' \<and> timers_wf L w' \<and>
        timers_armed L w' \<and> tq_entries L w' = tq_entries L w5 \<and>
        {e \<in> set (tq_entries L w). now < fst e} \<subseteq> set (tq_entries L w') \<and>
        (\<forall>p. timers w' p = (if \<exists>e \<in> set (tq_entries L w). fst e \<le> now \<and> snd e = p then None
                            else timers w5 p))"
proof -
  let ?es = "filter (\<lambda>e. fst e \<le> now) (tq_entries L w)" and ?w4 = "expiring os L now w"
  note wf4 = timers_wf_expiring [OF wf, of os now]
  have live: "\<forall>e \<in> set ?es. \<exists>t. timers ?w4 (snd e) = Some t"
    using wf by (auto simp: timers_wf_def entry_ok_def tq_entries_expiring(2))
  have "foldE (\<lambda>it. Timer_run run (snd it)) ?es ?w4 = foldE run (expired_callbacks L now w) ?w4"
    unfolding run_expired [OF run wf4 live] by (simp add: expired_callbacks_def tq_entries_expiring(2))
  with handleRead_unfold [OF clock wf now] have eq: "TimerQueue_handleRead os run L w =
      bindE (foldE run (expired_callbacks L now w) ?w4) (\<lambda>w5. TimerQueue_reset os L ?es now
        (upd_tq L (\<lambda>q. q\<lparr>tq_callingExpiredTimers := False\<rparr>) w5))" by simp
  show ?thesis
  proof (cases "foldE run (expired_callbacks L now w) ?w4")
    case (Inl e)
    with eq show ?thesis by simp
  next
    case (Inr w5)
    let ?w6 = "upd_tq L (\<lambda>q. q\<lparr>tq_callingExpiredTimers := False\<rparr>) w5"
    have only: "adds_timers_only L ?w4 w5" using foldE_adds_timers_only [OF run wf4 Inr] .
    have ent: "tq_entries L ?w6 = tq_entries L w5" by (simp add: tq_entries_def)
    have wf6: "timers_wf L ?w6"
      using only by (simp add: adds_timers_only_def timers_wf_def ent entry_ok_def)
    have "distinct (map snd ?es)"
      using timers_wf_distinct [OF wf] by (metis distinct_map_filter)
    moreover have "\<forall>e \<in> set ?es. timers ?w6 (snd e) \<noteq> None"
      using live only by (fastforce simp: adds_timers_only_def)
    moreover have "snd ` set ?es \<inter> snd ` set (tq_entries L ?w6) = {}"
    proof (rule ccontr)
      assume "\<not> ?thesis"
      then obtain e e' where e: "e \<in> set ?es" "e' \<in> set (tq_entries L w5)" "snd e = snd e'"
        unfolding ent by auto
      show False
      proof (cases "e' \<in> set (tq_entries L ?w4)")
        case True
        with same_pointer_same_entry [OF wf _ _ e(3)] e(1) show ?thesis
          by (auto simp: tq_entries_expiring)
      next
        case False
        with only e(2) have "timers ?w4 (snd e') = None" by (auto simp: adds_timers_only_def)
        moreover from live e(1) obtain t where "timers ?w4 (snd e) = Some t" by blast
        ultimately show ?thesis using e(3) by simp
      qed
    qed
    ultimately obtain w' where w': "TimerQueue_reset os L ?es now ?w6 = Inr w'" "timers_wf L w'"
      "timers_armed L w'" "tq_entries L w' = tq_entries L ?w6"
      "\<And>p. timers w' p = (if p \<in> snd ` set ?es then None else timers ?w6 p)"
      using reset_ok [OF clock wf6, of ?es now] by auto
    have "{e \<in> set (tq_entries L w). now < fst e} \<subseteq> set (tq_entries L w')"
      using only unfolding w'(4) ent by (auto simp: adds_timers_only_def tq_entries_expiring)
    with eq Inr w' ent show ?thesis by (auto simp: image_iff)
  qed
qed

subsection \<open>A new loop\<close>

text \<open>A channel that the poller has not seen is registered when its first events are enabled.\<close>

lemma register_events:
  assumes os: "epoll_ok os" "epoll_adds os (po_epollfd (pollers w L)) (ch_fd ch)"
    and inv: "poller_inv L w" and ch: "chans w c = Some ch" "ch_loop ch = L" "ch_index ch = kNew"
      "ch_events ch = 0" and free: "po_channels (pollers w L) (ch_fd ch) = None" and ev: "ev \<noteq> 0"
  shows "\<exists>w'. Channel_update os c (upd_chan c (add_events ev) w) = Inr w' \<and> poller_inv L w' \<and>
    chans w' = (chans w)(c \<mapsto> Channel_set_index kAdded (add_events ev ch)) \<and>
    interest (hist w') (po_epollfd (pollers w L))
      = (interest (hist w) (po_epollfd (pollers w L)))(ch_fd ch \<mapsto> (ev, c)) \<and>
    po_channels (pollers w' L) = (po_channels (pollers w L))(ch_fd ch \<mapsto> c) \<and>
    po_epollfd (pollers w' L) = po_epollfd (pollers w L) \<and>
    poller_world.more w' = poller_world.more w \<and> (\<forall>M. M \<noteq> L \<longrightarrow> pollers w' M = pollers w M) \<and>
    (\<exists>op f ev r. hist w' = hist w @ [Epoll_ctl (po_epollfd (pollers w L)) op f ev c r])"
proof -
  let ?g = "add_events ev"
  have none: "interest (hist w) (po_epollfd (pollers w L)) (ch_fd ch) = None"
    using poller_invD(3) [OF inv, of "ch_fd ch"] free
    by (cases "interest (hist w) (po_epollfd (pollers w L)) (ch_fd ch)") auto
  have "\<exists>w'. Channel_update os c (upd_chan c ?g w) = Inr w'"
    using ch none os(2)
    by (auto simp: Channel_update_def EventLoop_updateChannel_def EPollPoller_updateChannel_def
        EPollPoller_update_def sys_epoll_ctl_def Let_def kIndex_defs epoll_adds_def)
  then obtain w' where w': "Channel_update os c (upd_chan c ?g w) = Inr w'" ..
  have g: "\<And>ch. ch_index (?g ch) = ch_index ch" "\<And>ch. ch_fd (?g ch) = ch_fd ch"
    "\<And>ch. ch_loop (?g ch) = ch_loop ch" by simp_all
  note eff = Channel_update_effect [OF w' os(1) inv ch(1,2) g free]
  have "next_index (?g ch) = kAdded" "next_watch c (?g ch) = Some (ev, c)"
    using ch(3,4) ev by (simp_all add: next_index_def next_watch_def kIndex_defs)
  moreover from eff(9) obtain e where "hist w' = hist w @ [e]"
    "\<exists>op r. e = Epoll_ctl (po_epollfd (pollers w L)) op (ch_fd ch) (ch_events (?g ch)) c r" by blast
  then have "\<exists>op f ev r. hist w' = hist w @ [Epoll_ctl (po_epollfd (pollers w L)) op f ev c r]" by blast
  ultimately show ?thesis
    using eff(1,3-8) w' by (intro exI [of _ w'] conjI) simp_all
qed

lemma register_ok:
  assumes os: "epoll_ok os" "epoll_adds os (po_epollfd (pollers w L)) (ch_fd ch)"
    and inv: "poller_inv L w" and ch: "chans w c = Some ch" "ch_loop ch = L" "ch_index ch = kNew"
      "ch_events ch = 0" and free: "po_channels (pollers w L) (ch_fd ch) = None"
  shows "\<exists>w'. Channel_enableReading os c w = Inr w' \<and> poller_inv L w' \<and>
    chans w' = (chans w)(c \<mapsto> Channel_set_index kAdded (add_events kReadEvent ch)) \<and>
    interest (hist w') (po_epollfd (pollers w L))
      = (interest (hist w) (po_epollfd (pollers w L)))(ch_fd ch \<mapsto> (kReadEvent, c)) \<and>
    po_channels (pollers w' L) = (po_channels (pollers w L))(ch_fd ch \<mapsto> c) \<and>
    po_epollfd (pollers w' L) = po_epollfd (pollers w L) \<and>
    poller_world.more w' = poller_world.more w \<and> (\<forall>M. M \<noteq> L \<longrightarrow> pollers w' M = pollers w M) \<and>
    (\<exists>op f ev r. hist w' = hist w @ [Epoll_ctl (po_epollfd (pollers w L)) op f ev c r])"
  unfolding Channel_enableReading_def by (rule register_events [OF assms]) (rule kEvents_nonzero)

lemma timer_frameD:
  fixes w w' :: "'w timer_world_scheme"
  assumes "poller_world.more w' = poller_world.more w"
  shows "timers w' = timers w" "timerqueues w' = timerqueues w" "timer_world.more w' = timer_world.more w"
  using assms by (cases w; cases w'; simp)+

text \<open>A channel after its read callback was set and reading was enabled.\<close>

definition reading_channel :: "loop_ptr \<Rightarrow> fd \<Rightarrow> closure \<Rightarrow> channel" where
  "reading_channel L f cb =
     Channel_set_index kAdded (add_events kReadEvent ((Channel_new L f)\<lparr>ch_readCallback := Some cb\<rparr>))"

text \<open>What the constructor of loop \<open>L\<close>, with the epoll instance \<open>ep\<close>, leaves of the world.\<close>

definition loop_added :: "loop_ptr \<Rightarrow> fd \<Rightarrow> 'w timer_world_scheme \<Rightarrow> 'w timer_world_scheme \<Rightarrow> bool" where
  "loop_added L ep w w' \<longleftrightarrow>
     (\<forall>M. M \<noteq> L \<longrightarrow> pollers w' M = pollers w M \<and> loops w' M = loops w M \<and> timerqueues w' M = timerqueues w M) \<and>
     po_epollfd (pollers w' L) = ep \<and> lp_threadId (loops w' L) = current_tid w \<and> current_tid w' = current_tid w \<and>
     t_loopInThisThread w' = (t_loopInThisThread w)(current_tid w \<mapsto> L) \<and> timers w' = timers w \<and>
     (\<exists>op f ev p r op' f' ev' p' r'. hist w' = hist w @ [Epoll_ctl ep op f ev p r, Epoll_ctl ep op' f' ev' p' r'])"

text \<open>
  The constructor of a loop, in a thread that has none: the wake-up descriptor and the timer
  descriptor are watched for reading, no timer and no functor waits, and the invariants of the
  poller and of the timer queue hold.
\<close>

lemma EventLoop_ctor_ok:
  assumes os: "epoll_ok os" "\<And>f. epoll_adds os ep f"
    and first: "t_loopInThisThread w (current_tid w) = None"
    and new: "\<And>c ch. chans w c = Some ch \<Longrightarrow> ch_loop ch \<noteq> L" "interest (hist w) ep = Map.empty"
    and ptr: "chans w cw = None" "chans w ct = None" "cw \<noteq> ct" and fds: "timerfd \<noteq> wakeupFd"
  shows "\<exists>w'. EventLoop_ctor os L False (Inr ep) (Inr wakeupFd) timerfd cw ct w = Inr w' \<and>
    poller_inv L w' \<and> timers_wf L w' \<and> timers_armed L w' \<and> tq_entries L w' = [] \<and>
    interest (hist w') ep = [timerfd \<mapsto> (kReadEvent, ct), wakeupFd \<mapsto> (kReadEvent, cw)] \<and>
    lp_pendingFunctors (loops w' L) = [] \<and> \<not> lp_quit (loops w' L) \<and>
    isInLoopThread L w' \<and> t_loopInThisThread w' (current_tid w') = Some L \<and>
    chans w' = (chans w)(ct \<mapsto> reading_channel L timerfd (Bind_TimerQueue_handleRead L),
      cw \<mapsto> reading_channel L wakeupFd (Bind_EventLoop_handleRead L)) \<and>
    lp_wakeupFd (loops w' L) = wakeupFd \<and> timer_world.more w' = timer_world.more w \<and> loop_added L ep w w'"
proof -
  let ?po = "\<lparr>po_epollfd = ep, po_channels = Map.empty, po_capacity = kInitEventListSize\<rparr>"
  let ?lp = "\<lparr>lp_looping = False, lp_quit = False, lp_threadId = current_tid w,
    lp_pollReturnTime = Timestamp_zero, lp_wakeupFd = wakeupFd, lp_wakeupChannel = cw,
    lp_activeChannels = [], lp_callingPendingFunctors = False, lp_pendingFunctors = []\<rparr>"
  let ?w2 = "upd_loop L (\<lambda>_. ?lp) (upd_poller L (\<lambda>_. ?po) w)"
  let ?w3 = "?w2\<lparr>chans := (chans ?w2)(cw \<mapsto> Channel_new L wakeupFd)\<rparr>"
  let ?tch = "(Channel_new L timerfd)\<lparr>ch_readCallback := Some (Bind_TimerQueue_handleRead L)\<rparr>"
  let ?w4 = "?w3\<lparr>chans := (chans ?w3)(ct \<mapsto> ?tch)\<rparr>"
  let ?w5 = "upd_tq L (\<lambda>q. \<lparr>tq_timerfd = timerfd, tq_timerfdChannel = ct, tq_timers = [],
    tq_callingExpiredTimers = tq_callingExpiredTimers q\<rparr>) ?w4"
  have "poller_inv L ?w2" using new by (auto simp: poller_inv_def)
  then have inv3: "poller_inv L ?w3" using ptr by (intro poller_inv_new_chan) (simp_all add: kNew_def)
  have "poller_inv L ?w4" using poller_inv_new_chan [OF inv3, of ct ?tch] ptr by (simp add: kNew_def)
  then have inv5: "poller_inv L ?w5" using poller_inv_cong [of ?w5 ?w4 L] by simp
  have e5: "po_epollfd (pollers ?w5 L) = ep" "po_channels (pollers ?w5 L) = Map.empty"
    "interest (hist ?w5) ep = Map.empty" using new(2) by simp_all
  have t5: "chans ?w5 ct = Some ?tch" "ch_loop ?tch = L" "ch_index ?tch = kNew" "ch_events ?tch = 0"
    by (simp_all add: kNew_def)
  have pre5: "epoll_adds os (po_epollfd (pollers ?w5 L)) (ch_fd ?tch)" "po_channels (pollers ?w5 L) (ch_fd ?tch) = None"
    "ch_fd ?tch = timerfd" using os(2) e5 by simp_all
  from register_ok [OF os(1) pre5(1) inv5 t5 pre5(2), unfolded e5 pre5(3)] obtain w6 where
    w6: "Channel_enableReading os ct ?w5 = Inr w6" "poller_inv L w6"
      "chans w6 = (chans ?w5)(ct \<mapsto> Channel_set_index kAdded (add_events kReadEvent ?tch))"
      "interest (hist w6) ep = [timerfd \<mapsto> (kReadEvent, ct)]"
      "po_channels (pollers w6 L) = [timerfd \<mapsto> ct]" "po_epollfd (pollers w6 L) = ep"
      "poller_world.more w6 = poller_world.more ?w5" "\<forall>M. M \<noteq> L \<longrightarrow> pollers w6 M = pollers ?w5 M"
      "\<exists>op f ev r. hist w6 = hist ?w5 @ [Epoll_ctl ep op f ev ct r]" by blast
  have l6: "loops w6 L = ?lp" "current_tid w6 = current_tid w"
      "t_loopInThisThread w6 = t_loopInThisThread w"
      "timerqueues w6 = timerqueues ?w5" "timers w6 = timers ?w5"
    using loop_frameD [OF w6(7)] timer_frameD [OF w6(7)] by (simp_all add: upd_loop_def upd_poller_def upd_tq_def)
  let ?w7 = "w6\<lparr>t_loopInThisThread := (t_loopInThisThread w6)(current_tid w6 \<mapsto> L)\<rparr>"
  let ?g = "\<lambda>ch. ch\<lparr>ch_readCallback := Some (Bind_EventLoop_handleRead L)\<rparr>"
  let ?w8 = "upd_chan cw ?g ?w7"
  have "poller_inv L ?w7" using w6(2) poller_inv_cong [of ?w7 w6 L] by simp
  then have inv8: "poller_inv L ?w8" by (rule poller_inv_events) simp_all
  let ?wch = "?g (Channel_new L wakeupFd)"
  have t8: "chans ?w8 cw = Some ?wch" "ch_loop ?wch = L" "ch_index ?wch = kNew" "ch_events ?wch = 0"
    using w6(3) ptr(3) by (simp_all add: kNew_def)
  have "po_channels (pollers ?w8 L) (ch_fd ?wch) = None" using w6(5) fds by simp
  from register_ok [OF os(1) _ inv8 t8 this] os(2) w6(4,6) obtain w9 where
    w9: "Channel_enableReading os cw ?w8 = Inr w9" "poller_inv L w9"
      "interest (hist w9) ep = [timerfd \<mapsto> (kReadEvent, ct), wakeupFd \<mapsto> (kReadEvent, cw)]"
      "poller_world.more w9 = poller_world.more ?w8"
      "chans w9 = (chans ?w8)(cw \<mapsto> Channel_set_index kAdded (add_events kReadEvent ?wch))"
      "po_epollfd (pollers w9 L) = ep" "\<forall>M. M \<noteq> L \<longrightarrow> pollers w9 M = pollers ?w8 M"
      "\<exists>op f ev r. hist w9 = hist ?w8 @ [Epoll_ctl ep op f ev cw r]" by auto
  have chans9: "chans w9 = (chans w)(ct \<mapsto> reading_channel L timerfd (Bind_TimerQueue_handleRead L),
      cw \<mapsto> reading_channel L wakeupFd (Bind_EventLoop_handleRead L))"
    using w9(5) w6(3) ptr(3) by (auto simp: reading_channel_def fun_eq_iff)
  have l9: "loops w9 L = ?lp" "current_tid w9 = current_tid w"
      "t_loopInThisThread w9 (current_tid w9) = Some L" "tq_entries L w9 = []"
    using loop_frameD [OF w9(4)] timer_frameD [OF w9(4)] l6
    by (simp_all add: tq_entries_def upd_chan_def)
  have more9: "timer_world.more w9 = timer_world.more w"
    using timer_frameD(3) [OF w9(4)] timer_frameD(3) [OF w6(7)]
    by (simp add: upd_chan_def upd_tq_def upd_loop_def upd_poller_def)
  have added: "loop_added L ep w w9"
  proof -
    have "loops w9 = loops w6" "t_loopInThisThread w9 = (t_loopInThisThread w)(current_tid w \<mapsto> L)" "timers w9 = timers w"
      using loop_frameD [OF w9(4)] timer_frameD(1) [OF w9(4)] l6
      by (simp_all add: upd_chan_def upd_tq_def upd_loop_def upd_poller_def)
    moreover have "timerqueues w9 M = timerqueues w M" if "M \<noteq> L" for M
      using timer_frameD [OF w9(4)] l6(4) that by (simp add: upd_chan_def upd_loop_def upd_poller_def)
    moreover have "loops w6 M = loops w M" if "M \<noteq> L" for M using loop_frameD(1) [OF w6(7)] that by simp
    moreover have "\<exists>op f ev p r op' f' ev' p' r'. hist w9 = hist w @ [Epoll_ctl ep op f ev p r, Epoll_ctl ep op' f' ev' p' r']"
    proof -
      from w6(9) obtain o1 f1 e1 r1 where "hist w6 = hist w @ [Epoll_ctl ep o1 f1 e1 ct r1]" by auto
      moreover from w9(8) obtain o2 f2 e2 r2 where "hist w9 = hist w6 @ [Epoll_ctl ep o2 f2 e2 cw r2]" by auto
      ultimately show ?thesis by (simp; blast)
    qed
    moreover have "pollers w9 M = pollers w M" if "M \<noteq> L" for M using w6(8) w9(7) that by simp
    ultimately show ?thesis using w9(6) l9(1,2) by (simp add: loop_added_def)
  qed
  have "EventLoop_ctor os L False (Inr ep) (Inr wakeupFd) timerfd cw ct w = Inr w9"
    using w6(1) w9(1) l6 first
    by (simp add: EventLoop_ctor_def Poller_newDefaultPoller_def EPollPoller_new_def TimerQueue_ctor_def Let_def)
  then show ?thesis
    using w9(2,3) l9 chans9 more9 added
    by (intro exI [of _ w9]) (simp add: timers_wf_def timers_armed_def set_begin_def isInLoopThread_def)
qed

text \<open>The event list of a new loop has its initial size.\<close>

lemma enableReading_capacity:
  "Channel_enableReading os c w = Inr w' \<Longrightarrow> \<forall>M. po_capacity (pollers w' M) = po_capacity (pollers w M)"
  by (auto simp: Channel_enableReading_def upd_chan_def dest!: Channel_update_capacity)

lemma EventLoop_ctor_capacity:
  assumes "EventLoop_ctor os L False (Inr ep) (Inr wakeupFd) tf cw ct w = Inr w'"
  shows "po_capacity (pollers w' L) = kInitEventListSize"
  using assms
  by (auto simp: EventLoop_ctor_def Poller_newDefaultPoller_def EPollPoller_new_def TimerQueue_ctor_def Let_def res_simps
      upd_tq_def upd_chan_def split: if_splits dest!: enableReading_capacity)

end
