(* ===== verification/Buffer.thy ===== *)
theory Buffer
  imports SimOS
begin

section \<open>Buffer: a growable byte queue with two indices\<close>

text \<open>
  \<open>src/src/Buffer.h\<close> and \<open>src/src/Buffer.cc\<close>.  The buffer is a vector with a reader and a writer
  index; the bytes between them are the content.  Indices and lengths are 64-bit \<open>size_t\<close> words,
  so the comparisons wrap as they do in the code.  An access outside the vector, or an overlapping
  copy that \<open>std::copy\<close> does not allow, is \<open>Undefined_Behaviour\<close>; growing past the largest vector
  is \<open>Length_Error\<close>.
\<close>

record buffer =
  buf_bytes :: "byte list"
  buf_reader :: size_t
  buf_writer :: size_t

definition kCheapPrepend :: size_t where "kCheapPrepend = 8"
definition kInitialSize :: size_t where "kInitialSize = 1024"

text \<open>\<open>std::vector<char>\<close> and \<open>std::string\<close> hold at most \<open>2 ^ 63 - 1\<close> elements.\<close>

definition max_size :: nat where "max_size = 2 ^ 63 - 1"

definition vec_resize :: "size_t \<Rightarrow> byte list \<Rightarrow> byte list result" where
  "vec_resize n v =
     (if max_size < unat n then Inl Length_Error
      else Inr (take (unat n) v @ replicate (unat n - length v) 0))"

definition vec_size :: "byte list \<Rightarrow> size_t" where
  "vec_size v = of_nat (length v)"

text \<open>
  \<open>std::copy\<close> from one range of the vector to another place in it: the destination must not lie
  in the source range, and both ranges must lie in the vector.
\<close>

definition copy_within :: "nat \<Rightarrow> nat \<Rightarrow> nat \<Rightarrow> byte list \<Rightarrow> byte list result" where
  "copy_within first stop dest v =
     (if first \<le> stop \<and> stop \<le> length v \<and> dest + (stop - first) \<le> length v \<and>
         \<not> (first \<le> dest \<and> dest < stop)
      then Inr (take dest v @ take (stop - first) (drop first v) @ drop (dest + (stop - first)) v)
      else Inl Undefined_Behaviour)"

text \<open>\<open>std::copy\<close> of outside bytes into the vector.\<close>

definition copy_in :: "byte list \<Rightarrow> nat \<Rightarrow> byte list \<Rightarrow> byte list result" where
  "copy_in bs dest v =
     (if dest + length bs \<le> length v
      then Inr (take dest v @ bs @ drop (dest + length bs) v) else Inl Undefined_Behaviour)"

definition Buffer_new :: "size_t \<Rightarrow> buffer result" where
  "Buffer_new initialSize =
     bindE (vec_resize (kCheapPrepend + initialSize) []) (\<lambda>v.
     Inr \<lparr>buf_bytes = v, buf_reader = kCheapPrepend, buf_writer = kCheapPrepend\<rparr>)"

definition prependableBytes :: "buffer \<Rightarrow> size_t" where
  "prependableBytes b = buf_reader b"

definition readableBytes :: "buffer \<Rightarrow> size_t" where
  "readableBytes b = buf_writer b - buf_reader b"

definition writableBytes :: "buffer \<Rightarrow> size_t" where
  "writableBytes b = vec_size (buf_bytes b) - buf_writer b"

definition retrieveAll :: "buffer \<Rightarrow> buffer" where
  "retrieveAll b = b\<lparr>buf_reader := kCheapPrepend, buf_writer := kCheapPrepend\<rparr>"

definition retrieve :: "size_t \<Rightarrow> buffer \<Rightarrow> buffer" where
  "retrieve len b =
     (if len < readableBytes b then b\<lparr>buf_reader := buf_reader b + len\<rparr> else retrieveAll b)"

text \<open>The bytes \<open>[peek(), peek() + len)\<close>, as \<open>std::string(peek(), len)\<close> and \<open>write\<close> read them.\<close>

definition peek :: "size_t \<Rightarrow> buffer \<Rightarrow> byte list result" where
  "peek len b =
     (if unat (buf_reader b) + unat len \<le> length (buf_bytes b)
      then Inr (take (unat len) (drop (unat (buf_reader b)) (buf_bytes b)))
      else Inl Undefined_Behaviour)"

definition retrieveAsString :: "size_t \<Rightarrow> buffer \<Rightarrow> (byte list \<times> buffer) result" where
  "retrieveAsString len b =
     (if max_size < unat len then Inl Length_Error
      else bindE (peek len b) (\<lambda>result. Inr (result, retrieve len b)))"

definition retrieveAllAsString :: "buffer \<Rightarrow> (byte list \<times> buffer) result" where
  "retrieveAllAsString b = retrieveAsString (readableBytes b) b"

definition makeSpace :: "size_t \<Rightarrow> buffer \<Rightarrow> buffer result" where
  "makeSpace len b =
     (if writableBytes b + prependableBytes b < len + kCheapPrepend
      then bindE (vec_resize (buf_writer b + len) (buf_bytes b)) (\<lambda>v. Inr (b\<lparr>buf_bytes := v\<rparr>))
      else let readable = readableBytes b in
        bindE (copy_within (unat (buf_reader b)) (unat (buf_writer b)) (unat kCheapPrepend)
                 (buf_bytes b)) (\<lambda>v.
        Inr (b\<lparr>buf_bytes := v, buf_reader := kCheapPrepend, buf_writer := kCheapPrepend + readable\<rparr>)))"

definition ensureWritableBytes :: "size_t \<Rightarrow> buffer \<Rightarrow> buffer result" where
  "ensureWritableBytes len b = (if writableBytes b < len then makeSpace len b else Inr b)"

text \<open>\<open>append(data, len)\<close>: \<open>data\<close> is the memory the pointer points to, at least \<open>len\<close> bytes of it.\<close>

definition append_bytes :: "byte list \<Rightarrow> size_t \<Rightarrow> buffer \<Rightarrow> buffer result" where
  "append_bytes data len b =
     bindE (ensureWritableBytes len b) (\<lambda>b.
     if length data < unat len then Inl Undefined_Behaviour
     else bindE (copy_in (take (unat len) data) (unat (buf_writer b)) (buf_bytes b)) (\<lambda>v.
       Inr (b\<lparr>buf_bytes := v, buf_writer := buf_writer b + len\<rparr>)))"

text \<open>
  \<open>readFd\<close> scatters one \<open>readv\<close> over the writable part of the buffer and a zeroed 65535-byte array
  on the stack, then appends what went to the array.  The result is the \<open>ssize_t\<close> and the
  \<open>errno\<close> to save, here \<open>Inl errno\<close> or \<open>Inr n\<close>.  A kernel that delivers more bytes than the
  \<open>iovec\<close>s hold would write outside them.
\<close>

definition extrabuf_size :: nat where "extrabuf_size = 65535"

definition readv_iov :: "buffer \<Rightarrow> nat list" where
  "readv_iov b = (let writable = writableBytes b in
     if unat writable < extrabuf_size then [unat writable, extrabuf_size] else [unat writable])"

definition readFd ::
  "os \<Rightarrow> fd \<Rightarrow> buffer \<Rightarrow> 'w os_world_scheme
     \<Rightarrow> ((errno + nat) \<times> buffer \<times> 'w os_world_scheme) result" where
  "readFd os f b w =
     (let writable = writableBytes b; iov = readv_iov b in case sys_readv os f iov w of (r, w') \<Rightarrow>
        (case r of
           Inl e \<Rightarrow> Inr (Inl e, b, w')
         | Inr bs \<Rightarrow>
             let n = length bs in
             if sum_list iov < n then Inl Undefined_Behaviour
             else if n \<le> unat writable
             then bindE (copy_in bs (unat (buf_writer b)) (buf_bytes b)) (\<lambda>v.
                  Inr (Inr n, b\<lparr>buf_bytes := v, buf_writer := buf_writer b + of_nat n\<rparr>, w'))
             else bindE (copy_in (take (unat writable) bs) (unat (buf_writer b)) (buf_bytes b)) (\<lambda>v.
                  let extra = drop (unat writable) bs;
                      extrabuf = extra @ replicate (extrabuf_size - length extra) 0
                  in bindE (append_bytes extrabuf (of_nat n - writable)
                            (b\<lparr>buf_bytes := v, buf_writer := vec_size v\<rparr>)) (\<lambda>b'.
                     Inr (Inr n, b', w')))))"

subsection \<open>Well-formedness and content\<close>

definition wf_buffer :: "buffer \<Rightarrow> bool" where
  "wf_buffer b \<longleftrightarrow>
     8 \<le> unat (buf_reader b) \<and> unat (buf_reader b) \<le> unat (buf_writer b) \<and>
     unat (buf_writer b) \<le> length (buf_bytes b) \<and> length (buf_bytes b) \<le> max_size"

definition content :: "buffer \<Rightarrow> byte list" where
  "content b = drop (unat (buf_reader b)) (take (unat (buf_writer b)) (buf_bytes b))"

lemma length_content: "wf_buffer b \<Longrightarrow>
    length (content b) = unat (buf_writer b) - unat (buf_reader b)"
  by (auto simp: wf_buffer_def content_def)

lemma unat_readableBytes: "wf_buffer b \<Longrightarrow> unat (readableBytes b) = length (content b)"
  by (auto simp: readableBytes_def length_content wf_buffer_def unat_sub_le word_le_nat_alt)

lemma unat_vec_size: "length v \<le> max_size \<Longrightarrow> unat (vec_size v) = length v"
  by (simp add: vec_size_def max_size_def unat_of_nat_small)

lemma unat_writableBytes: "wf_buffer b \<Longrightarrow>
    unat (writableBytes b) = length (buf_bytes b) - unat (buf_writer b)"
  by (auto simp: writableBytes_def wf_buffer_def unat_sub_le word_le_nat_alt unat_vec_size)

lemma unat_kCheapPrepend [simp]: "unat kCheapPrepend = 8"
  by (simp add: kCheapPrepend_def)

lemmas buffer_unat = unat_readableBytes unat_writableBytes unat_vec_size

subsection \<open>Every operation keeps the buffer well formed and acts on its content\<close>

lemma Buffer_new_ok:
  assumes "unat n + 8 \<le> max_size"
  shows "\<exists>b. Buffer_new n = Inr b \<and> wf_buffer b \<and> content b = [] \<and>
    length (buf_bytes b) = unat n + 8"
proof -
  have "unat (kCheapPrepend + n) = 8 + unat n"
    using assms by (subst unat_add_small) (auto simp: max_size_def)
  with assms show ?thesis
    by (auto simp: Buffer_new_def vec_resize_def wf_buffer_def content_def)
qed

lemma wf_retrieveAll: "wf_buffer b \<Longrightarrow> wf_buffer (retrieveAll b)"
  by (auto simp: wf_buffer_def retrieveAll_def)

lemma content_retrieveAll [simp]: "content (retrieveAll b) = []"
  by (simp add: content_def retrieveAll_def)

lemma reader_advance:
  assumes "wf_buffer b" "len < readableBytes b"
  shows "unat (buf_reader b + len) = unat (buf_reader b) + unat len"
    and "unat (buf_reader b) + unat len < unat (buf_writer b)"
proof -
  have len: "unat len < unat (buf_writer b) - unat (buf_reader b)"
    using assms unat_readableBytes [of b] by (simp add: word_less_nat_alt length_content)
  then show "unat (buf_reader b) + unat len < unat (buf_writer b)" by simp
  with assms(1)
  show "unat (buf_reader b + len) = unat (buf_reader b) + unat len"
    by (intro unat_add_small) (simp add: wf_buffer_def max_size_def)
qed

lemma wf_retrieve: "wf_buffer b \<Longrightarrow> wf_buffer (retrieve len b)"
  using reader_advance [of b len]
  by (auto simp: retrieve_def wf_retrieveAll) (auto simp: wf_buffer_def)

lemma content_retrieve: "wf_buffer b \<Longrightarrow> content (retrieve len b) = drop (unat len) (content b)"
proof (cases "len < readableBytes b")
  case True
  assume "wf_buffer b"
  with True reader_advance(1) [of b len] show ?thesis
    by (simp add: retrieve_def content_def add.commute)
next
  case False
  assume b: "wf_buffer b"
  with False have "length (content b) \<le> unat len"
    by (simp add: word_less_nat_alt unat_readableBytes)
  with False show ?thesis by (simp add: retrieve_def)
qed

lemma peek_content:
  assumes "wf_buffer b" "unat len \<le> length (content b)"
  shows "peek len b = Inr (take (unat len) (content b))"
proof -
  have le: "unat len \<le> unat (buf_writer b) - unat (buf_reader b)"
      "unat (buf_reader b) \<le> unat (buf_writer b)" "unat (buf_writer b) \<le> length (buf_bytes b)"
    using assms by (auto simp: wf_buffer_def length_content [OF assms(1)])
  then show ?thesis by (simp add: peek_def content_def drop_take min_def)
qed

lemma peek_all: "wf_buffer b \<Longrightarrow> peek (readableBytes b) b = Inr (content b)"
  by (simp add: peek_content unat_readableBytes)

text \<open>
  Making room: the branch that moves the unread bytes to the front runs only when the reader index
  is past the reserved prefix, so the copy does not overlap its destination.
\<close>

lemma makeSpace_move_disjoint:
  assumes "wf_buffer b" "unat len \<le> max_size" "writableBytes b < len"
    and "\<not> writableBytes b + prependableBytes b < len + kCheapPrepend"
  shows "8 < unat (buf_reader b)"
proof -
  have w: "unat (writableBytes b) = length (buf_bytes b) - unat (buf_writer b)"
    using assms(1) by (rule unat_writableBytes)
  have "unat (writableBytes b + prependableBytes b) = unat (writableBytes b) + unat (buf_reader b)"
  proof -
    have "length (buf_bytes b) \<le> max_size" "unat (buf_reader b) \<le> unat (buf_writer b)"
        "unat (buf_writer b) \<le> length (buf_bytes b)"
      using assms(1) by (auto simp: wf_buffer_def)
    then show ?thesis
      unfolding prependableBytes_def by (intro unat_add_small) (simp add: w max_size_def)
  qed
  moreover have "unat (len + kCheapPrepend) = unat len + 8"
    using assms(2) by (subst unat_add_small) (auto simp: max_size_def)
  ultimately show ?thesis
    using assms(3,4) by (simp add: word_less_nat_alt)
qed

lemma makeSpace_grow:
  assumes b: "wf_buffer b" and len: "unat (buf_writer b) + unat len \<le> max_size"
    and short: "writableBytes b < len"
    and grow: "writableBytes b + prependableBytes b < len + kCheapPrepend"
  shows "\<exists>b'. makeSpace len b = Inr b' \<and> wf_buffer b' \<and> content b' = content b \<and>
    len \<le> writableBytes b'"
proof -
  let ?v = "buf_bytes b @ replicate (unat (buf_writer b) + unat len - length (buf_bytes b)) 0"
  have n: "unat (buf_writer b + len) = unat (buf_writer b) + unat len"
    using len by (intro unat_add_small) (simp add: max_size_def)
  have more: "length (buf_bytes b) < unat (buf_writer b) + unat len"
    using short b by (auto simp: word_less_nat_alt unat_writableBytes wf_buffer_def)
  then have ms: "makeSpace len b = Inr (b\<lparr>buf_bytes := ?v\<rparr>)"
    using grow len by (simp add: makeSpace_def vec_resize_def n)
  moreover have wf: "wf_buffer (b\<lparr>buf_bytes := ?v\<rparr>)"
    using b more len by (auto simp: wf_buffer_def)
  moreover have "content (b\<lparr>buf_bytes := ?v\<rparr>) = content b"
    using b by (simp add: content_def wf_buffer_def)
  moreover have "len \<le> writableBytes (b\<lparr>buf_bytes := ?v\<rparr>)"
    using unat_writableBytes [OF wf] more by (simp add: word_le_nat_alt)
  ultimately show ?thesis by blast
qed

lemma makeSpace_move:
  assumes b: "wf_buffer b" and len: "unat len \<le> max_size"
    and short: "writableBytes b < len"
    and move: "\<not> writableBytes b + prependableBytes b < len + kCheapPrepend"
  shows "\<exists>b'. makeSpace len b = Inr b' \<and> wf_buffer b' \<and> content b' = content b \<and>
    len \<le> writableBytes b'"
proof -
  let ?r = "unat (buf_reader b)" and ?w = "unat (buf_writer b)" and ?c = "content b"
  let ?v = "take 8 (buf_bytes b) @ ?c @ drop (8 + (?w - ?r)) (buf_bytes b)"
  let ?b = "b\<lparr>buf_bytes := ?v, buf_reader := kCheapPrepend,
    buf_writer := kCheapPrepend + readableBytes b\<rparr>"
  have r: "8 < ?r" using assms by (rule makeSpace_move_disjoint)
  have le: "?r \<le> ?w" "?w \<le> length (buf_bytes b)" "length (buf_bytes b) \<le> max_size"
    using b by (auto simp: wf_buffer_def)
  have c: "length ?c = ?w - ?r" using b by (rule length_content)
  have "take (?w - ?r) (drop ?r (buf_bytes b)) = ?c" by (simp add: content_def drop_take)
  then have ms: "makeSpace len b = Inr ?b"
    using r le move by (simp add: makeSpace_def copy_within_def Let_def)
  have w': "unat (kCheapPrepend + readableBytes b) = 8 + (?w - ?r)"
    using le by (subst unat_add_small) (auto simp: unat_readableBytes b c max_size_def)
  have lv: "length ?v = length (buf_bytes b)" using r le c by simp
  have wf: "wf_buffer ?b" using le r lv by (simp add: wf_buffer_def w') arith
  have "content ?b = ?c" using le r by (simp add: content_def w' c)
  moreover have "len \<le> writableBytes ?b"
  proof -
    have "unat (len + kCheapPrepend) = unat len + 8"
      using len by (subst unat_add_small) (auto simp: max_size_def)
    moreover have "unat (writableBytes b + prependableBytes b) = (length (buf_bytes b) - ?w) + ?r"
      using le unat_writableBytes [OF b] unfolding prependableBytes_def max_size_def
      by (subst unat_add_small) auto
    ultimately have "unat len + 8 \<le> (length (buf_bytes b) - ?w) + ?r"
      using move by (simp add: word_less_nat_alt)
    then show ?thesis
      using unat_writableBytes [OF wf] lv w' le by (simp add: word_le_nat_alt)
  qed
  ultimately show ?thesis using ms wf by blast
qed

lemma ensureWritableBytes_ok:
  assumes "wf_buffer b" "unat (buf_writer b) + unat len \<le> max_size"
  shows "\<exists>b'. ensureWritableBytes len b = Inr b' \<and> wf_buffer b' \<and> content b' = content b \<and>
    len \<le> writableBytes b'"
proof (cases "writableBytes b < len")
  case True
  moreover have "unat len \<le> max_size" using assms(2) by simp
  ultimately show ?thesis
    using makeSpace_grow [OF assms True] makeSpace_move [OF assms(1) _ True]
    by (auto simp: ensureWritableBytes_def)
next
  case False
  with assms(1) show ?thesis by (auto simp: ensureWritableBytes_def)
qed

lemma append_bytes_ok:
  assumes "wf_buffer b" "unat len = length data" "unat (buf_writer b) + length data \<le> max_size"
  shows "\<exists>b'. append_bytes data len b = Inr b' \<and> wf_buffer b' \<and> content b' = content b @ data"
proof -
  from assms obtain b' where b': "ensureWritableBytes len b = Inr b'" "wf_buffer b'"
      "content b' = content b" "len \<le> writableBytes b'"
    using ensureWritableBytes_ok [of b len] by auto
  let ?r = "unat (buf_reader b')" and ?w = "unat (buf_writer b')" and ?v = "buf_bytes b'"
  have room: "?w + length data \<le> length ?v"
    using b' assms(2) unat_writableBytes [of b'] by (auto simp: word_le_nat_alt wf_buffer_def)
  then have w': "unat (buf_writer b' + len) = ?w + length data"
    using b'(2) assms(2) by (subst unat_add_small) (auto simp: wf_buffer_def max_size_def)
  let ?b = "b'\<lparr>buf_bytes := take ?w ?v @ data @ drop (?w + length data) ?v,
    buf_writer := buf_writer b' + len\<rparr>"
  have "append_bytes data len b = Inr ?b"
    using b' room assms(2) by (simp add: append_bytes_def copy_in_def)
  moreover have "wf_buffer ?b"
    using b'(2) room by (auto simp: wf_buffer_def w')
  moreover have "content ?b = content b' @ data"
    using b'(2) room by (simp add: content_def w' wf_buffer_def)
  ultimately show ?thesis using b'(3) by auto
qed

text \<open>Appending moves the writer by at most the bytes appended: room is used up no faster.\<close>

lemma ensureWritableBytes_writer:
  assumes b: "wf_buffer b" and b': "ensureWritableBytes len b = Inr b'"
  shows "unat (buf_writer b') \<le> unat (buf_writer b)"
proof -
  have "unat (kCheapPrepend + readableBytes b) \<le> unat (buf_writer b)"
    using b unat_readableBytes [OF b] length_content [OF b]
    by (subst unat_add_small) (auto simp: wf_buffer_def max_size_def)
  with b' show ?thesis
    by (auto simp: ensureWritableBytes_def makeSpace_def Let_def res_simps split: if_splits)
qed

lemma append_bytes_writer:
  assumes "wf_buffer b" "append_bytes data len b = Inr b'"
  shows "unat (buf_writer b') \<le> unat (buf_writer b) + unat len"
proof -
  from assms(2) obtain b1 where "ensureWritableBytes len b = Inr b1"
      "buf_writer b' = buf_writer b1 + len"
    by (auto simp: append_bytes_def res_simps split: if_splits)
  moreover have "unat (buf_writer b1 + len) \<le> unat (buf_writer b1) + unat len"
    by (simp add: unat_plus_if')
  ultimately show ?thesis using ensureWritableBytes_writer [OF assms(1)] by fastforce
qed

text \<open>Appending grows the vector by at most what is appended.\<close>

lemma append_bytes_size:
  assumes b: "wf_buffer b" and b': "append_bytes data len b = Inr b'"
  shows "length (buf_bytes b') \<le> length (buf_bytes b) + unat len"
proof -
  have "unat (buf_writer b) \<le> length (buf_bytes b)" using b by (simp add: wf_buffer_def)
  moreover have "unat (buf_writer b + len) \<le> unat (buf_writer b) + unat len" by (simp add: unat_plus_if')
  ultimately have "length (buf_bytes b1) \<le> length (buf_bytes b) + unat len"
    if "ensureWritableBytes len b = Inr b1" for b1
    using that by (auto simp: ensureWritableBytes_def makeSpace_def vec_resize_def copy_within_def Let_def
        res_simps split: if_splits)
  moreover from b' obtain b1 where "ensureWritableBytes len b = Inr b1"
      "length (buf_bytes b') = length (buf_bytes b1)"
    by (auto simp: append_bytes_def copy_in_def res_simps split: if_splits)
  ultimately show ?thesis by simp
qed

subsection \<open>The contract of a byte queue\<close>

text \<open>
  What the connection relies on: \<open>put\<close> appends where there is room, \<open>get\<close> drops from the front.
  The client's facts are about a stream: \<open>out\<close> is what has left the queue so far, \<open>entered\<close> what has
  entered it.
\<close>

locale byte_queue =
  fixes queue :: "'q \<Rightarrow> 'a list"
    and ok :: "'q \<Rightarrow> bool"
    and room :: "nat \<Rightarrow> 'q \<Rightarrow> bool"
    and put :: "'a list \<Rightarrow> 'q \<Rightarrow> 'q result"
    and get :: "nat \<Rightarrow> 'q \<Rightarrow> 'q"
  assumes put_law: "ok q \<Longrightarrow> room (length xs) q \<Longrightarrow>
      \<exists>q'. put xs q = Inr q' \<and> ok q' \<and> queue q' = queue q @ xs"
    and get_law: "ok q \<Longrightarrow> n \<le> length (queue q) \<Longrightarrow>
      ok (get n q) \<and> queue (get n q) = drop n (queue q)"
begin

lemma stream_put:
  assumes "ok q" "room (length xs) q" "out @ queue q = entered"
  shows "\<exists>q'. put xs q = Inr q' \<and> ok q' \<and> out @ queue q' = entered @ xs"
  using put_law [OF assms(1,2)] assms(3) by auto

lemma stream_put_Inr:
  assumes "put xs q = Inr q'" "ok q" "room (length xs) q"
  shows "ok q'" and "queue q' = queue q @ xs"
  using put_law [OF assms(2,3)] assms(1) by auto

lemma stream_get:
  assumes "ok q" "n \<le> length (queue q)" "out @ queue q = entered"
  shows "ok (get n q)" and "(out @ take n (queue q)) @ queue (get n q) = entered"
  using get_law [OF assms(1,2)] assms(3) by auto

lemma get_all_empties: "ok q \<Longrightarrow> queue (get (length (queue q)) q) = []"
  using get_law [of q "length (queue q)"] by simp

end

definition buffer_room :: "nat \<Rightarrow> buffer \<Rightarrow> bool" where
  "buffer_room n b \<longleftrightarrow> length (buf_bytes b) + n \<le> max_size"

definition buffer_put :: "byte list \<Rightarrow> buffer \<Rightarrow> buffer result" where
  "buffer_put xs b = append_bytes xs (of_nat (length xs)) b"

definition buffer_get :: "nat \<Rightarrow> buffer \<Rightarrow> buffer" where
  "buffer_get n b = retrieve (of_nat n) b"

lemma buffer_put_ok:
  assumes "wf_buffer b" "buffer_room (length xs) b"
  shows "\<exists>b'. buffer_put xs b = Inr b' \<and> wf_buffer b' \<and> content b' = content b @ xs"
proof -
  have "length xs \<le> max_size" using assms(2) by (simp add: buffer_room_def)
  then have "unat (of_nat (length xs) :: size_t) = length xs"
    by (intro unat_of_nat_small) (simp add: max_size_def)
  then show ?thesis
    unfolding buffer_put_def using assms
    by (intro append_bytes_ok) (auto simp: wf_buffer_def buffer_room_def)
qed

lemma buffer_get_ok:
  assumes "wf_buffer b" "n \<le> length (content b)"
  shows "wf_buffer (buffer_get n b) \<and> content (buffer_get n b) = drop n (content b)"
proof -
  have "length (content b) \<le> max_size"
    using assms(1) by (auto simp: length_content wf_buffer_def)
  with assms(2) have "unat (of_nat n :: size_t) = n"
    by (intro unat_of_nat_small) (simp add: max_size_def)
  with assms(1) show ?thesis
    by (simp add: buffer_get_def wf_retrieve content_retrieve)
qed

interpretation bq: byte_queue content wf_buffer buffer_room buffer_put buffer_get
  by unfold_locales (auto intro: buffer_put_ok dest: buffer_get_ok)

subsection \<open>Reading from a descriptor\<close>

lemma copy_in_at_writer:
  assumes b: "wf_buffer b" and fits: "unat (buf_writer b) + length bs \<le> length (buf_bytes b)"
  shows "\<exists>v. copy_in bs (unat (buf_writer b)) (buf_bytes b) = Inr v \<and>
    length v = length (buf_bytes b) \<and>
    wf_buffer (b\<lparr>buf_bytes := v, buf_writer := buf_writer b + of_nat (length bs)\<rparr>) \<and>
    content (b\<lparr>buf_bytes := v, buf_writer := buf_writer b + of_nat (length bs)\<rparr>) = content b @ bs"
proof -
  let ?w = "unat (buf_writer b)" and ?v = "buf_bytes b"
  have "length bs \<le> max_size" using fits b by (simp add: wf_buffer_def)
  then have "unat (of_nat (length bs) :: size_t) = length bs"
    by (intro unat_of_nat_small) (simp add: max_size_def)
  then have w': "unat (buf_writer b + of_nat (length bs)) = ?w + length bs"
    using fits b by (subst unat_add_small) (auto simp: wf_buffer_def max_size_def)
  show ?thesis
    using b fits by (auto simp: copy_in_def wf_buffer_def content_def w')
qed

lemma readFd_ok:
  assumes os: "readv_ok os" and b: "wf_buffer b" and room: "buffer_room extrabuf_size b"
  shows "\<exists>r b' bs. readFd os f b w = Inr (r, b', snd (sys_readv os f (readv_iov b) w)) \<and> wf_buffer b' \<and>
    content b' = content b @ bs \<and>
    (case os_readv os (hist w) f (readv_iov b) of
       Inl e \<Rightarrow> r = Inl e \<and> bs = [] | Inr d \<Rightarrow> r = Inr (length d) \<and> bs = d) \<and>
    length (buf_bytes b') \<le> length (buf_bytes b) + extrabuf_size"
proof -
  let ?wr = "unat (writableBytes b)"
  let ?iov = "readv_iov b"
  have wr: "?wr = length (buf_bytes b) - unat (buf_writer b)"
    using b by (rule unat_writableBytes)
  have le: "unat (buf_writer b) \<le> length (buf_bytes b)" "length (buf_bytes b) \<le> max_size"
    using b by (auto simp: wf_buffer_def)
  show ?thesis
  proof (cases "os_readv os (hist w) f ?iov")
    case (Inl e)
    then show ?thesis using b
      by (intro exI [of _ "Inl e"] exI [of _ b] exI [of _ "[]"])
         (simp add: readFd_def sys_readv_def readv_iov_def Let_def)
  next
    case (Inr bs)
    let ?w' = "snd (sys_readv os f ?iov w)"
    have len: "length bs \<le> sum_list ?iov" using os Inr by (rule readv_okD)
    show ?thesis
    proof (cases "length bs \<le> ?wr")
      case True
      then have "unat (buf_writer b) + length bs \<le> length (buf_bytes b)" using wr le by simp
      from copy_in_at_writer [OF b this] obtain v where v:
        "copy_in bs (unat (buf_writer b)) (buf_bytes b) = Inr v" "length v = length (buf_bytes b)"
        "wf_buffer (b\<lparr>buf_bytes := v, buf_writer := buf_writer b + of_nat (length bs)\<rparr>)"
        "content (b\<lparr>buf_bytes := v, buf_writer := buf_writer b + of_nat (length bs)\<rparr>)
           = content b @ bs"
        by blast
      then have "readFd os f b w = Inr (Inr (length bs),
          b\<lparr>buf_bytes := v, buf_writer := buf_writer b + of_nat (length bs)\<rparr>, ?w')"
        using Inr True len by (simp add: readFd_def sys_readv_def readv_iov_def Let_def)
      with v Inr show ?thesis by (intro exI conjI) (assumption | simp)+
    next
      case False
      let ?fst = "take ?wr bs" and ?snd = "drop ?wr bs"
      have small: "?wr < extrabuf_size" using False len by (simp add: readv_iov_def Let_def split: if_splits)
      then have snd: "length ?snd \<le> extrabuf_size" using len by (simp add: readv_iov_def Let_def split: if_splits)
      have lfst: "length ?fst = ?wr" using False by simp
      have "unat (buf_writer b) + length ?fst \<le> length (buf_bytes b)" using wr le lfst by simp
      from copy_in_at_writer [OF b this] obtain v where v:
        "copy_in ?fst (unat (buf_writer b)) (buf_bytes b) = Inr v"
        "length v = length (buf_bytes b)"
        "wf_buffer (b\<lparr>buf_bytes := v, buf_writer := buf_writer b + of_nat (length ?fst)\<rparr>)"
        "content (b\<lparr>buf_bytes := v, buf_writer := buf_writer b + of_nat (length ?fst)\<rparr>)
           = content b @ ?fst"
        by blast
      have "buf_writer b + of_nat (length ?fst) = vec_size v"
        using v(2) lfst by (simp add: writableBytes_def vec_size_def)
      note v = v(1,2) v(3,4) [unfolded this]
      let ?b1 = "b\<lparr>buf_bytes := v, buf_writer := vec_size v\<rparr>"
      let ?n = "of_nat (length bs) - writableBytes b :: size_t"
      have "length bs < 2 ^ 64" using len small by (simp add: readv_iov_def Let_def extrabuf_size_def)
      then have n: "unat ?n = length ?snd"
        using False by (simp add: unat_sub_le word_le_nat_alt unat_of_nat_small)
      let ?pad = "replicate (extrabuf_size - length ?snd) 0"
      have "append_bytes (?snd @ ?pad) ?n ?b1 = append_bytes ?snd ?n ?b1"
        by (simp add: append_bytes_def n)
      moreover have "unat (buf_writer ?b1) + length ?snd \<le> max_size"
        using room snd v(2) le by (simp add: unat_vec_size buffer_room_def)
      from append_bytes_ok [OF v(3) n this] obtain b' where
        app: "append_bytes ?snd ?n ?b1 = Inr b'" and "wf_buffer b'" "content b' = content ?b1 @ ?snd"
        by blast
      ultimately have "readFd os f b w = Inr (Inr (length bs), b', ?w')" "wf_buffer b'"
          "content b' = content b @ bs"
        using Inr False len small v(1,4) by (simp_all add: readFd_def sys_readv_def readv_iov_def Let_def)
      moreover have "length (buf_bytes b') \<le> length (buf_bytes b) + extrabuf_size"
        using append_bytes_size [OF v(3) app] v(2) n snd by simp
      ultimately show ?thesis using Inr by (intro exI conjI) (assumption | simp)+
    qed
  qed
qed

end
