(* ===== verification/Sockets.thy ===== *)
theory Sockets
  imports OS
begin

section \<open>Sockets: the wrapper around a socket descriptor\<close>

text \<open>
  \<open>src/src/Socket.h\<close> and \<open>src/src/Socket.cc\<close>.  A \<open>Socket\<close> is the descriptor it owns; the setters
  ignore the result of \<open>setsockopt\<close>, \<open>bindAddress\<close> and \<open>listen\<close> end the process when they fail,
  \<open>shutdownWrite\<close> and the destructor only log.
\<close>

definition Socket_dtor :: "os \<Rightarrow> fd \<Rightarrow> 'w os_world_scheme \<Rightarrow> 'w os_world_scheme" where
  "Socket_dtor os f w = snd (sys_close os f w)"

definition Socket_bindAddress :: "os \<Rightarrow> fd \<Rightarrow> sockaddr \<Rightarrow> 'w os_world_scheme \<Rightarrow> 'w os_world_scheme result" where
  "Socket_bindAddress os f a w =
     (case sys_bind os f a w of (Inr _, w1) \<Rightarrow> Inr w1 | (Inl _, w1) \<Rightarrow> Inl Exit)"

definition Socket_listen :: "os \<Rightarrow> fd \<Rightarrow> 'w os_world_scheme \<Rightarrow> 'w os_world_scheme result" where
  "Socket_listen os f w =
     (case sys_listen os f w of (Inr _, w1) \<Rightarrow> Inr w1 | (Inl _, w1) \<Rightarrow> Inl Exit)"

text \<open>\<open>accept\<close>: the new descriptor and the address of the peer, or the error.\<close>

definition Socket_accept ::
  "os \<Rightarrow> fd \<Rightarrow> 'w os_world_scheme \<Rightarrow> (errno + fd \<times> sockaddr) \<times> 'w os_world_scheme" where
  "Socket_accept os f w = sys_accept os f w"

definition Socket_shutdownWrite :: "os \<Rightarrow> fd \<Rightarrow> 'w os_world_scheme \<Rightarrow> 'w os_world_scheme" where
  "Socket_shutdownWrite os f w = snd (sys_shutdown os f w)"

definition Socket_setTcpNoDelay :: "fd \<Rightarrow> bool \<Rightarrow> 'w os_world_scheme \<Rightarrow> 'w os_world_scheme" where
  "Socket_setTcpNoDelay f on = sys_setsockopt f TCP_NODELAY on"

definition Socket_setReuseAddr :: "fd \<Rightarrow> bool \<Rightarrow> 'w os_world_scheme \<Rightarrow> 'w os_world_scheme" where
  "Socket_setReuseAddr f on = sys_setsockopt f SO_REUSEADDR on"

definition Socket_setReusePort :: "fd \<Rightarrow> bool \<Rightarrow> 'w os_world_scheme \<Rightarrow> 'w os_world_scheme" where
  "Socket_setReusePort f on = sys_setsockopt f SO_REUSEPORT on"

definition Socket_setKeepAlive :: "fd \<Rightarrow> bool \<Rightarrow> 'w os_world_scheme \<Rightarrow> 'w os_world_scheme" where
  "Socket_setKeepAlive f on = sys_setsockopt f SO_KEEPALIVE on"

declare Socket_shutdownWrite_def [simp] Socket_setKeepAlive_def [simp]

text \<open>What a setter, a bind or a listen leaves behind.\<close>

lemma Socket_bindAddress_Inr:
  "Socket_bindAddress os f a w = Inr w' \<Longrightarrow> w' = w\<lparr>hist := hist w @ [Bind f a (Inr ())]\<rparr>"
  by (auto simp: Socket_bindAddress_def sys_bind_def Let_def split: sum.splits)

lemma Socket_listen_Inr:
  "Socket_listen os f w = Inr w' \<Longrightarrow> w' = w\<lparr>hist := hist w @ [Listen f (Inr ())]\<rparr>"
  by (auto simp: Socket_listen_def sys_listen_def Let_def split: sum.splits)

end
