(* ===== verification/TcpConnection.thy ===== *)
theory TcpConnection
  imports TimerQueue Buffer Sockets
begin

section \<open>TcpConnection: the life and the data of one connection\<close>

text \<open>
  \<open>src/src/TcpConnection.h\<close> and \<open>src/src/TcpConnection.cc\<close>.  Connections are heap objects in the
  store \<open>conns\<close>; a connection owns its socket descriptor and its channel.  Application memory that
  is passed by pointer (the string handed to \<open>send\<close>) is in the store \<open>memory\<close>: freeing the string
  removes it from the store.  \<open>env\<close> supplies the application's callbacks and the close callbacks of
  servers and clients.  Logging is left out.
\<close>

datatype StateE = kDisconnected | kConnecting | kConnected | kDisconnecting

record conn =
  cn_loop :: loop_ptr
  cn_name :: string
  cn_state :: StateE
  cn_reading :: bool
  cn_socket :: fd
  cn_channel :: chan_ptr
  cn_localAddr :: sockaddr
  cn_peerAddr :: sockaddr
  cn_connectionCallback :: "connection_callback option"
  cn_messageCallback :: "message_callback option"
  cn_writeCompleteCallback :: "user_fn option"
  cn_highWaterMarkCallback :: "user_fn option"
  cn_closeCallback :: "close_callback option"
  cn_highWaterMark :: size_t
  cn_inputBuffer :: buffer
  cn_outputBuffer :: buffer

record conn_world = timer_world +
  conns :: "conn_ptr \<rightharpoonup> conn"
  memory :: "mem_ptr \<rightharpoonup> byte list"

record 'w conn_env = "'w app" +
  env_close :: "close_callback \<Rightarrow> conn_ptr \<Rightarrow> 'w \<Rightarrow> 'w result"

definition upd_conn :: "conn_ptr \<Rightarrow> (conn \<Rightarrow> conn) \<Rightarrow> 'w conn_world_scheme \<Rightarrow> 'w conn_world_scheme" where
  "upd_conn c g w = w\<lparr>conns := (conns w)(c := map_option g (conns w c))\<rparr>"

definition TcpConnection_setState :: "conn_ptr \<Rightarrow> StateE \<Rightarrow> 'w conn_world_scheme \<Rightarrow> 'w conn_world_scheme" where
  "TcpConnection_setState c s = upd_conn c (\<lambda>cn. cn\<lparr>cn_state := s\<rparr>)"

definition TcpConnection_setConnectionCallback ::
  "conn_ptr \<Rightarrow> connection_callback \<Rightarrow> 'w conn_world_scheme \<Rightarrow> 'w conn_world_scheme" where
  "TcpConnection_setConnectionCallback c cb = upd_conn c (\<lambda>cn. cn\<lparr>cn_connectionCallback := Some cb\<rparr>)"

definition TcpConnection_setMessageCallback ::
  "conn_ptr \<Rightarrow> message_callback \<Rightarrow> 'w conn_world_scheme \<Rightarrow> 'w conn_world_scheme" where
  "TcpConnection_setMessageCallback c cb = upd_conn c (\<lambda>cn. cn\<lparr>cn_messageCallback := Some cb\<rparr>)"

definition TcpConnection_setWriteCompleteCallback ::
  "conn_ptr \<Rightarrow> user_fn \<Rightarrow> 'w conn_world_scheme \<Rightarrow> 'w conn_world_scheme" where
  "TcpConnection_setWriteCompleteCallback c cb = upd_conn c (\<lambda>cn. cn\<lparr>cn_writeCompleteCallback := Some cb\<rparr>)"

definition TcpConnection_setHighWaterMarkCallback ::
  "conn_ptr \<Rightarrow> user_fn \<Rightarrow> 'w conn_world_scheme \<Rightarrow> 'w conn_world_scheme" where
  "TcpConnection_setHighWaterMarkCallback c cb = upd_conn c (\<lambda>cn. cn\<lparr>cn_highWaterMarkCallback := Some cb\<rparr>)"

definition TcpConnection_setCloseCallback ::
  "conn_ptr \<Rightarrow> close_callback \<Rightarrow> 'w conn_world_scheme \<Rightarrow> 'w conn_world_scheme" where
  "TcpConnection_setCloseCallback c cb = upd_conn c (\<lambda>cn. cn\<lparr>cn_closeCallback := Some cb\<rparr>)"

text \<open>The constructor, at the address \<open>c\<close> and with its channel at the address \<open>p\<close>.\<close>

definition TcpConnection_ctor ::
  "conn_ptr \<Rightarrow> chan_ptr \<Rightarrow> loop_ptr \<Rightarrow> string \<Rightarrow> fd \<Rightarrow> sockaddr \<Rightarrow> sockaddr
     \<Rightarrow> 'w conn_world_scheme \<Rightarrow> 'w conn_world_scheme result" where
  "TcpConnection_ctor c p loop name sockfd localAddr peerAddr w =
     bindE (Buffer_new kInitialSize) (\<lambda>inp.
     bindE (Buffer_new kInitialSize) (\<lambda>out.
     let channel = (Channel_new loop sockfd)
           \<lparr>ch_readCallback := Some (Bind_TcpConnection_handleRead c),
            ch_writeCallback := Some (Bind_TcpConnection_handleWrite c),
            ch_closeCallback := Some (Bind_TcpConnection_handleClose c),
            ch_errorCallback := Some (Bind_TcpConnection_handleError c)\<rparr>;
         cn = \<lparr>cn_loop = loop, cn_name = name, cn_state = kConnecting, cn_reading = True,
               cn_socket = sockfd, cn_channel = p, cn_localAddr = localAddr,
               cn_peerAddr = peerAddr, cn_connectionCallback = None, cn_messageCallback = None,
               cn_writeCompleteCallback = None, cn_highWaterMarkCallback = None,
               cn_closeCallback = None, cn_highWaterMark = 64 * 1024 * 1024,
               cn_inputBuffer = inp, cn_outputBuffer = out\<rparr>
     in Inr (Socket_setKeepAlive sockfd True
              (w\<lparr>chans := (chans w)(p \<mapsto> channel), conns := (conns w)(c \<mapsto> cn)\<rparr>))))"

text \<open>Calling a \<open>std::function\<close> member; an empty one throws.\<close>

definition call_connection ::
  "('w conn_world_scheme) conn_env \<Rightarrow> conn_ptr \<Rightarrow> 'w conn_world_scheme
     \<Rightarrow> 'w conn_world_scheme result" where
  "call_connection env c w =
     bindE (deref (conns w) c) (\<lambda>cn.
     case cn_connectionCallback cn of
       None \<Rightarrow> Inl Bad_Function_Call
     | Some Default_connection \<Rightarrow> Inr w
     | Some (App_connection u) \<Rightarrow> app_connection env u c w)"

definition call_message ::
  "('w conn_world_scheme) conn_env \<Rightarrow> conn_ptr \<Rightarrow> timestamp \<Rightarrow> 'w conn_world_scheme
     \<Rightarrow> 'w conn_world_scheme result" where
  "call_message env c receiveTime w =
     bindE (deref (conns w) c) (\<lambda>cn.
     case cn_messageCallback cn of
       None \<Rightarrow> Inl Bad_Function_Call
     | Some Default_message \<Rightarrow>
         Inr (upd_conn c (\<lambda>cn. cn\<lparr>cn_inputBuffer := retrieveAll (cn_inputBuffer cn)\<rparr>) w)
     | Some (App_message u) \<Rightarrow> app_message env u c receiveTime w)"

definition call_close ::
  "('w conn_world_scheme) conn_env \<Rightarrow> conn_ptr \<Rightarrow> 'w conn_world_scheme
     \<Rightarrow> 'w conn_world_scheme result" where
  "call_close env c w =
     bindE (deref (conns w) c) (\<lambda>cn.
     case cn_closeCallback cn of
       None \<Rightarrow> Inl Bad_Function_Call
     | Some cb \<Rightarrow> env_close env cb c w)"

subsection \<open>Sending\<close>

text \<open>\<open>len\<close> bytes of application memory, from \<open>off\<close> on.\<close>

definition bytes_at :: "mem_ptr \<Rightarrow> size_t \<Rightarrow> size_t \<Rightarrow> 'w conn_world_scheme \<Rightarrow> byte list result" where
  "bytes_at p off len w =
     bindE (deref (memory w) p) (\<lambda>d.
     if unat off + unat len \<le> length d
     then Inr (take (unat len) (drop (unat off) d)) else Inl Undefined_Behaviour)"

text \<open>Queueing an optional callback of the application.\<close>

definition queue_opt ::
  "os \<Rightarrow> loop_ptr \<Rightarrow> closure option \<Rightarrow> 'w conn_world_scheme \<Rightarrow> 'w conn_world_scheme" where
  "queue_opt os L cb w = (case cb of None \<Rightarrow> w | Some f \<Rightarrow> EventLoop_queueInLoop os L f w)"

text \<open>
  The two halves of \<open>sendInLoop\<close>: the attempt to write directly, with the results \<open>nwrote\<close>,
  \<open>remaining\<close> and \<open>faultError\<close>; and the buffering of what remains.
\<close>

definition sendInLoop_write ::
  "os \<Rightarrow> conn_ptr \<Rightarrow> conn \<Rightarrow> channel \<Rightarrow> mem_ptr \<Rightarrow> size_t \<Rightarrow> 'w conn_world_scheme
     \<Rightarrow> (size_t \<times> size_t \<times> bool \<times> 'w conn_world_scheme) result" where
  "sendInLoop_write os c cn ch p len w =
     (if \<not> isWriting ch \<and> readableBytes (cn_outputBuffer cn) = 0
      then bindE (bytes_at p 0 len w) (\<lambda>data.
           case sys_write os (ch_fd ch) data w of
             (Inr n, w1) \<Rightarrow>
               let nwrote = of_nat n; remaining = len - nwrote in
               Inr (nwrote, remaining, False,
                    if remaining = 0
                    then queue_opt os (cn_loop cn)
                           (map_option (\<lambda>u. Bind_writeComplete u c) (cn_writeCompleteCallback cn)) w1
                    else w1)
           | (Inl e, w1) \<Rightarrow> Inr (0, len, e \<noteq> EAGAIN \<and> (e = EPIPE \<or> e = ECONNRESET), w1))
      else Inr (0, len, False, w))"

definition sendInLoop_buffer ::
  "os \<Rightarrow> conn_ptr \<Rightarrow> conn \<Rightarrow> channel \<Rightarrow> mem_ptr \<Rightarrow> size_t \<Rightarrow> size_t \<Rightarrow> 'w conn_world_scheme
     \<Rightarrow> 'w conn_world_scheme result" where
  "sendInLoop_buffer os c cn ch p nwrote remaining w =
     (let oldLen = readableBytes (cn_outputBuffer cn);
          w1 = (if cn_highWaterMark cn \<le> oldLen + remaining \<and> oldLen < cn_highWaterMark cn
                then queue_opt os (cn_loop cn)
                       (map_option (\<lambda>u. Bind_highWaterMark u c (oldLen + remaining))
                          (cn_highWaterMarkCallback cn)) w
                else w)
      in bindE (bytes_at p nwrote remaining w1) (\<lambda>rest.
         bindE (append_bytes rest remaining (cn_outputBuffer cn)) (\<lambda>b.
         let w2 = upd_conn c (\<lambda>cn. cn\<lparr>cn_outputBuffer := b\<rparr>) w1 in
         if \<not> isWriting ch then Channel_enableWriting os (cn_channel cn) w2 else Inr w2)))"

definition TcpConnection_sendInLoop ::
  "os \<Rightarrow> conn_ptr \<Rightarrow> mem_ptr \<Rightarrow> size_t \<Rightarrow> 'w conn_world_scheme \<Rightarrow> 'w conn_world_scheme result" where
  "TcpConnection_sendInLoop os c p len w =
     bindE (deref (conns w) c) (\<lambda>cn.
     if cn_state cn = kDisconnected then Inr w
     else bindE (deref (chans w) (cn_channel cn)) (\<lambda>ch.
          bindE (sendInLoop_write os c cn ch p len w) (\<lambda>(nwrote, remaining, faultError, w1).
          if \<not> faultError \<and> 0 < remaining
          then sendInLoop_buffer os c cn ch p nwrote remaining w1
          else Inr w1)))"

text \<open>
  \<open>send(buf)\<close>, with the string \<open>buf\<close> at the address \<open>p\<close>: from another thread it queues the bare
  pointers of the string and of the connection.
\<close>

definition TcpConnection_send ::
  "os \<Rightarrow> conn_ptr \<Rightarrow> mem_ptr \<Rightarrow> 'w conn_world_scheme \<Rightarrow> 'w conn_world_scheme result" where
  "TcpConnection_send os c p w =
     bindE (deref (conns w) c) (\<lambda>cn.
     bindE (deref (memory w) p) (\<lambda>buf.
     let len = of_nat (length buf) in
     if cn_state cn = kConnected
     then if isInLoopThread (cn_loop cn) w then TcpConnection_sendInLoop os c p len w
          else EventLoop_runInLoop os (cn_loop cn) (Bind_TcpConnection_sendInLoop c p len)
                 (TcpConnection_sendInLoop os c p len) w
     else Inr w))"

subsection \<open>Shutting down and closing\<close>

definition TcpConnection_shutdownInLoop ::
  "os \<Rightarrow> conn_ptr \<Rightarrow> 'w conn_world_scheme \<Rightarrow> 'w conn_world_scheme result" where
  "TcpConnection_shutdownInLoop os c w =
     bindE (deref (conns w) c) (\<lambda>cn.
     bindE (deref (chans w) (cn_channel cn)) (\<lambda>ch.
     if \<not> isWriting ch then Inr (Socket_shutdownWrite os (cn_socket cn) w) else Inr w))"

definition TcpConnection_shutdown ::
  "os \<Rightarrow> conn_ptr \<Rightarrow> 'w conn_world_scheme \<Rightarrow> 'w conn_world_scheme result" where
  "TcpConnection_shutdown os c w =
     bindE (deref (conns w) c) (\<lambda>cn.
     if cn_state cn = kConnected
     then EventLoop_runInLoop os (cn_loop cn) (Bind_TcpConnection_shutdownInLoop c)
            (TcpConnection_shutdownInLoop os c) (TcpConnection_setState c kDisconnecting w)
     else Inr w)"

definition TcpConnection_connectEstablished ::
  "os \<Rightarrow> ('w conn_world_scheme) conn_env \<Rightarrow> conn_ptr \<Rightarrow> 'w conn_world_scheme
     \<Rightarrow> 'w conn_world_scheme result" where
  "TcpConnection_connectEstablished os env c w =
     bindE (deref (conns w) c) (\<lambda>cn.
     let w1 = TcpConnection_setState c kConnected w in
     bindE (deref (chans w1) (cn_channel cn)) (\<lambda>_.
     bindE (Channel_enableReading os (cn_channel cn) (upd_chan (cn_channel cn) (Channel_tie c) w1)) (\<lambda>w2.
     call_connection env c w2)))"

definition TcpConnection_connectDestroyed ::
  "os \<Rightarrow> ('w conn_world_scheme) conn_env \<Rightarrow> conn_ptr \<Rightarrow> 'w conn_world_scheme
     \<Rightarrow> 'w conn_world_scheme result" where
  "TcpConnection_connectDestroyed os env c w =
     bindE (deref (conns w) c) (\<lambda>cn.
     bindE (if cn_state cn = kConnected
            then bindE (Channel_disableAll os (cn_channel cn) (TcpConnection_setState c kDisconnected w))
                   (call_connection env c)
            else Inr w) (\<lambda>w1.
     Channel_remove os (cn_channel cn) w1))"

text \<open>
  The destructor: it logs, then the members go in reverse order, the channel before the socket, which
  closes the descriptor.
\<close>

definition TcpConnection_dtor ::
  "os \<Rightarrow> conn_ptr \<Rightarrow> 'w conn_world_scheme \<Rightarrow> 'w conn_world_scheme result" where
  "TcpConnection_dtor os c w =
     bindE (deref (conns w) c) (\<lambda>cn.
     bindE (deref (chans w) (cn_channel cn)) (\<lambda>_.
     Inr (Socket_dtor os (cn_socket cn)
            (w\<lparr>chans := (chans w)(cn_channel cn := None), conns := (conns w)(c := None)\<rparr>))))"

definition TcpConnection_handleClose ::
  "os \<Rightarrow> ('w conn_world_scheme) conn_env \<Rightarrow> conn_ptr \<Rightarrow> 'w conn_world_scheme
     \<Rightarrow> 'w conn_world_scheme result" where
  "TcpConnection_handleClose os env c w =
     bindE (deref (conns w) c) (\<lambda>cn.
     bindE (Channel_disableAll os (cn_channel cn) (TcpConnection_setState c kDisconnected w)) (\<lambda>w1.
     bindE (call_connection env c w1) (\<lambda>w2.
     call_close env c w2)))"

definition TcpConnection_forceCloseInLoop ::
  "os \<Rightarrow> ('w conn_world_scheme) conn_env \<Rightarrow> conn_ptr \<Rightarrow> 'w conn_world_scheme
     \<Rightarrow> 'w conn_world_scheme result" where
  "TcpConnection_forceCloseInLoop os env c w =
     bindE (deref (conns w) c) (\<lambda>cn.
     if cn_state cn = kConnected \<or> cn_state cn = kDisconnecting
     then TcpConnection_handleClose os env c w else Inr w)"

definition TcpConnection_forceClose ::
  "os \<Rightarrow> conn_ptr \<Rightarrow> 'w conn_world_scheme \<Rightarrow> 'w conn_world_scheme result" where
  "TcpConnection_forceClose os c w =
     bindE (deref (conns w) c) (\<lambda>cn.
     if cn_state cn = kConnected \<or> cn_state cn = kDisconnecting
     then Inr (EventLoop_queueInLoop os (cn_loop cn) (Bind_TcpConnection_forceCloseInLoop c)
                 (TcpConnection_setState c kDisconnecting w))
     else Inr w)"

subsection \<open>The handlers of the channel\<close>

definition TcpConnection_handleError ::
  "os \<Rightarrow> conn_ptr \<Rightarrow> 'w conn_world_scheme \<Rightarrow> 'w conn_world_scheme result" where
  "TcpConnection_handleError os c w =
     bindE (deref (conns w) c) (\<lambda>cn.
     bindE (deref (chans w) (cn_channel cn)) (\<lambda>ch.
     Inr (snd (sys_getsockopt_error os (ch_fd ch) w))))"

definition TcpConnection_handleRead ::
  "os \<Rightarrow> ('w conn_world_scheme) conn_env \<Rightarrow> conn_ptr \<Rightarrow> timestamp \<Rightarrow> 'w conn_world_scheme
     \<Rightarrow> 'w conn_world_scheme result" where
  "TcpConnection_handleRead os env c receiveTime w =
     bindE (deref (conns w) c) (\<lambda>cn.
     bindE (deref (chans w) (cn_channel cn)) (\<lambda>ch.
     bindE (readFd os (ch_fd ch) (cn_inputBuffer cn) w) (\<lambda>(n, inp, w1).
     let w2 = upd_conn c (\<lambda>cn. cn\<lparr>cn_inputBuffer := inp\<rparr>) w1 in
     case n of
       Inr k \<Rightarrow> if 0 < k then call_message env c receiveTime w2
                else TcpConnection_handleClose os env c w2
     | Inl _ \<Rightarrow> TcpConnection_handleError os c w2)))"

definition TcpConnection_handleWrite ::
  "os \<Rightarrow> conn_ptr \<Rightarrow> 'w conn_world_scheme \<Rightarrow> 'w conn_world_scheme result" where
  "TcpConnection_handleWrite os c w =
     bindE (deref (conns w) c) (\<lambda>cn.
     bindE (deref (chans w) (cn_channel cn)) (\<lambda>ch.
     if isWriting ch
     then bindE (peek (readableBytes (cn_outputBuffer cn)) (cn_outputBuffer cn)) (\<lambda>data.
          case sys_write os (ch_fd ch) data w of
            (Inl _, w1) \<Rightarrow> Inr w1
          | (Inr n, w1) \<Rightarrow>
              if 0 < n
              then let out = retrieve (of_nat n) (cn_outputBuffer cn);
                       w2 = upd_conn c (\<lambda>cn. cn\<lparr>cn_outputBuffer := out\<rparr>) w1
                   in if readableBytes out = 0
                      then bindE (Channel_disableWriting os (cn_channel cn) w2) (\<lambda>w3.
                           let w4 = queue_opt os (cn_loop cn)
                                 (map_option (\<lambda>u. Bind_writeComplete u c)
                                    (cn_writeCompleteCallback cn)) w3
                           in if cn_state cn = kDisconnecting
                              then TcpConnection_shutdownInLoop os c w4 else Inr w4)
                      else Inr w2
              else Inr w1)
     else Inr w))"

subsection \<open>Frames\<close>

text \<open>
  \<open>conn_frame\<close>: what writes to descriptors, queued callbacks and clock readings leave alone.
\<close>

definition conn_frame :: "'w conn_world_scheme \<Rightarrow> 'w conn_world_scheme \<Rightarrow> bool" where
  "conn_frame w w' \<longleftrightarrow>
     conns w' = conns w \<and> chans w' = chans w \<and> pollers w' = pollers w \<and> memory w' = memory w \<and>
     interest (hist w') = interest (hist w) \<and> current_tid w' = current_tid w \<and>
     (\<forall>L. lp_wakeupFd (loops w' L) = lp_wakeupFd (loops w L) \<and>
          lp_threadId (loops w' L) = lp_threadId (loops w L))"

lemma conn_frame_refl [simp]: "conn_frame w w"
  by (simp add: conn_frame_def)

lemma conn_frame_trans: "conn_frame w1 w2 \<Longrightarrow> conn_frame w2 w3 \<Longrightarrow> conn_frame w1 w3"
  by (simp add: conn_frame_def)

lemma conn_frame_sys [simp]:
  "conn_frame w (snd (sys_write os f bs w))" "conn_frame w (snd (sys_readv os f lens w))"
  "conn_frame w (snd (sys_shutdown os f w))" "conn_frame w (snd (sys_getsockopt_error os f w))"
  by (auto simp: conn_frame_def sys_defs Let_def fun_eq_iff)

lemma conn_frame_wakeup [simp]: "conn_frame w (EventLoop_wakeup os L w)"
  unfolding EventLoop_wakeup_def by simp

lemma conn_frame_pending [simp]:
  "conn_frame w (upd_loop L (\<lambda>l. l\<lparr>lp_pendingFunctors := lp_pendingFunctors l @ [cb]\<rparr>) w)"
  by (simp add: conn_frame_def upd_loop_def)

lemma conn_frame_queueInLoop [simp]: "conn_frame w (EventLoop_queueInLoop os L cb w)"
  unfolding EventLoop_queueInLoop_def Let_def
  by (auto intro: conn_frame_trans [OF conn_frame_pending conn_frame_wakeup])

lemma conn_frame_queue_opt [simp]: "conn_frame w (queue_opt os L cb w)"
  by (simp add: queue_opt_def split: option.splits)

lemma accepted_by_other: "f' \<noteq> f \<Longrightarrow> accepted_by f (Write f' bs r) = []"
  by (cases r) simp_all

lemma sent_wakeup:
  "lp_wakeupFd (loops w L) \<noteq> f \<Longrightarrow> sent (hist (EventLoop_wakeup os L w)) f = sent (hist w) f"
  by (simp add: EventLoop_wakeup_def sys_write_def Let_def accepted_by_other)

lemma sent_queueInLoop:
  assumes "lp_wakeupFd (loops w L) \<noteq> f"
  shows "sent (hist (EventLoop_queueInLoop os L cb w)) f = sent (hist w) f"
proof -
  let ?w = "upd_loop L (\<lambda>l. l\<lparr>lp_pendingFunctors := lp_pendingFunctors l @ [cb]\<rparr>) w"
  have "sent (hist (EventLoop_wakeup os L ?w)) f = sent (hist ?w) f"
    using assms by (intro sent_wakeup) simp
  then show ?thesis by (simp add: EventLoop_queueInLoop_def Let_def)
qed

lemma sent_queue_opt:
  "lp_wakeupFd (loops w L) \<noteq> f \<Longrightarrow> sent (hist (queue_opt os L cb w)) f = sent (hist w) f"
  by (simp add: queue_opt_def sent_queueInLoop split: option.splits)

lemma upd_conn_simps [simp]:
  "conns (upd_conn c g w) = (conns w)(c := map_option g (conns w c))"
  "chans (upd_conn c g w) = chans w" "hist (upd_conn c g w) = hist w"
  "pollers (upd_conn c g w) = pollers w" "loops (upd_conn c g w) = loops w"
  "memory (upd_conn c g w) = memory w" "current_tid (upd_conn c g w) = current_tid w"
  "conn_world.more (upd_conn c g w) = conn_world.more w"
  by (simp_all add: upd_conn_def)

text \<open>What the poller leaves alone, for the fields a connection adds to the world.\<close>

lemma conn_frameD:
  fixes w w' :: "'w conn_world_scheme"
  assumes "poller_world.more w' = poller_world.more w"
  shows "conns w' = conns w" "memory w' = memory w" "conn_world.more w' = conn_world.more w"
  using assms by (cases w; cases w'; simp)+

subsection \<open>The invariant of a connection\<close>

text \<open>
  The channel belongs to the connection; writing is enabled exactly while the connection is open
  and output is waiting; an open connection is registered with epoll and reads.
\<close>

definition conn_open :: "conn \<Rightarrow> bool" where
  "conn_open cn \<longleftrightarrow> cn_state cn = kConnected \<or> cn_state cn = kDisconnecting"

definition conn_rel :: "'w conn_world_scheme \<Rightarrow> conn_ptr \<Rightarrow> conn \<Rightarrow> channel \<Rightarrow> bool" where
  "conn_rel w c cn ch \<longleftrightarrow>
     conns w c = Some cn \<and> chans w (cn_channel cn) = Some ch \<and>
     ch_fd ch = cn_socket cn \<and> ch_loop ch = cn_loop cn \<and>
     wf_buffer (cn_inputBuffer cn) \<and> wf_buffer (cn_outputBuffer cn) \<and>
     poller_inv (cn_loop cn) w \<and> lp_wakeupFd (loops w (cn_loop cn)) \<noteq> cn_socket cn \<and>
     (isWriting ch \<longrightarrow> content (cn_outputBuffer cn) \<noteq> []) \<and>
     (conn_open cn \<longrightarrow> content (cn_outputBuffer cn) \<noteq> [] \<longrightarrow> isWriting ch) \<and>
     (conn_open cn \<longrightarrow> ch_index ch = kAdded \<and> isReading ch)"

definition conn_inv :: "conn_ptr \<Rightarrow> 'w conn_world_scheme \<Rightarrow> bool" where
  "conn_inv c w \<longleftrightarrow> (\<exists>cn ch. conn_rel w c cn ch)"

text \<open>Everything the application gave to the connection: what the kernel took, then what waits.\<close>

definition out_stream :: "'w conn_world_scheme \<Rightarrow> conn \<Rightarrow> byte list" where
  "out_stream w cn = sent (hist w) (cn_socket cn) @ content (cn_outputBuffer cn)"

lemma conn_rel_frame: "conn_rel w c cn ch \<Longrightarrow> conn_frame w w' \<Longrightarrow> conn_rel w' c cn ch"
  unfolding conn_rel_def conn_frame_def
  using poller_inv_cong [of w' w "cn_loop cn"] by simp

lemma conn_relD:
  assumes "conn_rel w c cn ch"
  shows "conns w c = Some cn" "chans w (cn_channel cn) = Some ch" "ch_fd ch = cn_socket cn"
    "ch_loop ch = cn_loop cn" "wf_buffer (cn_inputBuffer cn)" "wf_buffer (cn_outputBuffer cn)"
    "poller_inv (cn_loop cn) w" "lp_wakeupFd (loops w (cn_loop cn)) \<noteq> cn_socket cn"
    "isWriting ch \<Longrightarrow> content (cn_outputBuffer cn) \<noteq> []"
    "conn_open cn \<Longrightarrow> content (cn_outputBuffer cn) \<noteq> [] \<Longrightarrow> isWriting ch"
    "conn_open cn \<Longrightarrow> ch_index ch = kAdded" "conn_open cn \<Longrightarrow> isReading ch"
  using assms unfolding conn_rel_def by blast+

lemma poller_inv_upd_conn [simp]: "poller_inv L (upd_conn c g w) = poller_inv L w"
  by (rule poller_inv_cong) simp_all

text \<open>
  Enabling or disabling writing on an open connection: it succeeds, and the connection is in its
  invariant again if its output buffer \<open>b\<close> fits the new mask.
\<close>

lemma conn_set_writing:
  assumes os: "epoll_ok os" and rel: "conn_rel w c cn ch" and opn: "conn_open cn"
    and g: "g = add_events kWriteEvent \<and> content b \<noteq> [] \<or> g = del_events kWriteEvent \<and> content b = []"
    and b: "wf_buffer b"
  shows "\<exists>w' ch'. Channel_update os (cn_channel cn) (upd_chan (cn_channel cn) g
        (upd_conn c (\<lambda>cn. cn\<lparr>cn_outputBuffer := b\<rparr>) w)) = Inr w' \<and>
    conn_rel w' c (cn\<lparr>cn_outputBuffer := b\<rparr>) ch' \<and> isWriting ch' = (content b \<noteq> []) \<and>
    sent (hist w') = sent (hist w) \<and> loops w' = loops w \<and> memory w' = memory w"
proof -
  let ?p = "cn_channel cn" and ?L = "cn_loop cn" and ?cn = "cn\<lparr>cn_outputBuffer := b\<rparr>"
  let ?w = "upd_conn c (\<lambda>cn. cn\<lparr>cn_outputBuffer := b\<rparr>) w"
  note r = conn_relD [OF rel]
  have inv: "poller_inv ?L ?w" using r(7) by simp
  have chan: "chans ?w ?p = Some ch" using r(2) by simp
  have g': "\<And>ch. ch_index (g ch) = ch_index ch" "\<And>ch. ch_fd (g ch) = ch_fd ch"
    "\<And>ch. ch_loop (g ch) = ch_loop ch" using g by auto
  have gr: "isReading (g ch)" using g r(12) [OF opn] by auto
  have added: "ch_index ch = kAdded" using r(11) [OF opn] .
  from Channel_update_added_Inr [OF os inv chan r(4) g' added] obtain w' where
    w': "Channel_update os ?p (upd_chan ?p g ?w) = Inr w'" by blast
  note eff = Channel_update_effect [OF w' os inv chan r(4) g']
  have fresh: "ch_index ch = kNew \<Longrightarrow> po_channels (pollers ?w ?L) (ch_fd ch) = None"
    using added by (simp add: kIndex_defs)
  note eff = eff [OF fresh]
  let ?ch = "Channel_set_index (next_index (g ch)) (g ch)"
  have idx: "next_index (g ch) = kAdded"
    using added gr g' reading_not_none by (simp add: next_index_added)
  have frame: "conns w' = conns ?w" "memory w' = memory ?w" "loops w' = loops ?w"
    using conn_frameD [OF eff(8)] loop_frameD [OF eff(8)] by simp_all
  have wr: "isWriting ?ch = (content b \<noteq> [])"
    using g by (auto simp: isWriting_def Channel_set_index_def)
      (auto simp: add_events_def del_events_def single_bit_mask kEvents_nonzero)
  have rd: "isReading ?ch" using gr by (simp add: isReading_def)
  have "conn_rel w' c ?cn ?ch"
    using r frame eff(1) eff(3) b wr rd g' by (simp add: conn_rel_def idx conn_open_def)
  moreover have "sent (hist w') = sent (hist w)"
    using eff(9) by (auto simp: fun_eq_iff)
  ultimately show ?thesis using w' wr frame by auto
qed

end
