(* ===== verification/TcpStream.thy ===== *)
theory TcpStream
  imports TcpConnection
begin

section \<open>TcpStream: what a connection does with its bytes\<close>

text \<open>
  The data path of a connection: \<open>sendInLoop\<close>, \<open>handleWrite\<close>, \<open>shutdown\<close> and \<open>handleRead\<close> keep
  the invariant \<open>conn_rel\<close>, never fault on it, and neither lose, duplicate nor reorder a byte.  The
  abstract state of the output side is \<open>out_stream\<close>: what the kernel accepted followed by what the
  output buffer holds.
\<close>

subsection \<open>The direct write of sendInLoop\<close>

text \<open>The write that \<open>sendInLoop\<close> tries first fails because the peer is gone.\<close>

definition peer_gone :: "os \<Rightarrow> conn \<Rightarrow> channel \<Rightarrow> byte list \<Rightarrow> 'w conn_world_scheme \<Rightarrow> bool" where
  "peer_gone os cn ch data w \<longleftrightarrow>
     \<not> isWriting ch \<and> content (cn_outputBuffer cn) = [] \<and>
     (os_write os (hist w) (cn_socket cn) data = Inl EPIPE \<or>
      os_write os (hist w) (cn_socket cn) data = Inl ECONNRESET)"

lemma readable_0_iff: "wf_buffer b \<Longrightarrow> readableBytes b = 0 \<longleftrightarrow> content b = []"
  using unat_readableBytes [of b] by (metis length_0_conv unat_0_iff)

lemma sent_write:
  "sent (hist (snd (sys_write os f bs w))) f =
     sent (hist w) f @ (case os_write os (hist w) f bs of Inl _ \<Rightarrow> [] | Inr n \<Rightarrow> take n bs)"
  by (simp add: sys_write_def Let_def split: sum.splits)

lemma fst_sys_write [simp]: "fst (sys_write os f bs w) = os_write os (hist w) f bs"
  by (simp add: sys_write_def Let_def)

lemma bytes_at_ok:
  "memory w p = Some d \<Longrightarrow> unat off + unat len \<le> length d \<Longrightarrow>
     bytes_at p off len w = Inr (take (unat len) (drop (unat off) d))"
  by (simp add: bytes_at_def)

lemma loops_sys_write [simp]: "loops (snd (sys_write os f bs w)) = loops w"
  by (simp add: sys_write_def Let_def)

lemma sendInLoop_write_ok:
  assumes os: "write_ok os" and rel: "conn_rel w c cn ch"
    and d: "memory w p = Some d" "unat len \<le> length d"
  shows "\<exists>nwrote remaining fe w1.
    sendInLoop_write os c cn ch p len w = Inr (nwrote, remaining, fe, w1) \<and> conn_frame w w1 \<and>
    unat nwrote + unat remaining = unat len \<and>
    sent (hist w1) (cn_socket cn) = sent (hist w) (cn_socket cn) @ take (unat nwrote) d \<and>
    (nwrote \<noteq> 0 \<longrightarrow> content (cn_outputBuffer cn) = []) \<and>
    fe = peer_gone os cn ch (take (unat len) d) w \<and> (fe \<longrightarrow> nwrote = 0)"
proof (cases "\<not> isWriting ch \<and> readableBytes (cn_outputBuffer cn) = 0")
  case False
  then show ?thesis
    using conn_relD(6) [OF rel] by (auto simp: sendInLoop_write_def peer_gone_def readable_0_iff)
next
  case True
  note r = conn_relD [OF rel]
  have empty: "content (cn_outputBuffer cn) = []" using True r(6) by (simp add: readable_0_iff)
  have bytes: "bytes_at p 0 len w = Inr (take (unat len) d)"
    using bytes_at_ok [OF d(1), of 0 len] d(2) by simp
  let ?data = "take (unat len) d" and ?f = "cn_socket cn"
  define w1 where "w1 = snd (sys_write os ?f ?data w)"
  have frame: "conn_frame w w1" by (simp add: w1_def)
  have step: "sys_write os ?f ?data w = (os_write os (hist w) ?f ?data, w1)"
    by (metis fst_sys_write prod.collapse w1_def)
  show ?thesis
  proof (cases "os_write os (hist w) ?f ?data")
    case (Inl e)
    then have "sent (hist w1) ?f = sent (hist w) ?f"
      by (simp add: w1_def sent_write)
    with True Inl bytes step r(3) empty frame show ?thesis
      by (auto simp: sendInLoop_write_def peer_gone_def errno_defs)
  next
    case (Inr n)
    with os d have n: "n \<le> unat len" by (auto dest: write_okD)
    then have n64: "unat (of_nat n :: size_t) = n"
      by (intro unat_of_nat_small) (use unat_below [of len] in simp)
    with n have le: "(of_nat n :: size_t) \<le> len" by (simp add: word_le_nat_alt)
    let ?cb = "map_option (\<lambda>u. Bind_writeComplete u c) (cn_writeCompleteCallback cn)"
    let ?w1 = "if len - of_nat n = 0 then queue_opt os (cn_loop cn) ?cb w1 else w1"
    have "conn_frame w ?w1" using frame conn_frame_trans [OF frame conn_frame_queue_opt] by simp
    moreover have "lp_wakeupFd (loops w1 (cn_loop cn)) \<noteq> ?f" using r(8) by (simp add: w1_def)
    then have "sent (hist ?w1) ?f = sent (hist w1) ?f" by (simp add: sent_queue_opt)
    then have "sent (hist ?w1) ?f = sent (hist w) ?f @ take n d"
      using Inr n by (simp add: w1_def sent_write min_def)
    moreover have "unat (of_nat n :: size_t) + unat (len - of_nat n) = unat len"
      using n n64 le by (simp add: unat_sub_le)
    ultimately show ?thesis
      using True bytes step r(3) empty Inr n64
      by (intro exI [of _ "of_nat n"] exI [of _ "len - of_nat n"] exI [of _ False] exI [of _ ?w1])
        (simp add: sendInLoop_write_def peer_gone_def Let_def)
  qed
qed

subsection \<open>Buffering the rest\<close>

lemma sendInLoop_buffer_ok:
  assumes os: "epoll_ok os" and rel: "conn_rel w c cn ch" and opn: "conn_open cn"
    and d: "memory w p = Some d" "unat nwrote + unat remaining \<le> length d" and rem: "0 < remaining"
    and room: "unat (buf_writer (cn_outputBuffer cn)) + unat remaining \<le> max_size"
  shows "\<exists>w' b ch'. sendInLoop_buffer os c cn ch p nwrote remaining w = Inr w' \<and>
    conn_rel w' c (cn\<lparr>cn_outputBuffer := b\<rparr>) ch' \<and>
    content b = content (cn_outputBuffer cn) @ take (unat remaining) (drop (unat nwrote) d) \<and>
    sent (hist w') (cn_socket cn) = sent (hist w) (cn_socket cn) \<and> memory w' = memory w \<and>
    unat (buf_writer b) \<le> unat (buf_writer (cn_outputBuffer cn)) + unat remaining"
proof -
  note r = conn_relD [OF rel]
  let ?old = "readableBytes (cn_outputBuffer cn)" and ?f = "cn_socket cn"
  let ?rest = "take (unat remaining) (drop (unat nwrote) d)"
  define w1 where "w1 = (if cn_highWaterMark cn \<le> ?old + remaining \<and> ?old < cn_highWaterMark cn
    then queue_opt os (cn_loop cn) (map_option (\<lambda>u. Bind_highWaterMark u c (?old + remaining))
      (cn_highWaterMarkCallback cn)) w else w)"
  have frame: "conn_frame w w1" by (simp add: w1_def)
  have sent: "sent (hist w1) ?f = sent (hist w) ?f" using r(8) by (simp add: w1_def sent_queue_opt)
  have mem: "memory w1 = memory w" using frame by (simp add: conn_frame_def)
  have rel1: "conn_rel w1 c cn ch" using conn_rel_frame [OF rel frame] .
  have bytes: "bytes_at p nwrote remaining w1 = Inr ?rest"
    using bytes_at_ok [of w1 p d nwrote remaining] d mem by simp
  have len: "unat remaining = length ?rest" using d(2) by simp
  from append_bytes_ok [OF r(6) len] room len obtain b
    where b: "append_bytes ?rest remaining (cn_outputBuffer cn) = Inr b" "wf_buffer b"
      "content b = content (cn_outputBuffer cn) @ ?rest"
    by auto
  note wr = append_bytes_writer [OF r(6) b(1)]
  have "0 < unat remaining" using rem by (simp add: word_less_nat_alt)
  with len have "?rest \<noteq> []" by (metis length_0_conv less_numeral_extra(3))
  then have ne: "content b \<noteq> []" using b(3) by simp
  let ?w2 = "upd_conn c (\<lambda>cn. cn\<lparr>cn_outputBuffer := b\<rparr>) w1"
  have eq: "sendInLoop_buffer os c cn ch p nwrote remaining w =
      (if \<not> isWriting ch then Channel_enableWriting os (cn_channel cn) ?w2 else Inr ?w2)"
    unfolding sendInLoop_buffer_def Let_def w1_def [symmetric] by (simp add: bytes b(1))
  show ?thesis
  proof (cases "isWriting ch")
    case True
    have "conn_rel ?w2 c (cn\<lparr>cn_outputBuffer := b\<rparr>) ch"
      using conn_relD [OF rel1] b(2) ne True by (simp add: conn_rel_def conn_open_def)
    with True eq b(3) sent mem wr show ?thesis by auto
  next
    case False
    from conn_set_writing [OF os rel1 opn _ b(2), of "add_events kWriteEvent"] ne obtain w' ch'
      where "Channel_enableWriting os (cn_channel cn) ?w2 = Inr w'"
        "conn_rel w' c (cn\<lparr>cn_outputBuffer := b\<rparr>) ch'" "sent (hist w') = sent (hist w1)"
        "memory w' = memory w1"
      unfolding Channel_enableWriting_def upd_conn_simps by auto
    with False eq b(3) sent mem wr show ?thesis by auto
  qed
qed

subsection \<open>sendInLoop\<close>

lemma sendInLoop_ok:
  assumes os: "epoll_ok os" "write_ok os" and rel: "conn_rel w c cn ch" and opn: "conn_open cn"
    and d: "memory w p = Some d" "unat len \<le> length d"
    and room: "unat (buf_writer (cn_outputBuffer cn)) + unat len \<le> max_size"
  shows "\<exists>w' b ch'. TcpConnection_sendInLoop os c p len w = Inr w' \<and>
    conn_rel w' c (cn\<lparr>cn_outputBuffer := b\<rparr>) ch' \<and> memory w' = memory w \<and>
    unat (buf_writer b) \<le> unat (buf_writer (cn_outputBuffer cn)) + unat len \<and>
    out_stream w' (cn\<lparr>cn_outputBuffer := b\<rparr>) = out_stream w cn @
      (if peer_gone os cn ch (take (unat len) d) w then [] else take (unat len) d)"
proof -
  note r = conn_relD [OF rel]
  from sendInLoop_write_ok [OF os(2) rel d] obtain nwrote remaining fe w1 where
    w1: "sendInLoop_write os c cn ch p len w = Inr (nwrote, remaining, fe, w1)"
      "conn_frame w w1" "unat nwrote + unat remaining = unat len"
      "sent (hist w1) (cn_socket cn) = sent (hist w) (cn_socket cn) @ take (unat nwrote) d"
      "nwrote \<noteq> 0 \<longrightarrow> content (cn_outputBuffer cn) = []"
      "fe = peer_gone os cn ch (take (unat len) d) w" "fe \<longrightarrow> nwrote = 0"
    by blast
  have rel1: "conn_rel w1 c cn ch" using conn_rel_frame [OF rel w1(2)] .
  have mem: "memory w1 = memory w" using w1(2) by (simp add: conn_frame_def)
  have eq: "TcpConnection_sendInLoop os c p len w =
      (if \<not> fe \<and> 0 < remaining then sendInLoop_buffer os c cn ch p nwrote remaining w1 else Inr w1)"
    using opn r(1,2) w1(1) by (auto simp: TcpConnection_sendInLoop_def conn_open_def)
  show ?thesis
  proof (cases "\<not> fe \<and> 0 < remaining")
    case True
    have "unat nwrote + unat remaining \<le> length d" using w1(3) d(2) by simp
    moreover have "unat (buf_writer (cn_outputBuffer cn)) + unat remaining \<le> max_size"
      using room w1(3) by simp
    ultimately obtain w' b ch' where w':
      "sendInLoop_buffer os c cn ch p nwrote remaining w1 = Inr w'"
      "conn_rel w' c (cn\<lparr>cn_outputBuffer := b\<rparr>) ch'"
      "content b = content (cn_outputBuffer cn) @ take (unat remaining) (drop (unat nwrote) d)"
      "sent (hist w') (cn_socket cn) = sent (hist w1) (cn_socket cn)" "memory w' = memory w1"
      "unat (buf_writer b) \<le> unat (buf_writer (cn_outputBuffer cn)) + unat remaining"
      using sendInLoop_buffer_ok [OF os(1) rel1 opn, of p d nwrote remaining] d(1) mem True by auto
    have all: "take (unat nwrote) d @ take (unat remaining) (drop (unat nwrote) d) = take (unat len) d"
      using w1(3) take_add [of "unat nwrote" "unat remaining" d] by simp
    have "out_stream w' (cn\<lparr>cn_outputBuffer := b\<rparr>) = out_stream w cn @ take (unat len) d"
    proof (cases "nwrote = 0")
      case True
      with all w'(3,4) w1(4) show ?thesis by (simp add: out_stream_def)
    next
      case False
      with all w'(3,4) w1(4,5) show ?thesis by (simp add: out_stream_def)
    qed
    moreover have "unat (buf_writer b) \<le> unat (buf_writer (cn_outputBuffer cn)) + unat len"
      using w'(6) w1(3) by simp
    ultimately show ?thesis using True eq w'(1,2,5) mem w1(6) by auto
  next
    case False
    have "out_stream w1 cn = out_stream w cn @ (if fe then [] else take (unat len) d)"
    proof (cases fe)
      case True
      with w1(4,7) show ?thesis by (simp add: out_stream_def)
    next
      case no: False
      with False have "remaining = 0" by (simp add: word_gt_0)
      with w1(3) have n: "unat nwrote = unat len" by simp
      show ?thesis
      proof (cases "unat len = 0")
        case True
        with no n w1(4) show ?thesis by (simp add: out_stream_def)
      next
        case False
        with n have "nwrote \<noteq> 0" by auto
        with no n w1(4,5) show ?thesis by (simp add: out_stream_def)
      qed
    qed
    moreover have "TcpConnection_sendInLoop os c p len w = Inr w1"
      using False unfolding eq by (simp only: if_False)
    ultimately show ?thesis
      using rel1 mem w1(6)
      by (intro exI [of _ w1] exI [of _ "cn_outputBuffer cn"] exI [of _ ch]) simp
  qed
qed

subsection \<open>Half-close\<close>

text \<open>
  What the history says about the end of the outgoing stream of a descriptor: whether \<open>shutdown\<close>
  was called, and whether anything was written after that.
\<close>

fun fin_step :: "fd \<Rightarrow> sysevent \<Rightarrow> bool \<times> bool \<Rightarrow> bool \<times> bool" where
  "fin_step f (Shutdown f' r) (shut, late) = (shut \<or> f' = f, late)"
| "fin_step f (Write f' bs r) (shut, late) = (shut, late \<or> (shut \<and> f' = f))"
| "fin_step f _ sl = sl"

definition fin_state :: "sysevent list \<Rightarrow> fd \<Rightarrow> bool \<times> bool" where
  "fin_state h f = fold (fin_step f) h (False, False)"

lemma fin_state_append [simp]: "fin_state (h @ h') f = fold (fin_step f) h' (fin_state h f)"
  by (simp add: fin_state_def)

text \<open>The outgoing stream is open, and the thread of the loop is running.\<close>

definition calm :: "fd \<Rightarrow> loop_ptr \<Rightarrow> 'w conn_world_scheme \<Rightarrow> bool" where
  "calm f L w \<longleftrightarrow> fin_state (hist w) f = (False, False) \<and> isInLoopThread L w"

lemma calm_write [simp]: "calm f L w \<Longrightarrow> calm f L (snd (sys_write os f' bs w))"
  by (simp add: calm_def sys_write_def Let_def isInLoopThread_def)

lemma calm_upd_loop:
  "(\<And>l. lp_threadId (g l) = lp_threadId l) \<Longrightarrow> calm f L (upd_loop L' g w) = calm f L w"
  by (simp add: calm_def isInLoopThread_def)

lemma calm_queueInLoop [simp]: "calm f L w \<Longrightarrow> calm f L (EventLoop_queueInLoop os L' cb w)"
  unfolding EventLoop_queueInLoop_def EventLoop_wakeup_def Let_def
  by (simp add: calm_upd_loop del: loops_sys_write)

lemma calm_queue_opt [simp]: "calm f L w \<Longrightarrow> calm f L (queue_opt os L' cb w)"
  by (simp add: queue_opt_def split: option.splits)

lemma calm_upd_conn [simp]: "calm f L (upd_conn c g w) = calm f L w"
  by (simp add: calm_def isInLoopThread_def)

lemma calm_upd_chan [simp]: "calm f L (upd_chan c g w) = calm f L w"
  by (simp add: calm_def isInLoopThread_def)

lemma calm_upd_poller [simp]: "calm f L (upd_poller c g w) = calm f L w"
  by (simp add: calm_def isInLoopThread_def upd_poller_def)

lemma calm_poller_update:
  assumes "EPollPoller_update os L' op p w = Inr w'" "calm f L w"
  shows "calm f L w'"
proof -
  from assms(1) obtain ch where "chans w p = Some ch"
    by (auto simp: EPollPoller_update_def res_simps)
  from EPollPoller_update_Inr [OF assms(1) this] assms(2) show ?thesis
    by (auto simp: calm_def isInLoopThread_def)
qed

lemma calm_updateChannel:
  assumes "EPollPoller_updateChannel os L' p w = Inr w'" "calm f L w"
  shows "calm f L w'"
  using assms
  by (auto simp: EPollPoller_updateChannel_def Let_def res_simps split: if_splits
      elim: calm_poller_update) (auto dest!: calm_poller_update)

lemma calm_Channel_update:
  "Channel_update os p w = Inr w' \<Longrightarrow> calm f L w \<Longrightarrow> calm f L w'"
  by (auto simp: Channel_update_def EventLoop_updateChannel_def res_simps intro: calm_updateChannel)

lemma calm_removeChannel:
  assumes "EPollPoller_removeChannel os L' p w = Inr w'" "calm f L w"
  shows "calm f L w'"
  using assms by (auto simp: EPollPoller_removeChannel_def res_simps Let_def split: if_splits
      dest!: calm_poller_update)

lemma calm_sendInLoop:
  assumes "TcpConnection_sendInLoop os c p len w = Inr w'" "calm f L w"
  shows "calm f L w'"
proof -
  have w: "calm f L w1" if "sendInLoop_write os c cn ch p len w = Inr (n, r, fe, w1)" for cn ch n r fe w1
  proof (cases "\<not> isWriting ch \<and> readableBytes (cn_outputBuffer cn) = 0")
    case True
    with that obtain data where data: "bytes_at p 0 len w = Inr data"
      by (auto simp: sendInLoop_write_def res_simps)
    obtain res v where v: "sys_write os (ch_fd ch) data w = (res, v)" by fastforce
    then have "calm f L v" using calm_write [OF assms(2)] by (metis snd_conv)
    with that True data v show ?thesis
      by (cases res) (auto simp: sendInLoop_write_def Let_def split: if_splits)
  next
    case False
    with that assms(2) show ?thesis by (auto simp: sendInLoop_write_def)
  qed
  have b: "calm f L w2" if "sendInLoop_buffer os c cn ch p n r w1 = Inr w2" "calm f L w1"
    for cn ch n r w1 w2
    using that by (auto simp: sendInLoop_buffer_def res_simps Let_def Channel_enableWriting_def
        split: if_splits dest!: calm_Channel_update)
  from assms show ?thesis
    by (auto simp: TcpConnection_sendInLoop_def res_simps split: if_splits dest!: w dest: b)
qed

text \<open>
  The invariant of the outgoing stream, in the thread of the loop: \<open>shutdown(SHUT_WR)\<close> has been
  called exactly when the connection is closing and everything has been handed to the kernel, and
  nothing was written after it.
\<close>

definition stream_inv :: "'w conn_world_scheme \<Rightarrow> conn_ptr \<Rightarrow> conn \<Rightarrow> channel \<Rightarrow> bool" where
  "stream_inv w c cn ch \<longleftrightarrow>
     conn_rel w c cn ch \<and> conn_open cn \<and> isInLoopThread (cn_loop cn) w \<and>
     fin_state (hist w) (cn_socket cn)
       = (cn_state cn = kDisconnecting \<and> content (cn_outputBuffer cn) = [], False)"

lemma stream_invD:
  assumes "stream_inv w c cn ch"
  shows "conn_rel w c cn ch" "conn_open cn"
    "\<not> (cn_state cn = kDisconnecting \<and> content (cn_outputBuffer cn) = []) \<Longrightarrow>
       calm (cn_socket cn) (cn_loop cn) w"
  using assms by (simp_all add: stream_inv_def calm_def)

lemma stream_invI:
  "conn_rel w c cn ch \<Longrightarrow> conn_open cn \<Longrightarrow> calm (cn_socket cn) (cn_loop cn) w \<Longrightarrow>
     \<not> (cn_state cn = kDisconnecting \<and> content (cn_outputBuffer cn) = []) \<Longrightarrow> stream_inv w c cn ch"
  by (simp add: stream_inv_def calm_def)

lemma sys_shutdown_simps [simp]:
  "sent (hist (snd (sys_shutdown os f w))) f' = sent (hist w) f'"
  "fin_state (hist (snd (sys_shutdown os f w))) f
     = (let (shut, late) = fin_state (hist w) f in (True, late))"
  "isInLoopThread L (snd (sys_shutdown os f w)) = isInLoopThread L w"
  by (simp_all add: sys_shutdown_def Let_def isInLoopThread_def split: prod.splits)

lemma shutdownInLoop_ok:
  assumes rel: "conn_rel w c cn ch" and calm: "calm (cn_socket cn) (cn_loop cn) w"
    and st: "cn_state cn = kDisconnecting"
  shows "\<exists>w'. TcpConnection_shutdownInLoop os c w = Inr w' \<and> stream_inv w' c cn ch \<and>
    out_stream w' cn = out_stream w cn \<and> memory w' = memory w"
proof (cases "isWriting ch")
  case True
  then have "TcpConnection_shutdownInLoop os c w = Inr w"
    using conn_relD(1,2) [OF rel] by (simp add: TcpConnection_shutdownInLoop_def)
  moreover have "stream_inv w c cn ch"
    using rel calm conn_relD(9) [OF rel True] st by (simp add: stream_invI conn_open_def)
  ultimately show ?thesis by blast
next
  case False
  let ?w = "snd (sys_shutdown os (cn_socket cn) w)"
  have opn: "conn_open cn" using st by (simp add: conn_open_def)
  have "content (cn_outputBuffer cn) = []" using conn_relD(10) [OF rel opn] False by blast
  moreover have "conn_frame w ?w" by simp
  then have "conn_rel ?w c cn ch" "memory ?w = memory w"
    using conn_rel_frame [OF rel] by (auto simp: conn_frame_def)
  ultimately have "stream_inv ?w c cn ch"
    using calm st opn by (simp add: stream_inv_def calm_def)
  moreover have "TcpConnection_shutdownInLoop os c w = Inr ?w"
    using False conn_relD(1,2) [OF rel] by (simp add: TcpConnection_shutdownInLoop_def)
  ultimately show ?thesis using \<open>memory ?w = memory w\<close> by (auto simp: out_stream_def)
qed

subsection \<open>handleWrite\<close>

lemma writer_retrieve:
  "wf_buffer b \<Longrightarrow> unat (buf_writer (retrieve n b)) \<le> unat (buf_writer b)"
  by (auto simp: retrieve_def retrieveAll_def wf_buffer_def)

lemma handleWrite_drained:
  assumes os: "epoll_ok os" and rel: "conn_rel w c cn ch" and opn: "conn_open cn"
    and calm: "calm (cn_socket cn) (cn_loop cn) w" and b: "wf_buffer b" "content b = []"
  shows "\<exists>w' ch'. bindE (Channel_disableWriting os (cn_channel cn)
        (upd_conn c (\<lambda>cn. cn\<lparr>cn_outputBuffer := b\<rparr>) w)) (\<lambda>w3.
      let w4 = queue_opt os (cn_loop cn) cb w3 in
      if cn_state cn = kDisconnecting then TcpConnection_shutdownInLoop os c w4 else Inr w4) = Inr w' \<and>
    stream_inv w' c (cn\<lparr>cn_outputBuffer := b\<rparr>) ch' \<and> memory w' = memory w \<and>
    sent (hist w') (cn_socket cn) = sent (hist w) (cn_socket cn)"
proof -
  let ?cn = "cn\<lparr>cn_outputBuffer := b\<rparr>" and ?w = "upd_conn c (\<lambda>cn. cn\<lparr>cn_outputBuffer := b\<rparr>) w"
  from conn_set_writing [OF os rel opn _ b(1), of "del_events kWriteEvent"] b(2) obtain w3 ch' where
    w3: "Channel_disableWriting os (cn_channel cn) ?w = Inr w3" "conn_rel w3 c ?cn ch'"
      "sent (hist w3) = sent (hist w)" "memory w3 = memory w" "loops w3 = loops w"
    unfolding Channel_disableWriting_def by auto
  let ?w4 = "queue_opt os (cn_loop cn) cb w3"
  have frame: "conn_frame w3 ?w4" by simp
  have "lp_wakeupFd (loops w3 (cn_loop cn)) \<noteq> cn_socket cn"
    using conn_relD(8) [OF rel] w3(5) by simp
  then have sent: "sent (hist ?w4) (cn_socket cn) = sent (hist w) (cn_socket cn)"
    using w3(3) by (simp add: sent_queue_opt)
  have mem: "memory ?w4 = memory w" using frame w3(4) by (simp add: conn_frame_def)
  have rel4: "conn_rel ?w4 c ?cn ch'" using conn_rel_frame [OF w3(2) frame] .
  have "calm (cn_socket cn) (cn_loop cn) w3"
    using w3(1) calm unfolding Channel_disableWriting_def by (auto dest!: calm_Channel_update)
  then have calm4: "calm (cn_socket ?cn) (cn_loop ?cn) ?w4" by simp
  show ?thesis
  proof (cases "cn_state cn = kDisconnecting")
    case True
    with shutdownInLoop_ok [OF rel4 calm4] obtain w' where
      "TcpConnection_shutdownInLoop os c ?w4 = Inr w'" "stream_inv w' c ?cn ch'"
      "out_stream w' ?cn = out_stream ?w4 ?cn" "memory w' = memory ?w4" by auto
    with True w3(1) sent mem b(2) show ?thesis by (auto simp: out_stream_def Let_def)
  next
    case False
    with rel4 calm4 opn have "stream_inv ?w4 c ?cn ch'"
      by (intro stream_invI) (simp_all add: conn_open_def)
    with False w3(1) sent mem show ?thesis by (auto simp: Let_def)
  qed
qed

lemma handleWrite_ok:
  assumes os: "epoll_ok os" "write_ok os" and inv: "stream_inv w c cn ch"
  shows "\<exists>w' b ch'. TcpConnection_handleWrite os c w = Inr w' \<and>
    stream_inv w' c (cn\<lparr>cn_outputBuffer := b\<rparr>) ch' \<and> memory w' = memory w \<and>
    unat (buf_writer b) \<le> unat (buf_writer (cn_outputBuffer cn)) \<and>
    out_stream w' (cn\<lparr>cn_outputBuffer := b\<rparr>) = out_stream w cn"
proof (cases "isWriting ch")
  case False
  then have "TcpConnection_handleWrite os c w = Inr w"
    using conn_relD(1,2) [OF stream_invD(1) [OF inv]] by (simp add: TcpConnection_handleWrite_def)
  with inv show ?thesis
    by (intro exI [of _ w] exI [of _ "cn_outputBuffer cn"] exI [of _ ch]) simp
next
  case True
  note rel = stream_invD(1) [OF inv] and opn = stream_invD(2) [OF inv]
  note r = conn_relD [OF rel]
  let ?out = "cn_outputBuffer cn" and ?f = "cn_socket cn" and ?L = "cn_loop cn"
  have ne: "content ?out \<noteq> []" using r(9) [OF True] .
  then have calm: "calm ?f ?L w" using stream_invD(3) [OF inv] by simp
  define w1 where "w1 = snd (sys_write os ?f (content ?out) w)"
  have step: "sys_write os ?f (content ?out) w = (os_write os (hist w) ?f (content ?out), w1)"
    by (metis fst_sys_write prod.collapse w1_def)
  have frame: "conn_frame w w1" and calm1: "calm ?f ?L w1" using calm by (simp_all add: w1_def)
  have rel1: "conn_rel w1 c cn ch" using conn_rel_frame [OF rel frame] .
  have mem1: "memory w1 = memory w" using frame by (simp add: conn_frame_def)
  have same: ?thesis if "TcpConnection_handleWrite os c w = Inr w1" "sent (hist w1) ?f = sent (hist w) ?f"
  proof -
    have "stream_inv w1 c cn ch" using rel1 opn calm1 ne by (intro stream_invI) simp_all
    with that mem1 show ?thesis
      by (intro exI [of _ w1] exI [of _ ?out] exI [of _ ch]) (simp add: out_stream_def)
  qed
  have eq: "TcpConnection_handleWrite os c w =
      (case os_write os (hist w) ?f (content ?out) of Inl _ \<Rightarrow> Inr w1
       | Inr n \<Rightarrow> if 0 < n then
           let out = retrieve (of_nat n) ?out; w2 = upd_conn c (\<lambda>cn. cn\<lparr>cn_outputBuffer := out\<rparr>) w1
           in if readableBytes out = 0
              then bindE (Channel_disableWriting os (cn_channel cn) w2) (\<lambda>w3.
                let w4 = queue_opt os ?L (map_option (\<lambda>u. Bind_writeComplete u c)
                      (cn_writeCompleteCallback cn)) w3
                in if cn_state cn = kDisconnecting
                   then TcpConnection_shutdownInLoop os c w4 else Inr w4)
              else Inr w2
           else Inr w1)"
    using r(1-3) True step peek_all [OF r(6)]
    by (simp add: TcpConnection_handleWrite_def split: sum.splits)
  show ?thesis
  proof (cases "os_write os (hist w) ?f (content ?out)")
    case (Inl e)
    with eq show ?thesis by (intro same) (simp_all add: w1_def sent_write)
  next
    case (Inr n)
    with os(2) have n: "n \<le> length (content ?out)" by (auto dest: write_okD)
    have sent1: "sent (hist w1) ?f = sent (hist w) ?f @ take n (content ?out)"
      using Inr by (simp add: w1_def sent_write)
    show ?thesis
    proof (cases "n = 0")
      case True
      with eq Inr sent1 show ?thesis by (intro same) simp_all
    next
      case False
      let ?b = "retrieve (of_nat n) ?out"
      let ?w2 = "upd_conn c (\<lambda>cn. cn\<lparr>cn_outputBuffer := ?b\<rparr>) w1"
      have get: "wf_buffer ?b" "content ?b = drop n (content ?out)"
        using buffer_get_ok [OF r(6) n] by (auto simp: buffer_get_def)
      have wr: "unat (buf_writer ?b) \<le> unat (buf_writer ?out)" using writer_retrieve [OF r(6)] .
      show ?thesis
      proof (cases "content ?b = []")
        case True
        from handleWrite_drained [OF os(1) rel1 opn calm1 get(1) True,
            of "map_option (\<lambda>u. Bind_writeComplete u c) (cn_writeCompleteCallback cn)"]
        obtain w' ch' where "TcpConnection_handleWrite os c w = Inr w'"
          "stream_inv w' c (cn\<lparr>cn_outputBuffer := ?b\<rparr>) ch'" "memory w' = memory w1"
          "sent (hist w') ?f = sent (hist w1) ?f"
          using eq Inr \<open>n \<noteq> 0\<close> True get(1) by (auto simp: readable_0_iff Let_def)
        with sent1 mem1 wr True get(2) show ?thesis by (auto simp: out_stream_def)
      next
        case ne': False
        have rel2: "conn_rel ?w2 c (cn\<lparr>cn_outputBuffer := ?b\<rparr>) ch"
          using conn_relD [OF rel1] get(1) ne' \<open>isWriting ch\<close> by (simp add: conn_rel_def conn_open_def)
        have "stream_inv ?w2 c (cn\<lparr>cn_outputBuffer := ?b\<rparr>) ch"
          using rel2 opn calm1 ne' by (intro stream_invI) (simp_all add: conn_open_def)
        moreover have "TcpConnection_handleWrite os c w = Inr ?w2"
          using eq Inr \<open>n \<noteq> 0\<close> ne' get(1) by (simp add: readable_0_iff Let_def)
        ultimately show ?thesis
          using sent1 mem1 wr get(2)
          by (intro exI [of _ ?w2] exI [of _ ?b] exI [of _ ch]) (simp add: out_stream_def)
      qed
    qed
  qed
qed

subsection \<open>send, shutdown and writability in any order refine an append-only stream\<close>

text \<open>
  What the loop's thread can do to the output side of an open connection: the application sends a
  string or shuts the connection down, or epoll reports that the socket is writable.
\<close>

datatype conn_op = Op_send mem_ptr | Op_shutdown | Op_writable

fun run_op :: "os \<Rightarrow> conn_ptr \<Rightarrow> conn_op \<Rightarrow> 'w conn_world_scheme \<Rightarrow> 'w conn_world_scheme result" where
  "run_op os c (Op_send p) w = TcpConnection_send os c p w"
| "run_op os c Op_shutdown w = TcpConnection_shutdown os c w"
| "run_op os c Op_writable w = TcpConnection_handleWrite os c w"

text \<open>
  The abstract connection: a state and the bytes promised to the peer.  Sending appends while the
  connection is up and does nothing after \<open>shutdown\<close>; writability changes nothing one can see.
\<close>

fun spec_op :: "(mem_ptr \<rightharpoonup> byte list) \<Rightarrow> conn_op \<Rightarrow> StateE \<times> byte list \<Rightarrow> StateE \<times> byte list" where
  "spec_op m (Op_send p) (s, out) = (s, if s = kConnected then out @ the (m p) else out)"
| "spec_op m Op_shutdown (s, out) = (if s = kConnected then kDisconnecting else s, out)"
| "spec_op m Op_writable (s, out) = (s, out)"

definition abs_conn :: "'w conn_world_scheme \<Rightarrow> conn \<Rightarrow> StateE \<times> byte list" where
  "abs_conn w cn = (cn_state cn, out_stream w cn)"

text \<open>The bytes an operation may add to the output buffer.\<close>

fun op_size :: "(mem_ptr \<rightharpoonup> byte list) \<Rightarrow> conn_op \<Rightarrow> nat" where
  "op_size m (Op_send p) = length (the (m p))"
| "op_size m _ = 0"

fun op_mem_ok :: "(mem_ptr \<rightharpoonup> byte list) \<Rightarrow> conn_op \<Rightarrow> bool" where
  "op_mem_ok m (Op_send p) = (m p \<noteq> None)"
| "op_mem_ok m _ = True"

text \<open>The peer does not reset the connection.\<close>

definition no_reset :: "os \<Rightarrow> bool" where
  "no_reset os \<longleftrightarrow>
     (\<forall>h f bs. os_write os h f bs \<noteq> Inl EPIPE \<and> os_write os h f bs \<noteq> Inl ECONNRESET)"

lemma send_op_ok:
  assumes os: "epoll_ok os" "write_ok os" "no_reset os" and inv: "stream_inv w c cn ch"
    and d: "memory w p = Some d"
    and room: "unat (buf_writer (cn_outputBuffer cn)) + length d \<le> max_size"
  shows "\<exists>w' b ch'. TcpConnection_send os c p w = Inr w' \<and>
    stream_inv w' c (cn\<lparr>cn_outputBuffer := b\<rparr>) ch' \<and> memory w' = memory w \<and>
    unat (buf_writer b) \<le> unat (buf_writer (cn_outputBuffer cn)) + length d \<and>
    out_stream w' (cn\<lparr>cn_outputBuffer := b\<rparr>)
      = out_stream w cn @ (if cn_state cn = kConnected then d else [])"
proof (cases "cn_state cn = kConnected")
  case False
  then have "TcpConnection_send os c p w = Inr w"
    using conn_relD(1) [OF stream_invD(1) [OF inv]] d by (simp add: TcpConnection_send_def)
  with False inv show ?thesis
    by (intro exI [of _ w] exI [of _ "cn_outputBuffer cn"] exI [of _ ch]) simp
next
  case True
  note rel = stream_invD(1) [OF inv]
  have here: "isInLoopThread (cn_loop cn) w" using inv by (simp add: stream_inv_def)
  have calm: "calm (cn_socket cn) (cn_loop cn) w" using stream_invD(3) [OF inv] True by simp
  have len: "unat (of_nat (length d) :: size_t) = length d"
    using room by (intro unat_of_nat_small) (simp add: max_size_def)
  have no: "\<not> peer_gone os cn ch data w" for data
    using os(3) by (simp add: peer_gone_def no_reset_def)
  from sendInLoop_ok [OF os(1,2) rel stream_invD(2) [OF inv] d, of "of_nat (length d)"] room len no
  obtain w' b ch' where w': "TcpConnection_sendInLoop os c p (of_nat (length d)) w = Inr w'"
    "conn_rel w' c (cn\<lparr>cn_outputBuffer := b\<rparr>) ch'" "memory w' = memory w"
    "unat (buf_writer b) \<le> unat (buf_writer (cn_outputBuffer cn)) + length d"
    "out_stream w' (cn\<lparr>cn_outputBuffer := b\<rparr>) = out_stream w cn @ d"
    by auto
  have "TcpConnection_send os c p w = Inr w'"
    using w'(1) conn_relD(1) [OF rel] d True here by (simp add: TcpConnection_send_def Let_def)
  moreover have "stream_inv w' c (cn\<lparr>cn_outputBuffer := b\<rparr>) ch'"
    using w'(2) calm_sendInLoop [OF w'(1) calm] True by (intro stream_invI) (auto simp: conn_open_def)
  ultimately show ?thesis using w' True by auto
qed

lemma shutdown_op_ok:
  assumes inv: "stream_inv w c cn ch"
  shows "\<exists>w'. TcpConnection_shutdown os c w = Inr w' \<and>
    stream_inv w' c (if cn_state cn = kConnected then cn\<lparr>cn_state := kDisconnecting\<rparr> else cn) ch \<and>
    memory w' = memory w \<and> out_stream w' cn = out_stream w cn"
proof (cases "cn_state cn = kConnected")
  case False
  with conn_relD(1) [OF stream_invD(1) [OF inv]] inv show ?thesis
    by (simp add: TcpConnection_shutdown_def)
next
  case True
  note rel = stream_invD(1) [OF inv]
  let ?cn = "cn\<lparr>cn_state := kDisconnecting\<rparr>" and ?w = "TcpConnection_setState c kDisconnecting w"
  have here: "isInLoopThread (cn_loop cn) w" using inv by (simp add: stream_inv_def)
  have rel': "conn_rel ?w c ?cn ch"
    using conn_relD [OF rel] True by (simp add: conn_rel_def TcpConnection_setState_def conn_open_def)
  have calm: "calm (cn_socket ?cn) (cn_loop ?cn) ?w"
    using stream_invD(3) [OF inv] True by (simp add: TcpConnection_setState_def)
  from shutdownInLoop_ok [OF rel' calm] obtain w' where
    "TcpConnection_shutdownInLoop os c ?w = Inr w'" "stream_inv w' c ?cn ch"
    "out_stream w' ?cn = out_stream ?w ?cn" "memory w' = memory ?w" by auto
  moreover have "isInLoopThread (cn_loop cn) ?w" using calm by (simp add: calm_def)
  ultimately show ?thesis
    using True conn_relD(1) [OF rel]
    by (auto simp: TcpConnection_shutdown_def EventLoop_runInLoop_def TcpConnection_setState_def
        out_stream_def)
qed

lemma run_op_refines:
  assumes os: "epoll_ok os" "write_ok os" "no_reset os" and inv: "stream_inv w c cn ch"
    and mem: "op_mem_ok (memory w) op"
    and room: "unat (buf_writer (cn_outputBuffer cn)) + op_size (memory w) op \<le> max_size"
  shows "\<exists>w' cn' ch'. run_op os c op w = Inr w' \<and> stream_inv w' c cn' ch' \<and> memory w' = memory w \<and>
    unat (buf_writer (cn_outputBuffer cn'))
      \<le> unat (buf_writer (cn_outputBuffer cn)) + op_size (memory w) op \<and>
    abs_conn w' cn' = spec_op (memory w) op (abs_conn w cn)"
proof (cases op)
  case (Op_send p)
  with mem obtain d where d: "memory w p = Some d" by auto
  from send_op_ok [OF os inv d] room Op_send d obtain w' b ch' where
    "TcpConnection_send os c p w = Inr w'" "stream_inv w' c (cn\<lparr>cn_outputBuffer := b\<rparr>) ch'"
    "memory w' = memory w" "unat (buf_writer b) \<le> unat (buf_writer (cn_outputBuffer cn)) + length d"
    "out_stream w' (cn\<lparr>cn_outputBuffer := b\<rparr>)
      = out_stream w cn @ (if cn_state cn = kConnected then d else [])"
    by auto
  with Op_send d show ?thesis
    by (intro exI [of _ w'] exI [of _ "cn\<lparr>cn_outputBuffer := b\<rparr>"] exI [of _ ch'])
      (simp add: abs_conn_def)
next
  case Op_shutdown
  from shutdown_op_ok [OF inv, of os] obtain w' where w': "TcpConnection_shutdown os c w = Inr w'"
    "stream_inv w' c (if cn_state cn = kConnected then cn\<lparr>cn_state := kDisconnecting\<rparr> else cn) ch"
    "memory w' = memory w" "out_stream w' cn = out_stream w cn" by blast
  let ?cn = "if cn_state cn = kConnected then cn\<lparr>cn_state := kDisconnecting\<rparr> else cn"
  have "out_stream w' ?cn = out_stream w cn" using w'(4) by (simp add: out_stream_def)
  with w' Op_shutdown show ?thesis
    by (intro exI [of _ w'] exI [of _ ?cn] exI [of _ ch]) (simp add: abs_conn_def)
next
  case Op_writable
  from handleWrite_ok [OF os(1,2) inv] obtain w' b ch' where
    "TcpConnection_handleWrite os c w = Inr w'" "stream_inv w' c (cn\<lparr>cn_outputBuffer := b\<rparr>) ch'"
    "memory w' = memory w" "unat (buf_writer b) \<le> unat (buf_writer (cn_outputBuffer cn))"
    "out_stream w' (cn\<lparr>cn_outputBuffer := b\<rparr>) = out_stream w cn" by blast
  with Op_writable show ?thesis
    by (intro exI [of _ w'] exI [of _ "cn\<lparr>cn_outputBuffer := b\<rparr>"] exI [of _ ch'])
      (simp add: abs_conn_def)
qed

lemma run_ops_refine:
  assumes os: "epoll_ok os" "write_ok os" "no_reset os"
  shows "stream_inv w c cn ch \<Longrightarrow> list_all (op_mem_ok (memory w)) ops \<Longrightarrow>
    unat (buf_writer (cn_outputBuffer cn)) + sum_list (map (op_size (memory w)) ops) \<le> max_size \<Longrightarrow>
    \<exists>w' cn' ch'. foldE (run_op os c) ops w = Inr w' \<and> stream_inv w' c cn' ch' \<and>
      abs_conn w' cn' = fold (spec_op (memory w)) ops (abs_conn w cn)"
proof (induction ops arbitrary: w cn ch)
  case Nil
  then show ?case by (intro exI [of _ w] exI [of _ cn] exI [of _ ch]) simp
next
  case (Cons op ops)
  from run_op_refines [OF os Cons.prems(1), of op] Cons.prems(2,3) obtain w1 cn1 ch1 where w1:
    "run_op os c op w = Inr w1" "stream_inv w1 c cn1 ch1" "memory w1 = memory w"
    "unat (buf_writer (cn_outputBuffer cn1))
      \<le> unat (buf_writer (cn_outputBuffer cn)) + op_size (memory w) op"
    "abs_conn w1 cn1 = spec_op (memory w) op (abs_conn w cn)" by auto
  from Cons.IH [OF w1(2)] Cons.prems(2,3) w1 show ?case by simp
qed

end
