(* ===== verification/TcpLife.thy ===== *)
theory TcpLife
  imports TcpStream
begin

section \<open>TcpLife: how a connection comes up, reads, closes and goes away\<close>

text \<open>
  The life of one connection in the thread of its loop: \<open>connectEstablished\<close> registers the channel
  and brings the connection into the invariant \<open>stream_inv\<close>; \<open>handleRead\<close> appends what the kernel
  delivers; \<open>handleClose\<close> takes the channel out of epoll before it tells anybody;
  \<open>connectDestroyed\<close> leaves no pointer to the channel behind.
\<close>

subsection \<open>Coming up\<close>

text \<open>A connection that was just constructed: not yet registered, nothing sent or buffered.\<close>

definition conn_fresh :: "'w conn_world_scheme \<Rightarrow> conn_ptr \<Rightarrow> conn \<Rightarrow> channel \<Rightarrow> bool" where
  "conn_fresh w c cn ch \<longleftrightarrow>
     conns w c = Some cn \<and> chans w (cn_channel cn) = Some ch \<and>
     ch_fd ch = cn_socket cn \<and> ch_loop ch = cn_loop cn \<and> ch_index ch = kNew \<and> ch_events ch = 0 \<and>
     po_channels (pollers w (cn_loop cn)) (cn_socket cn) = None \<and>
     wf_buffer (cn_inputBuffer cn) \<and> wf_buffer (cn_outputBuffer cn) \<and>
     content (cn_inputBuffer cn) = [] \<and> content (cn_outputBuffer cn) = [] \<and>
     poller_inv (cn_loop cn) w \<and> lp_wakeupFd (loops w (cn_loop cn)) \<noteq> cn_socket cn"

text \<open>
  What constructing a connection does to the world: it is added, with its channel bound to it and two
  buffers of the initial size, and nothing else changes but the trace of system calls.
\<close>

definition own_callbacks :: "conn_ptr \<Rightarrow> channel \<Rightarrow> bool" where
  "own_callbacks c ch \<longleftrightarrow> ch_readCallback ch = Some (Bind_TcpConnection_handleRead c) \<and>
     ch_writeCallback ch = Some (Bind_TcpConnection_handleWrite c) \<and>
     ch_closeCallback ch = Some (Bind_TcpConnection_handleClose c) \<and>
     ch_errorCallback ch = Some (Bind_TcpConnection_handleError c)"

definition conn_added ::
  "conn_ptr \<Rightarrow> conn \<Rightarrow> channel \<Rightarrow> 'w conn_world_scheme \<Rightarrow> 'w conn_world_scheme \<Rightarrow> bool" where
  "conn_added c cn ch w w' \<longleftrightarrow> conns w' = (conns w)(c \<mapsto> cn) \<and> chans w' = (chans w)(cn_channel cn \<mapsto> ch) \<and>
     pollers w' = pollers w \<and> loops w' = loops w \<and> current_tid w' = current_tid w \<and>
     timerqueues w' = timerqueues w \<and> own_callbacks c ch \<and>
     length (buf_bytes (cn_inputBuffer cn)) = unat kInitialSize + 8 \<and> unat (buf_writer (cn_outputBuffer cn)) = 8"

lemma TcpConnection_ctor_fresh:
  assumes inv: "poller_inv L w" and p: "chans w p = None"
    and f: "po_channels (pollers w L) sockfd = None" "lp_wakeupFd (loops w L) \<noteq> sockfd"
  shows "\<exists>w' cn ch. TcpConnection_ctor c p L name sockfd la pa w = Inr w' \<and> conn_fresh w' c cn ch \<and>
    cn_state cn = kConnecting \<and> cn_loop cn = L \<and> cn_socket cn = sockfd \<and> cn_channel cn = p \<and>
    cn_connectionCallback cn = None \<and>
    hist w' = hist w @ [Setsockopt sockfd SO_KEEPALIVE True] \<and> pollers w' = pollers w \<and>
    isInLoopThread L w' = isInLoopThread L w \<and> cn_name cn = name \<and>
    conns w' = (conns w)(c \<mapsto> cn) \<and> conn_world.more w' = conn_world.more w \<and> conn_added c cn ch w w'"
proof -
  from Buffer_new_ok [of kInitialSize] obtain b where
    b: "Buffer_new kInitialSize = Inr b" "wf_buffer b" "content b = []"
      "length (buf_bytes b) = unat kInitialSize + 8"
    by (auto simp: kInitialSize_def max_size_def)
  have writer: "unat (buf_writer b) = 8"
    using b(1) by (auto simp: Buffer_new_def kCheapPrepend_def bindE_eq_Inr)
  let ?ch = "(Channel_new L sockfd)
     \<lparr>ch_readCallback := Some (Bind_TcpConnection_handleRead c),
      ch_writeCallback := Some (Bind_TcpConnection_handleWrite c),
      ch_closeCallback := Some (Bind_TcpConnection_handleClose c),
      ch_errorCallback := Some (Bind_TcpConnection_handleError c)\<rparr>"
  let ?cn = "\<lparr>cn_loop = L, cn_name = name, cn_state = kConnecting, cn_reading = True,
     cn_socket = sockfd, cn_channel = p, cn_localAddr = la, cn_peerAddr = pa,
     cn_connectionCallback = None, cn_messageCallback = None, cn_writeCompleteCallback = None,
     cn_highWaterMarkCallback = None, cn_closeCallback = None,
     cn_highWaterMark = 64 * 1024 * 1024, cn_inputBuffer = b, cn_outputBuffer = b\<rparr>"
  let ?w = "w\<lparr>chans := (chans w)(p \<mapsto> ?ch)\<rparr>"
  let ?w' = "sys_setsockopt sockfd SO_KEEPALIVE True (?w\<lparr>conns := (conns w)(c \<mapsto> ?cn)\<rparr>)"
  have "poller_inv L ?w" using poller_inv_new_chan [OF inv p] by (simp add: kNew_def)
  then have inv': "poller_inv L ?w'" using poller_inv_cong [of ?w' ?w L] by (simp add: sys_setsockopt_def)
  have "TcpConnection_ctor c p L name sockfd la pa w = Inr ?w'"
    by (simp add: TcpConnection_ctor_def b(1) Let_def)
  moreover have "conn_fresh ?w' c ?cn ?ch"
    using inv' f b(2,3) by (simp add: conn_fresh_def kNew_def sys_setsockopt_def)
  ultimately show ?thesis
    using b(4) writer
    by (intro exI [of _ ?w'] exI [of _ ?cn] exI [of _ ?ch])
      (simp add: isInLoopThread_def sys_setsockopt_def conn_added_def own_callbacks_def)
qed

text \<open>
  \<open>connectEstablished\<close>: when epoll accepts the descriptor, the connection is up and watched for
  reading before the application hears of it.
\<close>

lemma connectEstablished_update:
  assumes os: "epoll_ok os" and fresh: "conn_fresh w c cn ch"
    and add: "os_epoll_ctl os (hist w) (po_epollfd (pollers w (cn_loop cn))) EPOLL_CTL_ADD
      (cn_socket cn) kReadEvent (cn_channel cn) = Inr ()"
  shows "\<exists>w1. Channel_update os (cn_channel cn) (upd_chan (cn_channel cn)
      (\<lambda>ch. add_events kReadEvent (Channel_tie c ch)) (TcpConnection_setState c kConnected w)) = Inr w1 \<and>
    TcpConnection_connectEstablished os env c w = call_connection env c w1 \<and>
    conn_rel w1 c (cn\<lparr>cn_state := kConnected\<rparr>) (Channel_set_index kAdded (add_events kReadEvent (Channel_tie c ch))) \<and>
    isReading (Channel_set_index kAdded (add_events kReadEvent (Channel_tie c ch))) \<and>
    sent (hist w1) (cn_socket cn) = sent (hist w) (cn_socket cn) \<and>
    interest (hist w1) (po_epollfd (pollers w (cn_loop cn))) (cn_socket cn)
      = Some (kReadEvent, cn_channel cn) \<and>
    conns w1 = (conns w)(c \<mapsto> cn\<lparr>cn_state := kConnected\<rparr>) \<and>
    conn_world.more w1 = conn_world.more w \<and>
    po_epollfd (pollers w1 (cn_loop cn)) = po_epollfd (pollers w (cn_loop cn))"
proof -
  let ?p = "cn_channel cn" and ?L = "cn_loop cn" and ?cn = "cn\<lparr>cn_state := kConnected\<rparr>"
  let ?w = "TcpConnection_setState c kConnected w"
  let ?g = "\<lambda>ch. add_events kReadEvent (Channel_tie c ch)"
  note fr = fresh [unfolded conn_fresh_def]
  have chan: "chans ?w ?p = Some ch" "ch_loop ch = ?L"
    using fr by (simp_all add: TcpConnection_setState_def)
  have inv: "poller_inv ?L ?w" using fr by (simp add: TcpConnection_setState_def)
  have g: "\<And>ch. ch_index (?g ch) = ch_index ch" "\<And>ch. ch_fd (?g ch) = ch_fd ch"
    "\<And>ch. ch_loop (?g ch) = ch_loop ch"
    by (simp_all add: Channel_tie_def)
  have ev: "ch_events (?g ch) = kReadEvent" using fr by (simp add: add_events_def Channel_tie_def)
  have two: "upd_chan ?p (add_events kReadEvent) (upd_chan ?p (Channel_tie c) ?w) = upd_chan ?p ?g ?w"
    by (simp add: upd_chan_def option.map_comp comp_def)
  have new: "ch_index ch = kNew" "ch_fd ch = cn_socket cn" using fr by auto
  obtain w1 where w1: "Channel_update os ?p (upd_chan ?p ?g ?w) = Inr w1"
    using add chan new ev g fr
    by (auto simp: Channel_update_def EventLoop_updateChannel_def EPollPoller_updateChannel_def
        EPollPoller_update_def sys_epoll_ctl_def Let_def kIndex_defs TcpConnection_setState_def)
  have reg: "ch_index ch = kNew \<Longrightarrow> po_channels (pollers ?w ?L) (ch_fd ch) = None"
    using fr by (simp add: TcpConnection_setState_def)
  note eff = Channel_update_effect [OF w1 os inv chan g reg]
  have idx: "next_index (?g ch) = kAdded" using new g by (simp add: next_index_def kIndex_defs)
  let ?ch1 = "Channel_set_index kAdded (?g ch)"
  have rd: "isReading ?ch1" "\<not> isWriting ?ch1"
    using ev kEvents_nonzero
    by (auto simp: isReading_def isWriting_def Channel_set_index_def read_write_disjoint)
  have frame: "conns w1 = conns ?w" "loops w1 = loops w" "current_tid w1 = current_tid w"
    using conn_frameD [OF eff(8)] loop_frameD [OF eff(8)] by (simp_all add: TcpConnection_setState_def)
  have "conn_rel w1 c ?cn ?ch1"
    using fr eff(1,3) frame g idx rd
    by (simp add: conn_rel_def TcpConnection_setState_def conn_open_def)
  moreover have "TcpConnection_connectEstablished os env c w = call_connection env c w1"
    using fr chan w1 two
    by (simp add: TcpConnection_connectEstablished_def Channel_enableReading_def Let_def)
  moreover have "sent (hist w1) (cn_socket cn) = sent (hist w) (cn_socket cn)"
    using eff(9) by (auto simp: TcpConnection_setState_def)
  moreover have "interest (hist w1) (po_epollfd (pollers w ?L)) (cn_socket cn) = Some (kReadEvent, ?p)"
    using eff(4) new ev g by (simp add: TcpConnection_setState_def next_watch_def kIndex_defs)
  moreover have "conns w1 = (conns w)(c \<mapsto> ?cn)" using frame(1) fr by (simp add: TcpConnection_setState_def)
  moreover have "conn_world.more w1 = conn_world.more w"
    using conn_frameD(3) [OF eff(8)] by (simp add: TcpConnection_setState_def)
  moreover have "po_epollfd (pollers w1 ?L) = po_epollfd (pollers w ?L)"
    using eff(6) by (simp add: TcpConnection_setState_def)
  ultimately show ?thesis using w1 rd(1) by blast
qed

lemma connectEstablished_ok:
  assumes os: "epoll_ok os" and fresh: "conn_fresh w c cn ch"
    and here: "isInLoopThread (cn_loop cn) w"
    and fin: "fin_state (hist w) (cn_socket cn) = (False, False)"
    and add: "os_epoll_ctl os (hist w) (po_epollfd (pollers w (cn_loop cn))) EPOLL_CTL_ADD
      (cn_socket cn) kReadEvent (cn_channel cn) = Inr ()"
  shows "\<exists>w1 ch1. TcpConnection_connectEstablished os env c w = call_connection env c w1 \<and>
    stream_inv w1 c (cn\<lparr>cn_state := kConnected\<rparr>) ch1 \<and>
    sent (hist w1) (cn_socket cn) = sent (hist w) (cn_socket cn) \<and>
    interest (hist w1) (po_epollfd (pollers w (cn_loop cn))) (cn_socket cn)
      = Some (kReadEvent, cn_channel cn) \<and> ch_tie ch1 = Some c \<and> ch_tied ch1 \<and>
    conns w1 = (conns w)(c \<mapsto> cn\<lparr>cn_state := kConnected\<rparr>) \<and>
    conn_world.more w1 = conn_world.more w \<and>
    po_epollfd (pollers w1 (cn_loop cn)) = po_epollfd (pollers w (cn_loop cn))"
proof -
  let ?L = "cn_loop cn" and ?cn = "cn\<lparr>cn_state := kConnected\<rparr>"
  let ?ch1 = "Channel_set_index kAdded (add_events kReadEvent (Channel_tie c ch))"
  from connectEstablished_update [OF os fresh add, of env] obtain w1 where
    w1: "Channel_update os (cn_channel cn) (upd_chan (cn_channel cn)
        (\<lambda>ch. add_events kReadEvent (Channel_tie c ch)) (TcpConnection_setState c kConnected w)) = Inr w1"
      "conn_rel w1 c ?cn ?ch1" "isReading ?ch1" and
    res: "TcpConnection_connectEstablished os env c w = call_connection env c w1"
      "sent (hist w1) (cn_socket cn) = sent (hist w) (cn_socket cn)"
      "interest (hist w1) (po_epollfd (pollers w ?L)) (cn_socket cn) = Some (kReadEvent, cn_channel cn)"
      "conns w1 = (conns w)(c \<mapsto> ?cn)" "conn_world.more w1 = conn_world.more w"
      "po_epollfd (pollers w1 ?L) = po_epollfd (pollers w ?L)" by blast
  have "calm (cn_socket cn) ?L w1"
    using calm_Channel_update [OF w1(1)] here fin
    by (simp add: calm_def isInLoopThread_def TcpConnection_setState_def)
  then have "stream_inv w1 c ?cn ?ch1"
    using w1(2,3) by (intro stream_invI) (simp_all add: conn_open_def)
  moreover have "ch_tie ?ch1 = Some c" "ch_tied ?ch1"
    by (simp_all add: Channel_set_index_def add_events_def Channel_tie_def)
  ultimately show ?thesis using res by blast
qed

subsection \<open>Closing\<close>

text \<open>
  What \<open>disableAll\<close> leaves of a channel: a registered one is taken out of epoll, one that was
  already out is put back, with an empty mask.
\<close>

lemma disableAll_ok:
  assumes os: "epoll_ok os" and inv: "poller_inv L w"
    and ch: "chans w p = Some ch" "ch_loop ch = L" "ch_index ch \<noteq> kNew"
    and res: "Channel_disableAll os p w = Inr w'"
  shows "poller_inv L w'" "poller_world.more w' = poller_world.more w"
    "chans w' = (chans w)(p \<mapsto> Channel_set_index
       (if ch_index ch = kAdded then kDeleted else kAdded) (clear_events ch))"
    "interest (hist w') (po_epollfd (pollers w L)) = (interest (hist w) (po_epollfd (pollers w L)))
       (ch_fd ch := if ch_index ch = kAdded then None else Some (kNoneEvent, p))"
    "po_epollfd (pollers w' L) = po_epollfd (pollers w L)"
proof -
  have g: "\<And>ch. ch_index (clear_events ch) = ch_index ch" "\<And>ch. ch_fd (clear_events ch) = ch_fd ch"
    "\<And>ch. ch_loop (clear_events ch) = ch_loop ch" by simp_all
  note eff = Channel_update_effect [OF res [unfolded Channel_disableAll_def] os inv ch(1,2) g]
  have none: "isNoneEvent (clear_events ch)" by simp
  show "poller_inv L w'" "poller_world.more w' = poller_world.more w"
    "chans w' = (chans w)(p \<mapsto> Channel_set_index
       (if ch_index ch = kAdded then kDeleted else kAdded) (clear_events ch))"
    "interest (hist w') (po_epollfd (pollers w L)) = (interest (hist w) (po_epollfd (pollers w L)))
       (ch_fd ch := if ch_index ch = kAdded then None else Some (kNoneEvent, p))"
    "po_epollfd (pollers w' L) = po_epollfd (pollers w L)"
    using eff ch(3) none by (simp_all add: next_index_def next_watch_def)
qed

text \<open>
  \<open>handleClose\<close> on an open connection: the state is \<open>kDisconnected\<close> and the descriptor is out of
  epoll before the connection callback and then the close callback run.
\<close>

lemma handleClose_ok:
  assumes os: "epoll_ok os" and rel: "conn_rel w c cn ch" and opn: "conn_open cn"
  shows "\<exists>w1 ch1. TcpConnection_handleClose os env c w
        = bindE (call_connection env c w1) (call_close env c) \<and>
    conn_rel w1 c (cn\<lparr>cn_state := kDisconnected\<rparr>) ch1 \<and> isNoneEvent ch1 \<and> ch_index ch1 = kDeleted \<and>
    interest (hist w1) (po_epollfd (pollers w1 (cn_loop cn))) (cn_socket cn) = None \<and>
    ch_tie ch1 = ch_tie ch \<and> conns w1 = (conns w)(c \<mapsto> cn\<lparr>cn_state := kDisconnected\<rparr>) \<and>
    conn_world.more w1 = conn_world.more w \<and> loops w1 = loops w \<and> current_tid w1 = current_tid w"
proof -
  let ?p = "cn_channel cn" and ?L = "cn_loop cn" and ?cn = "cn\<lparr>cn_state := kDisconnected\<rparr>"
  let ?w = "TcpConnection_setState c kDisconnected w"
  note r = conn_relD [OF rel]
  have inv: "poller_inv ?L ?w" using r(7) by (simp add: TcpConnection_setState_def)
  have chan: "chans ?w ?p = Some ch" using r(2) by (simp add: TcpConnection_setState_def)
  have added: "ch_index ch = kAdded" using r(11) [OF opn] .
  from Channel_update_added_Inr [OF os inv chan r(4) _ _ _ added, of clear_events] obtain w1 where
    w1: "Channel_disableAll os ?p ?w = Inr w1"
    by (auto simp: Channel_disableAll_def)
  have "ch_index ch \<noteq> kNew" using added by (simp add: kIndex_defs)
  note eff = disableAll_ok [OF os inv chan r(4) this w1]
  let ?ch = "Channel_set_index kDeleted (clear_events ch)"
  have frame: "conns w1 = conns ?w" "loops w1 = loops w"
    using conn_frameD [OF eff(2)] loop_frameD [OF eff(2)] by (simp_all add: TcpConnection_setState_def)
  have none: "isNoneEvent ?ch" "\<not> isWriting ?ch"
    by (simp_all add: isNoneEvent_def isWriting_def Channel_set_index_def kNoneEvent_def)
  have "conn_rel w1 c ?cn ?ch"
    using r(1-8) eff(1,3) frame none added
    by (simp add: conn_rel_def TcpConnection_setState_def conn_open_def)
  moreover have "TcpConnection_handleClose os env c w
      = bindE (call_connection env c w1) (call_close env c)"
    using r(1) w1 by (simp add: TcpConnection_handleClose_def)
  moreover have "interest (hist w1) (po_epollfd (pollers w1 ?L)) (cn_socket cn) = None"
    using eff(4,5) added r(3) by (simp add: TcpConnection_setState_def)
  moreover have "ch_tie ?ch = ch_tie ch" by (simp add: Channel_set_index_def clear_events_def)
  moreover have "conns w1 = (conns w)(c \<mapsto> ?cn)" using frame(1) r(1) by (simp add: TcpConnection_setState_def)
  moreover have "conn_world.more w1 = conn_world.more w" "current_tid w1 = current_tid w"
    using conn_frameD(3) [OF eff(2)] loop_frameD(2) [OF eff(2)]
    by (simp_all add: TcpConnection_setState_def)
  ultimately show ?thesis using none(1) frame(2)
    by (intro exI [of _ w1] exI [of _ ?ch]) simp
qed

text \<open>
  A second \<open>handleClose\<close>, on a connection that is closed already: the channel goes back into epoll,
  for no event, and both callbacks run again.
\<close>

lemma handleClose_again:
  assumes os: "epoll_ok os" and rel: "conn_rel w c cn ch" and del: "ch_index ch = kDeleted"
    and add: "os_epoll_ctl os (hist w) (po_epollfd (pollers w (cn_loop cn))) EPOLL_CTL_ADD
      (cn_socket cn) kNoneEvent (cn_channel cn) = Inr ()"
  shows "\<exists>w1. TcpConnection_handleClose os env c w
        = bindE (call_connection env c w1) (call_close env c) \<and>
    interest (hist w1) (po_epollfd (pollers w1 (cn_loop cn))) (cn_socket cn) = Some (kNoneEvent, cn_channel cn)"
proof -
  let ?p = "cn_channel cn" and ?L = "cn_loop cn"
  let ?w = "TcpConnection_setState c kDisconnected w"
  note r = conn_relD [OF rel]
  have inv: "poller_inv ?L ?w" using r(7) by (simp add: TcpConnection_setState_def)
  have chan: "chans ?w ?p = Some ch" using r(2) by (simp add: TcpConnection_setState_def)
  obtain w1 where w1: "Channel_disableAll os ?p ?w = Inr w1"
    using add r(2-4) del
    by (auto simp: Channel_disableAll_def Channel_update_def EventLoop_updateChannel_def
        EPollPoller_updateChannel_def EPollPoller_update_def sys_epoll_ctl_def Let_def kIndex_defs
        TcpConnection_setState_def)
  have "ch_index ch \<noteq> kNew" using del by (simp add: kIndex_defs)
  note eff = disableAll_ok [OF os inv chan r(4) this w1]
  have "TcpConnection_handleClose os env c w = bindE (call_connection env c w1) (call_close env c)"
    using r(1) w1 by (simp add: TcpConnection_handleClose_def)
  moreover have "interest (hist w1) (po_epollfd (pollers w1 ?L)) (cn_socket cn) = Some (kNoneEvent, ?p)"
    using eff(4,5) del r(3) by (simp add: TcpConnection_setState_def kIndex_defs)
  ultimately show ?thesis by blast
qed

lemma forceCloseInLoop_closed:
  "conns w c = Some cn \<Longrightarrow> \<not> conn_open cn \<Longrightarrow> TcpConnection_forceCloseInLoop os env c w = Inr w"
  by (auto simp: TcpConnection_forceCloseInLoop_def conn_open_def)

subsection \<open>Going away\<close>

text \<open>
  \<open>connectDestroyed\<close> after a close: the poller forgets the channel, and the connection with its
  channel can be freed.
\<close>

lemma Channel_remove_Inr:
  assumes "chans w p = Some ch"
  shows "\<exists>w'. Channel_remove os p w = Inr w'"
  using assms
  by (auto simp: Channel_remove_def EventLoop_removeChannel_def EPollPoller_removeChannel_def Let_def
      EPollPoller_update_def sys_epoll_ctl_def split: sum.splits)

lemma connectDestroyed_ok:
  assumes os: "epoll_ok os" and rel: "conn_rel w c cn ch" and st: "cn_state cn = kDisconnected"
    and old: "ch_index ch \<noteq> kNew"
  shows "\<exists>w' w''. TcpConnection_connectDestroyed os env c w = Inr w' \<and>
    (\<forall>f. po_channels (pollers w' (cn_loop cn)) f \<noteq> Some (cn_channel cn)) \<and>
    po_channels (pollers w' (cn_loop cn)) (cn_socket cn) = None \<and>
    interest (hist w') (po_epollfd (pollers w' (cn_loop cn))) (cn_socket cn) = None \<and>
    TcpConnection_dtor os c w' = Inr w'' \<and> poller_inv (cn_loop cn) w'' \<and>
    conns w'' = (conns w)(c := None) \<and> chans w'' = (chans w')(cn_channel cn := None) \<and>
    hist w'' = hist w' @ [Close (cn_socket cn) (os_close os (hist w') (cn_socket cn))]"
proof -
  let ?p = "cn_channel cn" and ?L = "cn_loop cn"
  note r = conn_relD [OF rel]
  from Channel_remove_Inr [of w ?p ch os] r(2) obtain w' where w': "Channel_remove os ?p w = Inr w'"
    by blast
  then have rem: "EPollPoller_removeChannel os ?L ?p w = Inr w'"
    using r(2,4) by (simp add: Channel_remove_def EventLoop_removeChannel_def)
  have reg: "ch_index ch = kNew \<Longrightarrow> po_channels (pollers w ?L) (ch_fd ch) = None" using old by simp
  note inv = removeChannel_inv [OF rem os r(7) r(2,4) reg]
  note eff = removeChannel_effect [OF rem os r(7) r(2,4) reg]
  have gone: "interest (hist w') (po_epollfd (pollers w' ?L)) (cn_socket cn) = None"
    using eff(3,5) r(3) by simp
  have conns: "conns w' = conns w" using eff(6) by (cases w; cases w'; simp)
  let ?w0 = "w'\<lparr>chans := (chans w')(?p := None)\<rparr>"
  let ?w1 = "w'\<lparr>chans := (chans w')(?p := None), conns := (conns w')(c := None)\<rparr>"
  have "poller_inv ?L ?w0" using poller_inv_delete_chan [OF inv(1)] inv(2) by blast
  moreover have "interest (hist w' @ [Close (cn_socket cn) e]) ep = interest (hist w') ep"
    if "ep = po_epollfd (pollers w' ?L)" for ep e
    using gone that by (simp add: fun_upd_idem)
  ultimately have "poller_inv ?L (snd (sys_close os (cn_socket cn) ?w1))"
    using poller_inv_cong [of "snd (sys_close os (cn_socket cn) ?w1)" ?w0 ?L]
    by (simp add: sys_close_def Let_def)
  moreover have "TcpConnection_dtor os c w' = Inr (snd (sys_close os (cn_socket cn) ?w1))"
    using r(1) eff(1) conns by (simp add: TcpConnection_dtor_def Socket_dtor_def)
  moreover have "TcpConnection_connectDestroyed os env c w = Inr w'"
    using r(1) st w' by (simp add: TcpConnection_connectDestroyed_def)
  moreover have "po_channels (pollers w' ?L) (cn_socket cn) = None" using eff(2) r(3) by simp
  ultimately show ?thesis using inv(2) gone conns
    by (intro exI [of _ w'] exI [of _ "snd (sys_close os (cn_socket cn) ?w1)"])
       (simp add: sys_close_def Let_def)
qed

subsection \<open>Reading\<close>

text \<open>
  \<open>handleRead\<close>: what \<open>readv\<close> delivered is appended to the input buffer; then the message callback
  runs, or the connection closes at the end of the stream, or the error is looked up and nothing
  changes.
\<close>

lemma conn_handleRead_ok:
  assumes os: "readv_ok os" and rel: "conn_rel w c cn ch"
    and room: "buffer_room extrabuf_size (cn_inputBuffer cn)"
    and r: "os_readv os (hist w) (cn_socket cn) (readv_iov (cn_inputBuffer cn)) = r"
  shows "\<exists>inp w1. conn_rel w1 c (cn\<lparr>cn_inputBuffer := inp\<rparr>) ch \<and>
    content inp = content (cn_inputBuffer cn) @ (case r of Inl _ \<Rightarrow> [] | Inr bs \<Rightarrow> bs) \<and>
    length (buf_bytes inp) \<le> length (buf_bytes (cn_inputBuffer cn)) + extrabuf_size \<and>
    w1 = upd_conn c (\<lambda>cn. cn\<lparr>cn_inputBuffer := inp\<rparr>)
      (w\<lparr>hist := hist w @ [Readv (cn_socket cn) (readv_iov (cn_inputBuffer cn)) r]\<rparr>) \<and>
    TcpConnection_handleRead os env c t w =
      (case r of Inr bs \<Rightarrow> if bs \<noteq> [] then call_message env c t w1 else TcpConnection_handleClose os env c w1
       | Inl _ \<Rightarrow> TcpConnection_handleError os c w1)"
proof -
  note cr = conn_relD [OF rel]
  let ?w1 = "snd (sys_readv os (cn_socket cn) (readv_iov (cn_inputBuffer cn)) w)"
  from readFd_ok [OF os cr(5) room, of "cn_socket cn" w] obtain n inp bs where
    n: "readFd os (cn_socket cn) (cn_inputBuffer cn) w = Inr (n, inp, ?w1)" "wf_buffer inp"
      "content inp = content (cn_inputBuffer cn) @ bs"
      "case r of Inl e \<Rightarrow> n = Inl e \<and> bs = [] | Inr d \<Rightarrow> n = Inr (length d) \<and> bs = d"
      "length (buf_bytes inp) \<le> length (buf_bytes (cn_inputBuffer cn)) + extrabuf_size"
    unfolding r by blast
  have w1: "?w1 = w\<lparr>hist := hist w @ [Readv (cn_socket cn) (readv_iov (cn_inputBuffer cn)) r]\<rparr>"
    using r by (simp add: sys_readv_def Let_def)
  let ?w2 = "upd_conn c (\<lambda>cn. cn\<lparr>cn_inputBuffer := inp\<rparr>) ?w1"
  have frame: "conn_frame w ?w1" by simp
  have "conn_rel ?w2 c (cn\<lparr>cn_inputBuffer := inp\<rparr>) ch"
    using conn_relD [OF conn_rel_frame [OF rel frame]] n(2) by (simp add: conn_rel_def conn_open_def)
  moreover have "TcpConnection_handleRead os env c t w =
      (case r of Inr bs \<Rightarrow> if bs \<noteq> [] then call_message env c t ?w2 else TcpConnection_handleClose os env c ?w2
       | Inl _ \<Rightarrow> TcpConnection_handleError os c ?w2)"
    using cr(1-3) n(1,4) by (cases r) (simp_all add: TcpConnection_handleRead_def Let_def)
  moreover have "content inp = content (cn_inputBuffer cn) @ (case r of Inl _ \<Rightarrow> [] | Inr bs \<Rightarrow> bs)"
    using n(3,4) by (cases r) simp_all
  ultimately show ?thesis using n(5) unfolding w1 by blast
qed

text \<open>Reading does not disturb the output side.\<close>

lemma stream_inv_read:
  assumes inv: "stream_inv w c cn ch" and rel: "conn_rel w1 c (cn\<lparr>cn_inputBuffer := inp\<rparr>) ch"
    and w1: "w1 = upd_conn c g (w\<lparr>hist := hist w @ [Readv f iov r]\<rparr>)"
  shows "stream_inv w1 c (cn\<lparr>cn_inputBuffer := inp\<rparr>) ch"
    "out_stream w1 (cn\<lparr>cn_inputBuffer := inp\<rparr>) = out_stream w cn"
  using inv rel by (simp_all add: w1 stream_inv_def conn_open_def isInLoopThread_def out_stream_def)

subsection \<open>Sending from another thread\<close>

text \<open>
  \<open>send\<close> from another thread queues the pointer into the caller's string.  When the string is gone
  by the time the loop runs the functor, the functor reads freed memory.
\<close>

lemma send_other_thread:
  assumes "conns w c = Some cn" "cn_state cn = kConnected" "memory w p = Some d"
    and "\<not> isInLoopThread (cn_loop cn) w"
  shows "TcpConnection_send os c p w = Inr (EventLoop_queueInLoop os (cn_loop cn)
    (Bind_TcpConnection_sendInLoop c p (of_nat (length d))) w)"
  using assms by (simp add: TcpConnection_send_def EventLoop_runInLoop_def Let_def)

lemma sendInLoop_dangling:
  assumes rel: "conn_rel w c cn ch" and opn: "conn_open cn" and len: "0 < len"
    and gone: "memory w p = None"
  shows "TcpConnection_sendInLoop os c p len w = Inl Use_After_Free"
proof -
  note r = conn_relD [OF rel]
  have no: "bytes_at p off n w' = Inl Use_After_Free" if "memory w' = memory w" for off n w'
    using gone that by (simp add: bytes_at_def)
  have mem: "memory (queue_opt os L cb w) = memory w" for L cb
    using conn_frame_queue_opt [of w os L cb] by (simp add: conn_frame_def)
  have st: "cn_state cn \<noteq> kDisconnected" using opn by (auto simp: conn_open_def)
  have buf: "sendInLoop_buffer os c cn ch p 0 len w = Inl Use_After_Free"
    unfolding sendInLoop_buffer_def Let_def by (subst no) (simp_all add: mem)
  have direct: "sendInLoop_write os c cn ch p len w
      = (if \<not> isWriting ch \<and> readableBytes (cn_outputBuffer cn) = 0 then Inl Use_After_Free
         else Inr (0, len, False, w))"
    using no [of w] by (auto simp: sendInLoop_write_def)
  show ?thesis
    using r(1,2) st len
    by (simp add: TcpConnection_sendInLoop_def direct buf)
qed

end
