(* ===== verification/Acceptor.thy ===== *)
theory Acceptor
  imports TcpLife
begin

section \<open>Acceptor: the listening socket of a server\<close>

text \<open>
  \<open>src/src/Acceptor.h\<close> and \<open>src/src/Acceptor.cc\<close>.  An acceptor belongs to one server and is named
  by it.  Its only client sets the callback to \<open>TcpServer::newConnection\<close>; what that does is the
  argument \<open>newConnection\<close> of \<open>handleRead\<close>.
\<close>

record acceptor =
  ac_loop :: loop_ptr
  ac_socket :: fd
  ac_channel :: chan_ptr
  ac_newConnectionCallback :: "server_ptr option"
  ac_listenning :: bool

record acceptor_world = conn_world +
  acceptors :: "server_ptr \<rightharpoonup> acceptor"

definition upd_acceptor ::
  "server_ptr \<Rightarrow> (acceptor \<Rightarrow> acceptor) \<Rightarrow> 'w acceptor_world_scheme \<Rightarrow> 'w acceptor_world_scheme" where
  "upd_acceptor s g w = w\<lparr>acceptors := (acceptors w)(s := map_option g (acceptors w s))\<rparr>"

definition Acceptor_createNonblocking :: "os \<Rightarrow> 'w os_world_scheme \<Rightarrow> (fd \<times> 'w os_world_scheme) result" where
  "Acceptor_createNonblocking os w =
     (case sys_socket os w of (Inr f, w1) \<Rightarrow> Inr (f, w1) | (Inl _, w1) \<Rightarrow> Inl Exit)"

text \<open>The constructor, of the acceptor of server \<open>s\<close>, with its channel at the address \<open>p\<close>.\<close>

definition Acceptor_ctor ::
  "os \<Rightarrow> server_ptr \<Rightarrow> chan_ptr \<Rightarrow> loop_ptr \<Rightarrow> sockaddr \<Rightarrow> bool \<Rightarrow> 'w acceptor_world_scheme
     \<Rightarrow> 'w acceptor_world_scheme result" where
  "Acceptor_ctor os s p loop listenAddr reuseport w =
     bindE (Acceptor_createNonblocking os w) (\<lambda>(f, w1).
     bindE (Socket_bindAddress os f listenAddr
              (Socket_setReusePort f reuseport (Socket_setReuseAddr f True w1))) (\<lambda>w2.
     Inr (w2\<lparr>chans := (chans w2)(p \<mapsto>
               (Channel_new loop f)\<lparr>ch_readCallback := Some (Bind_Acceptor_handleRead s)\<rparr>),
             acceptors := (acceptors w2)(s \<mapsto>
               \<lparr>ac_loop = loop, ac_socket = f, ac_channel = p, ac_newConnectionCallback = None,
                ac_listenning = False\<rparr>)\<rparr>)))"

definition Acceptor_setNewConnectionCallback ::
  "server_ptr \<Rightarrow> 'w acceptor_world_scheme \<Rightarrow> 'w acceptor_world_scheme" where
  "Acceptor_setNewConnectionCallback s = upd_acceptor s (\<lambda>a. a\<lparr>ac_newConnectionCallback := Some s\<rparr>)"

definition Acceptor_listen ::
  "os \<Rightarrow> server_ptr \<Rightarrow> 'w acceptor_world_scheme \<Rightarrow> 'w acceptor_world_scheme result" where
  "Acceptor_listen os s w =
     bindE (deref (acceptors w) s) (\<lambda>a.
     bindE (Socket_listen os (ac_socket a) (upd_acceptor s (\<lambda>a. a\<lparr>ac_listenning := True\<rparr>) w)) (\<lambda>w1.
     Channel_enableReading os (ac_channel a) w1))"

text \<open>
  \<open>handleRead\<close>: one \<open>accept\<close>; the new descriptor goes to the callback, or is closed when there is
  none.  A failed \<open>accept\<close>, also for want of descriptors, is only logged.
\<close>

definition Acceptor_handleRead ::
  "os \<Rightarrow> (server_ptr \<Rightarrow> fd \<Rightarrow> sockaddr \<Rightarrow> 'w acceptor_world_scheme \<Rightarrow> 'w acceptor_world_scheme result)
     \<Rightarrow> server_ptr \<Rightarrow> 'w acceptor_world_scheme \<Rightarrow> 'w acceptor_world_scheme result" where
  "Acceptor_handleRead os newConnection s w =
     bindE (deref (acceptors w) s) (\<lambda>a.
     case Socket_accept os (ac_socket a) w of
       (Inr (connfd, peerAddr), w1) \<Rightarrow>
         (case ac_newConnectionCallback a of
            Some sv \<Rightarrow> newConnection sv connfd peerAddr w1
          | None \<Rightarrow> Inr (snd (sys_close os connfd w1)))
     | (Inl _, w1) \<Rightarrow> Inr w1)"

text \<open>The destructor, and then those of the members: the channel goes, the socket is closed.\<close>

definition Acceptor_dtor ::
  "os \<Rightarrow> server_ptr \<Rightarrow> 'w acceptor_world_scheme \<Rightarrow> 'w acceptor_world_scheme result" where
  "Acceptor_dtor os s w =
     bindE (deref (acceptors w) s) (\<lambda>a.
     bindE (Channel_disableAll os (ac_channel a) w) (\<lambda>w1.
     bindE (Channel_remove os (ac_channel a) w1) (\<lambda>w2.
     Inr (Socket_dtor os (ac_socket a)
            (w2\<lparr>chans := (chans w2)(ac_channel a := None), acceptors := (acceptors w2)(s := None)\<rparr>)))))"

subsection \<open>Facts\<close>

text \<open>The acceptor of a server and its channel, before and after \<open>listen\<close>.\<close>

definition acceptor_rel :: "'w acceptor_world_scheme \<Rightarrow> server_ptr \<Rightarrow> acceptor \<Rightarrow> channel \<Rightarrow> bool" where
  "acceptor_rel w s a ch \<longleftrightarrow>
     acceptors w s = Some a \<and> chans w (ac_channel a) = Some ch \<and> ch_fd ch = ac_socket a \<and>
     ch_loop ch = ac_loop a \<and> ch_readCallback ch = Some (Bind_Acceptor_handleRead s) \<and>
     poller_inv (ac_loop a) w \<and>
     (if ac_listenning a then ch_index ch = kAdded \<and> isReading ch
      else ch_index ch = kNew \<and> ch_events ch = 0 \<and> po_channels (pollers w (ac_loop a)) (ac_socket a) = None)"

lemma acceptor_frameD:
  fixes w w' :: "'w acceptor_world_scheme"
  assumes "poller_world.more w' = poller_world.more w"
  shows "acceptors w' = acceptors w"
  using assms by (cases w; cases w'; simp)

lemma Acceptor_listen_ok:
  assumes os: "epoll_ok os" and rel: "acceptor_rel w s a ch" and no: "\<not> ac_listenning a"
    and res: "Acceptor_listen os s w = Inr w'"
  shows "\<exists>ch'. acceptor_rel w' s (a\<lparr>ac_listenning := True\<rparr>) ch' \<and>
    Listen (ac_socket a) (Inr ()) \<in> set (hist w') \<and>
    interest (hist w') (po_epollfd (pollers w' (ac_loop a))) (ac_socket a)
      = Some (kReadEvent, ac_channel a)"
proof -
  let ?L = "ac_loop a" and ?p = "ac_channel a"
  let ?w0 = "upd_acceptor s (\<lambda>a. a\<lparr>ac_listenning := True\<rparr>) w"
  note r = rel [unfolded acceptor_rel_def]
  from res r obtain w1 where w1: "Socket_listen os (ac_socket a) ?w0 = Inr w1"
      "Channel_enableReading os ?p w1 = Inr w'"
    by (auto simp: Acceptor_listen_def res_simps)
  note w1' = Socket_listen_Inr [OF w1(1)]
  have same: "chans w1 = chans w" "pollers w1 = pollers w"
      "interest (hist w1) = interest (hist w)"
    by (auto simp: w1' upd_acceptor_def fun_eq_iff)
  have inv: "poller_inv ?L w1" using r poller_inv_cong [of w1 w ?L] same by simp
  have chan: "chans w1 ?p = Some ch" "ch_loop ch = ?L" using r same by auto
  have g: "\<And>ch. ch_index (add_events kReadEvent ch) = ch_index ch"
    "\<And>ch. ch_fd (add_events kReadEvent ch) = ch_fd ch"
    "\<And>ch. ch_loop (add_events kReadEvent ch) = ch_loop ch" by simp_all
  have fresh: "ch_index ch = kNew \<Longrightarrow> po_channels (pollers w1 ?L) (ch_fd ch) = None"
    using r no same by simp
  note eff = Channel_update_effect [OF w1(2) [unfolded Channel_enableReading_def] os inv chan g fresh]
  let ?ch = "Channel_set_index (next_index (add_events kReadEvent ch)) (add_events kReadEvent ch)"
  have new: "ch_index ch = kNew" "ch_events ch = 0" "ch_fd ch = ac_socket a" using r no by auto
  have idx: "next_index (add_events kReadEvent ch) = kAdded"
    using new by (simp add: next_index_def kIndex_defs)
  have acc: "acceptors w' s = Some (a\<lparr>ac_listenning := True\<rparr>)"
    using acceptor_frameD [OF eff(8)] r by (simp add: w1' upd_acceptor_def)
  have "isReading ?ch" using kEvents_nonzero new by (simp add: isReading_def)
  then have "acceptor_rel w' s (a\<lparr>ac_listenning := True\<rparr>) ?ch"
    using r eff(1,3) acc idx by (simp add: acceptor_rel_def Channel_set_index_def add_events_def)
  moreover have "Listen (ac_socket a) (Inr ()) \<in> set (hist w')"
    using eff(9) by (auto simp: w1')
  moreover have "interest (hist w') (po_epollfd (pollers w' ?L)) (ac_socket a) = Some (kReadEvent, ?p)"
    using eff(4,6) new by (simp add: next_watch_def kIndex_defs)
  ultimately show ?thesis by blast
qed

text \<open>
  Every descriptor that \<open>accept\<close> returns reaches the server, or is closed: none leaks in the
  acceptor.
\<close>

lemma Acceptor_handleRead_cases:
  assumes a: "acceptors w s = Some a"
  shows "Acceptor_handleRead os newConnection s w =
    (let w1 = w\<lparr>hist := hist w @ [Accept (ac_socket a) (os_accept os (hist w) (ac_socket a))]\<rparr> in
     case os_accept os (hist w) (ac_socket a) of
       Inl e \<Rightarrow> Inr w1
     | Inr (connfd, peer) \<Rightarrow>
         (case ac_newConnectionCallback a of
            Some sv \<Rightarrow> newConnection sv connfd peer w1
          | None \<Rightarrow> Inr (w1\<lparr>hist := hist w1 @ [Close connfd (os_close os (hist w1) connfd)]\<rparr>)))"
  using a
  by (simp add: Acceptor_handleRead_def Socket_accept_def sys_accept_def sys_close_def Let_def
      split: sum.splits option.splits)

end
