(* ===== verification/Connector.thy ===== *)
theory Connector
  imports Acceptor
begin

section \<open>Connector: connecting to a server, with retries\<close>

text \<open>
  \<open>src/src/Connector.h\<close> and \<open>src/src/Connector.cc\<close>.  Connectors live in the store \<open>connectors\<close>; a
  connector owns its channel while it connects.  \<open>alloc\<close> stands for \<open>operator new\<close>: it gives the
  address of a new channel, connection or timer.  \<open>newConnection\<close> is what the callback of the
  client does.  The retry delay \<open>retryDelayMs_\<close> is only printed by the code: every retry is five
  seconds later.
\<close>

record alloc =
  al_channel :: "(chan_ptr \<rightharpoonup> channel) \<Rightarrow> chan_ptr"
  al_conn :: "(conn_ptr \<rightharpoonup> conn) \<Rightarrow> conn_ptr"
  al_timer :: "(timer_ptr \<rightharpoonup> timer) \<Rightarrow> timer_ptr"

datatype States = Ct_kDisconnected | Ct_kConnecting | Ct_kConnected

definition kMaxRetryDelayMs :: int32 where "kMaxRetryDelayMs = 30 * 1000"
definition kInitRetryDelayMs :: int32 where "kInitRetryDelayMs = 500"

record connector =
  ct_loop :: loop_ptr
  ct_serverAddr :: sockaddr
  ct_connect :: bool
  ct_state :: States
  ct_channel :: "chan_ptr option"
  ct_newConnectionCallback :: "client_ptr option"
  ct_retryDelayMs :: int32

record connector_world = acceptor_world +
  connectors :: "connector_ptr \<rightharpoonup> connector"

definition upd_connector ::
  "connector_ptr \<Rightarrow> (connector \<Rightarrow> connector) \<Rightarrow> 'w connector_world_scheme \<Rightarrow> 'w connector_world_scheme" where
  "upd_connector k g w = w\<lparr>connectors := (connectors w)(k := map_option g (connectors w k))\<rparr>"

definition Connector_setState ::
  "connector_ptr \<Rightarrow> States \<Rightarrow> 'w connector_world_scheme \<Rightarrow> 'w connector_world_scheme" where
  "Connector_setState k s = upd_connector k (\<lambda>c. c\<lparr>ct_state := s\<rparr>)"

definition Connector_ctor ::
  "connector_ptr \<Rightarrow> loop_ptr \<Rightarrow> sockaddr \<Rightarrow> 'w connector_world_scheme \<Rightarrow> 'w connector_world_scheme" where
  "Connector_ctor k loop serverAddr w =
     w\<lparr>connectors := (connectors w)(k \<mapsto>
         \<lparr>ct_loop = loop, ct_serverAddr = serverAddr, ct_connect = False, ct_state = Ct_kDisconnected,
          ct_channel = None, ct_newConnectionCallback = None, ct_retryDelayMs = kInitRetryDelayMs\<rparr>)\<rparr>"

definition Connector_setNewConnectionCallback ::
  "connector_ptr \<Rightarrow> client_ptr \<Rightarrow> 'w connector_world_scheme \<Rightarrow> 'w connector_world_scheme" where
  "Connector_setNewConnectionCallback k cl =
     upd_connector k (\<lambda>c. c\<lparr>ct_newConnectionCallback := Some cl\<rparr>)"

definition Connector_createNonblocking :: "os \<Rightarrow> 'w os_world_scheme \<Rightarrow> (fd \<times> 'w os_world_scheme) result" where
  "Connector_createNonblocking os w =
     (case sys_socket os w of (Inr f, w1) \<Rightarrow> Inr (f, w1) | (Inl _, w1) \<Rightarrow> Inl Abort)"

text \<open>\<open>channel_.reset(...)\<close>: the channel it held is destroyed.\<close>

definition drop_channel :: "chan_ptr option \<Rightarrow> 'w chan_world_scheme \<Rightarrow> 'w chan_world_scheme" where
  "drop_channel p w = (case p of None \<Rightarrow> w | Some q \<Rightarrow> w\<lparr>chans := (chans w)(q := None)\<rparr>)"

subsection \<open>Connecting and retrying\<close>

definition Connector_connecting ::
  "os \<Rightarrow> alloc \<Rightarrow> connector_ptr \<Rightarrow> fd \<Rightarrow> 'w connector_world_scheme \<Rightarrow> 'w connector_world_scheme result" where
  "Connector_connecting os al k sockfd w =
     bindE (deref (connectors w) k) (\<lambda>c.
     let p = al_channel al (chans w);
         channel = (Channel_new (ct_loop c) sockfd)
           \<lparr>ch_writeCallback := Some (Bind_Connector_handleWriter k),
            ch_errorCallback := Some (Bind_Connector_handleError k)\<rparr>;
         w1 = drop_channel (ct_channel c) (Connector_setState k Ct_kConnecting w);
         w2 = upd_connector k (\<lambda>c. c\<lparr>ct_channel := Some p\<rparr>) (w1\<lparr>chans := (chans w1)(p \<mapsto> channel)\<rparr>)
     in Channel_enableWriting os p w2)"

definition Connector_retry ::
  "os \<Rightarrow> alloc \<Rightarrow> connector_ptr \<Rightarrow> fd \<Rightarrow> 'w connector_world_scheme \<Rightarrow> 'w connector_world_scheme result" where
  "Connector_retry os al k sockfd w =
     (let w1 = Connector_setState k Ct_kDisconnected (snd (sys_close os sockfd w)) in
      bindE (deref (connectors w1) k) (\<lambda>c.
      if ct_connect c
      then bindE (EventLoop_runAfter os (ct_loop c) (al_timer al (timers w1)) 5
                    (Bind_Connector_startInLoop k) w1) (\<lambda>(_, w2). Inr w2)
      else Inr w1))"

text \<open>What \<open>connect\<close> does with the result of the system call.\<close>

datatype connect_action = Act_connecting | Act_retry | Act_close

definition connect_action_of :: "errno \<Rightarrow> connect_action" where
  "connect_action_of savedErrno =
     (if savedErrno \<in> {0, EINPROGRESS, EINTR, EISCONN} then Act_connecting
      else if savedErrno \<in> {EAGAIN, EADDRINUSE, EADDRNOTAVAIL, ECONNREFUSED, ENETUNREACH} then Act_retry
      else Act_close)"

definition Connector_connect ::
  "os \<Rightarrow> alloc \<Rightarrow> connector_ptr \<Rightarrow> 'w connector_world_scheme \<Rightarrow> 'w connector_world_scheme result" where
  "Connector_connect os al k w =
     bindE (deref (connectors w) k) (\<lambda>c.
     bindE (Connector_createNonblocking os w) (\<lambda>(sockfd, w1).
     case sys_connect os sockfd (ct_serverAddr c) w1 of (ret, w2) \<Rightarrow>
     let savedErrno = (case ret of Inr _ \<Rightarrow> 0 | Inl e \<Rightarrow> e) in
     case connect_action_of savedErrno of
       Act_connecting \<Rightarrow> Connector_connecting os al k sockfd w2
     | Act_retry \<Rightarrow> Connector_retry os al k sockfd w2
     | Act_close \<Rightarrow> Inr (snd (sys_close os sockfd w2))))"

subsection \<open>Starting and stopping\<close>

definition Connector_startInLoop ::
  "os \<Rightarrow> alloc \<Rightarrow> connector_ptr \<Rightarrow> 'w connector_world_scheme \<Rightarrow> 'w connector_world_scheme result" where
  "Connector_startInLoop os al k w =
     bindE (deref (connectors w) k) (\<lambda>c.
     if ct_connect c then Connector_connect os al k w else Inr w)"

definition Connector_start ::
  "os \<Rightarrow> alloc \<Rightarrow> connector_ptr \<Rightarrow> 'w connector_world_scheme \<Rightarrow> 'w connector_world_scheme result" where
  "Connector_start os al k w =
     bindE (deref (connectors w) k) (\<lambda>c.
     EventLoop_runInLoop os (ct_loop c) (Bind_Connector_startInLoop k)
       (Connector_startInLoop os al k) (upd_connector k (\<lambda>c. c\<lparr>ct_connect := True\<rparr>) w))"

definition Connector_restart ::
  "os \<Rightarrow> alloc \<Rightarrow> connector_ptr \<Rightarrow> 'w connector_world_scheme \<Rightarrow> 'w connector_world_scheme result" where
  "Connector_restart os al k w =
     bindE (deref (connectors w) k) (\<lambda>c.
     if ct_connect c then Connector_connect os al k w else Inr w)"

definition Connector_stop ::
  "os \<Rightarrow> connector_ptr \<Rightarrow> 'w connector_world_scheme \<Rightarrow> 'w connector_world_scheme result" where
  "Connector_stop os k w =
     bindE (deref (connectors w) k) (\<lambda>c.
     Inr (EventLoop_queueInLoop os (ct_loop c) (Bind_Connector_stopInLoop k)
            (upd_connector k (\<lambda>c. c\<lparr>ct_connect := False\<rparr>) w)))"

text \<open>The channel is taken out of the poller; it is destroyed later, by a functor.\<close>

definition Connector_removeAndResetChannel ::
  "os \<Rightarrow> connector_ptr \<Rightarrow> 'w connector_world_scheme \<Rightarrow> (fd \<times> 'w connector_world_scheme) result" where
  "Connector_removeAndResetChannel os k w =
     bindE (deref (connectors w) k) (\<lambda>c.
     case ct_channel c of
       None \<Rightarrow> Inl Use_After_Free
     | Some p \<Rightarrow>
         bindE (Channel_disableAll os p w) (\<lambda>w1.
         bindE (Channel_remove os p w1) (\<lambda>w2.
         bindE (deref (chans w2) p) (\<lambda>ch.
         Inr (ch_fd ch, EventLoop_queueInLoop os (ct_loop c) (Bind_Connector_resetChannel k) w2)))))"

definition Connector_resetChannel ::
  "connector_ptr \<Rightarrow> 'w connector_world_scheme \<Rightarrow> 'w connector_world_scheme result" where
  "Connector_resetChannel k w =
     bindE (deref (connectors w) k) (\<lambda>c.
     Inr (drop_channel (ct_channel c) (upd_connector k (\<lambda>c. c\<lparr>ct_channel := None\<rparr>) w)))"

definition Connector_stopInLoop ::
  "os \<Rightarrow> alloc \<Rightarrow> connector_ptr \<Rightarrow> 'w connector_world_scheme \<Rightarrow> 'w connector_world_scheme result" where
  "Connector_stopInLoop os al k w =
     bindE (deref (connectors w) k) (\<lambda>c.
     if ct_state c = Ct_kConnecting
     then bindE (Connector_removeAndResetChannel os k (Connector_setState k Ct_kDisconnected w))
            (\<lambda>(sockfd, w1). Connector_retry os al k sockfd w1)
     else Inr w)"

subsection \<open>The handlers of the channel\<close>

text \<open>The address \<open>getsockname\<close> or \<open>getpeername\<close> fills in, over the zeroes of \<open>bzero\<close>.\<close>

definition addr_or_zero :: "errno + sockaddr \<Rightarrow> sockaddr" where
  "addr_or_zero r = (case r of Inl _ \<Rightarrow> (0, 0) | Inr a \<Rightarrow> a)"

definition Connector_handleWriter ::
  "os \<Rightarrow> alloc
     \<Rightarrow> (client_ptr \<Rightarrow> fd \<Rightarrow> 'w connector_world_scheme \<Rightarrow> 'w connector_world_scheme result)
     \<Rightarrow> connector_ptr \<Rightarrow> 'w connector_world_scheme \<Rightarrow> 'w connector_world_scheme result" where
  "Connector_handleWriter os al newConnection k w =
     bindE (deref (connectors w) k) (\<lambda>c.
     case ct_state c of
       Ct_kConnecting \<Rightarrow>
         bindE (Connector_removeAndResetChannel os k w) (\<lambda>(sockfd, w1).
         case sys_getsockopt_error os sockfd w1 of (r, w2) \<Rightarrow>
         let err = (case r of Inl e \<Rightarrow> e | Inr optval \<Rightarrow> optval) in
         if err \<noteq> 0 then Connector_retry os al k sockfd w2
         else case sys_getsockname os sockfd w2 of (l, w3) \<Rightarrow>
              case sys_getpeername os sockfd w3 of (p, w4) \<Rightarrow>
              if addr_or_zero l = addr_or_zero p then Connector_retry os al k sockfd w4
              else let w5 = Connector_setState k Ct_kConnected w4 in
                bindE (deref (connectors w5) k) (\<lambda>c.
                if ct_connect c
                then (case ct_newConnectionCallback c of
                        None \<Rightarrow> Inl Bad_Function_Call
                      | Some cl \<Rightarrow> newConnection cl sockfd w5)
                else Inr (snd (sys_close os sockfd w5))))
     | Ct_kDisconnected \<Rightarrow> Inr w
     | Ct_kConnected \<Rightarrow> Inl Exit)"

definition Connector_handleError ::
  "os \<Rightarrow> alloc \<Rightarrow> connector_ptr \<Rightarrow> 'w connector_world_scheme \<Rightarrow> 'w connector_world_scheme result" where
  "Connector_handleError os al k w =
     bindE (deref (connectors w) k) (\<lambda>c.
     if ct_state c = Ct_kConnecting
     then bindE (Connector_removeAndResetChannel os k w) (\<lambda>(sockfd, w1).
          Connector_retry os al k sockfd (snd (sys_getsockopt_error os sockfd w1)))
     else Inr w)"

subsection \<open>The state machine\<close>

text \<open>
  While it connects, a connector owns a channel that epoll watches for writing; in the other states
  the channel it may still hold is out of the poller and waits to be destroyed.
\<close>

definition connector_rel :: "'w connector_world_scheme \<Rightarrow> connector_ptr \<Rightarrow> connector \<Rightarrow> bool" where
  "connector_rel w k c \<longleftrightarrow>
     connectors w k = Some c \<and> poller_inv (ct_loop c) w \<and>
     (\<forall>p. ct_channel c = Some p \<longrightarrow> (\<exists>ch. chans w p = Some ch \<and> ch_loop ch = ct_loop c \<and>
        (if ct_state c = Ct_kConnecting then ch_index ch = kAdded \<and> isWriting ch \<and>
           ch_writeCallback ch = Some (Bind_Connector_handleWriter k) \<and>
           ch_errorCallback ch = Some (Bind_Connector_handleError k)
         else ch_index ch = kNew))) \<and>
     (ct_state c = Ct_kConnecting \<longrightarrow> ct_channel c \<noteq> None)"

lemma connector_frameD:
  fixes w w' :: "'w connector_world_scheme"
  assumes "poller_world.more w' = poller_world.more w"
  shows "connectors w' = connectors w"
  using assms by (cases w; cases w'; simp)

lemma writing_not_none: "isWriting ch \<Longrightarrow> \<not> isNoneEvent ch"
  using isNoneEvent_iff by blast

text \<open>Destroying a channel that the poller does not hold.\<close>

lemma poller_inv_drop:
  assumes "poller_inv L w" "\<forall>q. p = Some q \<longrightarrow> (\<exists>ch. chans w q = Some ch \<and> ch_loop ch = L \<and> ch_index ch = kNew)"
  shows "poller_inv L (drop_channel p w)"
proof (cases p)
  case None
  with assms show ?thesis by (simp add: drop_channel_def)
next
  case (Some q)
  with assms(2) obtain ch where ch: "chans w q = Some ch" "ch_loop ch = L" "ch_index ch = kNew" by blast
  have "po_channels (pollers w L) f \<noteq> Some q" for f
  proof
    assume f: "po_channels (pollers w L) f = Some q"
    with poller_invD(1) [OF assms(1)] ch(1) have "ch_fd ch = f" by fastforce
    with f poller_invD(2) [OF assms(1) ch(1,2)] ch(3) show False
      by (auto simp: chan_ok_def Let_def kIndex_defs)
  qed
  with poller_inv_delete_chan [OF assms(1)] Some show ?thesis by (simp add: drop_channel_def)
qed

lemma drop_channel_simps [simp]:
  "hist (drop_channel p w) = hist w" "pollers (drop_channel p v) = pollers v"
  "connectors (drop_channel p u) = connectors u"
  by (simp_all add: drop_channel_def split: option.splits)

lemma Connector_connecting_ok:
  assumes os: "epoll_ok os" and rel: "connector_rel w k c" and idle: "ct_state c \<noteq> Ct_kConnecting"
    and fresh: "chans w (al_channel al (chans w)) = None"
      "po_channels (pollers w (ct_loop c)) sockfd = None"
    and res: "Connector_connecting os al k sockfd w = Inr w'"
  shows "\<exists>c'. connector_rel w' k c' \<and> ct_state c' = Ct_kConnecting \<and> ct_loop c' = ct_loop c \<and>
    interest (hist w') (po_epollfd (pollers w' (ct_loop c))) sockfd
      = Some (kWriteEvent, al_channel al (chans w))"
proof -
  let ?L = "ct_loop c" and ?p = "al_channel al (chans w)"
  note r = rel [unfolded connector_rel_def]
  let ?new = "(Channel_new ?L sockfd)
     \<lparr>ch_writeCallback := Some (Bind_Connector_handleWriter k),
      ch_errorCallback := Some (Bind_Connector_handleError k)\<rparr>"
  let ?w0 = "Connector_setState k Ct_kConnecting w"
  let ?w1 = "drop_channel (ct_channel c) ?w0"
  let ?w2 = "?w1\<lparr>chans := (chans ?w1)(?p \<mapsto> ?new)\<rparr>"
  let ?w3 = "upd_connector k (\<lambda>c. c\<lparr>ct_channel := Some ?p\<rparr>) ?w2"
  let ?c' = "c\<lparr>ct_state := Ct_kConnecting, ct_channel := Some ?p\<rparr>"
  have chans0: "chans ?w0 = chans w" "pollers ?w0 = pollers w" "hist ?w0 = hist w"
    by (simp_all add: Connector_setState_def upd_connector_def)
  have inv0: "poller_inv ?L ?w0" using r poller_inv_cong [of ?w0 w ?L] chans0 by simp
  have "poller_inv ?L ?w1" using inv0 r idle by (intro poller_inv_drop) (auto simp: chans0)
  moreover have "chans ?w1 ?p = None"
    using fresh(1) by (auto simp: drop_channel_def chans0 split: option.splits)
  ultimately have "poller_inv ?L ?w2" by (rule poller_inv_new_chan) (simp add: kNew_def)
  then have inv: "poller_inv ?L ?w3"
    using poller_inv_cong [of ?w3 ?w2 ?L] by (simp add: upd_connector_def)
  have chan: "chans ?w3 ?p = Some ?new" "ch_loop ?new = ?L" by (simp_all add: upd_connector_def)
  have upd: "Channel_update os ?p (upd_chan ?p (add_events kWriteEvent) ?w3) = Inr w'"
    using res r by (simp add: Connector_connecting_def Channel_enableWriting_def Let_def)
  have g: "\<And>ch. ch_index (add_events kWriteEvent ch) = ch_index ch"
    "\<And>ch. ch_fd (add_events kWriteEvent ch) = ch_fd ch"
    "\<And>ch. ch_loop (add_events kWriteEvent ch) = ch_loop ch" by simp_all
  have pol: "pollers ?w3 = pollers w" "hist ?w3 = hist w"
    by (simp_all add: upd_connector_def chans0)
  have reg: "ch_index ?new = kNew \<Longrightarrow> po_channels (pollers ?w3 ?L) (ch_fd ?new) = None"
    using fresh(2) pol by simp
  note eff = Channel_update_effect [OF upd os inv chan g reg]
  let ?ch = "Channel_set_index (next_index (add_events kWriteEvent ?new)) (add_events kWriteEvent ?new)"
  have idx: "next_index (add_events kWriteEvent ?new) = kAdded"
    by (simp add: next_index_def kIndex_defs)
  have "isWriting ?ch" using kEvents_nonzero by (simp add: isWriting_def)
  moreover have "connectors w' k = Some ?c'"
    using connector_frameD [OF eff(8)] r by (simp add: upd_connector_def Connector_setState_def)
  ultimately have "connector_rel w' k ?c'"
    using eff(1,3) idx by (simp add: connector_rel_def Channel_set_index_def add_events_def)
  moreover have "interest (hist w') (po_epollfd (pollers w' ?L)) sockfd = Some (kWriteEvent, ?p)"
    using eff(4,6) pol by (simp add: next_watch_def kIndex_defs)
  ultimately show ?thesis by (intro exI [of _ ?c']) simp
qed

text \<open>
  \<open>removeAndResetChannel\<close> gives the descriptor back: neither epoll nor the map of the poller knows
  it afterwards, so that it can be closed or given to a connection.
\<close>

lemma removeAndResetChannel_ok:
  assumes os: "epoll_ok os" and k: "connectors w k = Some c" and inv: "poller_inv (ct_loop c) w"
    and p: "ct_channel c = Some p" "chans w p = Some ch" "ch_loop ch = ct_loop c" "ch_index ch = kAdded"
  shows "\<exists>w1 ch1. Connector_removeAndResetChannel os k w = Inr (ch_fd ch, w1) \<and>
    poller_inv (ct_loop c) w1 \<and>
    connectors w1 = connectors w \<and> chans w1 = (chans w)(p \<mapsto> ch1) \<and> ch_loop ch1 = ct_loop c \<and>
    ch_index ch1 = kNew \<and>
    interest (hist w1) (po_epollfd (pollers w1 (ct_loop c))) (ch_fd ch) = None \<and>
    po_channels (pollers w1 (ct_loop c)) (ch_fd ch) = None \<and>
    po_epollfd (pollers w1 (ct_loop c)) = po_epollfd (pollers w (ct_loop c)) \<and>
    loops w1 = (loops w)(ct_loop c := (loops w (ct_loop c))\<lparr>lp_pendingFunctors :=
      lp_pendingFunctors (loops w (ct_loop c)) @ [Bind_Connector_resetChannel k]\<rparr>) \<and>
    loop_world.more w1 = loop_world.more w \<and> (\<forall>f. calm f (ct_loop c) w \<longrightarrow> calm f (ct_loop c) w1) \<and>
    ch1 = Channel_set_index kNew (clear_events ch) \<and> current_tid w1 = current_tid w \<and>
    po_capacity (pollers w1 (ct_loop c)) = po_capacity (pollers w (ct_loop c))"
proof -
  let ?L = "ct_loop c"
  from Channel_update_added_Inr [OF os inv p(2,3) _ _ _ p(4), of clear_events] obtain w1 where
    w1: "Channel_disableAll os p w = Inr w1"
    by (auto simp: Channel_disableAll_def)
  have "ch_index ch \<noteq> kNew" using p(4) by (simp add: kIndex_defs)
  note d = disableAll_ok [OF os inv p(2,3) this w1]
  let ?ch = "Channel_set_index kDeleted (clear_events ch)"
  have ch1: "chans w1 p = Some ?ch" "ch_loop ?ch = ?L" using d(3) p by simp_all
  from Channel_remove_Inr [OF ch1(1), of os] obtain w2 where w2: "Channel_remove os p w1 = Inr w2"
    by blast
  then have rem: "EPollPoller_removeChannel os ?L p w1 = Inr w2"
    using ch1 by (simp add: Channel_remove_def EventLoop_removeChannel_def)
  have reg: "ch_index ?ch = kNew \<Longrightarrow> po_channels (pollers w1 ?L) (ch_fd ?ch) = None"
    by (simp add: kIndex_defs)
  note e = removeChannel_effect [OF rem os d(1) ch1 reg]
  note i = removeChannel_inv [OF rem os d(1) ch1 reg]
  let ?ch2 = "Channel_set_index kNew ?ch"
  let ?w3 = "EventLoop_queueInLoop os ?L (Bind_Connector_resetChannel k) w2"
  have ch2: "chans w2 p = Some ?ch2" using e(1) by simp
  have "Connector_removeAndResetChannel os k w = Inr (ch_fd ch, ?w3)"
    using k p(1) w1 w2 ch2 by (simp add: Connector_removeAndResetChannel_def)
  moreover have more: "poller_world.more w2 = poller_world.more w" using e(6) d(2) by simp
  have "connectors w2 = connectors w" using connector_frameD [OF more] .
  then have "connectors ?w3 = connectors w"
    by (simp add: EventLoop_queueInLoop_def EventLoop_wakeup_def sys_write_def upd_loop_def Let_def)
  moreover have "loops ?w3 = (loops w)(?L := (loops w ?L)\<lparr>lp_pendingFunctors :=
      lp_pendingFunctors (loops w ?L) @ [Bind_Connector_resetChannel k]\<rparr>)"
    "loop_world.more ?w3 = loop_world.more w"
    using loop_frameD [OF more] by simp_all
  moreover have "calm f ?L ?w3" if "calm f ?L w" for f
  proof -
    have "calm f ?L w1"
      using w1 that unfolding Channel_disableAll_def by (auto elim: calm_Channel_update)
    then have "calm f ?L w2" using rem by (rule calm_removeChannel [rotated])
    then show ?thesis by simp
  qed
  moreover have "chans ?w3 = (chans w)(p \<mapsto> ?ch2)" using e(1) d(3) by simp
  moreover have "interest (hist ?w3) (po_epollfd (pollers ?w3 ?L)) (ch_fd ch) = None"
    using e(3,5) by simp
  moreover have "po_channels (pollers ?w3 ?L) (ch_fd ch) = None" using e(2) by simp
  moreover have "current_tid ?w3 = current_tid w" using loop_frameD(2) [OF more] by simp
  moreover have "po_capacity (pollers ?w3 ?L) = po_capacity (pollers w ?L)"
    using Channel_update_capacity [OF w1 [unfolded Channel_disableAll_def]] Channel_remove_capacity [OF w2]
    by (simp add: upd_chan_def)
  ultimately show ?thesis using p(3) i(1) e(3) d(5)
    by (intro exI [of _ ?w3] exI [of _ ?ch2]) (simp add: Channel_set_index_def)
qed

lemma connector_relD:
  assumes "connector_rel w k c" "ct_state c = Ct_kConnecting"
  obtains p ch where "ct_channel c = Some p" "chans w p = Some ch" "ch_loop ch = ct_loop c"
    "ch_index ch = kAdded" "connectors w k = Some c" "poller_inv (ct_loop c) w"
  using assms unfolding connector_rel_def by auto

text \<open>Whether the two ends of a socket are the same, by the two calls after the history \<open>h\<close>.\<close>

definition self_connected :: "os \<Rightarrow> sysevent list \<Rightarrow> fd \<Rightarrow> bool" where
  "self_connected os h f \<longleftrightarrow> addr_or_zero (os_getsockname os h f)
     = addr_or_zero (os_getpeername os (h @ [Getsockname f (os_getsockname os h f)]) f)"

text \<open>
  \<open>handleWriter\<close> on a connecting connector: the descriptor is given back by the poller; then it is
  closed and retried (an error, or a connection of the socket with itself), or handed to the client,
  or closed because the client has stopped.
\<close>

lemma handleWriter_ok:
  assumes os: "epoll_ok os" and rel: "connector_rel w k c" and conn: "ct_state c = Ct_kConnecting"
    and err: "\<forall>h f. os_getsockopt_error os h f \<noteq> Inl 0"
    and p: "ct_channel c = Some p" "chans w p = Some ch" and f: "ch_fd ch = f"
  shows "\<exists>w1 w2 w4 ch1. chans w1 = (chans w)(p \<mapsto> ch1) \<and>
    interest (hist w1) (po_epollfd (pollers w1 (ct_loop c))) f = None \<and>
    po_channels (pollers w1 (ct_loop c)) f = None \<and> poller_inv (ct_loop c) w1 \<and>
    po_epollfd (pollers w1 (ct_loop c)) = po_epollfd (pollers w (ct_loop c)) \<and>
    loops w1 = (loops w)(ct_loop c := (loops w (ct_loop c))\<lparr>lp_pendingFunctors :=
      lp_pendingFunctors (loops w (ct_loop c)) @ [Bind_Connector_resetChannel k]\<rparr>) \<and>
    loop_world.more w1 = loop_world.more w \<and> (\<forall>f. calm f (ct_loop c) w \<longrightarrow> calm f (ct_loop c) w4) \<and>
    w2 = w1\<lparr>hist := hist w1 @ [Getsockopt_error f (os_getsockopt_error os (hist w1) f)]\<rparr> \<and>
    w4 = w2\<lparr>hist := hist w4\<rparr> \<and> interest (hist w4) = interest (hist w1) \<and>
    Connector_handleWriter os al nc k w =
      (if os_getsockopt_error os (hist w1) f \<noteq> Inr 0 then Connector_retry os al k f w2
       else if self_connected os (hist w2) f then Connector_retry os al k f w4
       else let w5 = Connector_setState k Ct_kConnected w4 in
         if ct_connect c
         then (case ct_newConnectionCallback c of None \<Rightarrow> Inl Bad_Function_Call
               | Some cl \<Rightarrow> nc cl f w5)
         else Inr (snd (sys_close os f w5))) \<and> ch1 = Channel_set_index kNew (clear_events ch) \<and>
    current_tid w1 = current_tid w \<and> po_capacity (pollers w1 (ct_loop c)) = po_capacity (pollers w (ct_loop c))"
proof -
  from connector_relD [OF rel conn] obtain p' ch' where "ct_channel c = Some p'" "chans w p' = Some ch'"
      "ch_loop ch' = ct_loop c" "ch_index ch' = kAdded" "connectors w k = Some c"
      "poller_inv (ct_loop c) w" .
  with p have c: "chans w p = Some ch" "ch_loop ch = ct_loop c" "ch_index ch = kAdded"
      "connectors w k = Some c" "poller_inv (ct_loop c) w" by auto
  from removeAndResetChannel_ok [OF os c(4,5) p(1) c(1-3)] obtain w1 ch1 where
    w1: "Connector_removeAndResetChannel os k w = Inr (ch_fd ch, w1)" "poller_inv (ct_loop c) w1"
      "connectors w1 = connectors w"
      "interest (hist w1) (po_epollfd (pollers w1 (ct_loop c))) (ch_fd ch) = None"
      "po_channels (pollers w1 (ct_loop c)) (ch_fd ch) = None" "chans w1 = (chans w)(p \<mapsto> ch1)"
      "po_epollfd (pollers w1 (ct_loop c)) = po_epollfd (pollers w (ct_loop c))"
      "loops w1 = (loops w)(ct_loop c := (loops w (ct_loop c))\<lparr>lp_pendingFunctors :=
        lp_pendingFunctors (loops w (ct_loop c)) @ [Bind_Connector_resetChannel k]\<rparr>)"
      "loop_world.more w1 = loop_world.more w" "\<forall>f. calm f (ct_loop c) w \<longrightarrow> calm f (ct_loop c) w1"
      "ch1 = Channel_set_index kNew (clear_events ch)" "current_tid w1 = current_tid w"
      "po_capacity (pollers w1 (ct_loop c)) = po_capacity (pollers w (ct_loop c))" by blast
  define w2 where "w2 = snd (sys_getsockopt_error os f w1)"
  define w3 where "w3 = snd (sys_getsockname os f w2)"
  define w4 where "w4 = snd (sys_getpeername os f w3)"
  have step2: "sys_getsockopt_error os f w1 = (os_getsockopt_error os (hist w1) f, w2)"
    and step3: "sys_getsockname os f w2 = (os_getsockname os (hist w2) f, w3)"
    and step4: "sys_getpeername os f w3 = (os_getpeername os (hist w3) f, w4)"
    by (simp_all add: w2_def w3_def w4_def sys_defs Let_def)
  have hist3: "hist w3 = hist w2 @ [Getsockname f (os_getsockname os (hist w2) f)]"
    by (simp add: w3_def sys_defs Let_def)
  have same: "w2 = w1\<lparr>hist := hist w1 @ [Getsockopt_error f (os_getsockopt_error os (hist w1) f)]\<rparr>"
    "w4 = w2\<lparr>hist := hist w4\<rparr>" "interest (hist w4) = interest (hist w1)"
    by (simp_all add: w2_def w3_def w4_def sys_defs Let_def fun_eq_iff)
  have calm: "calm g L w1 \<Longrightarrow> calm g L w4" for g L
    by (simp add: w2_def w3_def w4_def sys_defs Let_def calm_def isInLoopThread_def)
  have k4: "connectors w4 k = Some c"
    using w1(3) c(4) by (simp add: w2_def w3_def w4_def sys_defs Let_def)
  have "(case os_getsockopt_error os (hist w1) f of Inl e \<Rightarrow> e | Inr v \<Rightarrow> v) \<noteq> 0
      \<longleftrightarrow> os_getsockopt_error os (hist w1) f \<noteq> Inr 0"
    using err by (auto split: sum.splits)
  then have "Connector_handleWriter os al nc k w =
      (if os_getsockopt_error os (hist w1) f \<noteq> Inr 0 then Connector_retry os al k f w2
       else if self_connected os (hist w2) f then Connector_retry os al k f w4
       else let w5 = Connector_setState k Ct_kConnected w4 in
         if ct_connect c
         then (case ct_newConnectionCallback c of None \<Rightarrow> Inl Bad_Function_Call
               | Some cl \<Rightarrow> nc cl f w5)
         else Inr (snd (sys_close os f w5)))"
    using c(4) conn w1(1) f k4
    by (simp add: Connector_handleWriter_def step2 step3 step4 hist3 [symmetric] self_connected_def Let_def
        Connector_setState_def upd_connector_def)
  with same w1(2,4-13) f calm show ?thesis
    by (intro exI [of _ w1] exI [of _ w2] exI [of _ w4] exI [of _ ch1]) auto
qed

text \<open>Registering a channel that the poller has not seen, without any invariant.\<close>

lemma updateChannel_new:
  assumes res: "Channel_update os p w = Inr w'" and ch: "chans w p = Some ch" "ch_index ch = kNew"
  shows "chans w' = (chans w)(p \<mapsto> Channel_set_index kAdded ch)"
    "po_channels (pollers w' (ch_loop ch)) = (po_channels (pollers w (ch_loop ch)))(ch_fd ch \<mapsto> p)"
    "po_epollfd (pollers w' (ch_loop ch)) = po_epollfd (pollers w (ch_loop ch))"
    "hist w' = hist w @ [Epoll_ctl (po_epollfd (pollers w (ch_loop ch))) EPOLL_CTL_ADD (ch_fd ch)
       (ch_events ch) p (Inr ())]"
proof -
  let ?L = "ch_loop ch"
  let ?w1 = "upd_poller ?L (\<lambda>q. q\<lparr>po_channels := (po_channels q)(ch_fd ch \<mapsto> p)\<rparr>) w"
  from res ch obtain w2 where w2: "EPollPoller_update os ?L EPOLL_CTL_ADD p ?w1 = Inr w2"
      "w' = upd_chan p (Channel_set_index kAdded) w2"
    by (auto simp: Channel_update_def EventLoop_updateChannel_def EPollPoller_updateChannel_def
        res_simps Let_def)
  have "chans ?w1 p = Some ch" using ch by simp
  from EPollPoller_update_Inr [OF w2(1) this] have "w2 = ?w1\<lparr>hist := hist w @
      [Epoll_ctl (po_epollfd (pollers w ?L)) EPOLL_CTL_ADD (ch_fd ch) (ch_events ch) p (Inr ())]\<rparr>"
    by auto
  with w2(2) ch show "chans w' = (chans w)(p \<mapsto> Channel_set_index kAdded ch)"
    "po_channels (pollers w' ?L) = (po_channels (pollers w ?L))(ch_fd ch \<mapsto> p)"
    "po_epollfd (pollers w' ?L) = po_epollfd (pollers w ?L)"
    "hist w' = hist w @ [Epoll_ctl (po_epollfd (pollers w ?L)) EPOLL_CTL_ADD (ch_fd ch)
       (ch_events ch) p (Inr ())]"
    by simp_all
qed

text \<open>
  Starting a connector that is connecting already destroys the channel that epoll still watches:
  the pointers to it in epoll and in the poller's map dangle.
\<close>

lemma startInLoop_twice:
  assumes rel: "connector_rel w k c" and conn: "ct_state c = Ct_kConnecting" "ct_connect c"
    and p: "ct_channel c = Some p" "chans w p = Some ch"
    and fresh: "chans w (al_channel al (chans w)) = None"
    and fd: "os_socket os (hist w) = Inr f" "f \<noteq> ch_fd ch"
    and prog: "\<forall>h. os_connect os h f (ct_serverAddr c) = Inl EINPROGRESS"
    and res: "Connector_startInLoop os al k w = Inr w'"
  shows "chans w' p = None"
    "po_channels (pollers w' (ct_loop c)) (ch_fd ch) = Some p"
    "\<exists>ev. interest (hist w') (po_epollfd (pollers w' (ct_loop c))) (ch_fd ch) = Some (ev, p)"
proof -
  let ?L = "ct_loop c" and ?q = "al_channel al (chans w)"
  have ch: "ch_loop ch = ?L" "ch_index ch = kAdded" "connectors w k = Some c" "poller_inv ?L w"
    using rel conn(1) p by (auto simp: connector_rel_def)
  from poller_invD(2) [OF ch(4) p(2) ch(1)] ch(2) obtain ev where
    reg: "po_channels (pollers w ?L) (ch_fd ch) = Some p"
      "interest (hist w) (po_epollfd (pollers w ?L)) (ch_fd ch) = Some (ev, p)"
    by (cases rule: chan_ok_cases) (auto simp: kIndex_defs)
  have pq: "p \<noteq> ?q" using fresh p(2) by auto
  let ?h = "hist w @ [Socket (Inr f), Connect f (ct_serverAddr c) (Inl EINPROGRESS)]"
  let ?w2 = "w\<lparr>hist := ?h\<rparr>"
  have act: "connect_action_of EINPROGRESS = Act_connecting"
    by (simp add: connect_action_of_def)
  have "Connector_connecting os al k f ?w2 = Inr w'"
    using res ch(3) conn(2) fd(1) prog
    by (simp add: Connector_startInLoop_def Connector_connect_def Connector_createNonblocking_def
        sys_socket_def sys_connect_def act Let_def)
  then have connecting: "Connector_connecting os al k f ?w2 = Inr w'" .
  let ?ch0 = "(Channel_new ?L f)
     \<lparr>ch_writeCallback := Some (Bind_Connector_handleWriter k),
      ch_errorCallback := Some (Bind_Connector_handleError k)\<rparr>"
  define w1 where "w1 = drop_channel (Some p) (Connector_setState k Ct_kConnecting ?w2)"
  define w3 where "w3 = upd_chan ?q (add_events kWriteEvent) (upd_connector k
    (\<lambda>c. c\<lparr>ct_channel := Some ?q\<rparr>) (w1\<lparr>chans := (chans w1)(?q \<mapsto> ?ch0)\<rparr>))"
  have "connectors ?w2 k = Some c" using ch(3) by simp
  then have "Connector_connecting os al k f ?w2 = Channel_update os ?q w3"
    unfolding Connector_connecting_def Channel_enableWriting_def w3_def w1_def Let_def
    by (simp add: p(1))
  with connecting have upd: "Channel_update os ?q w3 = Inr w'" by simp
  have "chans w1 = (chans w)(p := None)" "pollers w1 = pollers w" "hist w1 = ?h"
    by (simp_all add: w1_def drop_channel_def Connector_setState_def upd_connector_def)
  then have "chans w3 = (chans w)(p := None, ?q \<mapsto> add_events kWriteEvent ?ch0)"
      "pollers w3 = pollers w" "hist w3 = ?h"
    by (simp_all add: w3_def upd_connector_def)
  note w3 = upd this
  let ?new = "add_events kWriteEvent ((Channel_new ?L f)
     \<lparr>ch_writeCallback := Some (Bind_Connector_handleWriter k),
      ch_errorCallback := Some (Bind_Connector_handleError k)\<rparr>)"
  have new: "chans w3 ?q = Some ?new" "ch_index ?new = kNew" using w3(2) by (simp_all add: kNew_def)
  note eff = updateChannel_new [OF w3(1) new]
  have f: "ch_loop ?new = ?L" "ch_fd ?new = f" by simp_all
  show "chans w' p = None" using eff(1) w3(2) pq by simp
  show "po_channels (pollers w' ?L) (ch_fd ch) = Some p"
    using eff(2) w3(3) reg(1) fd(2) unfolding f by simp
  show "\<exists>ev. interest (hist w') (po_epollfd (pollers w' ?L)) (ch_fd ch) = Some (ev, p)"
    using eff(3,4) w3(3,4) reg(2) fd(2) unfolding f by simp
qed

text \<open>What \<open>retry\<close> does: the descriptor is closed, and a timer of five seconds set if still wanted.\<close>

lemma Connector_retry_closed:
  assumes "connectors w k = Some c" "Connector_retry os al k f w = Inr w'" "\<not> ct_connect c"
  shows "w' = Connector_setState k Ct_kDisconnected
    (w\<lparr>hist := hist w @ [Close f (os_close os (hist w) f)]\<rparr>)"
  using assms
  by (simp add: Connector_retry_def sys_close_def Connector_setState_def upd_connector_def Let_def)

lemma Connector_retry_again:
  assumes "connectors w k = Some c" "ct_connect c"
  shows "Connector_retry os al k f w =
    (let w1 = Connector_setState k Ct_kDisconnected
                (w\<lparr>hist := hist w @ [Close f (os_close os (hist w) f)]\<rparr>)
     in bindE (EventLoop_runAfter os (ct_loop c) (al_timer al (timers w)) 5
          (Bind_Connector_startInLoop k) w1) (\<lambda>(_, w2). Inr w2))"
  using assms
  by (simp add: Connector_retry_def sys_close_def Connector_setState_def upd_connector_def Let_def)

end
