(* ===== verification/InetAddr.thy ===== *)
theory InetAddr
  imports OS
begin

unbundle bit_operations_syntax

section \<open>InetAddr: printing numbers and internet addresses\<close>

text \<open>
  \<open>src/src/InetAddress.h\<close> and \<open>src/src/InetAddress.cc\<close>, and the \<open>snprintf\<close> formats with which
  servers, clients, pools and threads build names.  A \<open>sockaddr\<close> is the pair of \<open>sin_addr.s_addr\<close>
  and \<open>sin_port\<close>.  The library functions the code calls are written out: \<open>inet_ntop\<close>, which prints
  an address, and \<open>inet_addr\<close>, which reads one with the number syntax of \<open>strtoul\<close> and returns
  \<open>INADDR_NONE\<close> for a text that is no address.
\<close>

subsection \<open>Decimal numbers\<close>

definition digit_char :: "nat \<Rightarrow> char" where
  "digit_char d = char_of (48 + d)"

fun dec :: "nat \<Rightarrow> string" where
  "dec n = (if n < 10 then [digit_char n] else dec (n div 10) @ [digit_char (n mod 10)])"

declare dec.simps [simp del]

definition dec_int :: "int \<Rightarrow> string" where
  "dec_int i = (if i < 0 then CHR ''-'' # dec (nat (- i)) else dec (nat i))"

text \<open>\<open>snprintf\<close> into a buffer of \<open>n\<close> bytes keeps what fits before the final zero.\<close>

definition snprintf_buf :: "nat \<Rightarrow> string \<Rightarrow> string" where
  "snprintf_buf n s = take (n - 1) s"

lemma of_digit_char: "d < 10 \<Longrightarrow> of_char (digit_char d) = 48 + d"
  by (simp add: digit_char_def)

lemma digit_char_inj: "d < 10 \<Longrightarrow> d' < 10 \<Longrightarrow> digit_char d = digit_char d' \<longleftrightarrow> d = d'"
  by (metis add_left_cancel of_digit_char)

lemma dec_not_Nil [simp]: "dec n \<noteq> []" "[] \<noteq> dec n"
  by (subst dec.simps, simp)+

lemma dec_length: "0 < k \<Longrightarrow> n < 10 ^ k \<Longrightarrow> length (dec n) \<le> k"
proof (induction k arbitrary: n)
  case (Suc k)
  show ?case
  proof (cases "n < 10")
    case True
    then show ?thesis by (simp add: dec.simps)
  next
    case False
    with Suc.prems have "0 < k" by (cases k) auto
    moreover have "n div 10 < 10 ^ k" using Suc.prems by (simp add: less_mult_imp_div_less)
    ultimately have "length (dec (n div 10)) \<le> k" using Suc.IH by simp
    with False show ?thesis by (subst dec.simps) simp
  qed
qed simp

lemma dec_digits: "set (dec n) \<subseteq> digit_char ` {..<10}"
proof (induction n rule: dec.induct)
  case (1 n)
  then show ?case by (subst dec.simps) auto
qed

lemma dec_inj: "dec m = dec n \<longleftrightarrow> m = n"
proof
  show "dec m = dec n \<Longrightarrow> m = n"
  proof (induction m arbitrary: n rule: dec.induct)
    case (1 m)
    show ?case
    proof (cases "m < 10 \<or> n < 10")
      case True
      with 1(2) show ?thesis
        by (auto simp: dec.simps [of m] dec.simps [of n] digit_char_inj split: if_splits)
    next
      case False
      with 1(2) have "dec (m div 10) = dec (n div 10)" "digit_char (m mod 10) = digit_char (n mod 10)"
        by (simp_all add: dec.simps [of m] dec.simps [of n])
      then have "m div 10 = n div 10" "m mod 10 = n mod 10"
        using 1(1) [of "n div 10"] False by (simp_all add: digit_char_inj)
      then show ?thesis by (metis div_mult_mod_eq)
    qed
  qed
qed simp

lemma not_digit:
  assumes "of_char c < (48 :: nat)  \<or> 58 \<le> (of_char c :: nat)"
  shows "c \<notin> set (dec n)"
proof
  assume "c \<in> set (dec n)"
  then obtain d where "d < 10" "c = digit_char d" using dec_digits by blast
  with assms show False by (simp add: of_digit_char)
qed

lemma separators_not_digits:
  "CHR ''.'' \<notin> set (dec n)" "CHR '':'' \<notin> set (dec n)" "CHR ''#'' \<notin> set (dec n)"
  "CHR ''-'' \<notin> set (dec n)"
  by (rule not_digit; simp)+

lemma dec_int_inj: "dec_int i = dec_int j \<longleftrightarrow> i = j"
proof -
  have "CHR ''-'' # xs \<noteq> dec n" for xs n
    using separators_not_digits(4) [of n] by (metis list.set_intros(1))
  then show ?thesis by (auto simp: dec_int_def dec_inj) (metis)+
qed

lemma dec_int_length:
  assumes "- (2 ^ 31) \<le> i" "i < 2 ^ 31"
  shows "length (dec_int i) \<le> 11"
proof (cases "i < 0")
  case True
  with assms have "nat (- i) < 10 ^ 10" by simp
  with dec_length [of 10 "nat (- i)"] True show ?thesis by (simp add: dec_int_def)
next
  case False
  with assms have "nat i < 10 ^ 10" by simp
  with dec_length [of 10 "nat i"] False show ?thesis by (simp add: dec_int_def)
qed

text \<open>Where a separator occurs in neither prefix, the two halves are determined.\<close>

lemma split_at_separator:
  "c \<notin> set xs \<Longrightarrow> c \<notin> set xs' \<Longrightarrow> xs @ c # ys = xs' @ c # ys' \<longleftrightarrow> xs = xs' \<and> ys = ys'"
proof (induction xs arbitrary: xs')
  case Nil
  then show ?case by (cases xs') auto
next
  case (Cons x xs)
  then show ?case by (cases xs') auto
qed

subsection \<open>Byte order\<close>

definition swap16 :: "16 word \<Rightarrow> 16 word" where
  "swap16 x = push_bit 8 x OR drop_bit 8 x"

definition htons :: "16 word \<Rightarrow> 16 word" where "htons = swap16"
definition ntohs :: "16 word \<Rightarrow> 16 word" where "ntohs = swap16"

lemma swap16_swap16: "swap16 (swap16 x) = x"
  by (rule bit_word_eqI) (auto simp: swap16_def bit_simps)

text \<open>\<open>htonl\<close> reverses the four bytes.\<close>

definition htonl :: "32 word \<Rightarrow> 32 word" where
  "htonl x =
     push_bit 24 (take_bit 8 x) OR push_bit 16 (take_bit 8 (drop_bit 8 x)) OR
     push_bit 8 (take_bit 8 (drop_bit 16 x)) OR drop_bit 24 x"

lemma small_drop: "n < 256 \<Longrightarrow> 8 \<le> k \<Longrightarrow> drop_bit k (word_of_nat n :: 32 word) = 0"
proof -
  assume n: "n < 256" and k: "8 \<le> k"
  have "(256 :: nat) \<le> 2 ^ k" using power_increasing [OF k, of "2 :: nat"] by simp
  with n have "n div 2 ^ k = 0" by simp
  moreover have "unat (drop_bit k (word_of_nat n :: 32 word)) = n div 2 ^ k"
    unfolding unat_drop_bit_eq unat_of_nat using n by (simp add: drop_bit_eq_div)
  ultimately show ?thesis using unat_eq_0 by metis
qed

lemma htonl_byte:
  assumes "n < 256"
  shows "htonl (word_of_nat n) = push_bit 24 (word_of_nat n)"
proof -
  have "push_bit 24 (take_bit 8 x) = push_bit 24 x" for x :: "32 word"
    by (rule bit_word_eqI) (auto simp: bit_simps)
  then show ?thesis using assms by (simp add: htonl_def small_drop)
qed

subsection \<open>Reading addresses\<close>

text \<open>The value of a character as a digit; 36 is a digit in no base.\<close>

definition digit_val :: "char \<Rightarrow> nat" where
  "digit_val c =
     (let n = of_char c in
      if 48 \<le> n \<and> n \<le> 57 then n - 48
      else if 97 \<le> n \<and> n \<le> 122 then n - 87
      else if 65 \<le> n \<and> n \<le> 90 then n - 55
      else 36)"

definition isspace_char :: "char \<Rightarrow> bool" where
  "isspace_char c = (c = CHR '' '' \<or> 9 \<le> (of_char c :: nat) \<and> (of_char c :: nat) \<le> 13)"

fun read_digits :: "nat \<Rightarrow> nat \<Rightarrow> string \<Rightarrow> nat \<times> string" where
  "read_digits b acc [] = (acc, [])"
| "read_digits b acc (c # cs) =
     (if digit_val c < b then read_digits b (acc * b + digit_val c) cs else (acc, c # cs))"

text \<open>
  \<open>strtoul(cp, &endp, 0)\<close> on a text that starts with a digit: hexadecimal after \<open>0x\<close> and a
  hexadecimal digit, octal after another \<open>0\<close>, decimal otherwise.  The value is unbounded here; its
  caller refuses what does not fit, as it refuses \<open>ERANGE\<close>.
\<close>

definition strtoul0 :: "string \<Rightarrow> nat \<times> string" where
  "strtoul0 s =
     (case s of
        c # x # d # cs \<Rightarrow>
          if c = CHR ''0'' \<and> (x = CHR ''x'' \<or> x = CHR ''X'') \<and> digit_val d < 16
          then read_digits 16 0 (d # cs)
          else read_digits (if c = CHR ''0'' then 8 else 10) 0 s
      | c # cs \<Rightarrow> read_digits (if c = CHR ''0'' then 8 else 10) 0 s
      | [] \<Rightarrow> (0, []))"

text \<open>
  The loop of \<open>inet_aton\<close>: \<open>pp\<close> parts have been stored in \<open>res\<close>.  Every part but the last is a byte;
  the last one fills the bytes that remain, and may be followed by white space.
\<close>

lemma read_digits_length: "length (snd (read_digits b acc s)) \<le> length s"
  by (induction b acc s rule: read_digits.induct) auto

lemma strtoul0_length: "length (snd (strtoul0 s)) \<le> length s"
proof -
  have "length (snd (read_digits b acc cs)) \<le> Suc (Suc (length cs))" for b acc cs
    using read_digits_length [of b acc cs] by simp
  then show ?thesis
    using read_digits_length [of 8 0 s] read_digits_length [of 10 0 s]
      read_digits_length [of 16 0 "tl (tl s)"]
    by (auto simp: strtoul0_def split: list.splits)
qed

function inet_aton :: "nat \<Rightarrow> 32 word \<Rightarrow> string \<Rightarrow> 32 word option" where
  "inet_aton pp res cp =
     (if cp = [] \<or> \<not> digit_val (hd cp) < 10 then None
      else let (val, rest) = strtoul0 cp in
        if 0xFFFFFFFF < val then None
        else if rest \<noteq> [] \<and> hd rest = CHR ''.'' then
          if 2 < pp \<or> 0xFF < val then None
          else inet_aton (pp + 1) (res OR push_bit (8 * pp) (word_of_nat val)) (tl rest)
        else if rest \<noteq> [] \<and> \<not> isspace_char (hd rest) then None
        else if 2 ^ (8 * (4 - pp)) \<le> val then None
        else Some (res OR htonl (word_of_nat val)))"
  by pat_completeness auto
termination
proof (relation "measure (\<lambda>(pp, res, cp). length cp)", goal_cases)
  case (2 pp res cp v val rest)
  then have "length rest \<le> length cp" "rest \<noteq> []"
    using strtoul0_length [of cp] by (auto simp: prod_eq_iff)
  then show ?case by (cases rest) auto
qed simp

declare inet_aton.simps [simp del]

definition INADDR_NONE :: "32 word" where "INADDR_NONE = 0xFFFFFFFF"

definition inet_addr :: "string \<Rightarrow> 32 word" where
  "inet_addr cp = (case inet_aton 0 0 cp of Some a \<Rightarrow> a | None \<Rightarrow> INADDR_NONE)"

subsection \<open>InetAddress\<close>

text \<open>\<open>c_str()\<close> ends at the first zero byte for the C functions that read it.\<close>

definition c_str :: "string \<Rightarrow> string" where
  "c_str s = takeWhile (\<lambda>c. (of_char c :: nat) \<noteq> 0) s"

definition InetAddress_new :: "16 word \<Rightarrow> string \<Rightarrow> sockaddr" where
  "InetAddress_new port ip = (inet_addr (c_str ip), htons port)"

text \<open>Byte \<open>i\<close> of the address in memory, on a little-endian machine.\<close>

definition addr_byte :: "nat \<Rightarrow> 32 word \<Rightarrow> 8 word" where
  "addr_byte i a = ucast (drop_bit (8 * i) a)"

text \<open>\<open>inet_ntop(AF_INET, ...)\<close>: the four bytes in decimal with dots between them.\<close>

definition inet_ntop :: "32 word \<Rightarrow> string" where
  "inet_ntop a =
     dec (unat (addr_byte 0 a)) @ CHR ''.'' # dec (unat (addr_byte 1 a)) @ CHR ''.'' #
     dec (unat (addr_byte 2 a)) @ CHR ''.'' # dec (unat (addr_byte 3 a))"

definition toIp :: "sockaddr \<Rightarrow> string" where
  "toIp a = inet_ntop (fst a)"

definition toPort :: "sockaddr \<Rightarrow> 16 word" where
  "toPort a = ntohs (snd a)"

definition toIpPort :: "sockaddr \<Rightarrow> string" where
  "toIpPort a = inet_ntop (fst a) @ CHR '':'' # dec (unat (toPort a))"

lemma addr_bytes_inj:
  assumes "addr_byte 0 a = addr_byte 0 b" "addr_byte 1 a = addr_byte 1 b"
    "addr_byte 2 a = addr_byte 2 b" "addr_byte 3 a = addr_byte 3 b"
  shows "a = b"
proof (rule bit_word_eqI)
  have bit: "bit (addr_byte i x) j \<longleftrightarrow> bit x (8 * i + j)" if "j < 8" for i j and x :: "32 word"
    using that by (simp add: addr_byte_def bit_simps)
  fix n assume n: "n < LENGTH(32)"
  have j: "n mod 8 < 8" by simp
  have "n div 8 = 0 \<or> n div 8 = 1 \<or> n div 8 = 2 \<or> n div 8 = 3" using n by auto
  then have "addr_byte (n div 8) a = addr_byte (n div 8) b" using assms by auto
  then have "bit a (8 * (n div 8) + n mod 8) = bit b (8 * (n div 8) + n mod 8)"
    using bit [OF j, of "n div 8" a] bit [OF j, of "n div 8" b] by simp
  then show "bit a n = bit b n" by simp
qed

lemma inet_ntop_inj: "inet_ntop a = inet_ntop b \<longleftrightarrow> a = b"
proof
  assume "inet_ntop a = inet_ntop b"
  then show "a = b"
    by (intro addr_bytes_inj)
      (simp_all add: inet_ntop_def split_at_separator separators_not_digits dec_inj word_unat_eq_iff)
qed simp

lemma inet_ntop_no_colon: "CHR '':'' \<notin> set (inet_ntop a)"
  by (simp add: inet_ntop_def separators_not_digits)

lemma toIpPort_inj: "toIpPort a = toIpPort b \<longleftrightarrow> a = b"
proof
  assume *: "toIpPort a = toIpPort b"
  then have "fst a = fst b" "toPort a = toPort b"
    by (simp_all add: toIpPort_def split_at_separator inet_ntop_no_colon inet_ntop_inj dec_inj
        word_unat_eq_iff)
  then have "snd a = snd b" by (metis ntohs_def swap16_swap16 toPort_def)
  with \<open>fst a = fst b\<close> show "a = b" by (simp add: prod_eq_iff)
qed simp

lemma toIpPort_length: "length (toIpPort a) \<le> 21"
proof -
  have b: "length (dec (unat (x :: 8 word))) \<le> 3" for x
    using unat_below [of x] by (intro dec_length) simp_all
  have p: "length (dec (unat (x :: 16 word))) \<le> 5" for x
    using unat_below [of x] by (intro dec_length) simp_all
  show ?thesis
    using b [of "addr_byte 0 (fst a)"] b [of "addr_byte 1 (fst a)"] b [of "addr_byte 2 (fst a)"]
      b [of "addr_byte 3 (fst a)"] p [of "toPort a"]
    by (simp add: toIpPort_def inet_ntop_def)
qed

lemma toPort_new: "toPort (InetAddress_new port s_addr) = port"
  by (simp add: toPort_def InetAddress_new_def htons_def ntohs_def swap16_swap16)

subsection \<open>An address is read back from its text\<close>

lemma digit_val_digit_char: "d < 10 \<Longrightarrow> digit_val (digit_char d) = d"
  by (simp add: digit_val_def Let_def of_digit_char)

lemma read_dec: "read_digits 10 acc (dec n @ rest) = read_digits 10 (acc * 10 ^ length (dec n) + n) rest"
proof (induction n arbitrary: acc rest rule: dec.induct)
  case (1 n)
  show ?case
  proof (cases "n < 10")
    case True
    then show ?thesis by (subst (1 2) dec.simps) (simp add: digit_val_digit_char)
  next
    case False
    then have split: "dec n = dec (n div 10) @ [digit_char (n mod 10)]" by (subst dec.simps) simp
    have "read_digits 10 acc (dec n @ rest) =
        read_digits 10 ((acc * 10 ^ length (dec (n div 10)) + n div 10) * 10 + n mod 10) rest"
      unfolding split using 1 [OF False] by (simp add: digit_val_digit_char)
    also have "(acc * 10 ^ length (dec (n div 10)) + n div 10) * 10 + n mod 10 = acc * 10 ^ length (dec n) + n"
      using div_mult_mod_eq [of n 10] by (simp add: split algebra_simps)
    finally show ?thesis .
  qed
qed

lemma dec_first: "\<exists>d cs. dec n = digit_char d # cs \<and> d < 10 \<and> (d = 0 \<longrightarrow> n = 0)"
proof (induction n rule: dec.induct)
  case (1 n)
  show ?case
  proof (cases "n < 10")
    case True
    then have "dec n = digit_char n # []" by (subst dec.simps) simp
    with True show ?thesis by blast
  next
    case False
    with 1 obtain d cs where "dec (n div 10) = digit_char d # cs" "d < 10" "d = 0 \<longrightarrow> n div 10 = 0" by blast
    with False show ?thesis by (subst dec.simps) auto
  qed
qed

lemma digit_char_zero: "digit_char 0 = CHR ''0''"
  by code_simp

lemma strtoul0_dec:
  assumes "rest = [] \<or> hd rest = CHR ''.''"
  shows "strtoul0 (dec n @ rest) = (n, rest)"
proof -
  have stop: "read_digits b acc rest = (acc, rest)" if "b \<le> 10" for b acc
    using assms that by (cases rest) (auto simp: digit_val_def)
  obtain d cs where d: "dec n = digit_char d # cs" "d < 10" "d = 0 \<longrightarrow> n = 0" using dec_first by blast
  have zero: "digit_char d = CHR ''0'' \<longleftrightarrow> d = 0"
    using digit_char_inj [of d 0] d(2) unfolding digit_char_zero by simp
  show ?thesis
  proof (cases "n = 0")
    case True
    then have "dec n = [CHR ''0'']" by (simp add: dec.simps digit_char_zero)
    with assms stop [of 8 0] True show ?thesis
      by (auto simp: strtoul0_def digit_val_def split: list.splits)
  next
    case False
    with d(3) zero have "digit_char d \<noteq> CHR ''0''" by auto
    then have "strtoul0 (dec n @ rest) = read_digits 10 0 (dec n @ rest)"
      by (auto simp: strtoul0_def d(1) split: list.splits)
    then show ?thesis by (simp add: read_dec stop)
  qed
qed

lemma inet_aton_dec:
  assumes "rest = [] \<or> hd rest = CHR ''.''" "n < 256" "pp < 4"
  shows "inet_aton pp res (dec n @ rest) =
     (if rest = [] then Some (res OR htonl (word_of_nat n))
      else if pp = 3 then None
      else inet_aton (pp + 1) (res OR push_bit (8 * pp) (word_of_nat n)) (tl rest))"
proof -
  obtain d cs where d: "dec n = digit_char d # cs" "d < 10" using dec_first by blast
  then have "hd (dec n @ rest) = digit_char d" "dec n @ rest \<noteq> []" by simp_all
  moreover have "\<not> 2 ^ (8 * (4 - pp)) \<le> n"
  proof -
    have "8 \<le> 8 * (4 - pp)" using assms(3) by simp
    from power_increasing [OF this, of "2 :: nat"] show ?thesis using assms(2) by simp
  qed
  ultimately show ?thesis
    using assms d(2)
    by (subst inet_aton.simps) (auto simp: strtoul0_dec digit_val_digit_char)
qed

lemma of_bytes:
  "(word_of_nat (unat (addr_byte 0 a)) :: 32 word) OR (push_bit 8 (word_of_nat (unat (addr_byte 1 a))) OR
   (push_bit 16 (word_of_nat (unat (addr_byte 2 a))) OR push_bit 24 (word_of_nat (unat (addr_byte 3 a))))) = a"
proof -
  have b: "word_of_nat (unat (addr_byte i a)) = take_bit 8 (drop_bit (8 * i) a)" for i
    by (rule bit_word_eqI) (auto simp: addr_byte_def bit_simps)
  have cut: "take_bit 8 (drop_bit 24 a) = drop_bit 24 a"
    by (rule bit_word_eqI) (auto simp: bit_simps dest: bit_imp_le_length)
  show ?thesis
  proof (rule bit_word_eqI)
    fix j assume "j < LENGTH(32)"
    then have "j < 8 \<or> 8 \<le> j \<and> j < 16 \<or> 16 \<le> j \<and> j < 24 \<or> 24 \<le> j \<and> j < 32" by auto
    then show "bit ((word_of_nat (unat (addr_byte 0 a)) :: 32 word) OR (push_bit 8 (word_of_nat (unat (addr_byte 1 a))) OR
   (push_bit 16 (word_of_nat (unat (addr_byte 2 a))) OR push_bit 24 (word_of_nat (unat (addr_byte 3 a)))))) j = bit a j"
      unfolding b by (elim disjE; auto simp: bit_simps)
  qed
qed

lemma inet_addr_ntop: "inet_addr (inet_ntop a) = a"
proof -
  have less: "unat (addr_byte i a) < 256" for i using unat_below [of "addr_byte i a"] by simp
  have last: "inet_aton (Suc (Suc (Suc 0))) res (dec (unat (addr_byte 3 a))) =
      Some (res OR push_bit 24 (word_of_nat (unat (addr_byte 3 a))))" for res
    using inet_aton_dec [of "[]" "unat (addr_byte 3 a)" "Suc (Suc (Suc 0))" res] less [of 3]
    by (simp only: htonl_byte append_Nil2 simp_thms if_True)
  have "inet_aton 0 0 (inet_ntop a) = Some a"
    using of_bytes [of a] less by (simp add: inet_ntop_def inet_aton_dec last or.assoc)
  then show ?thesis by (simp add: inet_addr_def)
qed

lemma c_str_ntop: "c_str (inet_ntop a) = inet_ntop a"
proof -
  have "CHR 0x00 \<notin> set (dec n)" for n by (rule not_digit) simp
  then have "CHR 0x00 \<notin> set (inet_ntop a)" by (simp add: inet_ntop_def)
  moreover have "c = CHR 0x00" if "(of_char c :: nat) = 0" for c
  proof -
    have "c = char_of (of_char c :: nat)" by simp
    also have "\<dots> = CHR 0x00" unfolding that by code_simp
    finally show ?thesis .
  qed
  ultimately have "\<forall>c \<in> set (inet_ntop a). (of_char c :: nat) \<noteq> 0" by blast
  then show ?thesis unfolding c_str_def takeWhile_eq_all_conv .
qed

lemma InetAddress_toIp: "InetAddress_new (toPort a) (toIp a) = a"
  by (simp add: InetAddress_new_def toPort_def toIp_def c_str_ntop inet_addr_ntop htons_def ntohs_def
      swap16_swap16)

text \<open>What \<open>inet_addr\<close> does with other texts: shorter forms, other bases, and what is no address.\<close>

lemmas read_simps = inet_addr_def inet_aton.simps strtoul0_def digit_val_def isspace_char_def INADDR_NONE_def

lemma inet_addr_forms:
  "inet_addr ''127.0.0.1'' = 0x100007F" "inet_addr ''127.1'' = 0x100007F" "inet_addr ''0x7F.1'' = 0x100007F"
  "inet_addr ''0177.1 '' = 0x100007F" "inet_addr ''localhost'' = INADDR_NONE"
  "inet_addr ''1.2.3.256'' = INADDR_NONE" "inet_addr ''1.2.3.4.5'' = INADDR_NONE" "inet_addr [] = INADDR_NONE"
  by (simp_all add: read_simps htonl_def)

subsection \<open>Properties\<close>

text \<open>C35: The text of an address is read back as that address: the constructor of InetAddress, given what
  toPort() and toIp() return, rebuilds it byte by byte, through the byte order of the port and of the
  address and the number syntax of inet_addr.  So the text with the port, under which servers and clients
  name their connections, determines the address; and it is at most 21 characters long, so that no buffer
  the program prints it into is too short.\<close>

theorem address_text_roundtrip:
  "InetAddress_new (toPort a) (toIp a) = a \<and> (toIpPort a = toIpPort b \<longleftrightarrow> a = b) \<and> length (toIpPort a) \<le> 21"
  using InetAddress_toIp toIpPort_inj toIpPort_length by blast

end
