(* ===== verification/ThreadPool.thy ===== *)
theory ThreadPool
  imports InetAddr
begin

section \<open>ThreadPool: the loops of a server, handed out in turn\<close>

text \<open>
  \<open>src/src/EventLoopThreadPool.h\<close> and \<open>src/src/EventLoopThreadPool.cc\<close>, and the naming of threads
  (\<open>Thread::setDefaultName\<close> in \<open>src/src/Thread.cc\<close>).  What starting the \<open>i\<close>-th thread does to the
  world, and which loop \<open>startLoop\<close> returns, is the argument \<open>startLoop\<close>; how the two threads meet
  is in the theory of the loop thread.  Running the initialization callback on the base loop, which
  happens when the pool has no threads, is the argument \<open>init\<close>.
\<close>

record pool =
  pl_baseLoop :: nat
  pl_name :: string
  pl_started :: bool
  pl_numThreads :: int32
  pl_next :: int32
  pl_threads :: "string list"
  pl_loops :: "nat list"

definition EventLoopThreadPool_new :: "nat \<Rightarrow> string \<Rightarrow> pool" where
  "EventLoopThreadPool_new baseLoop name = \<lparr>pl_baseLoop = baseLoop, pl_name = name,
     pl_started = False, pl_numThreads = 0, pl_next = 0, pl_threads = [], pl_loops = []\<rparr>"

definition EventLoopThreadPool_setThreadNum :: "int32 \<Rightarrow> pool \<Rightarrow> pool" where
  "EventLoopThreadPool_setThreadNum n p = p\<lparr>pl_numThreads := n\<rparr>"

text \<open>The name of the \<open>i\<close>-th thread.\<close>

definition thread_name :: "pool \<Rightarrow> nat \<Rightarrow> string" where
  "thread_name p i = snprintf_buf (length (pl_name p) + 32) (pl_name p @ dec_int (int i))"

definition start_thread ::
  "(string \<Rightarrow> 's \<Rightarrow> (nat \<times> 's) result) \<Rightarrow> nat \<Rightarrow> pool \<times> 's \<Rightarrow> (pool \<times> 's) result" where
  "start_thread startLoop i = (\<lambda>(p, s).
     bindE (startLoop (thread_name p i) s) (\<lambda>(loop, s').
     Inr (p\<lparr>pl_threads := pl_threads p @ [thread_name p i], pl_loops := pl_loops p @ [loop]\<rparr>, s')))"

definition EventLoopThreadPool_start ::
  "(string \<Rightarrow> 's \<Rightarrow> (nat \<times> 's) result) \<Rightarrow> (nat \<Rightarrow> 's \<Rightarrow> 's result) option \<Rightarrow> pool \<Rightarrow> 's
     \<Rightarrow> (pool \<times> 's) result" where
  "EventLoopThreadPool_start startLoop init p s =
     bindE (foldE (start_thread startLoop) [0 ..< nat (sint (pl_numThreads p))]
              (p\<lparr>pl_started := True\<rparr>, s)) (\<lambda>(p1, s1).
     case init of
       Some cb \<Rightarrow> if pl_numThreads p1 = 0 then bindE (cb (pl_baseLoop p1) s1) (\<lambda>s2. Inr (p1, s2))
                  else Inr (p1, s1)
     | None \<Rightarrow> Inr (p1, s1))"

text \<open>
  \<open>getNextLoop\<close>: an index outside \<open>loops_\<close> would be undefined; \<open>++next_\<close> is signed; the comparison
  with \<open>size()\<close> is unsigned.
\<close>

definition EventLoopThreadPool_getNextLoop :: "pool \<Rightarrow> (nat \<times> pool) result" where
  "EventLoopThreadPool_getNextLoop p =
     (if pl_loops p \<noteq> [] then
        let i = unat (scast (pl_next p) :: size_t) in
        if length (pl_loops p) \<le> i then Inl Undefined_Behaviour
        else bindE (s_int (sint (pl_next p) + 1)) (\<lambda>n.
             Inr (pl_loops p ! i,
                  p\<lparr>pl_next := (if of_nat (length (pl_loops p)) \<le> (scast n :: size_t) then 0 else n)\<rparr>))
      else Inr (pl_baseLoop p, p))"

definition EventLoopThreadPool_getAllLoops :: "pool \<Rightarrow> nat list" where
  "EventLoopThreadPool_getAllLoops p = (if pl_loops p \<noteq> [] then pl_loops p else [pl_baseLoop p])"

subsection \<open>Starting\<close>

lemma start_threads_ok:
  assumes "\<And>name s. \<exists>l s'. startLoop name s = Inr (l, s')"
  shows "\<exists>ls s'. foldE (start_thread startLoop) xs (p, s) =
      Inr (p\<lparr>pl_threads := pl_threads p @ map (thread_name p) xs, pl_loops := pl_loops p @ ls\<rparr>, s') \<and>
    length ls = length xs"
proof (induction xs arbitrary: p s)
  case Nil
  then show ?case by simp
next
  case (Cons x xs)
  from assms [of "thread_name p x" s] obtain l s1 where l: "startLoop (thread_name p x) s = Inr (l, s1)"
    by blast
  let ?p = "p\<lparr>pl_threads := pl_threads p @ [thread_name p x], pl_loops := pl_loops p @ [l]\<rparr>"
  have same: "thread_name ?p = thread_name p" by (simp add: thread_name_def fun_eq_iff)
  from Cons [of ?p s1] obtain ls s' where "foldE (start_thread startLoop) xs (?p, s1) =
      Inr (?p\<lparr>pl_threads := pl_threads ?p @ map (thread_name ?p) xs, pl_loops := pl_loops ?p @ ls\<rparr>, s')"
      "length ls = length xs" by blast
  moreover have "start_thread startLoop x (p, s) = Inr (?p, s1)"
    using l by (simp add: start_thread_def)
  ultimately show ?case using same
    by (intro exI [of _ "l # ls"] exI [of _ s']) simp
qed

subsection \<open>Round robin\<close>

definition pool_inv :: "pool \<Rightarrow> bool" where
  "pool_inv p \<longleftrightarrow> 0 \<le> sint (pl_next p) \<and> length (pl_loops p) < 2 ^ 31 \<and>
     (pl_loops p \<noteq> [] \<longrightarrow> nat (sint (pl_next p)) < length (pl_loops p))"

lemma unat_scast_nonneg:
  assumes "0 \<le> sint (x :: int32)"
  shows "unat (scast x :: size_t) = nat (sint x)"
proof -
  have "sint x < 2 ^ 31" using sint_range(2) [of x] by simp
  then have "sint x mod 2 ^ LENGTH(64) = sint x" using assms by (intro mod_pos_pos_trivial) simp_all
  then have "uint (word_of_int (sint x) :: size_t) = sint x" unfolding uint_word_of_int .
  moreover have "(scast x :: size_t) = word_of_int (sint x)" by (rule scast_eq)
  ultimately have "uint (scast x :: size_t) = sint x" by metis
  then show ?thesis by (metis unat_eq_nat_uint)
qed

lemma getNextLoop_ok:
  assumes inv: "pool_inv p" and ne: "pl_loops p \<noteq> []"
  shows "\<exists>p'. EventLoopThreadPool_getNextLoop p = Inr (pl_loops p ! nat (sint (pl_next p)), p') \<and>
    pool_inv p' \<and> pl_loops p' = pl_loops p \<and>
    nat (sint (pl_next p')) = (nat (sint (pl_next p)) + 1) mod length (pl_loops p)"
proof -
  let ?i = "nat (sint (pl_next p))" and ?m = "length (pl_loops p)"
  have i: "0 \<le> sint (pl_next p)" "?i < ?m" "?m < 2 ^ 31" using inv ne by (auto simp: pool_inv_def)
  have idx: "unat (scast (pl_next p) :: size_t) = ?i" using unat_scast_nonneg [OF i(1)] .
  obtain n :: int32 where n: "s_int (sint (pl_next p) + 1) = Inr n" "sint n = sint (pl_next p) + 1"
  proof -
    have "\<exists>n :: int32. s_int (sint (pl_next p) + 1) = Inr n" using i by (auto simp: s_int_def)
    then show ?thesis using that by (auto simp: s_int_eq_Inr)
  qed
  have n': "unat (scast n :: size_t) = ?i + 1"
    using unat_scast_nonneg [of n] n(2) i(1) by (simp add: nat_add_distrib)
  have m: "unat (of_nat ?m :: size_t) = ?m" using i(3) by (intro unat_of_nat_small) simp
  have wrap: "(of_nat ?m \<le> (scast n :: size_t)) = (?m \<le> ?i + 1)"
    by (simp add: word_le_nat_alt n' m)
  let ?p' = "p\<lparr>pl_next := (if ?m \<le> ?i + 1 then 0 else n)\<rparr>"
  have "EventLoopThreadPool_getNextLoop p = Inr (pl_loops p ! ?i, ?p')"
    using ne i(2) idx n(1) wrap by (simp add: EventLoopThreadPool_getNextLoop_def Let_def)
  moreover have "nat (sint (pl_next ?p')) = (?i + 1) mod ?m"
  proof (cases "?m \<le> ?i + 1")
    case True
    with i(2) have "?i + 1 = ?m" by simp
    with True show ?thesis by simp
  next
    case False
    then show ?thesis using n(2) i(1) by (simp add: nat_add_distrib)
  qed
  moreover have "pool_inv ?p'"
    using i n(2) ne by (auto simp: pool_inv_def nat_add_distrib)
  ultimately show ?thesis by (intro exI [of _ ?p']) simp
qed

text \<open>\<open>n\<close> calls in a row.\<close>

fun next_loops :: "nat \<Rightarrow> pool \<Rightarrow> (nat list \<times> pool) result" where
  "next_loops 0 p = Inr ([], p)"
| "next_loops (Suc n) p =
     bindE (EventLoopThreadPool_getNextLoop p) (\<lambda>(l, p1).
     bindE (next_loops n p1) (\<lambda>(ls, p2). Inr (l # ls, p2)))"

lemma next_loops_ok:
  assumes "pool_inv p" "pl_loops p \<noteq> []"
  shows "\<exists>p'. next_loops n p = Inr (map (\<lambda>i. pl_loops p ! ((nat (sint (pl_next p)) + i) mod
      length (pl_loops p))) [0 ..< n], p') \<and> pool_inv p' \<and> pl_loops p' = pl_loops p \<and>
    nat (sint (pl_next p')) = (nat (sint (pl_next p)) + n) mod length (pl_loops p)"
  using assms
proof (induction n arbitrary: p)
  case 0
  then show ?case by (simp add: pool_inv_def)
next
  case (Suc n)
  let ?i = "nat (sint (pl_next p))" and ?m = "length (pl_loops p)"
  from getNextLoop_ok [OF Suc.prems] obtain p1 where
    p1: "EventLoopThreadPool_getNextLoop p = Inr (pl_loops p ! ?i, p1)" "pool_inv p1"
      "pl_loops p1 = pl_loops p" "nat (sint (pl_next p1)) = (?i + 1) mod ?m" by blast
  from Suc.IH [OF p1(2)] Suc.prems(2) p1(3) obtain p' where
    p': "next_loops n p1 = Inr (map (\<lambda>i. pl_loops p ! ((nat (sint (pl_next p1)) + i) mod ?m))
        [0 ..< n], p')" "pool_inv p'" "pl_loops p' = pl_loops p"
      "nat (sint (pl_next p')) = (nat (sint (pl_next p1)) + n) mod ?m" by auto
  have "?i mod ?m = ?i" using Suc.prems by (simp add: pool_inv_def)
  moreover have "((?i + 1) mod ?m + j) mod ?m = (?i + Suc j) mod ?m" for j
    by (simp add: mod_add_left_eq)
  ultimately have "pl_loops p ! ?i # map (\<lambda>j. pl_loops p ! ((nat (sint (pl_next p1)) + j) mod ?m)) [0 ..< n]
      = map (\<lambda>j. pl_loops p ! ((?i + j) mod ?m)) [0 ..< Suc n]"
    unfolding p1(4) by (simp add: upt_conv_Cons map_Suc_upt [symmetric] del: upt_Suc)
  moreover have "nat (sint (pl_next p')) = (?i + Suc n) mod ?m"
    unfolding p'(4) p1(4) by (simp add: mod_add_left_eq)
  ultimately show ?case using p1(1) p' by simp
qed

text \<open>Whole rounds: the list of loops, rotated to where the pool stands, again and again.\<close>

lemma periodic_rounds:
  assumes "\<And>i. f (i + m) = f i"
  shows "map f [0 ..< k * m] = concat (replicate k (map f [0 ..< m]))"
proof (induction k)
  case (Suc k)
  have "[0 ..< Suc k * m] = [0 ..< m] @ map (\<lambda>i. i + m) [0 ..< k * m]"
    unfolding map_add_upt using upt_add_eq_append [of 0 m "k * m"] by (simp add: add.commute)
  moreover have "map f (map (\<lambda>i. i + m) [0 ..< k * m]) = map f [0 ..< k * m]"
    using assms by simp
  ultimately show ?case using Suc by simp
qed simp

lemma next_loops_rounds:
  assumes "pool_inv p" "pl_loops p \<noteq> []"
  shows "\<exists>p'. next_loops (k * length (pl_loops p)) p
      = Inr (concat (replicate k (rotate (nat (sint (pl_next p))) (pl_loops p))), p') \<and>
    pool_inv p' \<and> pl_loops p' = pl_loops p \<and> nat (sint (pl_next p')) = nat (sint (pl_next p))"
proof -
  let ?s = "nat (sint (pl_next p))" and ?m = "length (pl_loops p)"
  let ?f = "\<lambda>i. pl_loops p ! ((?s + i) mod ?m)"
  have round: "map ?f [0 ..< ?m] = rotate ?s (pl_loops p)"
    by (rule nth_equalityI) (simp_all add: nth_rotate)
  have "?f (i + ?m) = ?f i" for i by (simp flip: add.assoc)
  then have "map ?f [0 ..< k * ?m] = concat (replicate k (rotate ?s (pl_loops p)))"
    using periodic_rounds [of ?f ?m k] round by simp
  moreover have "(?s + k * ?m) mod ?m = ?s" using assms by (simp add: pool_inv_def)
  ultimately show ?thesis using next_loops_ok [OF assms, of "k * ?m"] by auto
qed

subsection \<open>Properties\<close>

definition ex_pool :: pool where
  "ex_pool = \<lparr>pl_baseLoop = 0, pl_name = ''p'', pl_started = True, pl_numThreads = 3, pl_next = 1,
     pl_threads = [], pl_loops = [11, 12, 13]\<rparr>"

text \<open>C27: Round robin is fair: \<open>k\<close> times as many calls of \<open>getNextLoop\<close> as there are loops hand out
  the list of loops \<open>k\<close> times, rotated to where the pool stands, and leave the pool where it was.\<close>

theorem getNextLoop_round_robin:
  assumes "pool_inv p" "pl_loops p \<noteq> []"
  shows "\<exists>p'. next_loops (k * length (pl_loops p)) p
      = Inr (concat (replicate k (rotate (nat (sint (pl_next p))) (pl_loops p))), p') \<and>
    pool_inv p' \<and> pl_loops p' = pl_loops p \<and> nat (sint (pl_next p')) = nat (sint (pl_next p))"
  by (rule next_loops_rounds [OF assms])

lemma getNextLoop_round_robin_witness:
  "\<exists>p'. next_loops (2 * 3) ex_pool = Inr ([12, 13, 11, 12, 13, 11], p')"
proof -
  have "pool_inv ex_pool" and ls: "pl_loops ex_pool = [11, 12, 13]" "nat (sint (pl_next ex_pool)) = Suc 0"
    by (simp_all add: ex_pool_def pool_inv_def)
  moreover have "concat (replicate 2 (rotate (Suc 0) [11, 12, 13 :: nat])) = [12, 13, 11, 12, 13, 11]"
    by (simp add: numeral_2_eq_2)
  ultimately show ?thesis
    using getNextLoop_round_robin [of ex_pool 2] by (simp del: next_loops.simps) blast
qed

end
