(* ===== verification/TcpServer.thy ===== *)
theory TcpServer
  imports Connector ThreadPool
begin

section \<open>TcpServer: accepted connections, their names and their loops\<close>

text \<open>
  \<open>src/src/TcpServer.h\<close> and \<open>src/src/TcpServer.cc\<close>.  A server runs in its base loop; it owns an
  acceptor (named by the server), a pool of loops and the map \<open>connections_\<close> from names to
  connections.  \<open>startLoop\<close> is what starting a thread of the pool does.
\<close>

datatype Option = kNoReusePort | kReusePort

record server =
  sv_loop :: loop_ptr
  sv_ipPort :: string
  sv_name :: string
  sv_pool :: pool
  sv_connectionCallback :: "connection_callback option"
  sv_messageCallback :: "message_callback option"
  sv_writeCompleteCallback :: "user_fn option"
  sv_threadInitCallback :: "user_fn option"
  sv_started :: int32
  sv_nextConnId :: int32
  sv_connections :: "string \<rightharpoonup> conn_ptr"

record server_world = connector_world +
  servers :: "server_ptr \<rightharpoonup> server"

definition upd_server ::
  "server_ptr \<Rightarrow> (server \<Rightarrow> server) \<Rightarrow> 'w server_world_scheme \<Rightarrow> 'w server_world_scheme" where
  "upd_server s g w = w\<lparr>servers := (servers w)(s := map_option g (servers w s))\<rparr>"

definition CheckLoopNotNull :: "loop_ptr option \<Rightarrow> loop_ptr result" where
  "CheckLoopNotNull loop = (case loop of None \<Rightarrow> Inl Abort | Some L \<Rightarrow> Inr L)"

text \<open>
  The constructor.  \<open>option = kReusePort\<close> in the argument of the acceptor is an assignment: its
  value is \<open>kReusePort\<close> whatever the caller chose.  Both callbacks start empty.
\<close>

definition TcpServer_ctor ::
  "os \<Rightarrow> server_ptr \<Rightarrow> chan_ptr \<Rightarrow> loop_ptr option \<Rightarrow> sockaddr \<Rightarrow> string \<Rightarrow> Option
     \<Rightarrow> 'w server_world_scheme \<Rightarrow> 'w server_world_scheme result" where
  "TcpServer_ctor os s p loop listenAddr nameArg option w =
     bindE (CheckLoopNotNull loop) (\<lambda>L.
     let option = kReusePort in
     bindE (Acceptor_ctor os s p L listenAddr (option = kReusePort) w) (\<lambda>w1.
     let sv = \<lparr>sv_loop = L, sv_ipPort = toIpPort listenAddr, sv_name = nameArg,
               sv_pool = EventLoopThreadPool_new L nameArg,
               sv_connectionCallback = None, sv_messageCallback = None,
               sv_writeCompleteCallback = None, sv_threadInitCallback = None,
               sv_started = 0, sv_nextConnId = 1, sv_connections = Map.empty\<rparr>
     in Inr (Acceptor_setNewConnectionCallback s (w1\<lparr>servers := (servers w1)(s \<mapsto> sv)\<rparr>))))"

definition TcpServer_setThreadNum :: "server_ptr \<Rightarrow> int32 \<Rightarrow> 'w server_world_scheme \<Rightarrow> 'w server_world_scheme" where
  "TcpServer_setThreadNum s n =
     upd_server s (\<lambda>sv. sv\<lparr>sv_pool := EventLoopThreadPool_setThreadNum n (sv_pool sv)\<rparr>)"

definition TcpServer_setConnectionCallback ::
  "server_ptr \<Rightarrow> connection_callback \<Rightarrow> 'w server_world_scheme \<Rightarrow> 'w server_world_scheme" where
  "TcpServer_setConnectionCallback s cb = upd_server s (\<lambda>sv. sv\<lparr>sv_connectionCallback := Some cb\<rparr>)"

definition TcpServer_setMessageCallback ::
  "server_ptr \<Rightarrow> message_callback \<Rightarrow> 'w server_world_scheme \<Rightarrow> 'w server_world_scheme" where
  "TcpServer_setMessageCallback s cb = upd_server s (\<lambda>sv. sv\<lparr>sv_messageCallback := Some cb\<rparr>)"

definition TcpServer_setWriteCompleteCallback ::
  "server_ptr \<Rightarrow> user_fn \<Rightarrow> 'w server_world_scheme \<Rightarrow> 'w server_world_scheme" where
  "TcpServer_setWriteCompleteCallback s cb = upd_server s (\<lambda>sv. sv\<lparr>sv_writeCompleteCallback := Some cb\<rparr>)"

definition TcpServer_setThreadInitCallback ::
  "server_ptr \<Rightarrow> user_fn \<Rightarrow> 'w server_world_scheme \<Rightarrow> 'w server_world_scheme" where
  "TcpServer_setThreadInitCallback s cb = upd_server s (\<lambda>sv. sv\<lparr>sv_threadInitCallback := Some cb\<rparr>)"

definition TcpServer_start ::
  "os \<Rightarrow> ('w server_world_scheme) conn_env
     \<Rightarrow> (string \<Rightarrow> 'w server_world_scheme \<Rightarrow> (loop_ptr \<times> 'w server_world_scheme) result)
     \<Rightarrow> server_ptr \<Rightarrow> 'w server_world_scheme \<Rightarrow> 'w server_world_scheme result" where
  "TcpServer_start os env startLoop s w =
     bindE (deref (servers w) s) (\<lambda>sv.
     let w1 = upd_server s (\<lambda>sv. sv\<lparr>sv_started := sv_started sv + 1\<rparr>) w in
     if sv_started sv = 0
     then bindE (EventLoopThreadPool_start startLoop
                   (map_option (app_threadInit env) (sv_threadInitCallback sv)) (sv_pool sv) w1) (\<lambda>(pl, w2).
          EventLoop_runInLoop os (sv_loop sv) (Bind_Acceptor_listen s) (Acceptor_listen os s)
            (upd_server s (\<lambda>sv. sv\<lparr>sv_pool := pl\<rparr>) w2))
     else Inr w1)"

subsection \<open>A new connection\<close>

text \<open>\<open>"-%s#%d"\<close> into a buffer of 64 bytes, after the name of the server.\<close>

definition conn_name :: "server \<Rightarrow> int \<Rightarrow> string" where
  "conn_name sv nr =
     sv_name sv @ snprintf_buf 64 (CHR ''-'' # sv_ipPort sv @ CHR ''#'' # dec_int nr)"

definition TcpServer_newConnection ::
  "os \<Rightarrow> alloc \<Rightarrow> ('w server_world_scheme) conn_env \<Rightarrow> server_ptr \<Rightarrow> fd \<Rightarrow> sockaddr
     \<Rightarrow> 'w server_world_scheme \<Rightarrow> 'w server_world_scheme result" where
  "TcpServer_newConnection os al env s sockfd peerAddr w =
     bindE (deref (servers w) s) (\<lambda>sv.
     bindE (EventLoopThreadPool_getNextLoop (sv_pool sv)) (\<lambda>(ioLoop, pl).
     let connName = conn_name sv (sint (sv_nextConnId sv)) in
     bindE (s_int (sint (sv_nextConnId sv) + 1)) (\<lambda>nextId.
     let w1 = upd_server s (\<lambda>sv. sv\<lparr>sv_pool := pl, sv_nextConnId := nextId\<rparr>) w in
     case sys_getsockname os sockfd w1 of (local, w2) \<Rightarrow>
     let c = al_conn al (conns w2) in
     bindE (TcpConnection_ctor c (al_channel al (chans w2)) ioLoop connName sockfd
              (addr_or_zero local) peerAddr w2) (\<lambda>w3.
     let w4 = upd_server s (\<lambda>sv. sv\<lparr>sv_connections := (sv_connections sv)(connName \<mapsto> c)\<rparr>) w3;
         w5 = upd_conn c (\<lambda>cn. cn\<lparr>cn_connectionCallback := sv_connectionCallback sv,
                                  cn_messageCallback := sv_messageCallback sv,
                                  cn_writeCompleteCallback := sv_writeCompleteCallback sv\<rparr>) w4;
         w6 = TcpConnection_setCloseCallback c (Bind_TcpServer_removeConnection s) w5
     in EventLoop_runInLoop os ioLoop (Bind_TcpConnection_connectEstablished c)
          (TcpConnection_connectEstablished os env c) w6))))"

subsection \<open>Removing connections\<close>

definition TcpServer_removeConnectionInLoop ::
  "os \<Rightarrow> server_ptr \<Rightarrow> conn_ptr \<Rightarrow> 'w server_world_scheme \<Rightarrow> 'w server_world_scheme result" where
  "TcpServer_removeConnectionInLoop os s c w =
     bindE (deref (servers w) s) (\<lambda>_.
     bindE (deref (conns w) c) (\<lambda>cn.
     Inr (EventLoop_queueInLoop os (cn_loop cn) (Bind_TcpConnection_connectDestroyed c)
            (upd_server s (\<lambda>sv. sv\<lparr>sv_connections := (sv_connections sv)(cn_name cn := None)\<rparr>) w))))"

definition TcpServer_removeConnection ::
  "os \<Rightarrow> server_ptr \<Rightarrow> conn_ptr \<Rightarrow> 'w server_world_scheme \<Rightarrow> 'w server_world_scheme result" where
  "TcpServer_removeConnection os s c w =
     bindE (deref (servers w) s) (\<lambda>sv.
     EventLoop_runInLoop os (sv_loop sv) (Bind_TcpServer_removeConnectionInLoop s c)
       (TcpServer_removeConnectionInLoop os s c) w)"

text \<open>
  The destructor: every connection is destroyed in its own loop, in the order \<open>items\<close> in which the
  hash map is iterated; then the acceptor goes.
\<close>

definition TcpServer_dtor ::
  "os \<Rightarrow> ('w server_world_scheme) conn_env \<Rightarrow> (string \<times> conn_ptr) list \<Rightarrow> server_ptr
     \<Rightarrow> 'w server_world_scheme \<Rightarrow> 'w server_world_scheme result" where
  "TcpServer_dtor os env items s w =
     bindE (foldE (\<lambda>(name, c) w.
              bindE (deref (conns w) c) (\<lambda>cn.
              EventLoop_runInLoop os (cn_loop cn) (Bind_TcpConnection_connectDestroyed c)
                (TcpConnection_connectDestroyed os env c)
                (upd_server s (\<lambda>sv. sv\<lparr>sv_connections := (sv_connections sv)(name := None)\<rparr>) w)))
              items w) (\<lambda>w1.
     bindE (Acceptor_dtor os s w1) (\<lambda>w2. Inr (w2\<lparr>servers := (servers w2)(s := None)\<rparr>)))"

subsection \<open>Names\<close>

lemma snprintf_buf_fits: "length s < n \<Longrightarrow> snprintf_buf n s = s"
  by (simp add: snprintf_buf_def)

lemma conn_name_full:
  assumes "sv_ipPort sv = toIpPort a" "- (2 ^ 31) \<le> nr" "nr < 2 ^ 31"
  shows "conn_name sv nr = sv_name sv @ CHR ''-'' # toIpPort a @ CHR ''#'' # dec_int nr"
proof -
  have "length (CHR ''-'' # toIpPort a @ CHR ''#'' # dec_int nr) < 64"
    using toIpPort_length [of a] dec_int_length [OF assms(2,3)] by simp
  then show ?thesis by (simp add: conn_name_def assms(1) snprintf_buf_fits)
qed

lemma conn_name_inj:
  assumes "sv_ipPort sv = toIpPort a" "- (2 ^ 31) \<le> i" "i < 2 ^ 31" "- (2 ^ 31) \<le> j" "j < 2 ^ 31"
  shows "conn_name sv i = conn_name sv j \<longleftrightarrow> i = j"
  using conn_name_full [OF assms(1-3)] conn_name_full [OF assms(1,4,5)] by (auto simp: dec_int_inj)

subsection \<open>The invariant of a server\<close>

text \<open>
  \<open>connections_\<close> maps names the server has given out to live connections that carry that name and
  will report to this server when they close.
\<close>

definition server_inv :: "'w server_world_scheme \<Rightarrow> server_ptr \<Rightarrow> server \<Rightarrow> bool" where
  "server_inv w s sv \<longleftrightarrow>
     servers w s = Some sv \<and> pool_inv (sv_pool sv) \<and> (\<exists>a. sv_ipPort sv = toIpPort a) \<and>
     0 < sint (sv_nextConnId sv) \<and>
     (\<forall>name c. sv_connections sv name = Some c \<longrightarrow>
        (\<exists>nr cn. 0 < nr \<and> nr < sint (sv_nextConnId sv) \<and> name = conn_name sv nr \<and>
           conns w c = Some cn \<and> cn_name cn = name \<and>
           cn_closeCallback cn = Some (Bind_TcpServer_removeConnection s)))"

lemma server_invD:
  assumes "server_inv w s sv"
  shows "servers w s = Some sv" "pool_inv (sv_pool sv)" "0 < sint (sv_nextConnId sv)"
    "\<exists>a. sv_ipPort sv = toIpPort a"
    "sv_connections sv name = Some c \<Longrightarrow>
       \<exists>nr cn. 0 < nr \<and> nr < sint (sv_nextConnId sv) \<and> name = conn_name sv nr \<and>
           conns w c = Some cn \<and> cn_name cn = name \<and>
           cn_closeCallback cn = Some (Bind_TcpServer_removeConnection s)"
  using assms unfolding server_inv_def by blast+

text \<open>The next name is new.\<close>

lemma next_name_fresh:
  assumes inv: "server_inv w s sv"
  shows "sv_connections sv (conn_name sv (sint (sv_nextConnId sv))) = None"
proof (rule ccontr)
  assume "\<not> ?thesis"
  then obtain c where "sv_connections sv (conn_name sv (sint (sv_nextConnId sv))) = Some c" by auto
  from server_invD(5) [OF inv this] obtain nr where nr: "0 < nr" "nr < sint (sv_nextConnId sv)"
      "conn_name sv (sint (sv_nextConnId sv)) = conn_name sv nr" by blast
  from server_invD(4) [OF inv] obtain a where a: "sv_ipPort sv = toIpPort a" by blast
  have "sint (sv_nextConnId sv) < 2 ^ 31" using sint_range(2) [of "sv_nextConnId sv"] by simp
  with nr conn_name_inj [OF a, of "sint (sv_nextConnId sv)" nr] show False by simp
qed

subsection \<open>newConnection\<close>

lemma conn_fresh_frame:
  assumes "conn_fresh w c cn ch" "conns w' c = Some cn'" "chans w' = chans w" "pollers w' = pollers w"
    "interest (hist w') = interest (hist w)" "loops w' = loops w"
    "cn_channel cn' = cn_channel cn" "cn_socket cn' = cn_socket cn" "cn_loop cn' = cn_loop cn"
    "cn_inputBuffer cn' = cn_inputBuffer cn" "cn_outputBuffer cn' = cn_outputBuffer cn"
  shows "conn_fresh w' c cn' ch"
  using assms poller_inv_cong [of w' w "cn_loop cn"] by (simp add: conn_fresh_def)

lemma server_frameD:
  fixes w w' :: "'w server_world_scheme"
  assumes "conn_world.more w' = conn_world.more w"
  shows "servers w' = servers w" "acceptors w' = acceptors w"
  using assms by (cases w; cases w'; simp)+

lemma upd_server_simps [simp]:
  "servers (upd_server s g w) = (servers w)(s := map_option g (servers w s))"
  "conns (upd_server s g w) = conns w" "chans (upd_server s g w) = chans w"
  "pollers (upd_server s g w) = pollers w" "hist (upd_server s g w) = hist w"
  "loops (upd_server s g w) = loops w" "current_tid (upd_server s g w) = current_tid w"
  "timerqueues (upd_server s g w) = timerqueues w" "acceptors (upd_server s g w) = acceptors w"
  "memory (upd_server s g w) = memory w"
  by (simp_all add: upd_server_def)

text \<open>What accepting a connection leaves of the server.\<close>

definition same_settings :: "server \<Rightarrow> server \<Rightarrow> bool" where
  "same_settings sv sv' \<longleftrightarrow> sv_loop sv' = sv_loop sv \<and> sv_name sv' = sv_name sv \<and>
     sv_ipPort sv' = sv_ipPort sv \<and> sv_connectionCallback sv' = sv_connectionCallback sv \<and>
     sv_messageCallback sv' = sv_messageCallback sv"

lemma newConnection_ok:
  assumes inv: "server_inv w s sv"
    and pool: "EventLoopThreadPool_getNextLoop (sv_pool sv) = Inr (L, pl)" "pool_inv pl"
    and ids: "sint (sv_nextConnId sv) < 2 ^ 31 - 1"
    and fresh: "chans w (al_channel al (chans w)) = None" "conns w (al_conn al (conns w)) = None"
    and fd: "poller_inv L w" "po_channels (pollers w L) sockfd = None" "lp_wakeupFd (loops w L) \<noteq> sockfd"
  shows "\<exists>w1 sv1 cn ch. TcpServer_newConnection os al env s sockfd peer w =
      EventLoop_runInLoop os L (Bind_TcpConnection_connectEstablished (al_conn al (conns w)))
        (TcpConnection_connectEstablished os env (al_conn al (conns w))) w1 \<and>
    conn_fresh w1 (al_conn al (conns w)) cn ch \<and> cn_state cn = kConnecting \<and> cn_loop cn = L \<and>
    cn_socket cn = sockfd \<and> cn_connectionCallback cn = sv_connectionCallback sv \<and>
    cn_messageCallback cn = sv_messageCallback sv \<and>
    server_inv w1 s sv1 \<and> sv_pool sv1 = pl \<and>
    sint (sv_nextConnId sv1) = sint (sv_nextConnId sv) + 1 \<and>
    sv_connections sv1 = (sv_connections sv)(cn_name cn \<mapsto> al_conn al (conns w)) \<and>
    sv_connections sv (cn_name cn) = None \<and> isInLoopThread L w1 = isInLoopThread L w \<and>
    fin_state (hist w1) sockfd = fin_state (hist w) sockfd \<and>
    po_epollfd (pollers w1 L) = po_epollfd (pollers w L) \<and>
    conn_added (al_conn al (conns w)) cn ch w w1 \<and> acceptors w1 = acceptors w \<and>
    cn_channel cn = al_channel al (chans w) \<and> cn_name cn = conn_name sv (sint (sv_nextConnId sv)) \<and>
    conn_name sv1 = conn_name sv \<and> cn_closeCallback cn = Some (Bind_TcpServer_removeConnection s) \<and>
    same_settings sv sv1 \<and>
    (\<exists>r. hist w1 = hist w @ [Getsockname sockfd r, Setsockopt sockfd SO_KEEPALIVE True])"
proof -
  let ?c = "al_conn al (conns w)" and ?p = "al_channel al (chans w)"
  let ?name = "conn_name sv (sint (sv_nextConnId sv))"
  note sv = server_invD [OF inv]
  obtain nextId :: int32 where n: "s_int (sint (sv_nextConnId sv) + 1) = Inr nextId"
      "sint nextId = sint (sv_nextConnId sv) + 1"
  proof -
    have "\<exists>n :: int32. s_int (sint (sv_nextConnId sv) + 1) = Inr n"
      using ids sv(3) by (auto simp: s_int_def)
    then show ?thesis using that by (auto simp: s_int_eq_Inr)
  qed
  let ?w1 = "upd_server s (\<lambda>sv. sv\<lparr>sv_pool := pl, sv_nextConnId := nextId\<rparr>) w"
  define w2 where "w2 = snd (sys_getsockname os sockfd ?w1)"
  define la where "la = addr_or_zero (os_getsockname os (hist ?w1) sockfd)"
  have step: "sys_getsockname os sockfd ?w1 = (os_getsockname os (hist ?w1) sockfd, w2)"
    by (simp add: w2_def sys_getsockname_def Let_def)
  have same2: "conns w2 = conns w" "chans w2 = chans w" "pollers w2 = pollers w" "loops w2 = loops w"
      "servers w2 = servers ?w1" "interest (hist w2) = interest (hist w)"
      "current_tid w2 = current_tid w" "fin_state (hist w2) sockfd = fin_state (hist w) sockfd"
      "timerqueues w2 = timerqueues w" "acceptors w2 = acceptors w" "\<exists>r. hist w2 = hist w @ [Getsockname sockfd r]"
    by (auto simp: w2_def sys_getsockname_def Let_def fun_eq_iff)
  have inv2: "poller_inv L w2" using fd(1) poller_inv_cong [of w2 w L] same2 by simp
  have pre: "chans w2 ?p = None" "po_channels (pollers w2 L) sockfd = None"
      "lp_wakeupFd (loops w2 L) \<noteq> sockfd"
    using fresh(1) fd(2,3) same2 by simp_all
  from TcpConnection_ctor_fresh [OF inv2 pre, of ?c ?name la peer] obtain w3 cn ch where w3:
    "TcpConnection_ctor ?c ?p L ?name sockfd la peer w2 = Inr w3" "conn_fresh w3 ?c cn ch"
    "cn_state cn = kConnecting" "cn_loop cn = L" "cn_socket cn = sockfd" "cn_channel cn = ?p"
    "hist w3 = hist w2 @ [Setsockopt sockfd SO_KEEPALIVE True]" "pollers w3 = pollers w2"
    "isInLoopThread L w3 = isInLoopThread L w2" "cn_name cn = ?name"
    "conns w3 = (conns w2)(?c \<mapsto> cn)" "conn_world.more w3 = conn_world.more w2" "conn_added ?c cn ch w2 w3" by blast
  have servers3: "servers w3 = servers w2" "acceptors w3 = acceptors w2" using server_frameD [OF w3(12)] by simp_all
  let ?g = "\<lambda>cn. cn\<lparr>cn_connectionCallback := sv_connectionCallback sv,
     cn_messageCallback := sv_messageCallback sv,
     cn_writeCompleteCallback := sv_writeCompleteCallback sv\<rparr>"
  let ?w4 = "upd_server s (\<lambda>sv. sv\<lparr>sv_connections := (sv_connections sv)(?name \<mapsto> ?c)\<rparr>) w3"
  let ?w6 = "TcpConnection_setCloseCallback ?c (Bind_TcpServer_removeConnection s) (upd_conn ?c ?g ?w4)"
  let ?cn = "(?g cn)\<lparr>cn_closeCallback := Some (Bind_TcpServer_removeConnection s)\<rparr>"
  let ?sv = "sv\<lparr>sv_pool := pl, sv_nextConnId := nextId,
     sv_connections := (sv_connections sv)(?name \<mapsto> ?c)\<rparr>"
  have eq: "TcpServer_newConnection os al env s sockfd peer w =
      EventLoop_runInLoop os L (Bind_TcpConnection_connectEstablished ?c)
        (TcpConnection_connectEstablished os env ?c) ?w6"
    using sv(1) pool n(1) step w3(1)
    by (simp add: TcpServer_newConnection_def la_def same2(1,2) Let_def)
  have c6: "conns ?w6 = (conns w)(?c \<mapsto> ?cn)"
    using w3(11) same2(1) by (simp add: TcpConnection_setCloseCallback_def)
  have rest6: "chans ?w6 = chans w3" "pollers ?w6 = pollers w3" "hist ?w6 = hist w3"
      "loops ?w6 = loops w3" "current_tid ?w6 = current_tid w3"
    by (simp_all add: TcpConnection_setCloseCallback_def)
  have fresh6: "conn_fresh ?w6 ?c ?cn ch"
    using w3(2) by (rule conn_fresh_frame) (simp_all add: c6 rest6)
  have servers6: "servers ?w6 s = Some ?sv"
    using sv(1) servers3 same2(5)
    by (simp add: TcpConnection_setCloseCallback_def upd_conn_def upd_server_def)
  have name: "conn_name ?sv = conn_name sv" by (simp add: conn_name_def fun_eq_iff)
  have "server_inv ?w6 s ?sv"
  proof -
    have "\<exists>nr cn. 0 < nr \<and> nr < sint nextId \<and> nm = conn_name sv nr \<and> conns ?w6 d = Some cn \<and>
        cn_name cn = nm \<and> cn_closeCallback cn = Some (Bind_TcpServer_removeConnection s)"
      if d: "((sv_connections sv)(?name \<mapsto> ?c)) nm = Some d" for nm d
    proof (cases "nm = ?name")
      case True
      with d c6 n(2) sv(3) w3(10) show ?thesis
        by (intro exI [of _ "sint (sv_nextConnId sv)"] exI [of _ ?cn]) simp
    next
      case False
      with d have "sv_connections sv nm = Some d" by simp
      from sv(5) [OF this] obtain nr cn' where old: "0 < nr" "nr < sint (sv_nextConnId sv)"
          "nm = conn_name sv nr" "conns w d = Some cn'" "cn_name cn' = nm"
          "cn_closeCallback cn' = Some (Bind_TcpServer_removeConnection s)" by blast
      moreover have "d \<noteq> ?c" using old(4) fresh(2) by auto
      ultimately show ?thesis
        using c6 n(2) by (intro exI [of _ nr] exI [of _ cn']) simp
    qed
    with servers6 pool(2) sv(3,4) n(2) show ?thesis by (simp add: server_inv_def name)
  qed
  moreover have "isInLoopThread L ?w6 = isInLoopThread L w"
    using w3(9) rest6 same2(4,7) by (simp add: isInLoopThread_def)
  moreover have "fin_state (hist ?w6) sockfd = fin_state (hist w) sockfd"
    using rest6(3) w3(7) same2(8) by (cases "fin_state (hist w) sockfd") simp
  moreover have "po_epollfd (pollers ?w6 L) = po_epollfd (pollers w L)"
    using rest6(2) w3(8) same2(3) by simp
  moreover have "conn_added ?c ?cn ch w ?w6" "acceptors ?w6 = acceptors w"
    using w3(13) servers3(2) same2
    by (simp_all add: conn_added_def TcpConnection_setCloseCallback_def upd_conn_def upd_server_def)
  moreover have "\<exists>r. hist ?w6 = hist w @ [Getsockname sockfd r, Setsockopt sockfd SO_KEEPALIVE True]"
    using rest6(3) w3(7) same2(11) by auto
  moreover have "same_settings sv ?sv" by (simp add: same_settings_def)
  ultimately show ?thesis
    using eq fresh6 w3(3-6,10) n(2) next_name_fresh [OF inv] name
    by (intro exI [of _ ?w6] exI [of _ ?sv] exI [of _ ?cn] exI [of _ ch]) simp
qed

subsection \<open>removeConnection\<close>

lemma removeConnectionInLoop_ok:
  assumes inv: "server_inv w s sv" and c: "conns w c = Some cn" "sv_connections sv (cn_name cn) = Some c"
  shows "\<exists>w' sv'. TcpServer_removeConnectionInLoop os s c w = Inr w' \<and> server_inv w' s sv' \<and>
    sv_connections sv' = (sv_connections sv)(cn_name cn := None) \<and>
    lp_pendingFunctors (loops w' (cn_loop cn))
      = lp_pendingFunctors (loops w (cn_loop cn)) @ [Bind_TcpConnection_connectDestroyed c] \<and>
    conns w' = conns w"
proof -
  let ?g = "\<lambda>sv. sv\<lparr>sv_connections := (sv_connections sv)(cn_name cn := None)\<rparr>"
  let ?w = "upd_server s ?g w" and ?cb = "Bind_TcpConnection_connectDestroyed c"
  let ?w' = "EventLoop_queueInLoop os (cn_loop cn) ?cb ?w"
  have "loop_world.more ?w' = loop_world.more ?w" by simp
  then have more: "servers ?w' = servers ?w" "conns ?w' = conns ?w"
    by (cases ?w'; cases ?w; simp)+
  have "TcpServer_removeConnectionInLoop os s c w = Inr ?w'"
    using server_invD(1) [OF inv] c by (simp add: TcpServer_removeConnectionInLoop_def)
  moreover have name: "conn_name (?g sv) = conn_name sv" by (simp add: conn_name_def fun_eq_iff)
  have "server_inv ?w' s (?g sv)"
    using inv more unfolding server_inv_def name by auto
  moreover have "conns ?w' = conns w" using more by simp
  ultimately show ?thesis
    by (intro exI [of _ ?w'] exI [of _ "?g sv"]) simp
qed

end
