(* ===== verification/TcpClient.thy ===== *)
theory TcpClient
  imports TcpServer
begin

section \<open>TcpClient: one connection at a time\<close>

text \<open>
  \<open>src/src/TcpClient.h\<close> and \<open>src/src/TcpClient.cc\<close>.  A client owns a connector and at most one
  connection; \<open>mutex_\<close> protects the pointer to it, and its critical sections are single steps here.
  \<open>TcpClient::connection()\<close> is declared but has no body.
\<close>

record client =
  cl_loop :: loop_ptr
  cl_connector :: connector_ptr
  cl_name :: string
  cl_connectionCallback :: "connection_callback option"
  cl_messageCallback :: "message_callback option"
  cl_writeCompleteCallback :: "user_fn option"
  cl_retry :: bool
  cl_connect :: bool
  cl_nextConnId :: int32
  cl_connection :: "conn_ptr option"

record client_world = server_world +
  clients :: "client_ptr \<rightharpoonup> client"

definition upd_client ::
  "client_ptr \<Rightarrow> (client \<Rightarrow> client) \<Rightarrow> 'w client_world_scheme \<Rightarrow> 'w client_world_scheme" where
  "upd_client i g w = w\<lparr>clients := (clients w)(i := map_option g (clients w i))\<rparr>"

definition detail_removeConnection ::
  "os \<Rightarrow> loop_ptr \<Rightarrow> conn_ptr \<Rightarrow> 'w client_world_scheme \<Rightarrow> 'w client_world_scheme" where
  "detail_removeConnection os L c w =
     EventLoop_queueInLoop os L (Bind_TcpConnection_connectDestroyed c) w"

definition TcpClient_ctor ::
  "client_ptr \<Rightarrow> connector_ptr \<Rightarrow> loop_ptr \<Rightarrow> sockaddr \<Rightarrow> string
     \<Rightarrow> 'w client_world_scheme \<Rightarrow> 'w client_world_scheme" where
  "TcpClient_ctor i k loop serverAddr nameArg w =
     Connector_setNewConnectionCallback k i
       ((Connector_ctor k loop serverAddr w)\<lparr>clients := (clients w)(i \<mapsto>
          \<lparr>cl_loop = loop, cl_connector = k, cl_name = nameArg,
           cl_connectionCallback = Some Default_connection, cl_messageCallback = Some Default_message,
           cl_writeCompleteCallback = None, cl_retry = False, cl_connect = True, cl_nextConnId = 1,
           cl_connection = None\<rparr>)\<rparr>)"

text \<open>
  The destructor; \<open>unique\<close> is \<open>connection_.unique()\<close>, whether the client holds the only reference.
\<close>

definition TcpClient_dtor ::
  "os \<Rightarrow> bool \<Rightarrow> client_ptr \<Rightarrow> 'w client_world_scheme \<Rightarrow> 'w client_world_scheme result" where
  "TcpClient_dtor os unique i w =
     bindE (deref (clients w) i) (\<lambda>cl.
     bindE (case cl_connection cl of
              Some c \<Rightarrow>
                (let cb = Bind_detail_removeConnection (cl_loop cl) in
                 bindE (EventLoop_runInLoop os (cl_loop cl) (Bind_TcpConnection_setCloseCallback c cb)
                          (\<lambda>w. Inr (TcpConnection_setCloseCallback c cb w)) w) (\<lambda>w1.
                 if unique then TcpConnection_forceClose os c w1 else Inr w1))
            | None \<Rightarrow> Connector_stop os (cl_connector cl) w) (\<lambda>w1.
     Inr (w1\<lparr>clients := (clients w1)(i := None)\<rparr>)))"

definition TcpClient_connect ::
  "os \<Rightarrow> alloc \<Rightarrow> client_ptr \<Rightarrow> 'w client_world_scheme \<Rightarrow> 'w client_world_scheme result" where
  "TcpClient_connect os al i w =
     bindE (deref (clients w) i) (\<lambda>cl.
     Connector_start os al (cl_connector cl) (upd_client i (\<lambda>cl. cl\<lparr>cl_connect := True\<rparr>) w))"

definition TcpClient_disconnect ::
  "os \<Rightarrow> client_ptr \<Rightarrow> 'w client_world_scheme \<Rightarrow> 'w client_world_scheme result" where
  "TcpClient_disconnect os i w =
     bindE (deref (clients w) i) (\<lambda>cl.
     let w1 = upd_client i (\<lambda>cl. cl\<lparr>cl_connect := False\<rparr>) w in
     case cl_connection cl of Some c \<Rightarrow> TcpConnection_shutdown os c w1 | None \<Rightarrow> Inr w1)"

definition TcpClient_stop ::
  "os \<Rightarrow> client_ptr \<Rightarrow> 'w client_world_scheme \<Rightarrow> 'w client_world_scheme result" where
  "TcpClient_stop os i w =
     bindE (deref (clients w) i) (\<lambda>cl.
     Connector_stop os (cl_connector cl) (upd_client i (\<lambda>cl. cl\<lparr>cl_connect := False\<rparr>) w))"

definition TcpClient_enableRetry :: "client_ptr \<Rightarrow> 'w client_world_scheme \<Rightarrow> 'w client_world_scheme" where
  "TcpClient_enableRetry i = upd_client i (\<lambda>cl. cl\<lparr>cl_retry := True\<rparr>)"

definition TcpClient_setConnectionCallback ::
  "client_ptr \<Rightarrow> connection_callback \<Rightarrow> 'w client_world_scheme \<Rightarrow> 'w client_world_scheme" where
  "TcpClient_setConnectionCallback i cb = upd_client i (\<lambda>cl. cl\<lparr>cl_connectionCallback := Some cb\<rparr>)"

definition TcpClient_setMessageCallback ::
  "client_ptr \<Rightarrow> message_callback \<Rightarrow> 'w client_world_scheme \<Rightarrow> 'w client_world_scheme" where
  "TcpClient_setMessageCallback i cb = upd_client i (\<lambda>cl. cl\<lparr>cl_messageCallback := Some cb\<rparr>)"

definition TcpClient_setWriteCompleteCallback ::
  "client_ptr \<Rightarrow> user_fn \<Rightarrow> 'w client_world_scheme \<Rightarrow> 'w client_world_scheme" where
  "TcpClient_setWriteCompleteCallback i cb = upd_client i (\<lambda>cl. cl\<lparr>cl_writeCompleteCallback := Some cb\<rparr>)"

text \<open>\<open>":%s#%d"\<close> into a buffer of 32 bytes, after the name of the client.\<close>

definition client_conn_name :: "client \<Rightarrow> sockaddr \<Rightarrow> int \<Rightarrow> string" where
  "client_conn_name cl peer nr =
     cl_name cl @ snprintf_buf 32 (CHR '':'' # toIpPort peer @ CHR ''#'' # dec_int nr)"

text \<open>
  \<open>newConnection\<close>: when \<open>getpeername\<close> or \<open>getsockname\<close> fails, the address it should have filled in
  is read uninitialized.
\<close>

definition filled_addr :: "errno + sockaddr \<Rightarrow> sockaddr result" where
  "filled_addr r = (case r of Inl _ \<Rightarrow> Inl Undefined_Behaviour | Inr a \<Rightarrow> Inr a)"

definition TcpClient_newConnection ::
  "os \<Rightarrow> alloc \<Rightarrow> ('w client_world_scheme) conn_env \<Rightarrow> client_ptr \<Rightarrow> fd
     \<Rightarrow> 'w client_world_scheme \<Rightarrow> 'w client_world_scheme result" where
  "TcpClient_newConnection os al env i sockfd w =
     bindE (deref (clients w) i) (\<lambda>cl.
     case sys_getpeername os sockfd w of (peer, w1) \<Rightarrow>
     bindE (filled_addr peer) (\<lambda>peerAddr.
     let connName = client_conn_name cl peerAddr (sint (cl_nextConnId cl)) in
     bindE (s_int (sint (cl_nextConnId cl) + 1)) (\<lambda>nextId.
     case sys_getsockname os sockfd w1 of (local, w2) \<Rightarrow>
     bindE (filled_addr local) (\<lambda>localAddr.
     let c = al_conn al (conns w2) in
     bindE (TcpConnection_ctor c (al_channel al (chans w2)) (cl_loop cl) connName sockfd localAddr
              peerAddr w2) (\<lambda>w3.
     let w4 = upd_conn c (\<lambda>cn. cn\<lparr>cn_connectionCallback := cl_connectionCallback cl,
                                  cn_messageCallback := cl_messageCallback cl,
                                  cn_writeCompleteCallback := cl_writeCompleteCallback cl\<rparr>) w3;
         w5 = TcpConnection_setCloseCallback c (Bind_TcpClient_removeConnection i) w4;
         w6 = upd_client i (\<lambda>cl. cl\<lparr>cl_nextConnId := nextId, cl_connection := Some c\<rparr>) w5
     in TcpConnection_connectEstablished os env c w6)))))"

definition TcpClient_removeConnection ::
  "os \<Rightarrow> alloc \<Rightarrow> client_ptr \<Rightarrow> conn_ptr \<Rightarrow> 'w client_world_scheme \<Rightarrow> 'w client_world_scheme result" where
  "TcpClient_removeConnection os al i c w =
     bindE (deref (clients w) i) (\<lambda>cl.
     let w1 = EventLoop_queueInLoop os (cl_loop cl) (Bind_TcpConnection_connectDestroyed c)
                (upd_client i (\<lambda>cl. cl\<lparr>cl_connection := None\<rparr>) w)
     in if cl_retry cl \<and> cl_connect cl then Connector_restart os al (cl_connector cl) w1 else Inr w1)"

subsection \<open>Names\<close>

text \<open>
  A name has room for eight digits when the address of the peer is as long as it can be; a longer
  number is cut off, and then different connections get the same name.
\<close>

lemma client_conn_name_full:
  assumes "0 \<le> nr" "nr < 10 ^ 8"
  shows "client_conn_name cl peer nr = cl_name cl @ CHR '':'' # toIpPort peer @ CHR ''#'' # dec_int nr"
proof -
  have "nat nr < 10 ^ 8" using assms by simp
  then have "length (dec_int nr) \<le> 8"
    using assms(1) dec_length [of 8 "nat nr"] by (simp add: dec_int_def)
  then have "length (CHR '':'' # toIpPort peer @ CHR ''#'' # dec_int nr) < 32"
    using toIpPort_length [of peer] by simp
  then show ?thesis by (simp add: client_conn_name_def snprintf_buf_fits)
qed

end
