(* ===== verification/System.thy ===== *)
theory System
  imports TcpClient
begin

section \<open>System: what the callbacks do, and the chains of calls between the components\<close>

text \<open>
  The tie between a callback as a value and the member function it binds: \<open>invoke\<close>.  With it, the
  world of all components, the close callbacks of servers and clients, and the test of \<open>weak_ptr\<close>,
  the loop of a thread is \<open>EventLoop_loop\<close> applied to them.  \<open>app\<close> is the application.
\<close>

definition close_of ::
  "os \<Rightarrow> alloc \<Rightarrow> close_callback \<Rightarrow> conn_ptr \<Rightarrow> 'w client_world_scheme \<Rightarrow> 'w client_world_scheme result" where
  "close_of os al cb c w =
     (case cb of
        Bind_TcpServer_removeConnection s \<Rightarrow> TcpServer_removeConnection os s c w
      | Bind_TcpClient_removeConnection i \<Rightarrow> TcpClient_removeConnection os al i c w
      | Bind_detail_removeConnection L \<Rightarrow> Inr (detail_removeConnection os L c w))"

definition env_of ::
  "os \<Rightarrow> alloc \<Rightarrow> ('w client_world_scheme) app \<Rightarrow> ('w client_world_scheme) conn_env" where
  "env_of os al ap =
     \<lparr>app_functor = app_functor ap, app_threadInit = app_threadInit ap,
      app_connection = app_connection ap, app_message = app_message ap,
      app_writeComplete = app_writeComplete ap, app_highWaterMark = app_highWaterMark ap,
      env_close = close_of os al\<rparr>"

text \<open>
  \<open>timerRead\<close> is what the read callback of a timer queue does; the callbacks of timers are functions
  of the application or \<open>Connector::startInLoop\<close>, never that callback itself.
\<close>

definition invoke_with ::
  "(loop_ptr \<Rightarrow> 'w client_world_scheme \<Rightarrow> 'w client_world_scheme result) \<Rightarrow> os \<Rightarrow> alloc
     \<Rightarrow> ('w client_world_scheme) app \<Rightarrow> closure \<Rightarrow> timestamp
     \<Rightarrow> 'w client_world_scheme \<Rightarrow> 'w client_world_scheme result" where
  "invoke_with timerRead os al ap cb t w =
     (let env = env_of os al ap in
      case cb of
        Bind_user u \<Rightarrow> app_functor ap u w
      | Bind_EventLoop_handleRead L \<Rightarrow> Inr (EventLoop_handleRead os L w)
      | Bind_TimerQueue_handleRead L \<Rightarrow> timerRead L w
      | Bind_TimerQueue_addTimerInLoop L p \<Rightarrow> TimerQueue_addTimerInLoop os L p w
      | Bind_Acceptor_handleRead s \<Rightarrow> Acceptor_handleRead os (TcpServer_newConnection os al env) s w
      | Bind_Acceptor_listen s \<Rightarrow> Acceptor_listen os s w
      | Bind_TcpConnection_handleRead c \<Rightarrow> TcpConnection_handleRead os env c t w
      | Bind_TcpConnection_handleWrite c \<Rightarrow> TcpConnection_handleWrite os c w
      | Bind_TcpConnection_handleClose c \<Rightarrow> TcpConnection_handleClose os env c w
      | Bind_TcpConnection_handleError c \<Rightarrow> TcpConnection_handleError os c w
      | Bind_TcpConnection_sendInLoop c p len \<Rightarrow> TcpConnection_sendInLoop os c p len w
      | Bind_TcpConnection_shutdownInLoop c \<Rightarrow> TcpConnection_shutdownInLoop os c w
      | Bind_TcpConnection_forceCloseInLoop c \<Rightarrow> TcpConnection_forceCloseInLoop os env c w
      | Bind_TcpConnection_connectEstablished c \<Rightarrow> TcpConnection_connectEstablished os env c w
      | Bind_TcpConnection_connectDestroyed c \<Rightarrow> TcpConnection_connectDestroyed os env c w
      | Bind_TcpConnection_setCloseCallback c cb \<Rightarrow> Inr (TcpConnection_setCloseCallback c cb w)
      | Bind_writeComplete u c \<Rightarrow> app_writeComplete ap u c w
      | Bind_highWaterMark u c n \<Rightarrow> app_highWaterMark ap u c n w
      | Bind_TcpServer_removeConnectionInLoop s c \<Rightarrow> TcpServer_removeConnectionInLoop os s c w
      | Bind_Connector_startInLoop k \<Rightarrow> Connector_startInLoop os al k w
      | Bind_Connector_stopInLoop k \<Rightarrow> Connector_stopInLoop os al k w
      | Bind_Connector_resetChannel k \<Rightarrow> Connector_resetChannel k w
      | Bind_Connector_handleWriter k \<Rightarrow>
          Connector_handleWriter os al (TcpClient_newConnection os al env) k w
      | Bind_Connector_handleError k \<Rightarrow> Connector_handleError os al k w)"

definition timer_read ::
  "os \<Rightarrow> alloc \<Rightarrow> ('w client_world_scheme) app \<Rightarrow> loop_ptr
     \<Rightarrow> 'w client_world_scheme \<Rightarrow> 'w client_world_scheme result" where
  "timer_read os al ap =
     TimerQueue_handleRead os
       (\<lambda>cb. invoke_with (\<lambda>_ _. Inl Undefined_Behaviour) os al ap cb Timestamp_zero)"

definition invoke ::
  "os \<Rightarrow> alloc \<Rightarrow> ('w client_world_scheme) app \<Rightarrow> closure \<Rightarrow> timestamp
     \<Rightarrow> 'w client_world_scheme \<Rightarrow> 'w client_world_scheme result" where
  "invoke os al ap = invoke_with (timer_read os al ap) os al ap"

text \<open>A tied object can be locked while it exists.\<close>

definition conn_alive :: "conn_ptr \<Rightarrow> 'w conn_world_scheme \<Rightarrow> bool" where
  "conn_alive c w \<longleftrightarrow> conns w c \<noteq> None"

text \<open>One turn of a loop, and the loop, with everything filled in.\<close>

definition run_iteration ::
  "os \<Rightarrow> alloc \<Rightarrow> ('w client_world_scheme) app \<Rightarrow> loop_ptr
     \<Rightarrow> 'w client_world_scheme \<Rightarrow> 'w client_world_scheme result" where
  "run_iteration os al ap = EventLoop_iteration os (invoke os al ap) conn_alive"

definition run_loop ::
  "os \<Rightarrow> alloc \<Rightarrow> ('w client_world_scheme) app \<Rightarrow> loop_ptr
     \<Rightarrow> 'w client_world_scheme \<Rightarrow> 'w client_world_scheme result option" where
  "run_loop os al ap = EventLoop_loop os (invoke os al ap) conn_alive"

subsection \<open>From accept to an established connection\<close>

lemma unregistered_unwatched:
  assumes "poller_inv L w" "po_channels (pollers w L) f = None"
  shows "interest (hist w) (po_epollfd (pollers w L)) f = None"
  using poller_invD(3) [OF assms(1), of f] assms(2)
  by (cases "interest (hist w) (po_epollfd (pollers w L)) f") auto

lemma server_inv_conn_update:
  assumes inv: "server_inv w s sv" and c: "conns w c = Some cn" and w': "conns w' = (conns w)(c \<mapsto> cn')"
    "servers w' = servers w" and keep: "cn_name cn' = cn_name cn" "cn_closeCallback cn' = cn_closeCallback cn"
  shows "server_inv w' s sv"
proof -
  have "\<exists>nr x. 0 < nr \<and> nr < sint (sv_nextConnId sv) \<and> name = conn_name sv nr \<and> conns w' d = Some x \<and>
      cn_name x = name \<and> cn_closeCallback x = Some (Bind_TcpServer_removeConnection s)"
    if d: "sv_connections sv name = Some d" for name d
  proof -
    from server_invD(5) [OF inv d] obtain nr x where x: "0 < nr" "nr < sint (sv_nextConnId sv)"
        "name = conn_name sv nr" "conns w d = Some x" "cn_name x = name"
        "cn_closeCallback x = Some (Bind_TcpServer_removeConnection s)" by blast
    show ?thesis
    proof (cases "d = c")
      case True
      with x c w'(1) keep show ?thesis by (intro exI [of _ nr] exI [of _ cn']) simp
    next
      case False
      with x w'(1) show ?thesis by (intro exI [of _ nr] exI [of _ x]) simp
    qed
  qed
  with server_invD(1-4) [OF inv] w'(2) show ?thesis by (simp add: server_inv_def)
qed

lemma accept_chain_ok:
  assumes os: "epoll_ok os" "epoll_adds os (po_epollfd (pollers w L)) sockfd"
    and a: "acceptors w s = Some a" "ac_newConnectionCallback a = Some s"
    and acc: "os_accept os (hist w) (ac_socket a) = Inr (sockfd, peer)"
    and inv: "server_inv w s sv" and pool: "EventLoopThreadPool_getNextLoop (sv_pool sv) = Inr (L, pl)" "pool_inv pl"
    and ids: "sint (sv_nextConnId sv) < 2 ^ 31 - 1"
    and fresh: "chans w (al_channel al (chans w)) = None" "conns w (al_conn al (conns w)) = None"
    and fd: "poller_inv L w" "po_channels (pollers w L) sockfd = None" "lp_wakeupFd (loops w L) \<noteq> sockfd"
    and here: "isInLoopThread L w" and fin: "fin_state (hist w) sockfd = (False, False)"
  shows "\<exists>w1 cn ch sv1. Acceptor_handleRead os (TcpServer_newConnection os al env) s w
        = call_connection env (al_conn al (conns w)) w1 \<and>
    stream_inv w1 (al_conn al (conns w)) cn ch \<and> cn_state cn = kConnected \<and> cn_socket cn = sockfd \<and>
    cn_connectionCallback cn = sv_connectionCallback sv \<and>
    interest (hist w1) (po_epollfd (pollers w1 L)) sockfd = Some (kReadEvent, cn_channel cn) \<and>
    server_inv w1 s sv1 \<and> sv_connections sv1 = (sv_connections sv)(cn_name cn \<mapsto> al_conn al (conns w)) \<and>
    sv_connections sv (cn_name cn) = None"
proof -
  let ?c = "al_conn al (conns w)"
  let ?w = "w\<lparr>hist := hist w @ [Accept (ac_socket a) (Inr (sockfd, peer))]\<rparr>"
  have inv': "server_inv ?w s sv" using inv by (simp add: server_inv_def)
  have pinv: "poller_inv L ?w" using fd(1) poller_inv_cong [of ?w w L] by simp
  have start: "Acceptor_handleRead os (TcpServer_newConnection os al env) s w
      = TcpServer_newConnection os al env s sockfd peer ?w"
    using Acceptor_handleRead_cases [OF a(1), of os "TcpServer_newConnection os al env"] a(2) acc
    by (simp add: Let_def)
  have fresh': "chans ?w (al_channel al (chans ?w)) = None" "conns ?w (al_conn al (conns ?w)) = None"
    using fresh by simp_all
  have fd': "po_channels (pollers ?w L) sockfd = None" "lp_wakeupFd (loops ?w L) \<noteq> sockfd"
    using fd by simp_all
  from newConnection_ok [OF inv' pool ids fresh' pinv fd', of os env peer] obtain w1 sv1 cn ch where
    n: "TcpServer_newConnection os al env s sockfd peer ?w =
        EventLoop_runInLoop os L (Bind_TcpConnection_connectEstablished ?c)
          (TcpConnection_connectEstablished os env ?c) w1"
      "conn_fresh w1 ?c cn ch" "cn_state cn = kConnecting" "cn_loop cn = L" "cn_socket cn = sockfd"
      "cn_connectionCallback cn = sv_connectionCallback sv"
      "server_inv w1 s sv1"
      "sv_connections sv1 = (sv_connections sv)(cn_name cn \<mapsto> ?c)"
      "sv_connections sv (cn_name cn) = None" "isInLoopThread L w1 = isInLoopThread L ?w"
      "fin_state (hist w1) sockfd = fin_state (hist ?w) sockfd"
      "po_epollfd (pollers w1 L) = po_epollfd (pollers w L)"
    by auto
  have here1: "isInLoopThread (cn_loop cn) w1" using n(4,10) here by (simp add: isInLoopThread_def)
  have fin1: "fin_state (hist w1) (cn_socket cn) = (False, False)"
    using n(5,11) fin by simp
  have "interest (hist w1) (po_epollfd (pollers w1 L)) sockfd = None"
    using n(2,4,5) by (intro unregistered_unwatched) (simp_all add: conn_fresh_def)
  then have add: "os_epoll_ctl os (hist w1) (po_epollfd (pollers w1 (cn_loop cn))) EPOLL_CTL_ADD
      (cn_socket cn) kReadEvent (cn_channel cn) = Inr ()"
    using os(2) n(4,5,12) by (simp add: epoll_adds_def)
  from connectEstablished_ok [OF os(1) n(2) here1 fin1 add, of env] obtain w2 ch2 where
    e: "TcpConnection_connectEstablished os env ?c w1 = call_connection env ?c w2"
      "stream_inv w2 ?c (cn\<lparr>cn_state := kConnected\<rparr>) ch2"
      "interest (hist w2) (po_epollfd (pollers w1 (cn_loop cn))) (cn_socket cn)
        = Some (kReadEvent, cn_channel cn)"
      "conns w2 = (conns w1)(?c \<mapsto> cn\<lparr>cn_state := kConnected\<rparr>)"
      "conn_world.more w2 = conn_world.more w1"
      "po_epollfd (pollers w2 (cn_loop cn)) = po_epollfd (pollers w1 (cn_loop cn))" by blast
  have "conns w1 ?c = Some cn" using n(2) by (simp add: conn_fresh_def)
  from server_inv_conn_update [OF n(7) this e(4) server_frameD(1) [OF e(5)]]
  have "server_inv w2 s sv1" by simp
  moreover have "Acceptor_handleRead os (TcpServer_newConnection os al env) s w
      = call_connection env ?c w2"
    using start n(1,4) here1 e(1) by (simp add: EventLoop_runInLoop_def)
  ultimately show ?thesis
    using e(2,3,6) n(4-6,8,9)
    by (intro exI [of _ w2] exI [of _ "cn\<lparr>cn_state := kConnected\<rparr>"] exI [of _ ch2]
        exI [of _ sv1]) simp
qed

subsection \<open>From close to destruction\<close>

lemma close_chain_ok:
  assumes os: "epoll_ok os" and rel: "conn_rel w c cn ch" and opn: "conn_open cn"
    and inv: "server_inv w s sv" and reg: "sv_connections sv (cn_name cn) = Some c"
    and here: "isInLoopThread (sv_loop sv) w" and cb: "cn_connectionCallback cn = Some Default_connection"
  shows "\<exists>w1 sv1 w2 w3. TcpConnection_handleClose os (env_of os al ap) c w = Inr w1 \<and>
    server_inv w1 s sv1 \<and> sv_connections sv1 = (sv_connections sv)(cn_name cn := None) \<and>
    lp_pendingFunctors (loops w1 (cn_loop cn))
      = lp_pendingFunctors (loops w (cn_loop cn)) @ [Bind_TcpConnection_connectDestroyed c] \<and>
    invoke os al ap (Bind_TcpConnection_connectDestroyed c) t w1 = Inr w2 \<and>
    (\<forall>f. po_channels (pollers w2 (cn_loop cn)) f \<noteq> Some (cn_channel cn)) \<and>
    interest (hist w2) (po_epollfd (pollers w2 (cn_loop cn))) (cn_socket cn) = None \<and>
    TcpConnection_dtor os c w2 = Inr w3 \<and> poller_inv (cn_loop cn) w3 \<and>
    conns w3 c = None \<and> chans w3 (cn_channel cn) = None \<and>
    hist w3 = hist w2 @ [Close (cn_socket cn) (os_close os (hist w2) (cn_socket cn))]"
proof -
  let ?env = "env_of os al ap" and ?L = "cn_loop cn" and ?cn = "cn\<lparr>cn_state := kDisconnected\<rparr>"
  from handleClose_ok [OF os rel opn, of ?env] obtain w0 ch0 where w0:
    "TcpConnection_handleClose os ?env c w = bindE (call_connection ?env c w0) (call_close ?env c)"
    "conn_rel w0 c ?cn ch0" "ch_index ch0 = kDeleted" "conns w0 = (conns w)(c \<mapsto> ?cn)"
    "conn_world.more w0 = conn_world.more w" "loops w0 = loops w" "current_tid w0 = current_tid w"
    by blast
  have c: "conns w c = Some cn" using conn_relD(1) [OF rel] .
  from server_invD(5) [OF inv reg] c
  have close: "cn_closeCallback cn = Some (Bind_TcpServer_removeConnection s)" by auto
  have inv0: "server_inv w0 s sv"
    using server_inv_conn_update [OF inv c w0(4) server_frameD(1) [OF w0(5)]] by simp
  have c0: "conns w0 c = Some ?cn" using w0(4) by simp
  have "sv_connections sv (cn_name ?cn) = Some c" using reg by simp
  from removeConnectionInLoop_ok [OF inv0 c0 this, of os] obtain w1 sv1 where w1:
    "TcpServer_removeConnectionInLoop os s c w0 = Inr w1" "server_inv w1 s sv1"
    "sv_connections sv1 = (sv_connections sv)(cn_name ?cn := None)"
    "lp_pendingFunctors (loops w1 (cn_loop ?cn))
      = lp_pendingFunctors (loops w0 (cn_loop ?cn)) @ [Bind_TcpConnection_connectDestroyed c]" by blast
  have def1: "w1 = EventLoop_queueInLoop os ?L (Bind_TcpConnection_connectDestroyed c)
      (upd_server s (\<lambda>sv. sv\<lparr>sv_connections := (sv_connections sv)(cn_name cn := None)\<rparr>) w0)"
    using w1(1) server_invD(1) [OF inv0] c0 by (simp add: TcpServer_removeConnectionInLoop_def)
  have "conn_frame w0 (upd_server s g w0)" for g by (simp add: conn_frame_def upd_server_def)
  then have frame: "conn_frame w0 w1" unfolding def1 using conn_frame_trans conn_frame_queueInLoop by blast
  have "isInLoopThread (sv_loop sv) w0" using here w0(6,7) by (simp add: isInLoopThread_def)
  then have closed: "TcpConnection_handleClose os ?env c w = Inr w1"
    using w0(1) c0 cb close w1(1) server_invD(1) [OF inv0]
    by (simp add: call_connection_def call_close_def env_of_def close_of_def
        TcpServer_removeConnection_def EventLoop_runInLoop_def)
  have "ch_index ch0 \<noteq> kNew" using w0(3) by (simp add: kIndex_defs)
  from connectDestroyed_ok [OF os conn_rel_frame [OF w0(2) frame] _ this, of ?env] obtain w2 w3 where
    "TcpConnection_connectDestroyed os ?env c w1 = Inr w2"
    "\<forall>f. po_channels (pollers w2 ?L) f \<noteq> Some (cn_channel cn)"
    "interest (hist w2) (po_epollfd (pollers w2 ?L)) (cn_socket cn) = None"
    "TcpConnection_dtor os c w2 = Inr w3" "poller_inv ?L w3" "conns w3 = (conns w1)(c := None)"
    "chans w3 = (chans w2)(cn_channel cn := None)"
    "hist w3 = hist w2 @ [Close (cn_socket cn) (os_close os (hist w2) (cn_socket cn))]" by auto
  with closed w1(2-4) w0(6) show ?thesis
    by (intro exI [of _ w1] exI [of _ sv1] exI [of _ w2] exI [of _ w3]) (simp add: invoke_def invoke_with_def)
qed

end
