(* ===== verification/Wakeup.thy ===== *)
theory Wakeup
  imports EventLoop
begin

section \<open>Wakeup: the loop's thread and the threads that queue functors for it\<close>

text \<open>
  The concurrent behaviour of \<open>EventLoop::loop\<close>, \<open>queueInLoop\<close>, \<open>quit\<close>, \<open>wakeup\<close>, \<open>handleRead\<close> and
  \<open>doPendingFunctors\<close> (\<open>src/src/EventLoop.cc\<close>).  The steps are the accesses to what the threads
  share: \<open>quit_\<close>, \<open>callingPendingFunctors_\<close> (atomic), \<open>pendingFunctors_\<close> (under \<open>mutex_\<close>) and the
  counter of the event descriptor.  Every thread other than the loop's is between two of its
  statements (\<open>wk_prod\<close>); the loop's thread is at a point of its loop (\<open>wk_pc\<close>), or inside
  \<open>queueInLoop\<close> called by a callback there (\<open>In_push\<close>).

  Three ghost fields record the past: the functors queued so far, the functors run so far, and
  whether the loop's thread has queued something before \<open>loop()\<close> that still waits.
\<close>

datatype 'f loop_pc =
    Before_loop                 \<comment> \<open>the loop's thread has not called \<open>loop()\<close>\<close>
  | At_check                    \<comment> \<open>at \<open>while (!quit_)\<close>\<close>
  | At_poll                     \<comment> \<open>in \<open>epoll_wait\<close>\<close>
  | Dispatch bool               \<comment> \<open>handling active channels; is the wake-up channel still to come?\<close>
  | Before_swap                 \<comment> \<open>\<open>callingPendingFunctors_\<close> is set\<close>
  | Running "'f list"           \<comment> \<open>the swapped functors that have still to run\<close>
  | In_push "'f loop_pc"        \<comment> \<open>in \<open>queueInLoop\<close>, after the push\<close>
  | Stopped

datatype producer_pc =
    Idle
  | Must_wake                   \<comment> \<open>after the push, or after \<open>quit_ = true\<close>, before \<open>wakeup()\<close>\<close>

record 'f wk =
  wk_pending :: "'f list"
  wk_efd :: nat
  wk_calling :: bool
  wk_quit :: bool
  wk_pc :: "'f loop_pc"
  wk_prod :: "tid \<Rightarrow> producer_pc"
  wk_queued :: "'f list"
  wk_run :: "'f list"
  wk_early :: bool

subsection \<open>The operations on the shared state\<close>

definition wk_push :: "'f \<Rightarrow> 'f wk \<Rightarrow> 'f wk" where
  "wk_push f s = s\<lparr>wk_pending := wk_pending s @ [f], wk_queued := wk_queued s @ [f]\<rparr>"

definition wk_wakeup :: "'f wk \<Rightarrow> 'f wk" where
  "wk_wakeup s = s\<lparr>wk_efd := wk_efd s + 1\<rparr>"

definition wk_read :: "'f wk \<Rightarrow> 'f wk" where
  "wk_read s = s\<lparr>wk_efd := 0\<rparr>"

text \<open>The swap of \<open>doPendingFunctors\<close>, and the run of the first functor it took.\<close>

definition wk_swap :: "'f wk \<Rightarrow> 'f wk" where
  "wk_swap s = s\<lparr>wk_pc := Running (wk_pending s), wk_pending := [], wk_early := False\<rparr>"

definition wk_exec :: "'f \<Rightarrow> 'f list \<Rightarrow> 'f wk \<Rightarrow> 'f wk" where
  "wk_exec f fs s = s\<lparr>wk_pc := Running fs, wk_run := wk_run s @ [f]\<rparr>"

text \<open>Where callbacks, and so calls of \<open>queueInLoop\<close> and \<open>quit\<close> in the loop's thread, may happen.\<close>

fun in_callback :: "'f loop_pc \<Rightarrow> bool" where
  "in_callback Before_loop = True"
| "in_callback (Dispatch b) = True"
| "in_callback (Running fs) = True"
| "in_callback _ = False"

inductive wk_step :: "'f wk \<Rightarrow> 'f wk \<Rightarrow> bool" where
  other_push: "wk_prod s t = Idle \<Longrightarrow>
     wk_step s ((wk_push f s)\<lparr>wk_prod := (wk_prod s)(t := Must_wake)\<rparr>)"
| other_quit: "wk_prod s t = Idle \<Longrightarrow>
     wk_step s (s\<lparr>wk_quit := True, wk_prod := (wk_prod s)(t := Must_wake)\<rparr>)"
| other_wake: "wk_prod s t = Must_wake \<Longrightarrow>
     wk_step s ((wk_wakeup s)\<lparr>wk_prod := (wk_prod s)(t := Idle)\<rparr>)"
| own_push: "in_callback (wk_pc s) \<Longrightarrow>
     wk_step s ((wk_push f s)\<lparr>wk_pc := In_push (wk_pc s),
       wk_early := (wk_early s \<or> wk_pc s = Before_loop)\<rparr>)"
| own_wake: "wk_pc s = In_push pc \<Longrightarrow>
     wk_step s ((if wk_calling s then wk_wakeup s else s)\<lparr>wk_pc := pc\<rparr>)"
| own_quit: "in_callback (wk_pc s) \<Longrightarrow> wk_step s (s\<lparr>wk_quit := True\<rparr>)"
| enter: "wk_pc s = Before_loop \<Longrightarrow> wk_step s (s\<lparr>wk_quit := False, wk_pc := At_check\<rparr>)"
| check: "wk_pc s = At_check \<Longrightarrow>
     wk_step s (s\<lparr>wk_pc := (if wk_quit s then Stopped else At_poll)\<rparr>)"
| poll: "wk_pc s = At_poll \<Longrightarrow> active \<longrightarrow> 0 < wk_efd s \<Longrightarrow> wk_step s (s\<lparr>wk_pc := Dispatch active\<rparr>)"
| handle: "wk_pc s = Dispatch True \<Longrightarrow> wk_step s ((wk_read s)\<lparr>wk_pc := Dispatch False\<rparr>)"
| calling: "wk_pc s = Dispatch False \<Longrightarrow> wk_step s (s\<lparr>wk_calling := True, wk_pc := Before_swap\<rparr>)"
| swap: "wk_pc s = Before_swap \<Longrightarrow> wk_step s (wk_swap s)"
| exec: "wk_pc s = Running (f # fs) \<Longrightarrow> wk_step s (wk_exec f fs s)"
| finish: "wk_pc s = Running [] \<Longrightarrow> wk_step s (s\<lparr>wk_calling := False, wk_pc := At_check\<rparr>)"

text \<open>A new loop: nobody has called anything yet.\<close>

definition wk_start :: "'f wk \<Rightarrow> bool" where
  "wk_start s \<longleftrightarrow> wk_pending s = [] \<and> wk_efd s = 0 \<and> \<not> wk_calling s \<and> \<not> wk_quit s \<and>
     wk_pc s = Before_loop \<and> wk_prod s = (\<lambda>_. Idle) \<and> wk_queued s = [] \<and> wk_run s = [] \<and>
     \<not> wk_early s"

subsection \<open>The invariant\<close>

text \<open>A wake-up is on its way: the descriptor is readable, or some thread is about to write it.\<close>

definition wk_awake :: "'f wk \<Rightarrow> bool" where
  "wk_awake s \<longleftrightarrow> 0 < wk_efd s \<or> (\<exists>t. wk_prod s t = Must_wake)"

fun running :: "'f loop_pc \<Rightarrow> 'f list" where
  "running (Running fs) = fs"
| "running (In_push pc) = running pc"
| "running _ = []"

fun in_calling :: "'f loop_pc \<Rightarrow> bool" where
  "in_calling Before_swap = True"
| "in_calling (Running fs) = True"
| "in_calling (In_push pc) = in_calling pc"
| "in_calling _ = False"

text \<open>The points from which the loop reaches \<open>epoll_wait\<close> before it looks at the queue.\<close>

fun polls_next :: "'f loop_pc \<Rightarrow> bool" where
  "polls_next Before_loop = True"
| "polls_next At_check = True"
| "polls_next At_poll = True"
| "polls_next (Running fs) = True"
| "polls_next _ = False"

fun pc_ok :: "'f loop_pc \<Rightarrow> bool" where
  "pc_ok (In_push pc) = in_callback pc"
| "pc_ok _ = True"

definition wk_inv :: "'f wk \<Rightarrow> bool" where
  "wk_inv s \<longleftrightarrow>
     pc_ok (wk_pc s) \<and> wk_calling s = in_calling (wk_pc s) \<and>
     wk_queued s = wk_run s @ running (wk_pc s) @ wk_pending s \<and>
     (polls_next (wk_pc s) \<longrightarrow> wk_pending s \<noteq> [] \<longrightarrow> wk_early s \<or> wk_awake s) \<and>
     (wk_pc s = In_push Before_loop \<longrightarrow> wk_early s) \<and>
     (wk_pc s = At_poll \<longrightarrow> wk_quit s \<longrightarrow> wk_awake s)"

lemma awake_simps [simp]:
  "wk_awake (wk_wakeup s)" "wk_awake (wk_push f s) = wk_awake s"
  "wk_awake (s\<lparr>wk_pc := pc\<rparr>) = wk_awake s" "wk_awake (s\<lparr>wk_quit := b\<rparr>) = wk_awake s"
  "wk_awake (s\<lparr>wk_calling := b\<rparr>) = wk_awake s" "wk_awake (s\<lparr>wk_early := b\<rparr>) = wk_awake s"
  "wk_awake (s\<lparr>wk_prod := (wk_prod s)(t := Must_wake)\<rparr>)"
  "wk_awake (s\<lparr>wk_prod := p, wk_efd := Suc n\<rparr>)"
  by (auto simp: wk_awake_def wk_wakeup_def wk_push_def)

lemma in_callback_cases:
  assumes "in_callback pc"
  obtains "pc = Before_loop" | b where "pc = Dispatch b" | fs where "pc = Running fs"
  using assms by (cases pc) auto

lemma wk_start_inv: "wk_start s \<Longrightarrow> wk_inv s"
  by (simp add: wk_start_def wk_inv_def)

lemma wk_step_inv:
  assumes "wk_step s s'" "wk_inv s"
  shows "wk_inv s'"
  using assms
proof (cases rule: wk_step.cases)
  case (other_push t f)
  with assms(2) show ?thesis by (auto simp: wk_inv_def wk_push_def wk_awake_def)
next
  case (other_quit t)
  with assms(2) show ?thesis by (auto simp: wk_inv_def wk_awake_def)
next
  case (other_wake t)
  with assms(2) show ?thesis by (auto simp: wk_inv_def wk_wakeup_def wk_awake_def)
next
  case (own_push f)
  with assms(2) show ?thesis
    by (auto simp: wk_inv_def wk_push_def elim: in_callback_cases)
next
  case (own_wake pc)
  with assms(2) have "in_callback pc" by (simp add: wk_inv_def)
  then show ?thesis
    by (cases rule: in_callback_cases)
      (use own_wake assms(2) in \<open>auto simp: wk_inv_def wk_wakeup_def wk_awake_def\<close>)
next
  case own_quit
  with assms(2) show ?thesis by (auto simp: wk_inv_def)
next
  case enter
  with assms(2) show ?thesis by (auto simp: wk_inv_def)
next
  case check
  with assms(2) show ?thesis by (auto simp: wk_inv_def)
next
  case (poll active)
  with assms(2) show ?thesis by (auto simp: wk_inv_def)
next
  case handle
  with assms(2) show ?thesis by (auto simp: wk_inv_def wk_read_def)
next
  case calling
  with assms(2) show ?thesis by (auto simp: wk_inv_def)
next
  case swap
  with assms(2) show ?thesis by (auto simp: wk_inv_def wk_swap_def)
next
  case (exec f fs)
  with assms(2) show ?thesis by (auto simp: wk_inv_def wk_exec_def wk_awake_def)
next
  case finish
  with assms(2) show ?thesis by (auto simp: wk_inv_def)
qed

interpretation wk: transition_system wk_start wk_step wk_inv
  by unfold_locales (auto intro: wk_start_inv wk_step_inv)

subsection \<open>The loop by itself\<close>

text \<open>
  What the loop's thread does next when no callback interferes.  From \<open>epoll_wait\<close> on, it is back at
  the head of its loop after one step for each functor that was waiting and at most five more.
\<close>

definition loop_next :: "'f wk \<Rightarrow> 'f wk" where
  "loop_next s =
     (case wk_pc s of
        Before_loop \<Rightarrow> s\<lparr>wk_quit := False, wk_pc := At_check\<rparr>
      | At_check \<Rightarrow> s\<lparr>wk_pc := (if wk_quit s then Stopped else At_poll)\<rparr>
      | At_poll \<Rightarrow> s\<lparr>wk_pc := Dispatch (0 < wk_efd s)\<rparr>
      | Dispatch b \<Rightarrow> if b then (wk_read s)\<lparr>wk_pc := Dispatch False\<rparr>
                      else s\<lparr>wk_calling := True, wk_pc := Before_swap\<rparr>
      | Before_swap \<Rightarrow> wk_swap s
      | Running fs \<Rightarrow> (case fs of [] \<Rightarrow> s\<lparr>wk_calling := False, wk_pc := At_check\<rparr>
                                 | f # gs \<Rightarrow> wk_exec f gs s)
      | In_push pc \<Rightarrow> (if wk_calling s then wk_wakeup s else s)\<lparr>wk_pc := pc\<rparr>
      | Stopped \<Rightarrow> s)"

lemma loop_next_step:
  assumes "wk_pc s \<noteq> Stopped"
  shows "wk_step s (loop_next s)"
  using assms
proof (cases "wk_pc s")
  case At_check
  then show ?thesis using wk_step.check [of s] by (simp add: loop_next_def)
next
  case (In_push pc)
  then show ?thesis using wk_step.own_wake [of s pc] by (simp add: loop_next_def)
qed (auto simp: loop_next_def intro: wk_step.intros split: list.splits)

lemma loop_next_steps: "wk_step\<^sup>*\<^sup>* s ((loop_next ^^ n) s)"
proof (induction n)
  case (Suc n)
  show ?case
  proof (cases "wk_pc ((loop_next ^^ n) s) = Stopped")
    case True
    then have "(loop_next ^^ Suc n) s = (loop_next ^^ n) s" by (simp add: loop_next_def)
    with Suc show ?thesis by simp
  next
    case False
    from Suc loop_next_step [OF this] show ?thesis
      by (simp add: rtranclp.rtrancl_into_rtrancl)
  qed
qed simp

lemma loop_next_runs:
  "wk_pc s = Running fs \<Longrightarrow>
     (loop_next ^^ length fs) s = s\<lparr>wk_pc := Running [], wk_run := wk_run s @ fs\<rparr>"
proof (induction fs arbitrary: s)
  case Nil
  then show ?case by simp
next
  case (Cons f fs)
  have "loop_next s = wk_exec f fs s" using Cons.prems by (simp add: loop_next_def)
  moreover have "wk_pc (wk_exec f fs s) = Running fs" by (simp add: wk_exec_def)
  note Cons.IH [OF this]
  ultimately show ?case
    by (simp add: wk_exec_def funpow_Suc_right del: funpow.simps)
qed

lemma loop_next_from_dispatch:
  assumes "wk_pc s = Dispatch False"
  shows "(loop_next ^^ (length (wk_pending s) + 3)) s
    = s\<lparr>wk_calling := False, wk_pc := At_check, wk_pending := [], wk_early := False,
        wk_run := wk_run s @ wk_pending s\<rparr>"
proof -
  let ?s2 = "wk_swap (s\<lparr>wk_calling := True, wk_pc := Before_swap\<rparr>)"
  have "(loop_next ^^ 2) s = ?s2" using assms by (simp add: loop_next_def numeral_2_eq_2)
  moreover have "wk_pc ?s2 = Running (wk_pending s)" by (simp add: wk_swap_def)
  note loop_next_runs [OF this]
  moreover have "(loop_next ^^ (length (wk_pending s) + 3)) s
      = loop_next ((loop_next ^^ length (wk_pending s)) ((loop_next ^^ 2) s))"
    by (metis (no_types, lifting) add.commute add_2_eq_Suc' add_Suc_right comp_apply funpow.simps(2)
        funpow_add numeral_3_eq_3 numeral_2_eq_2)
  ultimately show ?thesis by (simp add: loop_next_def wk_swap_def)
qed

lemma loop_next_from_poll:
  assumes "wk_pc s = At_poll"
  shows "(loop_next ^^ (length (wk_pending s) + (if 0 < wk_efd s then 5 else 4))) s
    = s\<lparr>wk_calling := False, wk_pc := At_check, wk_pending := [], wk_early := False,
        wk_run := wk_run s @ wk_pending s, wk_efd := 0\<rparr>"
proof (cases "0 < wk_efd s")
  case True
  let ?s = "s\<lparr>wk_efd := 0, wk_pc := Dispatch False\<rparr>"
  have "(loop_next ^^ 2) s = ?s"
    using assms True by (simp add: loop_next_def wk_read_def numeral_2_eq_2)
  moreover have five: "length (wk_pending s) + 5 = (length (wk_pending s) + 3) + 2" by simp
  have "(loop_next ^^ (length (wk_pending s) + 5)) s
      = (loop_next ^^ (length (wk_pending s) + 3)) ((loop_next ^^ 2) s)"
    by (simp only: five funpow_add comp_apply)
  ultimately show ?thesis using True loop_next_from_dispatch [of ?s] by simp
next
  case False
  let ?s = "s\<lparr>wk_pc := Dispatch False\<rparr>"
  have "loop_next s = ?s" using assms False by (simp add: loop_next_def)
  moreover have four: "length (wk_pending s) + 4 = (length (wk_pending s) + 3) + 1" by simp
  have "(loop_next ^^ (length (wk_pending s) + 4)) s
      = (loop_next ^^ (length (wk_pending s) + 3)) (loop_next s)"
    by (simp only: four funpow_add comp_apply) simp
  ultimately show ?thesis using False loop_next_from_dispatch [of ?s] by simp
qed

subsection \<open>The sequential operations are runs of the protocol\<close>

text \<open>
  The counter of an event descriptor, as the history of the system calls shows it: eight bytes
  written add one, a read empties it.
\<close>

fun efd_step :: "fd \<Rightarrow> sysevent \<Rightarrow> nat \<Rightarrow> nat" where
  "efd_step f (Write f' bs (Inr n)) c = (if f' = f \<and> n = 8 then c + 1 else c)"
| "efd_step f (Read f' k (Inr bs)) c = (if f' = f then 0 else c)"
| "efd_step f _ c = c"

definition efd_count :: "sysevent list \<Rightarrow> fd \<Rightarrow> nat" where
  "efd_count h f = fold (efd_step f) h 0"

lemma efd_count_append [simp]: "efd_count (h @ h') f = fold (efd_step f) h' (efd_count h f)"
  by (simp add: efd_count_def)

text \<open>A state of the protocol shows what the shared fields of the loop hold.\<close>

definition wk_sim :: "loop_ptr \<Rightarrow> 'w loop_world_scheme \<Rightarrow> closure wk \<Rightarrow> bool" where
  "wk_sim L w s \<longleftrightarrow>
     wk_pending s = lp_pendingFunctors (loops w L) \<and> wk_quit s = lp_quit (loops w L) \<and>
     wk_calling s = lp_callingPendingFunctors (loops w L) \<and>
     wk_efd s = efd_count (hist w) (lp_wakeupFd (loops w L))"

text \<open>Writing eight bytes to an event descriptor that is not full, and reading one that is not empty.\<close>

definition eventfd_ok :: "os \<Rightarrow> fd \<Rightarrow> bool" where
  "eventfd_ok os f \<longleftrightarrow> (\<forall>h. os_write os h f one_bytes = Inr 8) \<and>
     (\<forall>h. 0 < efd_count h f \<longrightarrow> (\<exists>bs. os_read os h f 8 = Inr bs)) \<and>
     (\<forall>h. efd_count h f = 0 \<longrightarrow> os_read os h f 8 = Inl EAGAIN)"

lemma wakeup_sim:
  assumes "wk_sim L w s" "eventfd_ok os (lp_wakeupFd (loops w L))"
  shows "wk_sim L (EventLoop_wakeup os L w) (wk_wakeup s)"
  using assms
  by (simp add: wk_sim_def wk_wakeup_def EventLoop_wakeup_def sys_write_def Let_def eventfd_ok_def)

lemma push_sim:
  "wk_sim L w s \<Longrightarrow>
     wk_sim L (upd_loop L (\<lambda>l. l\<lparr>lp_pendingFunctors := lp_pendingFunctors l @ [cb]\<rparr>) w) (wk_push cb s)"
  by (simp add: wk_sim_def wk_push_def)

lemma wk_sim_upd [simp]:
  "wk_sim L w (s\<lparr>wk_pc := pc\<rparr>) = wk_sim L w s" "wk_sim L w (s\<lparr>wk_prod := p\<rparr>) = wk_sim L w s"
  "wk_sim L w (s\<lparr>wk_early := b\<rparr>) = wk_sim L w s" "wk_sim L w (s\<lparr>wk_run := fs\<rparr>) = wk_sim L w s"
  "wk_sim L w (wk_exec f fs s) = wk_sim L w s"
  by (simp_all add: wk_sim_def wk_exec_def)

lemma handleRead_sim:
  assumes "wk_sim L w s" "eventfd_ok os (lp_wakeupFd (loops w L))" "wk_pc s = Dispatch True"
  shows "\<exists>s'. wk_step s s' \<and> wk_sim L (EventLoop_handleRead os L w) s' \<and> wk_pc s' = Dispatch False"
proof (intro exI conjI)
  show "wk_step s ((wk_read s)\<lparr>wk_pc := Dispatch False\<rparr>)" using assms(3) by (rule wk_step.handle)
  let ?f = "lp_wakeupFd (loops w L)"
  consider (some) bs where "os_read os (hist w) ?f 8 = Inr bs"
    | (none) "os_read os (hist w) ?f 8 = Inl EAGAIN" "efd_count (hist w) ?f = 0"
    using assms(2) unfolding eventfd_ok_def by (metis gr0I)
  then show "wk_sim L (EventLoop_handleRead os L w) ((wk_read s)\<lparr>wk_pc := Dispatch False\<rparr>)"
    by cases (use assms(1) in \<open>simp_all add: wk_sim_def wk_read_def EventLoop_handleRead_def sys_read_def Let_def\<close>)
qed (simp add: wk_read_def)

text \<open>\<open>queueInLoop\<close> of another thread: a push and, always, a wake-up.\<close>

lemma queueInLoop_other:
  assumes sim: "wk_sim L w s" and efd: "eventfd_ok os (lp_wakeupFd (loops w L))"
    and other: "\<not> isInLoopThread L w" "wk_prod s t = Idle"
  shows "\<exists>s1 s2. wk_step s s1 \<and> wk_step s1 s2 \<and> wk_sim L (EventLoop_queueInLoop os L cb w) s2 \<and>
    wk_prod s2 = wk_prod s \<and> wk_pc s2 = wk_pc s \<and> wk_queued s2 = wk_queued s @ [cb]"
proof -
  let ?s1 = "(wk_push cb s)\<lparr>wk_prod := (wk_prod s)(t := Must_wake)\<rparr>"
  let ?s2 = "(wk_wakeup ?s1)\<lparr>wk_prod := (wk_prod ?s1)(t := Idle)\<rparr>"
  let ?w1 = "upd_loop L (\<lambda>l. l\<lparr>lp_pendingFunctors := lp_pendingFunctors l @ [cb]\<rparr>) w"
  have "wk_sim L ?w1 ?s1"
    using push_sim [OF sim, of cb] by simp
  then have "wk_sim L (EventLoop_wakeup os L ?w1) (wk_wakeup ?s1)"
    by (rule wakeup_sim) (simp add: efd)
  then have "wk_sim L (EventLoop_wakeup os L ?w1) ?s2" by simp
  moreover have "EventLoop_queueInLoop os L cb w = EventLoop_wakeup os L ?w1"
    using other(1) by (simp add: EventLoop_queueInLoop_def isInLoopThread_def Let_def)
  ultimately have "wk_sim L (EventLoop_queueInLoop os L cb w) ?s2" by simp
  moreover have "wk_step s ?s1" using other(2) by (rule wk_step.other_push)
  moreover have "wk_step ?s1 ?s2" by (rule wk_step.other_wake) simp
  moreover have "wk_prod ?s2 = wk_prod s" using other(2) by (auto simp: fun_eq_iff)
  moreover have "wk_pc ?s2 = wk_pc s" "wk_queued ?s2 = wk_queued s @ [cb]"
    by (simp_all add: wk_push_def wk_wakeup_def)
  ultimately show ?thesis by blast
qed

text \<open>\<open>queueInLoop\<close> in a callback of the loop: a push, and a wake-up while functors run.\<close>

lemma queueInLoop_own:
  assumes sim: "wk_sim L w s" and efd: "eventfd_ok os (lp_wakeupFd (loops w L))"
    and own: "isInLoopThread L w" "in_callback (wk_pc s)"
  shows "\<exists>s1 s2. wk_step s s1 \<and> wk_step s1 s2 \<and> wk_sim L (EventLoop_queueInLoop os L cb w) s2 \<and>
    wk_prod s2 = wk_prod s \<and> wk_pc s2 = wk_pc s \<and> wk_run s2 = wk_run s"
proof -
  let ?s1 = "(wk_push cb s)\<lparr>wk_pc := In_push (wk_pc s),
    wk_early := (wk_early s \<or> wk_pc s = Before_loop)\<rparr>"
  let ?s2 = "(if wk_calling ?s1 then wk_wakeup ?s1 else ?s1)\<lparr>wk_pc := wk_pc s\<rparr>"
  let ?w1 = "upd_loop L (\<lambda>l. l\<lparr>lp_pendingFunctors := lp_pendingFunctors l @ [cb]\<rparr>) w"
  have sim1: "wk_sim L ?w1 ?s1"
    using push_sim [OF sim, of cb] by simp
  then have sim2: "wk_sim L (EventLoop_wakeup os L ?w1) (wk_wakeup ?s1)"
    by (rule wakeup_sim) (simp add: efd)
  have "wk_calling ?s1 = lp_callingPendingFunctors (loops ?w1 L)" using sim1 by (simp add: wk_sim_def)
  then have "EventLoop_queueInLoop os L cb w
      = (if wk_calling ?s1 then EventLoop_wakeup os L ?w1 else ?w1)"
    using own(1) by (simp add: EventLoop_queueInLoop_def isInLoopThread_def Let_def)
  then have "wk_sim L (EventLoop_queueInLoop os L cb w) ?s2"
    using sim1 sim2 by (cases "wk_calling ?s1") (simp_all only: if_True if_False wk_sim_upd)
  moreover have "wk_step s ?s1" using own(2) by (rule wk_step.own_push)
  moreover have "wk_step ?s1 ?s2" by (rule wk_step.own_wake) simp
  moreover have "wk_prod ?s2 = wk_prod s" "wk_pc ?s2 = wk_pc s" "wk_run ?s2 = wk_run s"
    by (simp_all add: wk_push_def wk_wakeup_def)
  ultimately show ?thesis by blast
qed

text \<open>
  \<open>doPendingFunctors\<close>: if every functor's own effect on the shared fields is a run of the protocol
  inside the callback, so is the whole of it, and what it took from the queue has run, in order.
\<close>

definition functors_sim :: "'w invoker \<Rightarrow> loop_ptr \<Rightarrow> bool" where
  "functors_sim invoke L \<longleftrightarrow>
     (\<forall>cb t w w' s fs. invoke cb t w = Inr w' \<longrightarrow> wk_sim L w s \<longrightarrow> wk_pc s = Running fs \<longrightarrow>
        (\<exists>s'. wk_step\<^sup>*\<^sup>* s s' \<and> wk_sim L w' s' \<and> wk_pc s' = Running fs \<and> wk_run s' = wk_run s))"

lemma run_functors_sim:
  assumes fun_sim: "functors_sim invoke L"
  shows "foldE (\<lambda>f. invoke f Timestamp_zero) fs w = Inr w' \<Longrightarrow> wk_sim L w s \<Longrightarrow>
    wk_pc s = Running fs \<Longrightarrow>
    \<exists>s'. wk_step\<^sup>*\<^sup>* s s' \<and> wk_sim L w' s' \<and> wk_pc s' = Running [] \<and> wk_run s' = wk_run s @ fs"
proof (induction fs arbitrary: w s)
  case Nil
  then show ?case by auto
next
  case (Cons f fs)
  from Cons.prems(1) obtain w1 where w1: "invoke f Timestamp_zero w = Inr w1"
      "foldE (\<lambda>f. invoke f Timestamp_zero) fs w1 = Inr w'"
    by (auto simp: res_simps)
  let ?s = "wk_exec f fs s"
  have step: "wk_step s ?s" using Cons.prems(3) by (rule wk_step.exec)
  have "wk_sim L w ?s" using Cons.prems(2) by simp
  moreover have "wk_pc ?s = Running fs" by (simp add: wk_exec_def)
  ultimately obtain s1 where s1: "wk_step\<^sup>*\<^sup>* ?s s1" "wk_sim L w1 s1" "wk_pc s1 = Running fs"
      "wk_run s1 = wk_run ?s"
    using fun_sim w1(1) unfolding functors_sim_def by blast
  from Cons.IH [OF w1(2) s1(2,3)] obtain s' where s': "wk_step\<^sup>*\<^sup>* s1 s'" "wk_sim L w' s'"
      "wk_pc s' = Running []" "wk_run s' = wk_run s1 @ fs" by blast
  have "wk_step\<^sup>*\<^sup>* s s'"
    using step s1(1) s'(1) by (meson converse_rtranclp_into_rtranclp rtranclp_trans)
  with s' s1(4) show ?case by (auto simp: wk_exec_def)
qed

lemma doPendingFunctors_sim:
  assumes run: "EventLoop_doPendingFunctors invoke L w = Inr w'" and fun_sim: "functors_sim invoke L"
    and sim: "wk_sim L w s" and pc: "wk_pc s = Dispatch False"
  shows "\<exists>s'. wk_step\<^sup>*\<^sup>* s s' \<and> wk_sim L w' s' \<and> wk_pc s' = At_check \<and>
    wk_run s' = wk_run s @ lp_pendingFunctors (loops w L)"
proof -
  let ?w2 = "upd_loop L (\<lambda>l. l\<lparr>lp_pendingFunctors := []\<rparr>)
    (upd_loop L (\<lambda>l. l\<lparr>lp_callingPendingFunctors := True\<rparr>) w)"
  let ?fs = "lp_pendingFunctors (loops w L)"
  from run obtain w3 where w3: "foldE (\<lambda>f. invoke f Timestamp_zero) ?fs ?w2 = Inr w3"
      "w' = upd_loop L (\<lambda>l. l\<lparr>lp_callingPendingFunctors := False\<rparr>) w3"
    by (auto simp: EventLoop_doPendingFunctors_def res_simps Let_def)
  let ?s1 = "s\<lparr>wk_calling := True, wk_pc := Before_swap\<rparr>"
  have steps: "wk_step s ?s1" "wk_step ?s1 (wk_swap ?s1)"
    using pc by (auto intro: wk_step.intros)
  have "wk_sim L ?w2 (wk_swap ?s1)" "wk_pc (wk_swap ?s1) = Running ?fs"
    using sim by (simp_all add: wk_sim_def wk_swap_def)
  from run_functors_sim [OF fun_sim w3(1) this] obtain s3 where s3: "wk_step\<^sup>*\<^sup>* (wk_swap ?s1) s3"
      "wk_sim L w3 s3" "wk_pc s3 = Running []" "wk_run s3 = wk_run s @ ?fs"
    by (auto simp: wk_swap_def)
  let ?s' = "s3\<lparr>wk_calling := False, wk_pc := At_check\<rparr>"
  have "wk_step s3 ?s'" using s3(3) by (rule wk_step.finish)
  with steps s3(1) have "wk_step\<^sup>*\<^sup>* s ?s'"
    by (meson converse_rtranclp_into_rtranclp rtranclp.rtrancl_into_rtrancl)
  moreover have "wk_sim L w' ?s'" using s3(2) w3(2) by (simp add: wk_sim_def)
  ultimately show ?thesis using s3(4) by (intro exI [of _ ?s']) simp
qed

subsection \<open>A concrete run\<close>

text \<open>A loop enters \<open>epoll_wait\<close>; then thread 7 queues the functor 1 and wakes it up.\<close>

definition ex_wk0 :: "nat wk" where
  "ex_wk0 = \<lparr>wk_pending = [], wk_efd = 0, wk_calling = False, wk_quit = False, wk_pc = Before_loop,
     wk_prod = (\<lambda>_. Idle), wk_queued = [], wk_run = [], wk_early = False\<rparr>"

definition ex_wk1 :: "nat wk" where
  "ex_wk1 = \<lparr>wk_pending = [1], wk_efd = 1, wk_calling = False, wk_quit = False, wk_pc = At_poll,
     wk_prod = (\<lambda>_. Idle), wk_queued = [1], wk_run = [], wk_early = False\<rparr>"

lemma ex_wk_start: "wk_start ex_wk0"
  by (simp add: wk_start_def ex_wk0_def)

lemma ex_wk_enter: "wk_step\<^sup>*\<^sup>* ex_wk0 (ex_wk0\<lparr>wk_pc := At_poll\<rparr>)"
  using loop_next_steps [of ex_wk0 2] by (simp add: loop_next_def ex_wk0_def numeral_2_eq_2)

lemma ex_wk_run: "wk_step\<^sup>*\<^sup>* ex_wk0 ex_wk1"
proof -
  let ?s = "ex_wk0\<lparr>wk_pc := At_poll\<rparr>"
  let ?t = "(wk_push 1 ?s)\<lparr>wk_prod := (wk_prod ?s)(7 := Must_wake)\<rparr>"
  have "wk_step ?s ?t" by (rule wk_step.other_push) (simp add: ex_wk0_def)
  moreover have "wk_step ?t ((wk_wakeup ?t)\<lparr>wk_prod := (wk_prod ?t)(7 := Idle)\<rparr>)"
    by (rule wk_step.other_wake) simp
  moreover have "(wk_wakeup ?t)\<lparr>wk_prod := (wk_prod ?t)(7 := Idle)\<rparr> = ex_wk1"
    by (simp add: ex_wk0_def ex_wk1_def wk_push_def wk_wakeup_def fun_eq_iff)
  ultimately show ?thesis using ex_wk_enter by (metis rtranclp.rtrancl_into_rtrancl)
qed

text \<open>Thread 7 calls \<open>quit()\<close> on a loop that has not started.\<close>

lemma ex_wk_quit_early:
  "wk_step\<^sup>*\<^sup>* ex_wk0 (ex_wk0\<lparr>wk_quit := True, wk_efd := 1\<rparr>)"
proof -
  let ?t = "ex_wk0\<lparr>wk_quit := True, wk_prod := (wk_prod ex_wk0)(7 := Must_wake)\<rparr>"
  have "wk_step ex_wk0 ?t" by (rule wk_step.other_quit) (simp add: ex_wk0_def)
  moreover have "wk_step ?t ((wk_wakeup ?t)\<lparr>wk_prod := (wk_prod ?t)(7 := Idle)\<rparr>)"
    by (rule wk_step.other_wake) simp
  moreover have "(wk_wakeup ?t)\<lparr>wk_prod := (wk_prod ?t)(7 := Idle)\<rparr> = ex_wk0\<lparr>wk_quit := True, wk_efd := 1\<rparr>"
    by (simp add: ex_wk0_def wk_wakeup_def fun_eq_iff)
  ultimately show ?thesis by (metis rtranclp.simps)
qed

text \<open>The loop's own thread queues the functor 1 before it calls \<open>loop()\<close>.\<close>

lemma ex_wk_early_functor:
  "wk_step\<^sup>*\<^sup>* ex_wk0 (ex_wk0\<lparr>wk_pending := [1], wk_queued := [1], wk_early := True, wk_pc := At_poll\<rparr>)"
proof -
  let ?t = "(wk_push 1 ex_wk0)\<lparr>wk_pc := In_push (wk_pc ex_wk0),
    wk_early := (wk_early ex_wk0 \<or> wk_pc ex_wk0 = Before_loop)\<rparr>"
  have "wk_step ex_wk0 ?t" by (rule wk_step.own_push) (simp add: ex_wk0_def)
  moreover have "wk_step\<^sup>*\<^sup>* ?t ((loop_next ^^ 3) ?t)" by (rule loop_next_steps)
  moreover have "(loop_next ^^ 3) ?t
      = ex_wk0\<lparr>wk_pending := [1], wk_queued := [1], wk_early := True, wk_pc := At_poll\<rparr>"
    by (simp add: ex_wk0_def wk_push_def loop_next_def numeral_3_eq_3)
  ultimately show ?thesis by (metis converse_rtranclp_into_rtranclp)
qed

subsection \<open>Properties\<close>

text \<open>C4: No wake-up is lost.  In every reachable state in which the loop blocks in \<open>epoll_wait\<close>
  while functors wait in its queue and no thread is still between its push and its \<open>wakeup()\<close>, the
  event descriptor is readable, so that \<open>epoll_wait\<close> returns.  (The exception are functors that the
  loop's own thread has queued before it entered the loop.)\<close>

theorem no_lost_wakeup:
  assumes "wk_start s" "wk_step\<^sup>*\<^sup>* s t" "wk_pc t = At_poll" "wk_pending t \<noteq> []" "\<not> wk_early t"
    and "\<forall>i. wk_prod t i = Idle"
  shows "0 < wk_efd t"
  using wk.reachable_inv [OF assms(1,2)] assms(3-6) by (simp add: wk_inv_def wk_awake_def)

lemma no_lost_wakeup_witness: "0 < wk_efd ex_wk1"
  by (rule no_lost_wakeup [OF ex_wk_start ex_wk_run]) (simp_all add: ex_wk1_def)

text \<open>C18: Functors run exactly once and in the order in which they were queued, whatever the
  interleaving: at any time the functors queued so far are those that have run, then those the loop
  has swapped out and will run, then those in the queue.\<close>

theorem functors_fifo:
  assumes "wk_start s" "wk_step\<^sup>*\<^sup>* s t"
  shows "wk_queued t = wk_run t @ running (wk_pc t) @ wk_pending t"
  using wk.reachable_inv [OF assms] by (simp add: wk_inv_def)

lemma functors_fifo_witness: "wk_queued ex_wk1 = wk_run ex_wk1 @ running (wk_pc ex_wk1) @ wk_pending ex_wk1"
  by (rule functors_fifo [OF ex_wk_start ex_wk_run])

text \<open>C24: A \<open>quit()\<close> from another thread does not leave the loop asleep: when the loop blocks in
  \<open>epoll_wait\<close> with \<open>quit_\<close> set and nobody about to wake it, the event descriptor is readable.\<close>

theorem quit_wakes_loop:
  assumes "wk_start s" "wk_step\<^sup>*\<^sup>* s t" "wk_pc t = At_poll" "wk_quit t"
    and "\<forall>i. wk_prod t i = Idle"
  shows "0 < wk_efd t"
  using wk.reachable_inv [OF assms(1,2)] assms(3-5) by (simp add: wk_inv_def wk_awake_def)

lemma ex_wk_quit: "wk_step\<^sup>*\<^sup>* ex_wk0 (ex_wk0\<lparr>wk_pc := At_poll, wk_quit := True, wk_efd := 1\<rparr>)"
proof -
  let ?s = "ex_wk0\<lparr>wk_pc := At_poll\<rparr>"
  let ?t = "?s\<lparr>wk_quit := True, wk_prod := (wk_prod ?s)(7 := Must_wake)\<rparr>"
  have "wk_step ?s ?t" by (rule wk_step.other_quit) (simp add: ex_wk0_def)
  moreover have "wk_step ?t ((wk_wakeup ?t)\<lparr>wk_prod := (wk_prod ?t)(7 := Idle)\<rparr>)"
    by (rule wk_step.other_wake) simp
  moreover have "(wk_wakeup ?t)\<lparr>wk_prod := (wk_prod ?t)(7 := Idle)\<rparr>
      = ex_wk0\<lparr>wk_pc := At_poll, wk_quit := True, wk_efd := 1\<rparr>"
    by (simp add: ex_wk0_def wk_wakeup_def fun_eq_iff)
  ultimately show ?thesis using ex_wk_enter by (metis rtranclp.rtrancl_into_rtrancl)
qed

lemma quit_wakes_loop_witness:
  "0 < wk_efd (ex_wk0\<lparr>wk_pc := At_poll, wk_quit := True, wk_efd := 1\<rparr>)"
  by (rule quit_wakes_loop [OF ex_wk_start ex_wk_quit]) (simp_all add: ex_wk0_def)

text \<open>C19: From \<open>epoll_wait\<close> on, the loop by itself runs every functor that waits, in order, and is
  back at the head of its loop with an empty queue after one step for each of them and four or five
  more.\<close>

theorem loop_drains_queue:
  assumes "wk_pc s = At_poll"
  shows "wk_step\<^sup>*\<^sup>* s (s\<lparr>wk_calling := False, wk_pc := At_check, wk_pending := [],
      wk_early := False, wk_run := wk_run s @ wk_pending s, wk_efd := 0\<rparr>)
    \<and> (loop_next ^^ (length (wk_pending s) + (if 0 < wk_efd s then 5 else 4))) s
      = s\<lparr>wk_calling := False, wk_pc := At_check, wk_pending := [],
          wk_early := False, wk_run := wk_run s @ wk_pending s, wk_efd := 0\<rparr>"
  using loop_next_from_poll [OF assms] loop_next_steps
    [of s "length (wk_pending s) + (if 0 < wk_efd s then 5 else 4)"] by simp

lemma loop_drains_queue_witness: "(loop_next ^^ 6) ex_wk1
    = ex_wk1\<lparr>wk_pc := At_check, wk_pending := [], wk_run := [1], wk_efd := 0\<rparr>"
  using loop_drains_queue [of ex_wk1] by (simp add: ex_wk1_def)


text \<open>C26: The sequential \<open>queueInLoop\<close> from another thread is a push followed by a wake-up of the
  protocol.\<close>

theorem queueInLoop_refines:
  assumes "wk_sim L w s" "eventfd_ok os (lp_wakeupFd (loops w L))" "\<not> isInLoopThread L w"
    and "wk_prod s t = Idle"
  shows "\<exists>s1 s2. wk_step s s1 \<and> wk_step s1 s2 \<and> wk_sim L (EventLoop_queueInLoop os L cb w) s2 \<and>
    wk_pc s2 = wk_pc s \<and> wk_queued s2 = wk_queued s @ [cb]"
  using queueInLoop_other [OF assms] by blast

text \<open>C39: A \<open>quit()\<close> that comes before \<open>loop()\<close> is forgotten: \<open>loop()\<close> resets \<open>quit_\<close>, and the loop
  goes on to wait for events.\<close>

theorem early_quit_lost:
  "\<exists>s t u. wk_start s \<and> wk_step\<^sup>*\<^sup>* s t \<and> wk_quit t \<and> wk_pc t = Before_loop \<and>
     wk_step\<^sup>*\<^sup>* t u \<and> wk_pc u = At_poll \<and> \<not> wk_quit (u :: nat wk)"
proof -
  let ?t = "ex_wk0\<lparr>wk_quit := True, wk_efd := 1\<rparr>"
  have "wk_step\<^sup>*\<^sup>* ?t ((loop_next ^^ 2) ?t)" by (rule loop_next_steps)
  moreover have "(loop_next ^^ 2) ?t = ex_wk0\<lparr>wk_efd := 1, wk_pc := At_poll\<rparr>"
    by (simp add: loop_next_def ex_wk0_def numeral_2_eq_2)
  ultimately show ?thesis using ex_wk_start ex_wk_quit_early
    by (intro exI [of _ ex_wk0] exI [of _ ?t] exI [of _ "ex_wk0\<lparr>wk_efd := 1, wk_pc := At_poll\<rparr>"])
      (simp add: ex_wk0_def)
qed

text \<open>A functor that the loop's own thread queues before \<open>loop()\<close> waits in the queue while the
  loop blocks in \<open>epoll_wait\<close> and nothing will wake it up.\<close>

lemma early_functor_waits:
  "\<exists>s t. wk_start s \<and> wk_step\<^sup>*\<^sup>* s t \<and> wk_pc t = At_poll \<and> wk_pending t \<noteq> [] \<and>
     wk_efd t = 0 \<and> (\<forall>i. wk_prod (t :: nat wk) i = Idle)"
  using ex_wk_start ex_wk_early_functor
  by (intro exI [of _ ex_wk0] exI [of _ "ex_wk0\<lparr>wk_pending := [1], wk_queued := [1],
        wk_early := True, wk_pc := At_poll\<rparr>"]) (simp add: ex_wk0_def)

end
