(* ===== verification/Scenario.thy ===== *)
theory Scenario
  imports System Wakeup
begin

section \<open>Scenario: a small running server, for the witnesses\<close>

text \<open>
  One loop (number \<open>0\<close>, thread \<open>1\<close>, epoll descriptor \<open>3\<close>) with its wake-up channel (descriptor
  \<open>5\<close>) and its timer channel (\<open>6\<close>); an established connection \<open>0\<close> of server \<open>0\<close> (descriptor \<open>7\<close>), the
  listening acceptor of that server (\<open>8\<close>), the connector of client \<open>0\<close>, its connect in progress (\<open>9\<close>), an
  acceptor that does not listen yet (\<open>10\<close>), a connection that is not established yet (\<open>11\<close>) and one
  that has been closed and waits for its destruction (\<open>12\<close>).  Two timers wait, one of them due.
\<close>

definition ex_buffer :: buffer where
  "ex_buffer = \<lparr>buf_bytes = replicate 8 0, buf_reader = 8, buf_writer = 8\<rparr>"

definition ex_conn :: "string \<Rightarrow> StateE \<Rightarrow> fd \<Rightarrow> chan_ptr \<Rightarrow> conn" where
  "ex_conn name st f p = \<lparr>cn_loop = 0, cn_name = name, cn_state = st, cn_reading = True,
     cn_socket = f, cn_channel = p, cn_localAddr = (1, 1), cn_peerAddr = (1, 2),
     cn_connectionCallback = Some Default_connection, cn_messageCallback = Some Default_message,
     cn_writeCompleteCallback = None, cn_highWaterMarkCallback = None,
     cn_closeCallback = Some (Bind_TcpServer_removeConnection 0), cn_highWaterMark = 64 * 1024 * 1024,
     cn_inputBuffer = ex_buffer, cn_outputBuffer = ex_buffer\<rparr>"

definition ex_base_pool :: pool where
  "ex_base_pool = \<lparr>pl_baseLoop = 0, pl_name = ''s'', pl_started = True, pl_numThreads = 0, pl_next = 0,
     pl_threads = [], pl_loops = []\<rparr>"

definition ex_server0 :: server where
  "ex_server0 = \<lparr>sv_loop = 0, sv_ipPort = toIpPort (1, 1), sv_name = ''s'', sv_pool = ex_base_pool,
     sv_connectionCallback = Some Default_connection, sv_messageCallback = Some Default_message,
     sv_writeCompleteCallback = None, sv_threadInitCallback = None, sv_started = 1,
     sv_nextConnId = 2, sv_connections = Map.empty\<rparr>"

definition ex_server :: server where
  "ex_server = ex_server0\<lparr>sv_connections := [conn_name ex_server0 1 \<mapsto> 0]\<rparr>"

definition ex_chan :: "fd \<Rightarrow> int \<Rightarrow> uint32 \<Rightarrow> channel" where
  "ex_chan f i ev = (Channel_new 0 f)\<lparr>ch_index := i, ch_events := ev\<rparr>"

definition ex_acceptor :: "fd \<Rightarrow> chan_ptr \<Rightarrow> bool \<Rightarrow> acceptor" where
  "ex_acceptor f p l = \<lparr>ac_loop = 0, ac_socket = f, ac_channel = p, ac_newConnectionCallback = Some 0,
     ac_listenning = l\<rparr>"

definition ex_connector :: "States \<Rightarrow> chan_ptr option \<Rightarrow> connector" where
  "ex_connector st p = \<lparr>ct_loop = 0, ct_serverAddr = (1, 1), ct_connect = True, ct_state = st,
     ct_channel = p, ct_newConnectionCallback = Some 0, ct_retryDelayMs = 500\<rparr>"

definition ex_client :: client where
  "ex_client = \<lparr>cl_loop = 0, cl_connector = 0, cl_name = ''c'', cl_connectionCallback = Some Default_connection,
     cl_messageCallback = Some Default_message, cl_writeCompleteCallback = None, cl_retry = False,
     cl_connect = True, cl_nextConnId = 1, cl_connection = None\<rparr>"

definition ex_timer :: "int64 \<Rightarrow> int64 \<Rightarrow> timer" where
  "ex_timer e n = \<lparr>tm_callback = Bind_user 0, tm_expiration = Timestamp e, tm_interval = 0,
     tm_repeat = False, tm_sequence = n\<rparr>"

definition ex_loop :: eventloop where
  "ex_loop = \<lparr>lp_looping = True, lp_quit = False, lp_threadId = 1, lp_pollReturnTime = Timestamp 5,
     lp_wakeupFd = 5, lp_wakeupChannel = 100, lp_activeChannels = [],
     lp_callingPendingFunctors = False, lp_pendingFunctors = []\<rparr>"

definition ex_added :: "fd \<Rightarrow> uint32 \<Rightarrow> chan_ptr \<Rightarrow> sysevent" where
  "ex_added f ev p = Epoll_ctl 3 EPOLL_CTL_ADD f ev p (Inr ())"

definition ex_hist :: "sysevent list" where
  "ex_hist = [Gettimeofday 1000 0, Timerfd_settime 6 0 100000, ex_added 5 kReadEvent 100,
     ex_added 6 kReadEvent 101, ex_added 7 kReadEvent 20, ex_added 8 kReadEvent 2,
     ex_added 9 kWriteEvent 3, ex_added 12 kReadEvent 7,
     Epoll_ctl 3 EPOLL_CTL_DEL 12 kNoneEvent 7 (Inr ())]"

definition ex_chans :: "chan_ptr \<rightharpoonup> channel" where
  "ex_chans = [100 \<mapsto> (ex_chan 5 kAdded kReadEvent)\<lparr>ch_readCallback := Some (Bind_EventLoop_handleRead 0)\<rparr>,
     101 \<mapsto> (ex_chan 6 kAdded kReadEvent)\<lparr>ch_readCallback := Some (Bind_TimerQueue_handleRead 0)\<rparr>,
     20 \<mapsto> (ex_chan 7 kAdded kReadEvent)\<lparr>ch_tie := Some 0, ch_tied := True\<rparr>,
     2 \<mapsto> (ex_chan 8 kAdded kReadEvent)\<lparr>ch_readCallback := Some (Bind_Acceptor_handleRead 0)\<rparr>,
     3 \<mapsto> (ex_chan 9 kAdded kWriteEvent)\<lparr>ch_writeCallback := Some (Bind_Connector_handleWriter 0),
            ch_errorCallback := Some (Bind_Connector_handleError 0)\<rparr>,
     4 \<mapsto> (ex_chan 10 kNew 0)\<lparr>ch_readCallback := Some (Bind_Acceptor_handleRead 1)\<rparr>,
     6 \<mapsto> ex_chan 11 kNew 0, 7 \<mapsto> ex_chan 12 kDeleted kNoneEvent]"

definition ex_world :: client_world where
  "ex_world = \<lparr>hist = ex_hist, chans = ex_chans,
     pollers = (\<lambda>_. \<lparr>po_epollfd = 3, po_channels = [5 \<mapsto> 100, 6 \<mapsto> 101, 7 \<mapsto> 20, 8 \<mapsto> 2, 9 \<mapsto> 3, 12 \<mapsto> 7],
                     po_capacity = 16\<rparr>),
     loops = (\<lambda>_. ex_loop), current_tid = 1, t_loopInThisThread = [1 \<mapsto> 0],
     timers = [10 \<mapsto> ex_timer 5 1, 11 \<mapsto> ex_timer 2000000000 2, 12 \<mapsto> ex_timer 3000000000 3], s_numCreated = 3,
     timerqueues = (\<lambda>_. \<lparr>tq_timerfd = 6, tq_timerfdChannel = 101,
       tq_timers = [(Timestamp 5, 10), (Timestamp 2000000000, 11)], tq_callingExpiredTimers = False\<rparr>),
     conns = [0 \<mapsto> ex_conn (conn_name ex_server0 1) kConnected 7 20, 2 \<mapsto> ex_conn ''b'' kConnecting 11 6,
              3 \<mapsto> ex_conn ''c'' kDisconnected 12 7],
     memory = [0 \<mapsto> [1, 2, 3]],
     acceptors = [0 \<mapsto> ex_acceptor 8 2 True, 1 \<mapsto> ex_acceptor 10 4 False],
     connectors = [0 \<mapsto> ex_connector Ct_kConnecting (Some 3), 1 \<mapsto> ex_connector Ct_kDisconnected None],
     servers = [0 \<mapsto> ex_server], clients = [0 \<mapsto> ex_client]\<rparr>"

definition ex_alloc :: alloc where
  "ex_alloc = \<lparr>al_channel = (\<lambda>_. 50), al_conn = (\<lambda>_. 50), al_timer = (\<lambda>_. 50)\<rparr>"

definition ex_env :: "'w conn_env" where
  "ex_env = \<lparr>app_functor = (\<lambda>_. Inr), app_threadInit = (\<lambda>_ _. Inr), app_connection = (\<lambda>_ _. Inr),
     app_message = (\<lambda>_ _ _. Inr), app_writeComplete = (\<lambda>_ _. Inr), app_highWaterMark = (\<lambda>_ _ _. Inr),
     env_close = (\<lambda>_ _. Inr)\<rparr>"

lemma ex_world_sel [simp]:
  "hist ex_world = ex_hist" "chans ex_world = ex_chans" "current_tid ex_world = 1"
  "pollers ex_world L = \<lparr>po_epollfd = 3, po_channels = [5 \<mapsto> 100, 6 \<mapsto> 101, 7 \<mapsto> 20, 8 \<mapsto> 2, 9 \<mapsto> 3, 12 \<mapsto> 7],
     po_capacity = 16\<rparr>"
  "loops ex_world L = ex_loop" "memory ex_world = [0 \<mapsto> [1, 2, 3]]" "servers ex_world = [0 \<mapsto> ex_server]"
  "timers ex_world = [10 \<mapsto> ex_timer 5 1, 11 \<mapsto> ex_timer 2000000000 2, 12 \<mapsto> ex_timer 3000000000 3]"
  "timerqueues ex_world L = \<lparr>tq_timerfd = 6, tq_timerfdChannel = 101,
     tq_timers = [(Timestamp 5, 10), (Timestamp 2000000000, 11)], tq_callingExpiredTimers = False\<rparr>"
  "conns ex_world = [0 \<mapsto> ex_conn (conn_name ex_server0 1) kConnected 7 20, 2 \<mapsto> ex_conn ''b'' kConnecting 11 6,
     3 \<mapsto> ex_conn ''c'' kDisconnected 12 7]"
  "acceptors ex_world = [0 \<mapsto> ex_acceptor 8 2 True, 1 \<mapsto> ex_acceptor 10 4 False]"
  "connectors ex_world = [0 \<mapsto> ex_connector Ct_kConnecting (Some 3), 1 \<mapsto> ex_connector Ct_kDisconnected None]"
  "clients ex_world = [0 \<mapsto> ex_client]"
  by (simp_all add: ex_world_def)

lemma ex_interest:
  "interest ex_hist 3 = [5 \<mapsto> (kReadEvent, 100), 6 \<mapsto> (kReadEvent, 101), 7 \<mapsto> (kReadEvent, 20),
     8 \<mapsto> (kReadEvent, 2), 9 \<mapsto> (kWriteEvent, 3)]"
  by (rule ext) (simp add: interest_def ex_hist_def ex_added_def)

lemma ex_poller_inv: "poller_inv 0 ex_world"
proof -
  have "\<exists>ch. ex_chans c = Some ch \<and> ch_loop ch = 0 \<and> ch_fd ch = f"
    if "po_channels (pollers ex_world 0) f = Some c" for f c
    using that by (auto simp: ex_chans_def ex_chan_def Channel_new_def split: if_splits)
  moreover have "chan_ok 0 ex_world c ch" if "ex_chans c = Some ch" for c ch
    using that by (auto simp: chan_ok_def Let_def ex_interest ex_chans_def ex_chan_def Channel_new_def
        kNew_def kAdded_def kDeleted_def split: if_splits)
  moreover have "po_channels (pollers ex_world 0) f = Some c"
    if "interest ex_hist 3 f = Some (ev, c)" for f ev c
    using that by (auto simp: ex_interest split: if_splits)
  ultimately show ?thesis by (simp add: poller_inv_def)
qed

lemma ex_buffer_ok [simp]: "wf_buffer ex_buffer" "content ex_buffer = []"
  "unat (buf_writer ex_buffer) = 8" "buffer_room extrabuf_size ex_buffer"
  by (simp_all add: ex_buffer_def wf_buffer_def content_def max_size_def buffer_room_def extrabuf_size_def)

lemma ex_chans_sel [simp]:
  "ex_chans 20 = Some ((ex_chan 7 kAdded kReadEvent)\<lparr>ch_tie := Some 0, ch_tied := True\<rparr>)"
  "ex_chans 2 = Some ((ex_chan 8 kAdded kReadEvent)\<lparr>ch_readCallback := Some (Bind_Acceptor_handleRead 0)\<rparr>)"
  "ex_chans 3 = Some ((ex_chan 9 kAdded kWriteEvent)\<lparr>ch_writeCallback := Some (Bind_Connector_handleWriter 0),
            ch_errorCallback := Some (Bind_Connector_handleError 0)\<rparr>)"
  "ex_chans 4 = Some ((ex_chan 10 kNew 0)\<lparr>ch_readCallback := Some (Bind_Acceptor_handleRead 1)\<rparr>)"
  "ex_chans 6 = Some (ex_chan 11 kNew 0)" "ex_chans 7 = Some (ex_chan 12 kDeleted kNoneEvent)"
  "ex_chans 50 = None"
  by (simp_all add: ex_chans_def)

lemma ex_chan_sel [simp]:
  "ch_fd (ex_chan f i ev) = f" "ch_loop (ex_chan f i ev) = 0" "ch_index (ex_chan f i ev) = i"
  "ch_events (ex_chan f i ev) = ev"
  by (simp_all add: ex_chan_def Channel_new_def)

lemma ex_events [simp]:
  "isReading (ex_chan f i kReadEvent)" "\<not> isWriting (ex_chan f i kReadEvent)"
  "isWriting (ex_chan f i kWriteEvent)" "\<not> isWriting (ex_chan f i kNoneEvent)" "\<not> isWriting (ex_chan f i 0)"
  by (simp_all add: isReading_def isWriting_def kReadEvent_def kWriteEvent_def kNoneEvent_def
      EPOLLIN_def EPOLLPRI_def EPOLLOUT_def)

definition ex_cn :: conn where
  "ex_cn = ex_conn (conn_name ex_server0 1) kConnected 7 20"

lemma ex_conn_sel [simp]:
  "cn_loop (ex_conn n st f p) = 0" "cn_name (ex_conn n st f p) = n" "cn_state (ex_conn n st f p) = st"
  "cn_socket (ex_conn n st f p) = f" "cn_channel (ex_conn n st f p) = p"
  "cn_inputBuffer (ex_conn n st f p) = ex_buffer" "cn_outputBuffer (ex_conn n st f p) = ex_buffer"
  "cn_connectionCallback (ex_conn n st f p) = Some Default_connection"
  "cn_closeCallback (ex_conn n st f p) = Some (Bind_TcpServer_removeConnection 0)"
  by (simp_all add: ex_conn_def)

definition ex_ch :: channel where
  "ex_ch = (ex_chan 7 kAdded kReadEvent)\<lparr>ch_tie := Some 0, ch_tied := True\<rparr>"

lemma ex_open_flags [simp]:
  "isReading (ch\<lparr>ch_tie := t, ch_tied := b\<rparr>) = isReading ch"
  "isWriting (ch\<lparr>ch_tie := t, ch_tied := b\<rparr>) = isWriting ch"
  "isWriting (ch\<lparr>ch_writeCallback := wc, ch_errorCallback := ec\<rparr>) = isWriting ch"
  "isReading (ch\<lparr>ch_readCallback := rc\<rparr>) = isReading ch"
  by (simp_all add: isReading_def isWriting_def)

lemma ex_conn_rel: "conn_rel ex_world 0 ex_cn ex_ch"
  by (simp add: conn_rel_def ex_cn_def ex_ch_def ex_poller_inv ex_loop_def)

lemma ex_stream_inv: "stream_inv ex_world 0 ex_cn ex_ch"
  using ex_conn_rel by (simp add: stream_inv_def ex_cn_def conn_open_def isInLoopThread_def
      ex_loop_def fin_state_def ex_hist_def ex_added_def)

lemma ex_closed_rel: "conn_rel ex_world 3 (ex_conn ''c'' kDisconnected 12 7) (ex_chan 12 kDeleted kNoneEvent)"
  by (simp add: conn_rel_def ex_poller_inv ex_loop_def conn_open_def)

lemma ex_conn_fresh: "conn_fresh ex_world 2 (ex_conn ''b'' kConnecting 11 6) (ex_chan 11 kNew 0)"
  by (simp add: conn_fresh_def ex_poller_inv ex_loop_def)

lemma ex_acceptor_rel:
  "acceptor_rel ex_world 1 (ex_acceptor 10 4 False)
     ((ex_chan 10 kNew 0)\<lparr>ch_readCallback := Some (Bind_Acceptor_handleRead 1)\<rparr>)"
  by (simp add: acceptor_rel_def ex_poller_inv ex_acceptor_def)

lemma ex_connector_rel: "connector_rel ex_world 0 (ex_connector Ct_kConnecting (Some 3))"
  by (simp add: connector_rel_def ex_poller_inv ex_connector_def)

lemma ex_idle_connector_rel: "connector_rel ex_world 1 (ex_connector Ct_kDisconnected None)"
  by (simp add: connector_rel_def ex_poller_inv ex_connector_def)

lemma ex_conn_name: "conn_name (sv\<lparr>sv_connections := m\<rparr>) n = conn_name sv n"
  by (simp add: conn_name_def)

lemma ex_server_inv: "server_inv ex_world 0 ex_server"
proof -
  have "sv_connections ex_server = [conn_name ex_server0 1 \<mapsto> 0]" by (simp add: ex_server_def)
  moreover have "conn_name ex_server 1 = conn_name ex_server0 1" by (simp add: ex_server_def ex_conn_name)
  moreover have "\<exists>a. sv_ipPort ex_server = toIpPort a" "sint (sv_nextConnId ex_server) = 2"
    "pool_inv (sv_pool ex_server)"
    by (auto simp: ex_server_def ex_server0_def ex_base_pool_def pool_inv_def)
  ultimately show ?thesis
    by (auto simp: server_inv_def split: if_splits intro!: exI [of _ 1])
qed

lemma ex_registered: "sv_connections ex_server (conn_name ex_server0 1) = Some 0"
  by (simp add: ex_server_def)

lemma ex_timers_wf: "timers_wf 0 ex_world"
  by (simp add: timers_wf_def tq_entries_def entry_ok_def sane_time_def micros_def ex_timer_def
      less_timestamp_def Timestamp_less_def)

lemma ex_timers_armed: "timers_armed 0 ex_world"
  by (simp add: timers_armed_def tq_entries_def set_begin_def arming_def arming_state_def ex_hist_def
      ex_added_def micros_def)

lemma foldE_Inr [simp]: "foldE (\<lambda>_. Inr) xs w = Inr w"
  by (induction xs) simp_all

lemma ex_now: "Timestamp_now sim_os ex_world = Inr (Timestamp 1000000000, snd (sys_gettimeofday sim_os ex_world))"
  by (simp add: Timestamp_now_def sys_gettimeofday_def Let_def kMicroSecondsPerSecond_def s_int_def)

lemma ex_entries: "tq_entries 0 ex_world = [(Timestamp 5, 10), (Timestamp 2000000000, 11)]"
  by (simp add: tq_entries_def)

lemma ex_timestamp_simps [simp]:
  "Timestamp a < Timestamp b \<longleftrightarrow> a <s b" "Timestamp a \<le> Timestamp b \<longleftrightarrow> a \<le>s b"
  by (auto simp: less_timestamp_def less_eq_timestamp_def Timestamp_less_def Timestamp_eq_def word_sless_alt word_sle_eq micros_def)

text \<open>The same system with a readable connection: polling reports descriptor \<open>7\<close>, whenever it is watched.\<close>

definition sim_ready_os :: os where
  "sim_ready_os = sim_os\<lparr>os_epoll_wait := (\<lambda>h ep n.
     case interest h ep 7 of Some (ev, p) \<Rightarrow> Inr (if 0 < n then [(p, EPOLLIN)] else []) | None \<Rightarrow> Inr [])\<rparr>"

lemma sim_ready_ok: "epoll_ok sim_ready_os" "clock_ok sim_ready_os"
proof -
  have "length evs \<le> n \<and> (\<exists>fds. distinct fds \<and> length fds = length evs \<and>
      (\<forall>i < length evs. \<exists>ev. interest h ep (fds ! i) = Some (ev, fst (evs ! i))))"
    if "os_epoll_wait sim_ready_os h ep n = Inr evs" for h ep n evs
    using that by (auto simp: sim_ready_os_def split: option.splits if_splits intro!: exI [of _ "map (\<lambda>_. 7) evs"])
  then show "epoll_ok sim_ready_os"
    unfolding epoll_ok_def
  proof (intro conjI allI impI, goal_cases)
    case (1 h ep f ev p)
    then show ?case by (simp add: sim_ready_os_def sim_epoll_ctl_def split: if_splits)
  next
    case (2 h ep f ev p)
    then show ?case by (simp add: sim_ready_os_def sim_epoll_ctl_def)
  next
    case (3 h ep f ev p)
    then show ?case by (simp add: sim_ready_os_def sim_epoll_ctl_def)
  qed blast+
  show "clock_ok sim_ready_os" by (rule clock_ok_sim) (simp add: sim_ready_os_def)
qed

end
