(* ===== verification/Dispatch.thy ===== *)
theory Dispatch
  imports EventLoop
begin

section \<open>Dispatch: which callbacks an event runs, and what a whole loop keeps\<close>

text \<open>
  What \<open>Channel::handleEvent\<close> (\<open>src/src/Channel.cc\<close>) comes to when the callbacks leave the channel
  itself alone: the reference definition \<open>due_callbacks\<close> lists the callbacks by \<open>revents_\<close>, and the
  dispatch runs that list.  Then the invariants of a whole run of \<open>EventLoop::loop\<close>: what every
  callback keeps, the loop keeps.
\<close>

subsection \<open>The callbacks an event runs\<close>

definition due :: "bool \<Rightarrow> closure option \<Rightarrow> closure list" where
  "due b cb = (if b then (case cb of Some f \<Rightarrow> [f] | None \<Rightarrow> []) else [])"

definition due_callbacks :: "channel \<Rightarrow> closure list" where
  "due_callbacks ch =
     due (wants_close (ch_revents ch)) (ch_closeCallback ch) @
     due (wants_error (ch_revents ch)) (ch_errorCallback ch) @
     due (wants_read (ch_revents ch)) (ch_readCallback ch) @
     due (wants_write (ch_revents ch)) (ch_writeCallback ch)"

text \<open>Two states of a channel between which only its registration and its interest differ.\<close>

definition same_dispatch :: "channel \<Rightarrow> channel \<Rightarrow> bool" where
  "same_dispatch ch ch' \<longleftrightarrow> ch_revents ch' = ch_revents ch \<and>
     ch_closeCallback ch' = ch_closeCallback ch \<and> ch_errorCallback ch' = ch_errorCallback ch \<and>
     ch_readCallback ch' = ch_readCallback ch \<and> ch_writeCallback ch' = ch_writeCallback ch"

definition keeps_channel ::
  "(closure \<Rightarrow> timestamp \<Rightarrow> 'w chan_world_scheme \<Rightarrow> 'w chan_world_scheme result) \<Rightarrow> chan_ptr \<Rightarrow> bool" where
  "keeps_channel invoke c \<longleftrightarrow>
     (\<forall>ch cb t. kept (\<lambda>w. \<exists>ch'. chans w c = Some ch' \<and> same_dispatch ch ch') (invoke cb t))"

lemma same_dispatch_refl [simp]: "same_dispatch ch ch"
  by (simp add: same_dispatch_def)

lemma bindE_cong: "(\<And>x. m = Inr x \<Longrightarrow> f x = g x) \<Longrightarrow> bindE m f = bindE m g"
  by (cases m) simp_all

lemma foldE_single: "foldE f [x] s = f x s"
  by (cases "f x s") simp_all

lemma dispatch_if_due:
  assumes "chans w c = Some ch'" "f ch' = f ch" "ch_revents ch' = ch_revents ch"
  shows "dispatch_if run cond f c w = foldE run (due (cond (ch_revents ch)) (f ch)) w"
  using assms by (cases "f ch") (auto simp: dispatch_if_def due_def foldE_single simp del: foldE.simps(2))

lemma handleEventWithGuard_due:
  assumes keeps: "keeps_channel invoke c" and ch: "chans w c = Some ch"
  shows "Channel_handleEventWithGuard invoke c t w = foldE (\<lambda>cb. invoke cb t) (due_callbacks ch) w"
proof -
  let ?I = "\<lambda>w. \<exists>ch'. chans w c = Some ch' \<and> same_dispatch ch ch'" and ?run = "\<lambda>cb. invoke cb t"
  have run: "?I w'" if "foldE ?run cbs v = Inr w'" "?I v" for cbs v w'
  proof (rule keptD [where I = ?I and f = "foldE ?run cbs", OF kept_foldE that])
    show "kept ?I (?run cb)" for cb using keeps unfolding keeps_channel_def by blast
  qed
  have step: "dispatch_if ?run cond f c v = foldE ?run (due (cond (ch_revents ch)) (f ch)) v"
    if "?I v" "\<And>ch'. same_dispatch ch ch' \<Longrightarrow> f ch' = f ch" for cond f v
  proof -
    from that(1) obtain ch' where ch': "chans v c = Some ch'" "same_dispatch ch ch'" by blast
    then have "ch_revents ch' = ch_revents ch" by (simp add: same_dispatch_def)
    then show ?thesis by (rule dispatch_if_due [OF ch'(1) that(2) [OF ch'(2)]])
  qed
  have chain: "bindE (dispatch_if ?run cond f c v) k = foldE ?run (due (cond (ch_revents ch)) (f ch) @ l) v"
    if v: "?I v" and f: "\<And>ch'. same_dispatch ch ch' \<Longrightarrow> f ch' = f ch"
      and k: "\<And>v. ?I v \<Longrightarrow> k v = foldE ?run l v" for cond f v k l
  proof -
    have "dispatch_if ?run cond f c v = foldE ?run (due (cond (ch_revents ch)) (f ch)) v"
      by (rule step [OF v]) (rule f)
    then show ?thesis
      unfolding foldE_append by (simp only:) (rule bindE_cong, rule k, rule run, assumption, rule v)
  qed
  have "?I w" using ch by simp
  then show ?thesis
    unfolding Channel_handleEventWithGuard_def due_callbacks_def Let_def
    by (intro chain step) (simp_all add: same_dispatch_def)
qed

lemma handleEvent_dead:
  assumes "chans w c = Some ch" "ch_tied ch" "\<And>obj. ch_tie ch = Some obj \<Longrightarrow> \<not> alive obj w"
  shows "Channel_handleEvent invoke alive c t w = Inr w"
  using assms by (auto simp: Channel_handleEvent_def split: option.splits)

lemma handleEvent_due:
  assumes "keeps_channel invoke c" "chans w c = Some ch"
  shows "Channel_handleEvent invoke alive c t w =
    (if ch_tied ch \<longrightarrow> (\<exists>obj. ch_tie ch = Some obj \<and> alive obj w)
     then foldE (\<lambda>cb. invoke cb t) (due_callbacks ch) w else Inr w)"
  using assms by (auto simp: Channel_handleEvent_def handleEventWithGuard_due split: option.splits)

subsection \<open>What the callbacks keep, the loop keeps\<close>

lemma kept_dispatch_if: "(\<And>cb. kept I (run cb)) \<Longrightarrow> kept I (dispatch_if run cond f c)"
  unfolding dispatch_if_def kept_def by (auto simp: res_simps split: if_splits option.splits)

lemma kept_handleEvent:
  assumes "\<And>cb t. kept I (invoke cb t)"
  shows "kept I (Channel_handleEvent invoke alive c t)"
proof -
  have guard: "kept I (Channel_handleEventWithGuard invoke c t)"
    unfolding Channel_handleEventWithGuard_def Let_def
    by (intro kept_bind kept_dispatch_if assms)
  then show ?thesis
    unfolding Channel_handleEvent_def kept_def
    by (auto simp: res_simps split: if_splits option.splits)
qed

lemma poller_inv_poll:
  assumes os: "epoll_ok os" "clock_ok os" and inv: "poller_inv L w"
    and res: "EPollPoller_poll os L [] w = Inr (now, active, w')"
  shows "poller_inv L w'"
proof -
  from poll_no_fault [OF os inv] res obtain evs where
    chans: "\<forall>c. chans w' c = map_option (\<lambda>ch. case map_of (rev evs) c of
       Some ev \<Rightarrow> Channel_set_revents ev ch | None \<Rightarrow> ch) (chans w c)"
    and same: "po_channels (pollers w' L) = po_channels (pollers w L)"
      "po_epollfd (pollers w' L) = po_epollfd (pollers w L)" "interest (hist w') = interest (hist w)"
    by auto
  have older: "\<exists>ch0. chans w c = Some ch0 \<and> ch_loop ch0 = ch_loop ch \<and> ch_fd ch0 = ch_fd ch \<and>
      ch_index ch0 = ch_index ch" if "chans w' c = Some ch" for c ch
    using that chans by (auto split: option.splits)
  have newer: "\<exists>ch. chans w' c = Some ch \<and> ch_loop ch0 = ch_loop ch \<and> ch_fd ch0 = ch_fd ch"
    if "chans w c = Some ch0" for c ch0
    using that chans by (auto split: option.splits)
  show ?thesis
    unfolding poller_inv_def
  proof (intro conjI allI impI)
    fix f c assume "po_channels (pollers w' L) f = Some c"
    with same poller_invD(1) [OF inv] obtain ch where "chans w c = Some ch" "ch_loop ch = L" "ch_fd ch = f"
      by auto
    with newer show "\<exists>ch. chans w' c = Some ch \<and> ch_loop ch = L \<and> ch_fd ch = f" by metis
  next
    fix c ch assume "chans w' c = Some ch" "ch_loop ch = L"
    with older obtain ch0 where ch0: "chans w c = Some ch0" "ch_loop ch0 = L" "ch_fd ch0 = ch_fd ch"
        "ch_index ch0 = ch_index ch" by metis
    with poller_invD(2) [OF inv, of c ch0] have "chan_ok L w c ch0" by blast
    with same ch0 show "chan_ok L w' c ch" by (simp add: chan_ok_def)
  next
    fix f ev c assume "interest (hist w') (po_epollfd (pollers w' L)) f = Some (ev, c)"
    with same poller_invD(3) [OF inv] show "po_channels (pollers w' L) f = Some c" by auto
  qed
qed

lemma events_keep_poller:
  assumes os: "epoll_ok os" "clock_ok os" and cb: "\<And>cb t. kept (poller_inv L) (invoke cb t)"
  shows "kept (poller_inv L) (EventLoop_events os invoke alive L)"
proof (rule keptI)
  fix w w' assume inv: "poller_inv L w" and run: "EventLoop_events os invoke alive L w = Inr w'"
  let ?w1 = "upd_loop L (\<lambda>l. l\<lparr>lp_activeChannels := []\<rparr>) w"
  from run obtain now active w2 where poll: "EPollPoller_poll os L [] ?w1 = Inr (now, active, w2)" and
    rest: "foldE (\<lambda>channel w. Channel_handleEvent invoke alive channel (lp_pollReturnTime (loops w L)) w) active
        (upd_loop L (\<lambda>l. l\<lparr>lp_pollReturnTime := now, lp_activeChannels := active\<rparr>) w2) = Inr w'"
    unfolding EventLoop_events_def Let_def by (auto simp: bindE_eq_Inr)
  have "poller_inv L w2" using poller_inv_poll [OF os _ poll] inv by simp
  moreover have "kept (poller_inv L) (\<lambda>w. Channel_handleEvent invoke alive c (lp_pollReturnTime (loops w L)) w)" for c
    using keptD [OF kept_handleEvent [where invoke = invoke, OF cb]] by (blast intro: keptI)
  ultimately show "poller_inv L w'"
    using keptD [where I = "poller_inv L", OF kept_foldE rest] by simp
qed

lemma pending_keeps_poller:
  assumes cb: "\<And>cb t. kept (poller_inv L) (invoke cb t)"
  shows "kept (poller_inv L) (EventLoop_doPendingFunctors invoke L)"
proof (rule keptI)
  fix v v' assume v: "poller_inv L v" and "EventLoop_doPendingFunctors invoke L v = Inr v'"
  then obtain x where x: "foldE (\<lambda>functor. invoke functor Timestamp_zero) (lp_pendingFunctors (loops v L))
      (upd_loop L (\<lambda>l. l\<lparr>lp_pendingFunctors := []\<rparr>)
        (upd_loop L (\<lambda>l. l\<lparr>lp_callingPendingFunctors := True\<rparr>) v)) = Inr x"
    and "v' = upd_loop L (\<lambda>l. l\<lparr>lp_callingPendingFunctors := False\<rparr>) x"
    unfolding EventLoop_doPendingFunctors_def Let_def by (auto simp: bindE_eq_Inr)
  moreover have "poller_inv L x"
    by (rule keptD [where I = "poller_inv L", OF kept_foldE x]) (simp_all add: cb v)
  ultimately show "poller_inv L v'" by simp
qed

lemma iteration_keeps_poller:
  assumes "epoll_ok os" "clock_ok os" and "\<And>cb t. kept (poller_inv L) (invoke cb t)"
  shows "kept (poller_inv L) (EventLoop_iteration os invoke alive L)"
  unfolding EventLoop_iteration_def
  using events_keep_poller [where invoke = invoke and L = L, OF assms]
    pending_keeps_poller [where invoke = invoke and L = L, OF assms(3)]
  by (rule kept_bind)

lemma runs_to_kept:
  "kept I (EventLoop_iteration os invoke alive L) \<Longrightarrow> runs_to os invoke alive L n w w' \<Longrightarrow> I w \<Longrightarrow> I w'"
  by (induction n arbitrary: w) (auto dest: keptD)

lemma loop_keeps_poller_inv:
  assumes os: "epoll_ok os" "clock_ok os" and cb: "\<And>cb t. kept (poller_inv L) (invoke cb t)"
    and inv: "poller_inv L w" and res: "EventLoop_loop os invoke alive L w = Some (Inr w')"
  shows "poller_inv L w' \<and> lp_quit (loops w' L) \<and> \<not> lp_looping (loops w' L)"
proof -
  let ?w0 = "upd_loop L (\<lambda>l. l\<lparr>lp_looping := True, lp_quit := False\<rparr>) w"
  from res obtain w1 where w1: "EventLoop_while os invoke alive L ?w0 = Some (Inr w1)"
      "w' = upd_loop L (\<lambda>l. l\<lparr>lp_looping := False\<rparr>) w1"
    unfolding EventLoop_loop_def by (auto simp: bindE_eq_Inr)
  from EventLoop_while_outcome [OF w1(1)] obtain n where
      "runs_to os invoke alive L n ?w0 w1" "lp_quit (loops w1 L)"
    by (auto simp: loop_outcome_def)
  with runs_to_kept [OF iteration_keeps_poller [where invoke = invoke and L = L, OF os cb], of alive n ?w0 w1] inv w1(2)
  show ?thesis by simp
qed

end
