(* ===== verification/Guarantees.thy ===== *)
theory Guarantees
  imports Scenario Dispatch
begin

section \<open>Guarantees: what the components promise\<close>

text \<open>
  The properties of the poller, the timer queue, the connections, the connector and the acceptor,
  each followed by its application to the running server of \<open>Scenario\<close>.
\<close>

subsection \<open>The output of a connection\<close>



subsection \<open>Timers\<close>

text \<open>C14: When the timer descriptor fires, the callbacks of exactly the timers that are due run, in the
  order of their expiration, on the world in which they have left the set; then they are deleted.
  Every other timer stays, timers added by the callbacks stay too, and the descriptor is armed for
  the earliest one that is left.  If a callback fails, so does the handler.\<close>

theorem expired_timers_run:
  assumes "clock_ok os" "timers_wf L w" "timer_callbacks_ok run L"
    and "Timestamp_now os w = Inr (now, snd (sys_gettimeofday os w))"
  shows "case foldE run (expired_callbacks L now w) (expiring os L now w) of
      Inl e \<Rightarrow> TimerQueue_handleRead os run L w = Inl e
    | Inr w5 \<Rightarrow> \<exists>w'. TimerQueue_handleRead os run L w = Inr w' \<and> timers_wf L w' \<and>
        timers_armed L w' \<and> tq_entries L w' = tq_entries L w5 \<and>
        {e \<in> set (tq_entries L w). now < fst e} \<subseteq> set (tq_entries L w') \<and>
        (\<forall>p. timers w' p = (if \<exists>e \<in> set (tq_entries L w). fst e \<le> now \<and> snd e = p then None
                            else timers w5 p))"
  by (rule handleRead_ok [OF assms])

lemma expired_timers_run_witness:
  "\<exists>w'. TimerQueue_handleRead sim_os (\<lambda>_. Inr) 0 ex_world = Inr w' \<and> timers_wf 0 w' \<and>
    timers_armed 0 w' \<and> timers w' 10 = None \<and> timers w' 11 = Some (ex_timer 2000000000 2)"
proof -
  let ?w = "expiring sim_os 0 (Timestamp 1000000000) ex_world"
  have run: "timer_callbacks_ok (\<lambda>_. Inr) 0"
    by (simp add: timer_callbacks_ok_def adds_timers_only_refl)
  have keep: "timers ?w 11 = Some (ex_timer 2000000000 2)"
    by (simp add: tq_entries_expiring)
  from expired_timers_run [OF sim_os_ok(1) ex_timers_wf run ex_now]
  obtain w' where "TimerQueue_handleRead sim_os (\<lambda>_. Inr) 0 ex_world = Inr w'" "timers_wf 0 w'" "timers_armed 0 w'"
    and "\<forall>p. timers w' p = (if \<exists>e \<in> set (tq_entries 0 ex_world). fst e \<le> Timestamp 1000000000 \<and> snd e = p
         then None else timers ?w p)"
    by auto
  with keep show ?thesis by (simp add: ex_entries)
qed

text \<open>C22: Adding a timer keeps the queue sorted and every entry pointing to its timer, and the descriptor
  is armed for the earliest timer afterwards: no timer added in the loop is ever slept through.\<close>

theorem added_timer_armed:
  assumes "clock_ok os" "timers_wf L w" "timers_armed L w"
    and "timers w p = Some t" "p \<noteq> -1" "sane_time (tm_expiration t)"
  shows "\<exists>w'. TimerQueue_addTimerInLoop os L p w = Inr w' \<and> timers_wf L w' \<and> timers_armed L w' \<and>
    set (tq_entries L w') = insert (tm_expiration t, p) (set (tq_entries L w))"
  using addTimerInLoop_ok [OF assms] by blast

lemma added_timer_armed_witness:
  "\<exists>w'. TimerQueue_addTimerInLoop sim_os 0 12 ex_world = Inr w' \<and> timers_wf 0 w' \<and> timers_armed 0 w'"
  using added_timer_armed [OF sim_os_ok(1) ex_timers_wf ex_timers_armed, of 12 "ex_timer 3000000000 3"]
  by (simp add: sane_time_def micros_def ex_timer_def) blast

subsection \<open>The poller\<close>



text \<open>C23: After a channel is removed, neither the poller nor the kernel knows it any more, so its memory
  can be released, and everything else stays consistent.\<close>

theorem removeChannel_forgets:
  assumes "EPollPoller_removeChannel os L c w = Inr w'" "epoll_ok os" "poller_inv L w"
    and "chans w c = Some ch" "ch_loop ch = L"
    and "ch_index ch = kNew \<Longrightarrow> po_channels (pollers w L) (ch_fd ch) = None"
  shows "poller_inv L (w'\<lparr>chans := (chans w')(c := None)\<rparr>) \<and>
    interest (hist w') (po_epollfd (pollers w' L)) f \<noteq> Some (ev, c)"
  using removeChannel_inv [OF assms] poller_inv_delete_chan by blast

lemma removeChannel_forgets_witness:
  "\<exists>w'. EPollPoller_removeChannel sim_os 0 20 ex_world = Inr w' \<and>
    poller_inv 0 (w'\<lparr>chans := (chans w')(20 := None)\<rparr>) \<and> interest (hist w') 3 7 \<noteq> Some (kReadEvent, 20)"
proof -
  obtain w' where "EPollPoller_removeChannel sim_os 0 20 ex_world = Inr w'" "po_epollfd (pollers w' 0) = 3"
    by (simp add: EPollPoller_removeChannel_def EPollPoller_update_def sys_epoll_ctl_def Let_def
        sim_epoll_ctl_def ex_interest deref_def bindE_def upd_chan_def upd_poller_def)
  then show ?thesis
    using removeChannel_forgets [OF _ sim_os_ok(4) ex_poller_inv, of 20 w' ex_ch 7 kReadEvent]
    by (simp add: ex_ch_def kAdded_def kNew_def)
qed



subsection \<open>Reading and buffering\<close>

text \<open>C21: A read of a connection appends exactly the bytes that the socket delivered to the input buffer,
  however they were split between the buffer and the 64 KiB on the stack, and then calls the message
  callback if there were any, closes the connection at end of file, and only reports an error.\<close>

theorem handleRead_receives:
  assumes "readv_ok os" "conn_rel w c cn ch" "buffer_room extrabuf_size (cn_inputBuffer cn)"
    and "os_readv os (hist w) (cn_socket cn) (readv_iov (cn_inputBuffer cn)) = r"
  shows "\<exists>inp w1. conn_rel w1 c (cn\<lparr>cn_inputBuffer := inp\<rparr>) ch \<and>
    content inp = content (cn_inputBuffer cn) @ (case r of Inl _ \<Rightarrow> [] | Inr bs \<Rightarrow> bs) \<and>
    length (buf_bytes inp) \<le> length (buf_bytes (cn_inputBuffer cn)) + extrabuf_size \<and>
    w1 = upd_conn c (\<lambda>cn. cn\<lparr>cn_inputBuffer := inp\<rparr>)
      (w\<lparr>hist := hist w @ [Readv (cn_socket cn) (readv_iov (cn_inputBuffer cn)) r]\<rparr>) \<and>
    TcpConnection_handleRead os env c t w =
      (case r of Inr bs \<Rightarrow> if bs \<noteq> [] then call_message env c t w1 else TcpConnection_handleClose os env c w1
       | Inl _ \<Rightarrow> TcpConnection_handleError os c w1)"
  by (rule conn_handleRead_ok [OF assms])

definition sim_data_os :: "byte list \<Rightarrow> os" where
  "sim_data_os d = sim_os\<lparr>os_readv := (\<lambda>h f lens. Inr (take (sum_list lens) d))\<rparr>"

lemma sim_data_ok: "readv_ok (sim_data_os d)" "epoll_ok (sim_data_os d)" "write_ok (sim_data_os d)"
  by (auto simp: readv_ok_def sim_data_os_def intro!: epoll_ok_sim write_ok_sim)

lemma ex_iov: "readv_iov ex_buffer = [0, 65535]"
  by (simp add: readv_iov_def ex_buffer_def writableBytes_def vec_size_def extrabuf_size_def)

lemma handleRead_receives_witness:
  "\<exists>inp w1. conn_rel w1 0 (ex_cn\<lparr>cn_inputBuffer := inp\<rparr>) ex_ch \<and> content inp = [4, 2] \<and>
    TcpConnection_handleRead (sim_data_os [4, 2]) ex_env 0 (Timestamp 5) ex_world = call_message ex_env 0 (Timestamp 5) w1"
proof -
  have "os_readv (sim_data_os [4, 2]) (hist ex_world) (cn_socket ex_cn) (readv_iov (cn_inputBuffer ex_cn)) = Inr [4, 2]"
    by (simp add: sim_data_os_def ex_cn_def ex_iov)
  from handleRead_receives [OF sim_data_ok(1) ex_conn_rel _ this, of ex_env "Timestamp 5"]
  show ?thesis by (auto simp: ex_cn_def)
qed


definition ex_moved :: buffer where
  "ex_moved = \<lparr>buf_bytes = replicate 16 0, buf_reader = 12, buf_writer = 14\<rparr>"


subsection \<open>The life of a connection\<close>

text \<open>C36: A second close event (both \<open>EPOLLHUP\<close> and a read of zero bytes call \<open>handleClose\<close>, which has no
  guard) puts the descriptor back into the kernel's interest list, with an empty mask, and runs the
  callbacks again: the poller adds a deleted channel whatever its mask is.\<close>

theorem handleClose_twice_rewatches:
  assumes "epoll_ok os" "conn_rel w c cn ch" "ch_index ch = kDeleted"
    and "os_epoll_ctl os (hist w) (po_epollfd (pollers w (cn_loop cn))) EPOLL_CTL_ADD
      (cn_socket cn) kNoneEvent (cn_channel cn) = Inr ()"
  shows "\<exists>w1. TcpConnection_handleClose os env c w
        = bindE (call_connection env c w1) (call_close env c) \<and>
    interest (hist w1) (po_epollfd (pollers w1 (cn_loop cn))) (cn_socket cn) = Some (kNoneEvent, cn_channel cn)"
  by (rule handleClose_again [OF assms])

lemma handleClose_twice_rewatches_witness:
  "\<exists>w1. TcpConnection_handleClose sim_os ex_env 3 ex_world
        = bindE (call_connection ex_env 3 w1) (call_close ex_env 3) \<and>
    interest (hist w1) (po_epollfd (pollers w1 0)) 12 = Some (kNoneEvent, 7)"
  using handleClose_twice_rewatches [OF sim_os_ok(4) ex_closed_rel, of ex_env]
  by (simp add: sim_epoll_ctl_def ex_interest)



subsection \<open>Connecting\<close>

text \<open>A connect in progress is watched for writing, with the connector's own callbacks, and the
  channel of an earlier attempt is gone.\<close>

lemma connecting_watches:
  assumes "epoll_ok os" "connector_rel w k c" "ct_state c \<noteq> Ct_kConnecting"
    and "chans w (al_channel al (chans w)) = None" "po_channels (pollers w (ct_loop c)) sockfd = None"
    and "Connector_connecting os al k sockfd w = Inr w'"
  shows "\<exists>c'. connector_rel w' k c' \<and> ct_state c' = Ct_kConnecting \<and> ct_loop c' = ct_loop c \<and>
    interest (hist w') (po_epollfd (pollers w' (ct_loop c))) sockfd
      = Some (kWriteEvent, al_channel al (chans w))"
  by (rule Connector_connecting_ok [OF assms])

lemma connecting_watches_example:
  "\<exists>w' c'. Connector_connecting sim_os ex_alloc 1 15 ex_world = Inr w' \<and> connector_rel w' 1 c' \<and>
    ct_state c' = Ct_kConnecting \<and> interest (hist w') (po_epollfd (pollers w' 0)) 15 = Some (kWriteEvent, 50)"
proof -
  obtain w' where "Connector_connecting sim_os ex_alloc 1 15 ex_world = Inr w'"
    by (simp add: Connector_connecting_def Connector_setState_def upd_connector_def drop_channel_def
        ex_connector_def ex_alloc_def Channel_enableWriting_def Channel_update_def EventLoop_updateChannel_def
        EPollPoller_updateChannel_def EPollPoller_update_def sys_epoll_ctl_def Let_def upd_chan_def
        sim_epoll_ctl_def ex_interest deref_def bindE_def Channel_new_def kNew_def add_events_def)
  then show ?thesis
    using connecting_watches [OF sim_os_ok(4) ex_idle_connector_rel, of ex_alloc 15 w']
    by (auto simp: ex_connector_def ex_alloc_def)
qed

text \<open>C28: When the connecting socket becomes writable, the connector first stops watching it; then it
  retries if \<open>SO_ERROR\<close> tells of an error or cannot be read, or if the socket is connected to itself;
  otherwise it is connected and hands the descriptor to its callback exactly if it still wants to
  connect, closing it otherwise.\<close>

theorem connector_handleWriter_outcome:
  assumes "epoll_ok os" "connector_rel w k c" "ct_state c = Ct_kConnecting"
    and "\<forall>h f. os_getsockopt_error os h f \<noteq> Inl 0"
    and "ct_channel c = Some p" "chans w p = Some ch" "ch_fd ch = f"
  shows "\<exists>w1 w2 w4 ch1. chans w1 = (chans w)(p \<mapsto> ch1) \<and>
    interest (hist w1) (po_epollfd (pollers w1 (ct_loop c))) f = None \<and>
    po_channels (pollers w1 (ct_loop c)) f = None \<and> poller_inv (ct_loop c) w1 \<and>
    po_epollfd (pollers w1 (ct_loop c)) = po_epollfd (pollers w (ct_loop c)) \<and>
    loops w1 = (loops w)(ct_loop c := (loops w (ct_loop c))\<lparr>lp_pendingFunctors :=
      lp_pendingFunctors (loops w (ct_loop c)) @ [Bind_Connector_resetChannel k]\<rparr>) \<and>
    loop_world.more w1 = loop_world.more w \<and> (\<forall>f. calm f (ct_loop c) w \<longrightarrow> calm f (ct_loop c) w4) \<and>
    w2 = w1\<lparr>hist := hist w1 @ [Getsockopt_error f (os_getsockopt_error os (hist w1) f)]\<rparr> \<and>
    w4 = w2\<lparr>hist := hist w4\<rparr> \<and> interest (hist w4) = interest (hist w1) \<and>
    Connector_handleWriter os al nc k w =
      (if os_getsockopt_error os (hist w1) f \<noteq> Inr 0 then Connector_retry os al k f w2
       else if self_connected os (hist w2) f then Connector_retry os al k f w4
       else let w5 = Connector_setState k Ct_kConnected w4 in
         if ct_connect c
         then (case ct_newConnectionCallback c of None \<Rightarrow> Inl Bad_Function_Call
               | Some cl \<Rightarrow> nc cl f w5)
         else Inr (snd (sys_close os f w5))) \<and> ch1 = Channel_set_index kNew (clear_events ch) \<and>
    current_tid w1 = current_tid w \<and> po_capacity (pollers w1 (ct_loop c)) = po_capacity (pollers w (ct_loop c))"
  by (rule handleWriter_ok [OF assms])

lemma connector_handleWriter_outcome_witness:
  "\<exists>(w1 :: client_world) w4. interest (hist w1) 3 9 = None \<and> po_channels (pollers w1 0) 9 = None \<and>
    w4 = w1\<lparr>hist := hist w4\<rparr> \<and>
    Connector_handleWriter sim_os ex_alloc (\<lambda>_ _. Inr) 0 ex_world = Inr (Connector_setState 0 Ct_kConnected w4)"
proof -
  let ?c = "ex_connector Ct_kConnecting (Some 3)" and ?nc = "\<lambda>_ _. Inr"
  have c: "ct_state ?c = Ct_kConnecting" "ct_loop ?c = 0" "ct_connect ?c" "ct_newConnectionCallback ?c = Some 0"
    "ct_channel ?c = Some 3" by (simp_all add: ex_connector_def)
  have err: "\<forall>h f. os_getsockopt_error sim_os h f \<noteq> Inl 0" by simp
  obtain ch where ch: "chans ex_world 3 = Some ch" "ch_fd ch = 9" by simp
  have no_self: "\<not> self_connected sim_os h 9" for h by (simp add: self_connected_def addr_or_zero_def)
  show ?thesis
    using connector_handleWriter_outcome [OF sim_os_ok(4) ex_connector_rel c(1) err c(5) ch, of ex_alloc ?nc]
  proof (elim exE conjE, goal_cases)
    case (1 w1 w2 w4 ch1)
    have "w4 = w1\<lparr>hist := hist w4\<rparr>" using 1(9,10) by simp
    moreover have "Connector_handleWriter sim_os ex_alloc ?nc 0 ex_world = Inr (Connector_setState 0 Ct_kConnected w4)"
      using 1(12) no_self by (simp add: c Let_def)
    ultimately show ?case using 1(2,3,5) by (intro exI [of _ w1] exI [of _ w4]) (simp add: c)
  qed
qed

text \<open>C37: A second \<open>start\<close> while a connect is in progress releases the channel of the first attempt
  although the poller and the kernel still point to it: the next event of that socket is dispatched to
  freed memory.\<close>

theorem connector_start_twice_dangles:
  assumes "connector_rel w k c" "ct_state c = Ct_kConnecting" "ct_connect c"
    and "ct_channel c = Some p" "chans w p = Some ch" "chans w (al_channel al (chans w)) = None"
    and "os_socket os (hist w) = Inr f" "f \<noteq> ch_fd ch"
    and "\<forall>h. os_connect os h f (ct_serverAddr c) = Inl EINPROGRESS"
    and "Connector_startInLoop os al k w = Inr w'"
  shows "chans w' p = None \<and> po_channels (pollers w' (ct_loop c)) (ch_fd ch) = Some p \<and>
    (\<exists>ev. interest (hist w') (po_epollfd (pollers w' (ct_loop c))) (ch_fd ch) = Some (ev, p))"
  using startInLoop_twice [OF assms] by blast

lemma connector_start_twice_dangles_witness:
  "\<exists>w'. Connector_startInLoop sim_os ex_alloc 0 ex_world = Inr w' \<and> chans w' 3 = None \<and>
    po_channels (pollers w' 0) 9 = Some 3"
proof -
  define h where "h = ex_hist @ [Socket (Inr 109), Connect 109 (1, 1) (Inl EINPROGRESS)]"
  have watched: "interest h 3 109 = None" by (simp add: h_def ex_interest)
  have "Connector_startInLoop sim_os ex_alloc 0 ex_world
      = Connector_connecting sim_os ex_alloc 0 109 (ex_world\<lparr>hist := h\<rparr>)"
    by (simp add: Connector_startInLoop_def Connector_connect_def Connector_createNonblocking_def
        sys_socket_def sys_connect_def connect_action_of_def EINPROGRESS_def EINTR_def EISCONN_def
        ex_connector_def Let_def deref_def h_def ex_hist_def ex_added_def)
  moreover obtain w' where "Connector_connecting sim_os ex_alloc 0 109 (ex_world\<lparr>hist := h\<rparr>) = Inr w'"
    by (simp add: Connector_connecting_def Connector_setState_def upd_connector_def drop_channel_def
        ex_connector_def ex_alloc_def Channel_enableWriting_def Channel_update_def EventLoop_updateChannel_def
        EPollPoller_updateChannel_def EPollPoller_update_def sys_epoll_ctl_def Let_def upd_chan_def
        sim_epoll_ctl_def watched deref_def bindE_def Channel_new_def kNew_def add_events_def)
  ultimately obtain w' where "Connector_startInLoop sim_os ex_alloc 0 ex_world = Inr w'" by simp
  then show ?thesis
    using connector_start_twice_dangles [OF ex_connector_rel, of 3 "the (ex_chans 3)" ex_alloc sim_os 109 w']
    by (auto simp: ex_connector_def ex_alloc_def ex_hist_def ex_added_def)
qed

subsection \<open>The dispatch of events\<close>

text \<open>C17: \<open>Channel::handleEvent\<close>, with its four tests of \<open>revents_\<close> that read the channel again after every
  callback, is equivalent to the reference that lists the due callbacks once, in the order close,
  error, read, write, and runs the list, as long as the callbacks leave the channel's events and
  callbacks alone; a tied channel whose object is gone runs none.\<close>

theorem handleEvent_runs_due_callbacks:
  assumes "keeps_channel run c" "chans w c = Some ch"
  shows "Channel_handleEvent run alive c t w =
    (if ch_tied ch \<longrightarrow> (\<exists>obj. ch_tie ch = Some obj \<and> alive obj w)
     then foldE (\<lambda>cb. run cb t) (due_callbacks ch) w else Inr w)"
  by (rule handleEvent_due [OF assms])

text \<open>A peer that has hung up while the socket is writable; the callbacks count the calls.\<close>

definition ex_hup :: channel where
  "ex_hup = (Channel_new 0 7)\<lparr>ch_revents := EPOLLHUP OR EPOLLOUT, ch_tied := True, ch_tie := Some 0,
     ch_readCallback := Some (Bind_TcpConnection_handleRead 0), ch_writeCallback := Some (Bind_TcpConnection_handleWrite 0),
     ch_closeCallback := Some (Bind_TcpConnection_handleClose 0), ch_errorCallback := Some (Bind_TcpConnection_handleError 0)\<rparr>"

definition ex_count :: "closure \<Rightarrow> timestamp \<Rightarrow> client_world \<Rightarrow> client_world result" where
  "ex_count cb t w = Inr (w\<lparr>s_numCreated := s_numCreated w + 1\<rparr>)"

lemma handleEvent_runs_due_callbacks_witness:
  "Channel_handleEvent ex_count conn_alive 20 (Timestamp 5) (ex_world\<lparr>chans := [20 \<mapsto> ex_hup]\<rparr>)
     = Inr (ex_world\<lparr>chans := [20 \<mapsto> ex_hup], s_numCreated := 5\<rparr>)"
proof -
  let ?w = "ex_world\<lparr>chans := [20 \<mapsto> ex_hup]\<rparr>"
  have keeps: "keeps_channel ex_count 20" by (auto simp: keeps_channel_def kept_def ex_count_def)
  have due: "due_callbacks ex_hup = [Bind_TcpConnection_handleClose 0, Bind_TcpConnection_handleWrite 0]"
    by (simp add: due_callbacks_def due_def ex_hup_def Channel_new_def wants_close_def wants_error_def
        wants_read_def wants_write_def epoll_flags)
  have tie: "ch_tied ex_hup" "ch_tie ex_hup = Some 0" "conn_alive 0 ?w"
    by (simp_all add: ex_hup_def conn_alive_def ex_world_def)
  have num: "s_numCreated ex_world = 3" by (simp add: ex_world_def)
  from handleEvent_runs_due_callbacks [OF keeps, of ?w ex_hup conn_alive "Timestamp 5"] tie
  show ?thesis by (simp add: due ex_count_def num)
qed

subsection \<open>Queued functors\<close>

definition ex_busy :: client_world where
  "ex_busy = upd_loop 0 (\<lambda>l. l\<lparr>lp_pendingFunctors := [Bind_user 0]\<rparr>) ex_world"

definition ex_wk_busy :: "closure wk" where
  "ex_wk_busy = \<lparr>wk_pending = [Bind_user 0], wk_efd = 0, wk_calling = False, wk_quit = False,
     wk_pc = Dispatch False, wk_prod = (\<lambda>_. Idle), wk_queued = [Bind_user 0], wk_run = [], wk_early = False\<rparr>"

lemma ex_wk_sim: "wk_sim 0 ex_busy ex_wk_busy"
  by (simp add: wk_sim_def ex_busy_def ex_wk_busy_def ex_loop_def efd_count_def ex_hist_def ex_added_def)


text \<open>An event descriptor whose reads fail while its counter is zero.\<close>

definition sim_eventfd_os :: os where
  "sim_eventfd_os = sim_os\<lparr>os_read := (\<lambda>h f n. if efd_count h f = 0 then Inl EAGAIN else Inr (replicate n 0))\<rparr>"

lemma queueInLoop_refines_witness:
  "\<exists>s1 s2. wk_step ex_wk_busy s1 \<and> wk_step s1 s2 \<and>
    wk_sim 0 (EventLoop_queueInLoop sim_eventfd_os 0 (Bind_user 4) (ex_busy\<lparr>current_tid := 2\<rparr>)) s2 \<and>
    wk_queued s2 = [Bind_user 0, Bind_user 4]"
proof -
  have "wk_sim 0 (ex_busy\<lparr>current_tid := 2\<rparr>) ex_wk_busy"
    using ex_wk_sim by (simp add: wk_sim_def)
  moreover have "eventfd_ok sim_eventfd_os f" for f
    by (simp add: eventfd_ok_def sim_eventfd_os_def one_bytes_def)
  moreover have "\<not> isInLoopThread 0 (ex_busy\<lparr>current_tid := 2\<rparr>)"
    by (simp add: isInLoopThread_def ex_busy_def ex_loop_def)
  ultimately show ?thesis
    using queueInLoop_refines [of 0 "ex_busy\<lparr>current_tid := 2\<rparr>" ex_wk_busy sim_eventfd_os 0 "Bind_user 4"]
    by (auto simp: ex_wk_busy_def)
qed

end
