(* ===== verification/BufferQueue.thy ===== *)
theory BufferQueue
  imports Buffer
begin

section \<open>BufferQueue: any sequence of operations on a buffer\<close>

text \<open>
  A buffer as its users see it: any sequence of the public operations of \<open>Buffer.h\<close>, against a plain list
  of bytes.  \<open>Take\<close> and \<open>Take_all\<close> are \<open>retrieveAsString\<close> and \<open>retrieveAllAsString\<close>.
\<close>

datatype buffer_op =
    Append "byte list"
  | Ensure size_t
  | Retrieve size_t
  | Retrieve_all
  | Take size_t
  | Take_all

text \<open>One operation: the bytes it returns, and the buffer after it.\<close>

fun buffer_step :: "buffer_op \<Rightarrow> buffer \<Rightarrow> (byte list \<times> buffer) result" where
  "buffer_step (Append data) b = bindE (append_bytes data (of_nat (length data)) b) (\<lambda>b'. Inr ([], b'))"
| "buffer_step (Ensure len) b = bindE (ensureWritableBytes len b) (\<lambda>b'. Inr ([], b'))"
| "buffer_step (Retrieve len) b = Inr ([], retrieve len b)"
| "buffer_step Retrieve_all b = Inr ([], retrieveAll b)"
| "buffer_step (Take len) b = retrieveAsString len b"
| "buffer_step Take_all b = retrieveAllAsString b"

fun buffer_run :: "buffer_op list \<Rightarrow> buffer \<Rightarrow> (byte list list \<times> buffer) result" where
  "buffer_run [] b = Inr ([], b)"
| "buffer_run (x # xs) b =
     bindE (buffer_step x b) (\<lambda>(out, b1).
     bindE (buffer_run xs b1) (\<lambda>(outs, b2). Inr (out # outs, b2)))"

subsection \<open>The reference\<close>

fun queue_step :: "buffer_op \<Rightarrow> byte list \<Rightarrow> byte list \<times> byte list" where
  "queue_step (Append data) q = ([], q @ data)"
| "queue_step (Ensure len) q = ([], q)"
| "queue_step (Retrieve len) q = ([], drop (unat len) q)"
| "queue_step Retrieve_all q = ([], [])"
| "queue_step (Take len) q = (take (unat len) q, drop (unat len) q)"
| "queue_step Take_all q = (q, [])"

fun queue_run :: "buffer_op list \<Rightarrow> byte list \<Rightarrow> byte list list \<times> byte list" where
  "queue_run [] q = ([], q)"
| "queue_run (x # xs) q =
     (case queue_step x q of (out, q1) \<Rightarrow> case queue_run xs q1 of (outs, q2) \<Rightarrow> (out # outs, q2))"

text \<open>\<open>retrieveAsString\<close> must not ask for more than there is; what an operation may need of the vector.\<close>

fun op_valid :: "buffer_op \<Rightarrow> byte list \<Rightarrow> bool" where
  "op_valid (Take len) q = (unat len \<le> length q)"
| "op_valid _ q = True"

fun ops_valid :: "buffer_op list \<Rightarrow> byte list \<Rightarrow> bool" where
  "ops_valid [] q = True"
| "ops_valid (x # xs) q = (op_valid x q \<and> ops_valid xs (snd (queue_step x q)))"

fun op_size :: "buffer_op \<Rightarrow> nat" where
  "op_size (Append data) = length data"
| "op_size (Ensure len) = unat len"
| "op_size _ = 0"

subsection \<open>Refinement\<close>

lemma retrieve_writer:
  assumes "wf_buffer b"
  shows "unat (buf_writer (retrieve len b)) \<le> unat (buf_writer b)" "unat (buf_writer (retrieveAll b)) \<le> unat (buf_writer b)"
  using assms by (auto simp: retrieve_def retrieveAll_def wf_buffer_def)

lemma take_ok:
  assumes b: "wf_buffer b" and len: "unat len \<le> length (content b)"
  shows "retrieveAsString len b = Inr (take (unat len) (content b), retrieve len b)"
proof -
  have "length (content b) \<le> max_size" using b by (auto simp: length_content wf_buffer_def)
  then show ?thesis using len peek_content [OF b len] by (simp add: retrieveAsString_def)
qed

lemma take_all_ok: "wf_buffer b \<Longrightarrow> retrieveAllAsString b = Inr (content b, retrieve (readableBytes b) b)"
  using take_ok [of b "readableBytes b"] by (simp add: retrieveAllAsString_def unat_readableBytes)

lemma buffer_step_refines:
  assumes b: "wf_buffer b" and room: "unat (buf_writer b) + op_size x \<le> max_size" and v: "op_valid x (content b)"
  shows "\<exists>b'. buffer_step x b = Inr (fst (queue_step x (content b)), b') \<and> wf_buffer b' \<and>
    content b' = snd (queue_step x (content b)) \<and> unat (buf_writer b') \<le> unat (buf_writer b) + op_size x"
proof (cases x)
  case (Append data)
  have n: "unat (of_nat (length data) :: size_t) = length data"
    using room Append by (intro unat_of_nat_small) (simp add: max_size_def)
  from append_bytes_ok [OF b n] room Append obtain b' where
    b': "append_bytes data (of_nat (length data)) b = Inr b'" "wf_buffer b'" "content b' = content b @ data" by auto
  then show ?thesis using append_bytes_writer [OF b b'(1)] n by (simp add: Append)
next
  case (Ensure len)
  from ensureWritableBytes_ok [OF b] room Ensure obtain b' where
    b': "ensureWritableBytes len b = Inr b'" "wf_buffer b'" "content b' = content b" by auto
  then show ?thesis using ensureWritableBytes_writer [OF b b'(1)] by (simp add: Ensure)
qed (use b v retrieve_writer [OF b] in
  \<open>simp_all add: wf_retrieve wf_retrieveAll content_retrieve take_ok take_all_ok unat_readableBytes\<close>)

lemma buffer_run_refines:
  "wf_buffer b \<Longrightarrow> unat (buf_writer b) + sum_list (map op_size xs) \<le> max_size \<Longrightarrow> ops_valid xs (content b) \<Longrightarrow>
    \<exists>b'. buffer_run xs b = Inr (fst (queue_run xs (content b)), b') \<and> wf_buffer b' \<and>
      content b' = snd (queue_run xs (content b))"
proof (induction xs arbitrary: b)
  case (Cons x xs)
  have "unat (buf_writer b) + op_size x \<le> max_size" using Cons.prems(2) by simp
  from buffer_step_refines [OF Cons.prems(1) this] Cons.prems(3) obtain b1 where
    b1: "buffer_step x b = Inr (fst (queue_step x (content b)), b1)" "wf_buffer b1"
      "content b1 = snd (queue_step x (content b))" "unat (buf_writer b1) \<le> unat (buf_writer b) + op_size x" by auto
  have "unat (buf_writer b1) + sum_list (map op_size xs) \<le> max_size" using Cons.prems(2) b1(4) by simp
  from Cons.IH [OF b1(2) this] Cons.prems(3) b1(3) obtain b2 where
    "buffer_run xs b1 = Inr (fst (queue_run xs (content b1)), b2)" "wf_buffer b2" "content b2 = snd (queue_run xs (content b1))"
    by auto
  then show ?case using b1(1,3) by (simp add: case_prod_beta)
qed simp

subsection \<open>The representation\<close>

text \<open>
  Whatever is asked of a buffer, if the operation returns, the two indices and the vector are as the comment
  in \<open>Buffer.h\<close> draws them.  The one exception is a call of \<open>ensureWritableBytes\<close> with an argument so large
  that the sum with the writer index wraps.
\<close>

lemma ensure_shape:
  assumes b: "wf_buffer b" and e: "ensureWritableBytes len b = Inr b'"
  shows "8 \<le> unat (buf_reader b')" "unat (buf_reader b') \<le> unat (buf_writer b')" "length (buf_bytes b') \<le> max_size"
    "unat len \<le> max_size \<Longrightarrow> wf_buffer b'"
proof -
  have moved: "unat (kCheapPrepend + readableBytes b) = 8 + (unat (buf_writer b) - unat (buf_reader b))"
    using b unat_readableBytes [OF b] length_content [OF b]
    by (subst unat_add_small) (auto simp: wf_buffer_def max_size_def)
  have grown: "unat (buf_writer b + len) = unat (buf_writer b) + unat len" if "unat len \<le> max_size"
    using b that by (intro unat_add_small) (auto simp: wf_buffer_def max_size_def)
  show "8 \<le> unat (buf_reader b')" "unat (buf_reader b') \<le> unat (buf_writer b')" "length (buf_bytes b') \<le> max_size"
    using b e moved
    by (auto simp: ensureWritableBytes_def makeSpace_def vec_resize_def copy_within_def Let_def wf_buffer_def
        res_simps split: if_splits)
  show "wf_buffer b'" if "unat len \<le> max_size"
    using b e moved grown [OF that]
    by (auto simp: ensureWritableBytes_def makeSpace_def vec_resize_def copy_within_def Let_def wf_buffer_def
        res_simps split: if_splits)
qed

lemma append_wf:
  assumes b: "wf_buffer b" and a: "append_bytes data len b = Inr b'"
  shows "wf_buffer b'"
proof -
  from a obtain b1 where b1: "ensureWritableBytes len b = Inr b1" "unat len \<le> length data"
    "unat (buf_writer b1) + unat len \<le> length (buf_bytes b1)"
    "buf_reader b' = buf_reader b1" "buf_writer b' = buf_writer b1 + len" "length (buf_bytes b') = length (buf_bytes b1)"
    by (auto simp: append_bytes_def copy_in_def res_simps split: if_splits)
  note shape = ensure_shape(1-3) [OF b b1(1)]
  have "unat (buf_writer b1 + len) = unat (buf_writer b1) + unat len"
    using b1(3) shape(3) by (intro unat_add_small) (simp add: max_size_def)
  then show ?thesis using b1(3-6) shape by (simp add: wf_buffer_def)
qed

lemma buffer_step_wf:
  assumes "wf_buffer b" "buffer_step x b = Inr (out, b')" "\<And>len. x = Ensure len \<Longrightarrow> unat len \<le> max_size"
  shows "wf_buffer b'"
proof (cases x)
  case (Append data)
  then show ?thesis using assms(2) append_wf [OF assms(1)] by (auto simp: res_simps)
next
  case (Ensure len)
  then show ?thesis using assms(2) ensure_shape(4) [OF assms(1)] assms(3) by (auto simp: res_simps)
qed (use assms(1,2) in \<open>auto simp: wf_retrieve wf_retrieveAll retrieveAsString_def retrieveAllAsString_def res_simps
  split: if_splits\<close>)

fun op_sane :: "buffer_op \<Rightarrow> bool" where
  "op_sane (Ensure len) = (unat len \<le> max_size)"
| "op_sane _ = True"

lemma buffer_run_wf:
  "wf_buffer b \<Longrightarrow> list_all op_sane xs \<Longrightarrow> buffer_run xs b = Inr (outs, b') \<Longrightarrow> wf_buffer b'"
proof (induction xs arbitrary: b outs)
  case (Cons x xs)
  from Cons.prems(3) obtain out b1 outs' where
    r: "buffer_step x b = Inr (out, b1)" "buffer_run xs b1 = Inr (outs', b')" by (auto simp: res_simps)
  have "wf_buffer b1" by (rule buffer_step_wf [OF Cons.prems(1) r(1)]) (use Cons.prems(2) in simp)
  from Cons.IH [OF this _ r(2)] Cons.prems(2) show ?case by simp
qed simp

lemma Buffer_new_wf:
  assumes "unat n \<le> max_size" "Buffer_new n = Inr b"
  shows "wf_buffer b"
proof -
  have "unat (kCheapPrepend + n) = 8 + unat n"
    using assms(1) by (subst unat_add_small) (auto simp: max_size_def)
  then show ?thesis using assms(2) by (auto simp: Buffer_new_def vec_resize_def wf_buffer_def res_simps split: if_splits)
qed

subsection \<open>Properties\<close>

text \<open>C31: A buffer behaves as an unbounded list of bytes: any sequence of its operations, from its
  constructor on, returns what the list returns and leaves what the list holds, through every growth of
  the vector and every move of the readable bytes to its front, as long as what is put in altogether does
  not pass the largest size of a vector.\<close>

theorem buffer_refines_queue:
  assumes "unat n + 8 \<le> max_size" "8 + sum_list (map op_size xs) \<le> max_size" "ops_valid xs []"
  shows "\<exists>b b'. Buffer_new n = Inr b \<and> buffer_run xs b = Inr (fst (queue_run xs []), b') \<and>
    content b' = snd (queue_run xs [])"
proof -
  from Buffer_new_ok [OF assms(1)] obtain b where b: "Buffer_new n = Inr b" "wf_buffer b" "content b = []" by blast
  have "unat (buf_writer b) = 8" using b(1) by (auto simp: Buffer_new_def res_simps)
  with buffer_run_refines [OF b(2), of xs] assms(2,3) b(1,3) show ?thesis by auto
qed

text \<open>A small buffer that has to move, to grow, and to give back everything.\<close>

definition ex_ops :: "buffer_op list" where
  "ex_ops = [Append [1, 2, 3, 4, 5, 6], Take 4, Append [7, 8, 9], Retrieve 1, Ensure 20, Append [10], Take_all]"

lemma buffer_refines_queue_witness:
  "\<exists>b b'. Buffer_new 6 = Inr b \<and> buffer_run ex_ops b = Inr ([[], [1, 2, 3, 4], [], [], [], [], [6, 7, 8, 9, 10]], b') \<and>
    content b' = []"
  using buffer_refines_queue [of 6 ex_ops] by (simp add: ex_ops_def max_size_def)



end
