(* ===== verification/LoopThread.thy ===== *)
theory LoopThread
  imports Prelude
begin

section \<open>LoopThread: starting and stopping the thread of an event loop\<close>

text \<open>
  \<open>src/src/EventLoopThread.h\<close>, \<open>EventLoopThread.cc\<close>, \<open>Thread.h\<close>, \<open>Thread.cc\<close>: the owner of an
  \<open>EventLoopThread\<close> starts a thread, waits until its loop exists, uses the loop, and in the
  destructor quits and joins.  The thread constructs the loop on its stack, runs the
  initialization callback, publishes the pointer \<open>loop_\<close> under \<open>mutex_\<close>, loops, withdraws the
  pointer and ends; the loop object ends with it.  The steps are the accesses to what the two
  share: the semaphore of \<open>Thread::start\<close>, \<open>loop_\<close>, \<open>quit_\<close> of the loop, the life of the loop
  object, the end of the thread.  Somebody else who got the pointer may call \<open>quit()\<close>
  (\<open>stranger\<close>).
\<close>

datatype owner_pc =
    O_created | O_sem_wait | O_cond_wait | O_running | O_quitting | O_joining | O_finished

datatype thread_pc =
    T_none | T_spawned | T_constructing | T_callback | T_publishing | T_entering | T_looping
  | T_withdrawing | T_destroying | T_dead

record lt =
  lt_owner :: owner_pc
  lt_thread :: thread_pc
  lt_sem :: bool
  lt_loop :: bool          \<comment> \<open>\<open>loop_ != nullptr\<close>\<close>
  lt_alive :: bool         \<comment> \<open>the \<open>EventLoop\<close> object exists\<close>
  lt_initialized :: bool   \<comment> \<open>the initialization callback has run\<close>
  lt_quit :: bool
  lt_stranger :: bool      \<comment> \<open>somebody other than the destructor has called \<open>quit()\<close>\<close>
  lt_uaf :: bool           \<comment> \<open>the destructor called \<open>quit()\<close> on a loop that was gone\<close>

inductive lt_step :: "lt \<Rightarrow> lt \<Rightarrow> bool" where
  thread_start: "lt_owner s = O_created \<Longrightarrow> lt_thread s = T_none \<Longrightarrow>
     lt_step s (s\<lparr>lt_owner := O_sem_wait, lt_thread := T_spawned\<rparr>)"
| sem_post: "lt_thread s = T_spawned \<Longrightarrow> lt_step s (s\<lparr>lt_sem := True, lt_thread := T_constructing\<rparr>)"
| sem_wait: "lt_owner s = O_sem_wait \<Longrightarrow> lt_sem s \<Longrightarrow> lt_step s (s\<lparr>lt_owner := O_cond_wait\<rparr>)"
| construct: "lt_thread s = T_constructing \<Longrightarrow>
     lt_step s (s\<lparr>lt_alive := True, lt_quit := False, lt_thread := T_callback\<rparr>)"
| callback: "lt_thread s = T_callback \<Longrightarrow>
     lt_step s (s\<lparr>lt_initialized := True, lt_thread := T_publishing\<rparr>)"
| publish: "lt_thread s = T_publishing \<Longrightarrow> lt_step s (s\<lparr>lt_loop := True, lt_thread := T_entering\<rparr>)"
| cond_wait: "lt_owner s = O_cond_wait \<Longrightarrow> lt_loop s \<Longrightarrow> lt_step s (s\<lparr>lt_owner := O_running\<rparr>)"
| loop_enter: "lt_thread s = T_entering \<Longrightarrow> lt_step s (s\<lparr>lt_quit := False, lt_thread := T_looping\<rparr>)"
| loop_leave: "lt_thread s = T_looping \<Longrightarrow> lt_quit s \<Longrightarrow> lt_step s (s\<lparr>lt_thread := T_withdrawing\<rparr>)"
| withdraw: "lt_thread s = T_withdrawing \<Longrightarrow> lt_step s (s\<lparr>lt_loop := False, lt_thread := T_destroying\<rparr>)"
| destroy: "lt_thread s = T_destroying \<Longrightarrow> lt_step s (s\<lparr>lt_alive := False, lt_thread := T_dead\<rparr>)"
| stranger: "lt_owner s = O_running \<Longrightarrow> lt_alive s \<Longrightarrow>
     lt_step s (s\<lparr>lt_quit := True, lt_stranger := True\<rparr>)"
| dtor_check: "lt_owner s = O_running \<Longrightarrow>
     lt_step s (s\<lparr>lt_owner := (if lt_loop s then O_quitting else O_finished)\<rparr>)"
| dtor_quit: "lt_owner s = O_quitting \<Longrightarrow>
     lt_step s (s\<lparr>lt_quit := True, lt_uaf := \<not> lt_alive s, lt_owner := O_joining\<rparr>)"
| dtor_join: "lt_owner s = O_joining \<Longrightarrow> lt_thread s = T_dead \<Longrightarrow>
     lt_step s (s\<lparr>lt_owner := O_finished\<rparr>)"

definition lt_init :: lt where
  "lt_init = \<lparr>lt_owner = O_created, lt_thread = T_none, lt_sem = False, lt_loop = False,
     lt_alive = False, lt_initialized = False, lt_quit = False, lt_stranger = False, lt_uaf = False\<rparr>"

subsection \<open>The invariant\<close>

definition before_publish :: "thread_pc \<Rightarrow> bool" where
  "before_publish t \<longleftrightarrow> t \<in> {T_none, T_spawned, T_constructing, T_callback, T_publishing}"

definition lt_inv :: "lt \<Rightarrow> bool" where
  "lt_inv s \<longleftrightarrow>
     (lt_alive s \<longleftrightarrow> lt_thread s \<in> {T_callback, T_publishing, T_entering, T_looping, T_withdrawing, T_destroying}) \<and>
     (lt_initialized s \<longleftrightarrow> lt_thread s \<notin> {T_none, T_spawned, T_constructing, T_callback}) \<and>
     (lt_loop s \<longleftrightarrow> lt_thread s \<in> {T_entering, T_looping, T_withdrawing}) \<and>
     (lt_owner s \<in> {O_running, O_quitting, O_joining, O_finished} \<longrightarrow> \<not> before_publish (lt_thread s)) \<and>
     (lt_owner s \<in> {O_created, O_sem_wait, O_cond_wait} \<longrightarrow> \<not> lt_quit s \<and> \<not> lt_stranger s \<and> \<not> lt_uaf s) \<and>
     (\<not> lt_stranger s \<longrightarrow> \<not> lt_uaf s \<and>
        (lt_owner s \<in> {O_running, O_quitting} \<longrightarrow> \<not> lt_quit s \<and> lt_thread s \<in> {T_entering, T_looping})) \<and>
     (lt_owner s \<in> {O_created, O_sem_wait, O_cond_wait} \<longrightarrow>
        lt_thread s \<in> {T_none, T_spawned, T_constructing, T_callback, T_publishing, T_entering, T_looping})"

lemma lt_init_inv: "lt_inv lt_init"
  by (simp add: lt_inv_def lt_init_def before_publish_def)

lemma lt_step_inv:
  assumes "lt_step s t" "lt_inv s"
  shows "lt_inv t"
  using assms(1)
proof (cases rule: lt_step.cases)
  case thread_start
  then show ?thesis
    using assms(2) by (auto simp: lt_inv_def before_publish_def)
next
  case sem_post
  then show ?thesis
    using assms(2) by (auto simp: lt_inv_def before_publish_def)
next
  case sem_wait
  then show ?thesis
    using assms(2) by (auto simp: lt_inv_def before_publish_def)
next
  case construct
  then show ?thesis
    using assms(2) by (auto simp: lt_inv_def before_publish_def)
next
  case callback
  then show ?thesis
    using assms(2) by (auto simp: lt_inv_def before_publish_def)
next
  case publish
  then show ?thesis
    using assms(2) by (auto simp: lt_inv_def before_publish_def)
next
  case cond_wait
  then show ?thesis
    using assms(2) by (cases "lt_owner s"; cases "lt_thread s") (simp_all add: lt_inv_def before_publish_def)
next
  case loop_enter
  then show ?thesis
    using assms(2) by (auto simp: lt_inv_def before_publish_def)
next
  case loop_leave
  then show ?thesis
    using assms(2) by (cases "lt_owner s"; cases "lt_thread s") (simp_all add: lt_inv_def before_publish_def)
next
  case withdraw
  then show ?thesis
    using assms(2) by (auto simp: lt_inv_def before_publish_def)
next
  case destroy
  then show ?thesis
    using assms(2) by (auto simp: lt_inv_def before_publish_def)
next
  case stranger
  then show ?thesis
    using assms(2) by (auto simp: lt_inv_def before_publish_def)
next
  case dtor_check
  then show ?thesis
    using assms(2) by (cases "lt_owner s"; cases "lt_thread s") (simp_all add: lt_inv_def before_publish_def)
next
  case dtor_quit
  then show ?thesis
    using assms(2) by (auto simp: lt_inv_def before_publish_def)
next
  case dtor_join
  then show ?thesis
    using assms(2) by (auto simp: lt_inv_def before_publish_def)
qed

lemma lt_invD:
  assumes "lt_inv s"
  shows "lt_loop s \<Longrightarrow> lt_alive s \<and> lt_initialized s"
    and "\<not> lt_stranger s \<Longrightarrow> \<not> lt_uaf s"
    and "\<not> lt_stranger s \<Longrightarrow> lt_owner s = O_running \<Longrightarrow> lt_loop s"
    and "\<not> lt_stranger s \<Longrightarrow> lt_owner s = O_quitting \<Longrightarrow> lt_alive s"
  using assms
  by (cases "lt_thread s"; simp add: lt_inv_def before_publish_def)+

interpretation lt: transition_system "\<lambda>s. s = lt_init" lt_step lt_inv
  by unfold_locales (auto intro: lt_init_inv lt_step_inv)

text \<open>A run as a list of states, for concrete executions.\<close>

fun lt_path :: "lt \<Rightarrow> lt list \<Rightarrow> bool" where
  "lt_path s [] = True"
| "lt_path s (t # ts) = (lt_step s t \<and> lt_path t ts)"

lemma lt_path_steps: "lt_path s ts \<Longrightarrow> lt_step\<^sup>*\<^sup>* s (last (s # ts))"
proof (induction ts arbitrary: s)
  case (Cons t ts)
  then have "lt_step s t" "lt_step\<^sup>*\<^sup>* t (last (t # ts))" by simp_all
  then show ?case by (simp add: converse_rtranclp_into_rtranclp)
qed simp

subsection \<open>Concrete runs\<close>

text \<open>Up to the point where \<open>startLoop\<close> has returned and the thread is about to loop.\<close>

definition ex_lt_running :: lt where
  "ex_lt_running = \<lparr>lt_owner = O_running, lt_thread = T_entering, lt_sem = True, lt_loop = True,
     lt_alive = True, lt_initialized = True, lt_quit = False, lt_stranger = False, lt_uaf = False\<rparr>"

lemma ex_lt_waiting:
  "lt_step\<^sup>*\<^sup>* lt_init (ex_lt_running\<lparr>lt_owner := O_cond_wait\<rparr>)"
proof -
  let ?s1 = "lt_init\<lparr>lt_owner := O_sem_wait, lt_thread := T_spawned\<rparr>"
  let ?s2 = "?s1\<lparr>lt_sem := True, lt_thread := T_constructing\<rparr>"
  let ?s3 = "?s2\<lparr>lt_owner := O_cond_wait\<rparr>"
  let ?s4 = "?s3\<lparr>lt_alive := True, lt_quit := False, lt_thread := T_callback\<rparr>"
  let ?s5 = "?s4\<lparr>lt_initialized := True, lt_thread := T_publishing\<rparr>"
  let ?s6 = "?s5\<lparr>lt_loop := True, lt_thread := T_entering\<rparr>"
  have "lt_step lt_init ?s1" by (rule lt_step.thread_start) (simp_all add: lt_init_def)
  moreover have "lt_step ?s1 ?s2" by (rule lt_step.sem_post) simp
  moreover have "lt_step ?s2 ?s3" by (rule lt_step.sem_wait) simp_all
  moreover have "lt_step ?s3 ?s4" by (rule lt_step.construct) simp
  moreover have "lt_step ?s4 ?s5" by (rule lt_step.callback) simp
  moreover have "lt_step ?s5 ?s6" by (rule lt_step.publish) simp
  ultimately have "lt_path lt_init [?s1, ?s2, ?s3, ?s4, ?s5, ?s6]" by simp
  from lt_path_steps [OF this] show ?thesis by (simp add: lt_init_def ex_lt_running_def)
qed

lemma ex_lt_returns: "lt_step (ex_lt_running\<lparr>lt_owner := O_cond_wait\<rparr>) ex_lt_running"
  using lt_step.cond_wait [of "ex_lt_running\<lparr>lt_owner := O_cond_wait\<rparr>"]
  by (simp add: ex_lt_running_def)

lemma ex_lt_run: "lt_step\<^sup>*\<^sup>* lt_init ex_lt_running"
  using ex_lt_waiting ex_lt_returns by (rule rtranclp.rtrancl_into_rtrancl)

subsection \<open>Properties\<close>

text \<open>C29: When \<open>startLoop\<close> returns, the pointer it returns is that of a loop that exists and whose
  initialization callback has run, for every interleaving of the two threads.\<close>

theorem startLoop_returns_live_loop:
  assumes "lt_step\<^sup>*\<^sup>* lt_init s" "lt_step s t" "lt_owner s = O_cond_wait" "lt_owner t = O_running"
  shows "lt_alive t \<and> lt_initialized t \<and> lt_loop t"
proof -
  have "lt_loop t"
    using assms(2) by (cases rule: lt_step.cases) (use assms(3,4) in auto)
  moreover have "lt_inv t"
    using lt.reachable_inv [OF refl assms(1)] lt_step_inv [OF assms(2)] by blast
  ultimately show ?thesis using lt_invD(1) by blast
qed

lemma startLoop_returns_live_loop_witness: "lt_alive ex_lt_running \<and> lt_initialized ex_lt_running"
  using startLoop_returns_live_loop [OF ex_lt_waiting ex_lt_returns]
  by (simp add: ex_lt_running_def)

text \<open>C30: As long as nobody else has called \<open>quit()\<close>, the destructor of \<open>EventLoopThread\<close> calls it on
  a loop that exists, and does not skip the join.\<close>

theorem dtor_quits_live_loop:
  assumes "lt_step\<^sup>*\<^sup>* lt_init s" "\<not> lt_stranger s"
  shows "\<not> lt_uaf s \<and> (lt_owner s = O_running \<longrightarrow> lt_loop s) \<and> (lt_owner s = O_quitting \<longrightarrow> lt_alive s)"
  using lt_invD [OF lt.reachable_inv [OF refl assms(1)]] assms(2) by blast

lemma dtor_quits_live_loop_witness: "\<not> lt_uaf ex_lt_running \<and> lt_loop ex_lt_running"
  using dtor_quits_live_loop [OF ex_lt_run] by (simp add: ex_lt_running_def)

text \<open>C40: The destructor can hang.  If it quits the loop before the thread has entered \<open>loop()\<close>,
  \<open>loop()\<close> resets the flag; the owner then waits in \<open>join()\<close> for a loop that nobody tells to stop:
  no step is possible any more.\<close>

theorem dtor_deadlock:
  "\<exists>s. lt_step\<^sup>*\<^sup>* lt_init s \<and> \<not> lt_stranger s \<and> lt_owner s = O_joining \<and> lt_thread s = T_looping \<and>
     \<not> (\<exists>t. lt_step s t)"
proof -
  let ?s1 = "ex_lt_running\<lparr>lt_owner := O_quitting\<rparr>"
  let ?s2 = "?s1\<lparr>lt_quit := True, lt_uaf := \<not> lt_alive ?s1, lt_owner := O_joining\<rparr>"
  let ?s3 = "?s2\<lparr>lt_quit := False, lt_thread := T_looping\<rparr>"
  have "lt_step ex_lt_running ?s1"
    using lt_step.dtor_check [of ex_lt_running] by (simp add: ex_lt_running_def)
  moreover have "lt_step ?s1 ?s2" by (rule lt_step.dtor_quit) simp
  moreover have "lt_step ?s2 ?s3" by (rule lt_step.loop_enter) (simp add: ex_lt_running_def)
  ultimately have "lt_path ex_lt_running [?s1, ?s2, ?s3]" by simp
  from lt_path_steps [OF this] ex_lt_run have "lt_step\<^sup>*\<^sup>* lt_init ?s3" by simp
  moreover have "\<not> lt_step ?s3 t" for t
    by (auto simp: ex_lt_running_def elim: lt_step.cases)
  ultimately show ?thesis
    by (intro exI [of _ ?s3]) (simp add: ex_lt_running_def)
qed

end
