(* ===== verification/Threads.thy ===== *)
theory Threads
  imports InetAddr
begin

section \<open>Threads: the cached thread id and the names of threads\<close>

text \<open>
  \<open>src/src/CurrentThread.h\<close>, \<open>src/src/CurrentThread.cc\<close> and the bookkeeping of \<open>src/src/Thread.h\<close>
  and \<open>src/src/Thread.cc\<close>.  \<open>cached\<close> is the thread-local \<open>t_cachedTid\<close> of every thread, \<open>gettid\<close>
  the system call.  How a thread starts and ends is in the theory of the loop thread.
\<close>

subsection \<open>CurrentThread\<close>

type_synonym tid_cache = "nat \<Rightarrow> int"

definition cacheTid :: "(nat \<Rightarrow> int) \<Rightarrow> nat \<Rightarrow> tid_cache \<Rightarrow> tid_cache" where
  "cacheTid gettid t cached = (if cached t = 0 then cached(t := gettid t) else cached)"

definition CurrentThread_tid :: "(nat \<Rightarrow> int) \<Rightarrow> nat \<Rightarrow> tid_cache \<Rightarrow> int \<times> tid_cache" where
  "CurrentThread_tid gettid t cached =
     (let cached' = (if cached t = 0 then cacheTid gettid t cached else cached)
      in (cached' t, cached'))"

definition cache_inv :: "(nat \<Rightarrow> int) \<Rightarrow> tid_cache \<Rightarrow> bool" where
  "cache_inv gettid cached \<longleftrightarrow> (\<forall>t. cached t = 0 \<or> cached t = gettid t)"

text \<open>The ids read by a sequence of calls, each in some thread.\<close>

fun read_tids :: "(nat \<Rightarrow> int) \<Rightarrow> nat list \<Rightarrow> tid_cache \<Rightarrow> int list" where
  "read_tids gettid [] cached = []"
| "read_tids gettid (t # ts) cached =
     (let (r, cached') = CurrentThread_tid gettid t cached in r # read_tids gettid ts cached')"

lemma CurrentThread_tid_ok:
  assumes "cache_inv gettid cached" "CurrentThread_tid gettid t cached = (r, cached')"
  shows "r = gettid t" "cache_inv gettid cached'"
  using assms by (auto simp: CurrentThread_tid_def cacheTid_def cache_inv_def Let_def split: if_splits)

lemma read_tids_ok: "cache_inv gettid cached \<Longrightarrow> read_tids gettid ts cached = map gettid ts"
proof (induction ts arbitrary: cached)
  case (Cons t ts)
  obtain r cached' where "CurrentThread_tid gettid t cached = (r, cached')" by fastforce
  with CurrentThread_tid_ok [OF Cons.prems this] Cons.IH show ?case by simp
qed simp

subsection \<open>Thread\<close>

record thread =
  th_started :: bool
  th_joined :: bool
  th_detached :: bool
  th_name :: string

text \<open>\<open>setDefaultName\<close>: the counter is atomic and wraps; an empty name becomes \<open>Thread<n>\<close>.\<close>

definition default_name :: "int32 \<Rightarrow> string" where
  "default_name num = snprintf_buf 32 (''Thread'' @ dec_int (sint num))"

definition Thread_new :: "string \<Rightarrow> int32 \<Rightarrow> thread \<times> int32" where
  "Thread_new name numCreated =
     (let num = numCreated + 1
      in (\<lparr>th_started = False, th_joined = False, th_detached = False,
           th_name = (if name = [] then default_name num else name)\<rparr>, num))"

definition Thread_start :: "thread \<Rightarrow> thread" where
  "Thread_start t = t\<lparr>th_started := True\<rparr>"

definition Thread_join :: "thread \<Rightarrow> thread" where
  "Thread_join t = t\<lparr>th_joined := True\<rparr>"

definition Thread_dtor :: "thread \<Rightarrow> thread" where
  "Thread_dtor t = (if th_started t \<and> \<not> th_joined t then t\<lparr>th_detached := True\<rparr> else t)"

lemma default_name_inj: "default_name m = default_name n \<longleftrightarrow> m = n"
proof -
  have fits: "length (''Thread'' @ dec_int (sint (x :: int32))) < 32" for x
    using dec_int_length [of "sint x"] sint_range [of x] by simp
  have "default_name x = ''Thread'' @ dec_int (sint x)" for x
    using fits [of x] by (simp add: default_name_def snprintf_buf_def)
  then show ?thesis by (simp add: dec_int_inj sint_eq_iff)
qed

text \<open>\<open>n\<close> threads created without a name, one after the other.\<close>

fun default_names :: "nat \<Rightarrow> int32 \<Rightarrow> string list" where
  "default_names 0 num = []"
| "default_names (Suc n) num =
     (let (t, num') = Thread_new [] num in th_name t # default_names n num')"

lemma default_names_map: "default_names n num = map (\<lambda>i. default_name (num + 1 + of_nat i)) [0 ..< n]"
proof (induction n arbitrary: num)
  case (Suc n)
  have "default_names (Suc n) num
      = default_name (num + 1) # map (\<lambda>i. default_name (num + 1 + 1 + of_nat i)) [0 ..< n]"
    by (simp add: Thread_new_def Suc Let_def)
  also have "map (\<lambda>i. default_name (num + 1 + 1 + of_nat i)) [0 ..< n]
      = map (\<lambda>i. default_name (num + 1 + of_nat i)) (map Suc [0 ..< n])"
    by (simp add: ac_simps)
  finally show ?case by (simp add: upt_conv_Cons map_Suc_upt del: upt_Suc)
qed simp

lemma default_names_distinct: "n < 2 ^ 32 \<Longrightarrow> distinct (default_names n num)"
  unfolding default_names_map distinct_map
proof
  assume n: "n < 2 ^ 32"
  show "inj_on (\<lambda>i. default_name (num + 1 + of_nat i)) (set [0 ..< n])"
  proof (rule inj_onI)
    fix i j assume "i \<in> set [0 ..< n]" "j \<in> set [0 ..< n]"
      and "default_name (num + 1 + of_nat i) = default_name (num + 1 + of_nat j)"
    then have eq: "(of_nat i :: int32) = of_nat j" and less: "i < 2 ^ 32" "j < 2 ^ 32"
      using n by (simp_all add: default_name_inj)
    have "unat (of_nat i :: int32) = i" "unat (of_nat j :: int32) = j"
      using less by (intro unat_of_nat_small, simp)+
    with eq show "i = j" by metis
  qed
qed simp

end
