(* ===== verification/ClientLife.thy ===== *)
theory ClientLife
  imports System
begin

section \<open>ClientLife: from a connector to a connection and back\<close>

text \<open>
  What \<open>TcpClient::newConnection\<close> and \<open>removeConnection\<close> (\<open>src/src/TcpClient.cc\<close>) achieve, alone and
  at the end of the chains of calls that lead to them: the write event of a connector whose connect
  has succeeded, and the close event of the client's connection.
\<close>

lemma upd_client_simps [simp]:
  "clients (upd_client i g w) = (clients w)(i := map_option g (clients w i))"
  "conns (upd_client i g w) = conns w" "chans (upd_client i g w) = chans w"
  "pollers (upd_client i g w) = pollers w" "hist (upd_client i g w) = hist w"
  "loops (upd_client i g w) = loops w" "current_tid (upd_client i g w) = current_tid w"
  "connectors (upd_client i g w) = connectors w" "memory (upd_client i g w) = memory w"
  by (simp_all add: upd_client_def)

lemma setCloseCallback_simps [simp]:
  "conns (TcpConnection_setCloseCallback c cb w) = (conns w)(c := map_option (cn_closeCallback_update (\<lambda>_. Some cb)) (conns w c))"
  "chans (TcpConnection_setCloseCallback c cb w) = chans w" "pollers (TcpConnection_setCloseCallback c cb w) = pollers w"
  "hist (TcpConnection_setCloseCallback c cb w) = hist w" "loops (TcpConnection_setCloseCallback c cb w) = loops w"
  "current_tid (TcpConnection_setCloseCallback c cb w) = current_tid w"
  "conn_world.more (TcpConnection_setCloseCallback c cb w) = conn_world.more w"
  by (simp_all add: TcpConnection_setCloseCallback_def upd_conn_def)

lemma setCloseCallback_client_simps [simp]:
  "clients (TcpConnection_setCloseCallback c cb w) = clients w"
  "connectors (TcpConnection_setCloseCallback c cb w) = connectors w"
  "clients (upd_conn c g w) = clients w" "connectors (upd_conn c g w) = connectors w"
  by (simp_all add: TcpConnection_setCloseCallback_def upd_conn_def)

lemma client_frameD:
  fixes w w' :: "'w client_world_scheme"
  assumes "conn_world.more w' = conn_world.more w"
  shows "clients w' = clients w" "connectors w' = connectors w"
  using assms by (cases w; cases w'; simp)+

lemma poller_inv_upd_client [simp]: "poller_inv L (upd_client i g w) = poller_inv L w"
  by (rule poller_inv_cong) simp_all

lemma next_id_ok:
  assumes "0 \<le> sint (n :: int32)" "sint n < 2 ^ 31 - 1"
  shows "\<exists>n' :: int32. s_int (sint n + 1) = Inr n' \<and> sint n' = sint n + 1"
proof -
  have "\<exists>n' :: int32. s_int (sint n + 1) = Inr n'" using assms by (auto simp: s_int_def)
  then show ?thesis by (auto simp: s_int_eq_Inr)
qed

subsection \<open>A new connection\<close>

text \<open>The connection is built, with its callbacks set and known to the client, before it is established.\<close>

lemma client_newConnection_built:
  fixes w :: "'w client_world_scheme"
  assumes cl: "clients w i = Some cl" "0 \<le> sint (cl_nextConnId cl)" "sint (cl_nextConnId cl) < 2 ^ 31 - 1"
    and peer: "os_getpeername os (hist w) f = Inr pa"
    and local: "os_getsockname os (hist w @ [Getpeername f (Inr pa)]) f = Inr la"
    and fresh: "chans w (al_channel al (chans w)) = None"
    and fd: "poller_inv (cl_loop cl) w" "po_channels (pollers w (cl_loop cl)) f = None"
      "lp_wakeupFd (loops w (cl_loop cl)) \<noteq> f"
  shows "\<exists>w1 cn ch nextId. TcpClient_newConnection os al env i f w
      = TcpConnection_connectEstablished os env (al_conn al (conns w)) w1 \<and>
    conn_fresh w1 (al_conn al (conns w)) cn ch \<and> conn_added (al_conn al (conns w)) cn ch w w1 \<and>
    cn_loop cn = cl_loop cl \<and> cn_socket cn = f \<and> cn_channel cn = al_channel al (chans w) \<and>
    cn_connectionCallback cn = cl_connectionCallback cl \<and> cn_messageCallback cn = cl_messageCallback cl \<and>
    cn_closeCallback cn = Some (Bind_TcpClient_removeConnection i) \<and>
    hist w1 = hist w @ [Getpeername f (Inr pa), Getsockname f (Inr la), Setsockopt f SO_KEEPALIVE True] \<and>
    sint nextId = sint (cl_nextConnId cl) + 1 \<and>
    clients w1 = (clients w)(i \<mapsto> cl\<lparr>cl_nextConnId := nextId, cl_connection := Some (al_conn al (conns w))\<rparr>) \<and>
    connectors w1 = connectors w"
proof -
  let ?L = "cl_loop cl" and ?c = "al_conn al (conns w)" and ?p = "al_channel al (chans w)"
  let ?name = "client_conn_name cl pa (sint (cl_nextConnId cl))"
  from next_id_ok [OF cl(2,3)] obtain nextId :: int32 where
    n: "s_int (sint (cl_nextConnId cl) + 1) = Inr nextId" "sint nextId = sint (cl_nextConnId cl) + 1" by blast
  let ?w2 = "w\<lparr>hist := hist w @ [Getpeername f (Inr pa), Getsockname f (Inr la)]\<rparr>"
  have steps: "sys_getpeername os f w = (Inr pa, w\<lparr>hist := hist w @ [Getpeername f (Inr pa)]\<rparr>)"
    "sys_getsockname os f (w\<lparr>hist := hist w @ [Getpeername f (Inr pa)]\<rparr>) = (Inr la, ?w2)"
    using peer local by (simp_all add: sys_defs Let_def)
  have inv2: "poller_inv ?L ?w2" using fd(1) poller_inv_cong [of ?w2 w ?L] by simp
  have pre: "chans ?w2 ?p = None" "po_channels (pollers ?w2 ?L) f = None" "lp_wakeupFd (loops ?w2 ?L) \<noteq> f"
    using fresh(1) fd(2,3) by simp_all
  from TcpConnection_ctor_fresh [OF inv2 pre, of ?c ?name la pa] obtain w3 cn ch where w3:
    "TcpConnection_ctor ?c ?p ?L ?name f la pa ?w2 = Inr w3" "conn_fresh w3 ?c cn ch"
    "cn_loop cn = ?L" "cn_socket cn = f" "cn_channel cn = ?p"
    "hist w3 = hist ?w2 @ [Setsockopt f SO_KEEPALIVE True]"
    "conn_world.more w3 = conn_world.more ?w2" "conn_added ?c cn ch ?w2 w3" by blast
  let ?g = "\<lambda>cn. cn\<lparr>cn_connectionCallback := cl_connectionCallback cl,
     cn_messageCallback := cl_messageCallback cl, cn_writeCompleteCallback := cl_writeCompleteCallback cl\<rparr>"
  let ?cl = "\<lambda>cl. cl\<lparr>cl_nextConnId := nextId, cl_connection := Some ?c\<rparr>"
  let ?w6 = "upd_client i ?cl (TcpConnection_setCloseCallback ?c (Bind_TcpClient_removeConnection i) (upd_conn ?c ?g w3))"
  let ?cn = "(?g cn)\<lparr>cn_closeCallback := Some (Bind_TcpClient_removeConnection i)\<rparr>"
  have eq: "TcpClient_newConnection os al env i f w = TcpConnection_connectEstablished os env ?c ?w6"
    using cl(1) n(1) steps w3(1) by (simp add: TcpClient_newConnection_def filled_addr_def Let_def)
  have c3: "conns w3 = (conns w)(?c \<mapsto> cn)" using w3(8) by (simp add: conn_added_def)
  have c6: "conns ?w6 = (conns w)(?c \<mapsto> ?cn)"
    using c3 by (simp add: TcpConnection_setCloseCallback_def)
  have rest6: "chans ?w6 = chans w3" "pollers ?w6 = pollers w3" "hist ?w6 = hist w3"
      "loops ?w6 = loops w3" "current_tid ?w6 = current_tid w3" "timerqueues ?w6 = timerqueues w3"
    by (simp_all add: TcpConnection_setCloseCallback_def upd_conn_def upd_client_def)
  have "conn_fresh ?w6 ?c ?cn ch"
    using w3(2) by (rule conn_fresh_frame) (simp_all add: c6 c3 rest6)
  moreover have "conn_added ?c ?cn ch w ?w6"
    using w3(8) unfolding conn_added_def c6 rest6 by simp
  moreover have "clients ?w6 = (clients w)(i \<mapsto> ?cl cl)" "connectors ?w6 = connectors w"
    using client_frameD [OF w3(7)] cl(1) by simp_all
  ultimately show ?thesis
    using eq w3(3-6) n(2)
    by (intro exI [of _ ?w6] exI [of _ ?cn] exI [of _ ch] exI [of _ nextId]) simp
qed

lemma client_newConnection_ok:
  fixes w :: "'w client_world_scheme"
  assumes os: "epoll_ok os" "epoll_adds os (po_epollfd (pollers w (cl_loop cl))) f"
    and cl: "clients w i = Some cl" "0 \<le> sint (cl_nextConnId cl)" "sint (cl_nextConnId cl) < 2 ^ 31 - 1"
    and peer: "os_getpeername os (hist w) f = Inr pa"
    and local: "os_getsockname os (hist w @ [Getpeername f (Inr pa)]) f = Inr la"
    and fresh: "chans w (al_channel al (chans w)) = None" "conns w (al_conn al (conns w)) = None"
    and fd: "poller_inv (cl_loop cl) w" "po_channels (pollers w (cl_loop cl)) f = None"
      "lp_wakeupFd (loops w (cl_loop cl)) \<noteq> f"
    and calm: "calm f (cl_loop cl) w"
  shows "\<exists>w1 cn ch nextId. TcpClient_newConnection os al env i f w = call_connection env (al_conn al (conns w)) w1 \<and>
    stream_inv w1 (al_conn al (conns w)) cn ch \<and> cn_state cn = kConnected \<and> cn_socket cn = f \<and>
    cn_loop cn = cl_loop cl \<and> cn_connectionCallback cn = cl_connectionCallback cl \<and>
    cn_closeCallback cn = Some (Bind_TcpClient_removeConnection i) \<and>
    interest (hist w1) (po_epollfd (pollers w1 (cl_loop cl))) f = Some (kReadEvent, cn_channel cn) \<and>
    sint nextId = sint (cl_nextConnId cl) + 1 \<and>
    clients w1 = (clients w)(i \<mapsto> cl\<lparr>cl_nextConnId := nextId, cl_connection := Some (al_conn al (conns w))\<rparr>) \<and>
    connectors w1 = connectors w"
proof -
  let ?L = "cl_loop cl" and ?c = "al_conn al (conns w)"
  from client_newConnection_built [OF cl peer local fresh(1) fd, of env] obtain w6 cn ch nextId where w6:
    "TcpClient_newConnection os al env i f w = TcpConnection_connectEstablished os env ?c w6"
    "conn_fresh w6 ?c cn ch" "conn_added ?c cn ch w w6" "cn_loop cn = ?L" "cn_socket cn = f"
    "cn_connectionCallback cn = cl_connectionCallback cl" "cn_closeCallback cn = Some (Bind_TcpClient_removeConnection i)"
    "hist w6 = hist w @ [Getpeername f (Inr pa), Getsockname f (Inr la), Setsockopt f SO_KEEPALIVE True]"
    "sint nextId = sint (cl_nextConnId cl) + 1"
    "clients w6 = (clients w)(i \<mapsto> cl\<lparr>cl_nextConnId := nextId, cl_connection := Some ?c\<rparr>)"
    "connectors w6 = connectors w" by blast
  have same6: "pollers w6 = pollers w" "loops w6 = loops w" "current_tid w6 = current_tid w"
    using w6(3) by (simp_all add: conn_added_def)
  have here: "isInLoopThread (cn_loop cn) w6" and fin: "fin_state (hist w6) (cn_socket cn) = (False, False)"
    using calm w6(4,5,8) same6 by (simp_all add: calm_def isInLoopThread_def)
  have "interest (hist w6) (po_epollfd (pollers w6 ?L)) f = None"
    using w6(2,4,5) by (intro unregistered_unwatched) (simp_all add: conn_fresh_def)
  then have add: "os_epoll_ctl os (hist w6) (po_epollfd (pollers w6 (cn_loop cn))) EPOLL_CTL_ADD
      (cn_socket cn) kReadEvent (cn_channel cn) = Inr ()"
    using os(2) w6(4,5) same6 by (simp add: epoll_adds_def)
  from connectEstablished_ok [OF os(1) w6(2) here fin add, of env] obtain w7 ch7 where
    e: "TcpConnection_connectEstablished os env ?c w6 = call_connection env ?c w7"
      "stream_inv w7 ?c (cn\<lparr>cn_state := kConnected\<rparr>) ch7"
      "interest (hist w7) (po_epollfd (pollers w6 (cn_loop cn))) (cn_socket cn)
        = Some (kReadEvent, cn_channel cn)"
      "conn_world.more w7 = conn_world.more w6"
      "po_epollfd (pollers w7 (cn_loop cn)) = po_epollfd (pollers w6 (cn_loop cn))" by blast
  show ?thesis
    using w6 e client_frameD [OF e(4)]
    by (intro exI [of _ w7] exI [of _ "cn\<lparr>cn_state := kConnected\<rparr>"] exI [of _ ch7] exI [of _ nextId]) simp
qed

subsection \<open>A connect that succeeds\<close>

lemma connector_set_simps [simp]:
  "hist (Connector_setState k s w) = hist w" "chans (Connector_setState k s w) = chans w"
  "pollers (Connector_setState k s w) = pollers w" "loops (Connector_setState k s w) = loops w"
  "current_tid (Connector_setState k s w) = current_tid w"
  "connectors (Connector_setState k s w) = (connectors w)(k := map_option (ct_state_update (\<lambda>_. s)) (connectors w k))"
  by (simp_all add: Connector_setState_def upd_connector_def)

lemma connector_set_client_simps [simp]:
  "conns (Connector_setState k s w) = conns w" "clients (Connector_setState k s w) = clients w"
  by (simp_all add: Connector_setState_def upd_connector_def)

lemma connected_connector_establishes:
  fixes w :: "'w client_world_scheme"
  assumes os: "epoll_ok os" "epoll_adds os (po_epollfd (pollers w L)) f"
      "\<forall>h. os_getsockopt_error os h f = Inr 0"
      "\<forall>h. os_getpeername os h f = Inr pa" "\<forall>h. os_getsockname os h f = Inr la" "la \<noteq> pa"
      "\<forall>h f. os_getsockopt_error os h f \<noteq> Inl 0"
    and k: "connector_rel w k c" "ct_loop c = L" "ct_state c = Ct_kConnecting" "ct_connect c"
      "ct_newConnectionCallback c = Some i" "ct_channel c = Some p" "chans w p = Some ch" "ch_fd ch = f"
    and cl: "clients w i = Some cl" "cl_loop cl = L" "0 \<le> sint (cl_nextConnId cl)"
      "sint (cl_nextConnId cl) < 2 ^ 31 - 1"
    and fresh: "\<forall>ch1. chans w (al_channel al ((chans w)(p \<mapsto> ch1))) = None" "conns w (al_conn al (conns w)) = None"
    and L: "lp_wakeupFd (loops w L) \<noteq> f" "calm f L w"
  shows "\<exists>w1 cn ch' nextId. Connector_handleWriter os al (TcpClient_newConnection os al env) k w
      = call_connection env (al_conn al (conns w)) w1 \<and>
    stream_inv w1 (al_conn al (conns w)) cn ch' \<and> cn_state cn = kConnected \<and> cn_socket cn = f \<and>
    cn_loop cn = L \<and> cn_connectionCallback cn = cl_connectionCallback cl \<and>
    cn_closeCallback cn = Some (Bind_TcpClient_removeConnection i) \<and>
    interest (hist w1) (po_epollfd (pollers w1 L)) f = Some (kReadEvent, cn_channel cn) \<and>
    sint nextId = sint (cl_nextConnId cl) + 1 \<and>
    clients w1 = (clients w)(i \<mapsto> cl\<lparr>cl_nextConnId := nextId, cl_connection := Some (al_conn al (conns w))\<rparr>) \<and>
    connectors w1 = (connectors w)(k \<mapsto> c\<lparr>ct_state := Ct_kConnected\<rparr>)"
  using handleWriter_ok [OF os(1) k(1,3) os(7) k(6,7,8), of al "TcpClient_newConnection os al env"]
proof (elim exE conjE, goal_cases)
  case (1 w1 w2 w4 ch1)
  define w5 where "w5 = Connector_setState k Ct_kConnected w4"
  have kc: "connectors w k = Some c" using k(1) by (simp add: connector_rel_def)
  have "timer_world.more w1 = timer_world.more w" using 1(7) by (cases w; cases w1; simp)
  then have more1: "conns w1 = conns w" "clients w1 = clients w" "connectors w1 = connectors w"
    by (cases w; cases w1; simp)+
  have w4: "w4 = w1\<lparr>hist := hist w4\<rparr>" using 1(9,10) by simp
  have same: "chans w5 = (chans w)(p \<mapsto> ch1)" "conns w5 = conns w" "clients w5 = clients w"
    "pollers w5 = pollers w1" "loops w5 = loops w1" "connectors w5 = (connectors w)(k \<mapsto> c\<lparr>ct_state := Ct_kConnected\<rparr>)"
    using 1(1) more1 kc unfolding w5_def by (subst w4; simp)+
  have "\<not> self_connected os (hist w2) f" using os by (simp add: self_connected_def addr_or_zero_def)
  then have eq: "Connector_handleWriter os al (TcpClient_newConnection os al env) k w
      = TcpClient_newConnection os al env i f w5"
    using 1(12) os(3) k(4,5) by (simp add: Let_def w5_def)
  have calm5: "calm f L w5" using 1(8) k(2) L(2) by (auto simp: calm_def isInLoopThread_def w5_def)
  have "interest (hist w5) = interest (hist w1)" "chans w5 = chans w1" using 1(1,11) same by (simp_all add: w5_def)
  then have inv5: "poller_inv L w5" using 1(4) k(2) same(4) poller_inv_cong [of w5 w1 L] by simp
  have add5: "epoll_adds os (po_epollfd (pollers w5 (cl_loop cl))) f" using os(2) 1(5) k(2) cl(2) same by simp
  have fresh5: "chans w5 (al_channel al (chans w5)) = None"
    using fresh(1) k(7) by (metis same(1) fun_upd_other option.distinct(1))
  have wake5: "lp_wakeupFd (loops w5 (cl_loop cl)) \<noteq> f" using 1(6) L(1) k(2) cl(2) same by simp
  have free5: "po_channels (pollers w5 (cl_loop cl)) f = None" using 1(3) k(2) cl(2) same by simp
  note r = client_newConnection_ok [OF os(1) add5 _ cl(3,4) _ _ fresh5 _ _ free5 wake5, of i pa la env]
  show ?case unfolding eq
    using r calm5 inv5 cl(1,2) os(4,5) fresh(2) by (simp add: same)
qed

subsection \<open>The end of the connection\<close>

lemma removeConnection_ok:
  fixes w :: "'w client_world_scheme"
  assumes "clients w i = Some cl"
  shows "\<exists>w1. TcpClient_removeConnection os al i c w
        = (if cl_retry cl \<and> cl_connect cl then Connector_restart os al (cl_connector cl) w1 else Inr w1) \<and>
    clients w1 = (clients w)(i \<mapsto> cl\<lparr>cl_connection := None\<rparr>) \<and> conn_frame w w1 \<and>
    lp_pendingFunctors (loops w1 (cl_loop cl))
      = lp_pendingFunctors (loops w (cl_loop cl)) @ [Bind_TcpConnection_connectDestroyed c] \<and>
    connectors w1 = connectors w"
proof -
  let ?w0 = "upd_client i (\<lambda>cl. cl\<lparr>cl_connection := None\<rparr>) w"
  let ?w1 = "EventLoop_queueInLoop os (cl_loop cl) (Bind_TcpConnection_connectDestroyed c) ?w0"
  have "conn_frame w ?w0" by (simp add: conn_frame_def)
  then have frame: "conn_frame w ?w1" using conn_frame_trans conn_frame_queueInLoop by blast
  have "loop_world.more ?w1 = loop_world.more ?w0" by simp
  then have "timer_world.more ?w1 = timer_world.more ?w0" by (cases ?w1; cases ?w0; simp)
  then have "conn_world.more ?w1 = conn_world.more ?w0" by (cases ?w1; cases ?w0; simp)
  from client_frameD [OF this] show ?thesis
    using assms frame by (intro exI [of _ ?w1]) (simp add: TcpClient_removeConnection_def Let_def)
qed

lemma client_close_ok:
  fixes w :: "'w client_world_scheme"
  assumes os: "epoll_ok os" and rel: "conn_rel w c cn ch" and opn: "conn_open cn"
    and cl: "clients w i = Some cl" "cl_loop cl = cn_loop cn"
    and cb: "cn_closeCallback cn = Some (Bind_TcpClient_removeConnection i)"
      "cn_connectionCallback cn = Some Default_connection"
  shows "\<exists>w1 w2 w3. TcpConnection_handleClose os (env_of os al ap) c w
        = (if cl_retry cl \<and> cl_connect cl then Connector_restart os al (cl_connector cl) w1 else Inr w1) \<and>
    clients w1 = (clients w)(i \<mapsto> cl\<lparr>cl_connection := None\<rparr>) \<and> connectors w1 = connectors w \<and>
    conns w1 = (conns w)(c \<mapsto> cn\<lparr>cn_state := kDisconnected\<rparr>) \<and>
    lp_pendingFunctors (loops w1 (cn_loop cn))
      = lp_pendingFunctors (loops w (cn_loop cn)) @ [Bind_TcpConnection_connectDestroyed c] \<and>
    poller_inv (cn_loop cn) w1 \<and>
    interest (hist w1) (po_epollfd (pollers w1 (cn_loop cn))) (cn_socket cn) = None \<and>
    invoke os al ap (Bind_TcpConnection_connectDestroyed c) t w1 = Inr w2 \<and>
    (\<forall>f. po_channels (pollers w2 (cn_loop cn)) f \<noteq> Some (cn_channel cn)) \<and>
    interest (hist w2) (po_epollfd (pollers w2 (cn_loop cn))) (cn_socket cn) = None \<and>
    TcpConnection_dtor os c w2 = Inr w3 \<and> poller_inv (cn_loop cn) w3 \<and>
    conns w3 c = None \<and> chans w3 (cn_channel cn) = None \<and>
    hist w3 = hist w2 @ [Close (cn_socket cn) (os_close os (hist w2) (cn_socket cn))]"
proof -
  let ?env = "env_of os al ap" and ?L = "cn_loop cn" and ?cn = "cn\<lparr>cn_state := kDisconnected\<rparr>"
  from handleClose_ok [OF os rel opn, of ?env] obtain w0 ch0 where w0:
    "TcpConnection_handleClose os ?env c w = bindE (call_connection ?env c w0) (call_close ?env c)"
    "conn_rel w0 c ?cn ch0" "ch_index ch0 = kDeleted" "conns w0 = (conns w)(c \<mapsto> ?cn)"
    "interest (hist w0) (po_epollfd (pollers w0 ?L)) (cn_socket cn) = None"
    "conn_world.more w0 = conn_world.more w" "loops w0 = loops w" by blast
  have more: "clients w0 = clients w" "connectors w0 = connectors w" using client_frameD [OF w0(6)] by simp_all
  have c0: "clients w0 i = Some cl" using cl(1) more by simp
  from removeConnection_ok [OF c0, of os al c] obtain w1 where w1:
    "TcpClient_removeConnection os al i c w0
        = (if cl_retry cl \<and> cl_connect cl then Connector_restart os al (cl_connector cl) w1 else Inr w1)"
    "clients w1 = (clients w0)(i \<mapsto> cl\<lparr>cl_connection := None\<rparr>)" "conn_frame w0 w1"
    "lp_pendingFunctors (loops w1 (cl_loop cl))
      = lp_pendingFunctors (loops w0 (cl_loop cl)) @ [Bind_TcpConnection_connectDestroyed c]"
    "connectors w1 = connectors w0" by blast
  have closed: "TcpConnection_handleClose os ?env c w = TcpClient_removeConnection os al i c w0"
    using w0(1,4) cb by (simp add: call_connection_def call_close_def env_of_def close_of_def)
  have rel1: "conn_rel w1 c ?cn ch0" using conn_rel_frame [OF w0(2) w1(3)] .
  have "ch_index ch0 \<noteq> kNew" using w0(3) by (simp add: kIndex_defs)
  from connectDestroyed_ok [OF os rel1 _ this, of ?env] obtain w2 w3 where
    "TcpConnection_connectDestroyed os ?env c w1 = Inr w2"
    "\<forall>f. po_channels (pollers w2 ?L) f \<noteq> Some (cn_channel cn)"
    "interest (hist w2) (po_epollfd (pollers w2 ?L)) (cn_socket cn) = None"
    "TcpConnection_dtor os c w2 = Inr w3" "poller_inv ?L w3" "conns w3 = (conns w1)(c := None)"
    "chans w3 = (chans w2)(cn_channel cn := None)"
    "hist w3 = hist w2 @ [Close (cn_socket cn) (os_close os (hist w2) (cn_socket cn))]" by auto
  moreover have "conns w1 = conns w0" "interest (hist w1) = interest (hist w0)" "pollers w1 = pollers w0"
    using w1(3) by (simp_all add: conn_frame_def fun_eq_iff)
  moreover have "poller_inv ?L w1" using conn_relD(7) [OF rel1] by simp
  ultimately show ?thesis
    using closed w1(1,2,4,5) w0(4,5,7) more cl(2)
    by (intro exI [of _ w1] exI [of _ w2] exI [of _ w3]) (simp add: invoke_def invoke_with_def)
qed

end
