(* ===== verification/Locality.thy ===== *)
theory Locality
  imports TcpLife Dispatch
begin

section \<open>Locality: what an operation on one connection leaves alone\<close>

text \<open>
  A connection, its channel and its descriptor belong together, and every operation of
  \<open>TcpConnection\<close> stays among them: \<open>conn_local\<close> says so for a step from one world to the next.  It
  is reflexive and transitive, so it is shown of each primitive and composed along the code.
  \<open>open_conns\<close> are the descriptors that \<open>accept\<close> has returned and nobody has closed.
\<close>

subsection \<open>Accepted descriptors\<close>

fun open_step :: "sysevent \<Rightarrow> fd set \<Rightarrow> fd set" where
  "open_step (Accept l (Inr (f, a))) S = insert f S"
| "open_step (Close f r) S = S - {f}"
| "open_step _ S = S"

definition open_conns :: "sysevent list \<Rightarrow> fd set" where
  "open_conns h = fold open_step h {}"

lemma open_conns_append [simp]: "open_conns (h @ h') = fold open_step h' (open_conns h)"
  by (simp add: open_conns_def)

subsection \<open>The loop\<close>

text \<open>
  A step of connection \<open>c\<close> keeps the identity of the loop and adds to its queue only functors that
  report on \<open>c\<close> or close it, all of which hold a reference to it.
\<close>

fun report_of :: "conn_ptr \<Rightarrow> closure \<Rightarrow> bool" where
  "report_of c (Bind_writeComplete u d) = (d = c)"
| "report_of c (Bind_highWaterMark u d n) = (d = c)"
| "report_of c (Bind_TcpConnection_forceCloseInLoop d) = (d = c)"
| "report_of c _ = False"

definition loop_local :: "conn_ptr \<Rightarrow> loop_ptr \<Rightarrow> 'w loop_world_scheme \<Rightarrow> 'w loop_world_scheme \<Rightarrow> bool" where
  "loop_local c L w w' \<longleftrightarrow> current_tid w' = current_tid w \<and>
     lp_threadId (loops w' L) = lp_threadId (loops w L) \<and>
     lp_wakeupFd (loops w' L) = lp_wakeupFd (loops w L) \<and>
     lp_wakeupChannel (loops w' L) = lp_wakeupChannel (loops w L) \<and>
     lp_quit (loops w' L) = lp_quit (loops w L) \<and> (\<forall>M. M \<noteq> L \<longrightarrow> loops w' M = loops w M) \<and>
     (\<exists>fs. lp_pendingFunctors (loops w' L) = lp_pendingFunctors (loops w L) @ fs \<and> list_all (report_of c) fs)"

lemma loop_local_refl [simp]: "loop_local c L w w"
  by (simp add: loop_local_def)

lemma loop_local_trans: "loop_local c L w1 w2 \<Longrightarrow> loop_local c L w2 w3 \<Longrightarrow> loop_local c L w1 w3"
  by (auto simp: loop_local_def)

subsection \<open>Locality\<close>

definition conn_local ::
  "loop_ptr \<Rightarrow> conn_ptr \<Rightarrow> chan_ptr \<Rightarrow> fd \<Rightarrow> 'w conn_world_scheme \<Rightarrow> 'w conn_world_scheme \<Rightarrow> bool" where
  "conn_local L c p f w w' \<longleftrightarrow>
     (\<forall>c'. c' \<noteq> c \<longrightarrow> conns w' c' = conns w c') \<and> (\<forall>p'. p' \<noteq> p \<longrightarrow> chans w' p' = chans w p') \<and>
     (\<forall>f'. f' \<noteq> f \<longrightarrow> po_channels (pollers w' L) f' = po_channels (pollers w L) f') \<and>
     po_epollfd (pollers w' L) = po_epollfd (pollers w L) \<and> po_capacity (pollers w' L) = po_capacity (pollers w L) \<and> (\<forall>M. M \<noteq> L \<longrightarrow> pollers w' M = pollers w M) \<and>
     (\<forall>e f'. e \<noteq> po_epollfd (pollers w L) \<or> f' \<noteq> f \<longrightarrow> interest (hist w') e f' = interest (hist w) e f') \<and>
     open_conns (hist w') = open_conns (hist w) \<and> loop_local c L w w' \<and>
     timerqueues w' = timerqueues w \<and> conn_world.more w' = conn_world.more w"

definition same_chan :: "channel \<Rightarrow> channel \<Rightarrow> bool" where
  "same_chan ch ch' \<longleftrightarrow> same_dispatch ch ch' \<and> ch_tie ch' = ch_tie ch \<and> ch_tied ch' = ch_tied ch \<and>
     ch_loop ch' = ch_loop ch \<and> ch_fd ch' = ch_fd ch"

definition same_at :: "chan_ptr \<Rightarrow> 'w chan_world_scheme \<Rightarrow> 'w chan_world_scheme \<Rightarrow> bool" where
  "same_at p w w' \<longleftrightarrow> (\<forall>ch. chans w p = Some ch \<longrightarrow> (\<exists>ch'. chans w' p = Some ch' \<and> same_chan ch ch'))"

lemma conn_local_refl [simp]: "conn_local L c p f w w"
  by (simp add: conn_local_def)

lemma conn_local_trans: "conn_local L c p f w1 w2 \<Longrightarrow> conn_local L c p f w2 w3 \<Longrightarrow> conn_local L c p f w1 w3"
  by (auto simp: conn_local_def intro: loop_local_trans)

lemma same_chan_refl [simp]: "same_chan ch ch"
  by (simp add: same_chan_def)

lemma same_chan_trans: "same_chan a b \<Longrightarrow> same_chan b c \<Longrightarrow> same_chan a c"
  by (simp add: same_chan_def same_dispatch_def)

lemma same_at_refl [simp]: "same_at p w w"
  by (simp add: same_at_def)

lemma same_at_trans: "same_at p w1 w2 \<Longrightarrow> same_at p w2 w3 \<Longrightarrow> same_at p w1 w3"
  by (fastforce simp: same_at_def intro: same_chan_trans)

lemma same_at_cong: "chans w' p = chans w p \<Longrightarrow> same_at p w w'"
  by (simp add: same_at_def)

subsection \<open>The primitives\<close>

lemma conn_local_sys [simp]:
  "conn_local L c p f w (snd (sys_write os f' bs w))" "conn_local L c p f w (snd (sys_readv os f' lens w))"
  "conn_local L c p f w (snd (sys_read os f' n w))"
  "conn_local L c p f w (snd (sys_shutdown os f' w))" "conn_local L c p f w (snd (sys_getsockopt_error os f' w))"
  by (simp_all add: conn_local_def sys_defs Let_def loop_local_def)

lemma conn_local_upd_conn [simp]: "conn_local L c p f w (upd_conn c g w)"
  by (simp add: conn_local_def upd_conn_def loop_local_def)

lemma conn_local_wakeup [simp]: "conn_local L c p f w (EventLoop_wakeup os L' w)"
  by (simp add: EventLoop_wakeup_def)

lemma conn_local_push:
  "report_of c cb \<Longrightarrow>
    conn_local L c p f w (upd_loop L (\<lambda>l. l\<lparr>lp_pendingFunctors := lp_pendingFunctors l @ [cb]\<rparr>) w)"
  by (simp add: conn_local_def upd_loop_def loop_local_def)

lemma conn_local_queueInLoop:
  "report_of c cb \<Longrightarrow> conn_local L c p f w (EventLoop_queueInLoop os L cb w)"
  unfolding EventLoop_queueInLoop_def Let_def
  by (auto intro: conn_local_push conn_local_trans [OF conn_local_push conn_local_wakeup])

lemma conn_local_queue_opt:
  "(\<And>f. cb = Some f \<Longrightarrow> report_of c f) \<Longrightarrow> conn_local L c p f w (queue_opt os L cb w)"
  by (simp add: queue_opt_def conn_local_queueInLoop split: option.splits)

lemma conn_local_poller_update:
  assumes "EPollPoller_update os L op p w = Inr w'" "chans w p = Some ch" "ch_fd ch = f"
  shows "conn_local L c p f w w'" "chans w' = chans w"
  using assms(3) unfolding poller_update_hist [OF assms(1,2)]
  by (cases op; simp add: conn_local_def loop_local_def)+

lemma conn_local_upd_chan [simp]: "conn_local L c p f w (upd_chan p g w)"
  by (simp add: conn_local_def upd_chan_def loop_local_def)

lemma conn_local_upd_poller:
  "(\<And>q f'. f' \<noteq> f \<Longrightarrow> po_channels (g q) f' = po_channels q f') \<Longrightarrow> (\<And>q. po_epollfd (g q) = po_epollfd q) \<Longrightarrow>
    (\<And>q. po_capacity (g q) = po_capacity q) \<Longrightarrow> conn_local L c p f w (upd_poller L g w)"
  by (simp add: conn_local_def upd_poller_def loop_local_def)

lemma same_at_upd_chan: "(\<And>ch. same_chan ch (g ch)) \<Longrightarrow> same_at p w (upd_chan p g w)"
  by (simp add: same_at_def upd_chan_def)

lemma same_chan_ops [simp]:
  "same_chan ch (add_events m ch)" "same_chan ch (del_events m ch)" "same_chan ch (clear_events ch)"
  "same_chan ch (Channel_set_index i ch)"
  by (simp_all add: same_chan_def same_dispatch_def add_events_def del_events_def clear_events_def
      Channel_set_index_def)

text \<open>One \<open>epoll_ctl\<close> after a change of the map, and the new index after it.\<close>

lemma local_update_step:
  assumes "EPollPoller_update os L op p w1 = Inr w2" "conn_local L c p f w w1" "chans w1 = chans w"
    and "chans w p = Some ch" "ch_fd ch = f"
  shows "conn_local L c p f w w2" "chans w2 = chans w"
proof -
  have "chans w1 p = Some ch" using assms(3,4) by simp
  note r = conn_local_poller_update [OF assms(1) this assms(5)]
  show "conn_local L c p f w w2" using conn_local_trans [OF assms(2) r(1)] .
  show "chans w2 = chans w" using r(2) assms(3) by simp
qed

lemma local_index_step:
  assumes "conn_local L c p f w w2" "chans w2 = chans w"
  shows "conn_local L c p f w (upd_chan p (Channel_set_index i) w2)" "same_at p w (upd_chan p (Channel_set_index i) w2)"
  using conn_local_trans [OF assms(1) conn_local_upd_chan]
    same_at_trans [OF same_at_cong [of w2 p w] same_at_upd_chan] assms(2) by auto

lemma local_map_step:
  "conn_local L c p f w (upd_poller L (\<lambda>q. q\<lparr>po_channels := (po_channels q)(f := x)\<rparr>) w)"
  by (rule conn_local_upd_poller) auto

lemma conn_local_updateChannel:
  assumes u: "EPollPoller_updateChannel os L p w = Inr w'" and ch: "chans w p = Some ch" "ch_fd ch = f"
  shows "conn_local L c p f w w'" "same_at p w w'"
proof -
  let ?w1 = "if ch_index ch = kNew then upd_poller L (\<lambda>q. q\<lparr>po_channels := (po_channels q)(f \<mapsto> p)\<rparr>) w else w"
  have reg: "conn_local L c p f w ?w1" "chans ?w1 = chans w" by (auto intro: local_map_step)
  from u ch obtain w2 where "EPollPoller_update os L EPOLL_CTL_ADD p ?w1 = Inr w2 \<and> w' = upd_chan p (Channel_set_index kAdded) w2 \<or>
      EPollPoller_update os L EPOLL_CTL_DEL p w = Inr w2 \<and> w' = upd_chan p (Channel_set_index kDeleted) w2 \<or>
      EPollPoller_update os L EPOLL_CTL_MOD p w = Inr w2 \<and> w' = w2"
    by (auto simp: EPollPoller_updateChannel_def Let_def res_simps split: if_splits)
  then consider i where "conn_local L c p f w w2" "chans w2 = chans w" "w' = upd_chan p (Channel_set_index i) w2"
    | "conn_local L c p f w w2" "chans w2 = chans w" "w' = w2"
    using local_update_step [OF _ reg ch] local_update_step [OF _ conn_local_refl refl ch] by blast
  then show "conn_local L c p f w w'" "same_at p w w'"
    by (cases; simp add: local_index_step same_at_cong)+
qed

lemma conn_local_removeChannel:
  assumes u: "EPollPoller_removeChannel os L p w = Inr w'" and ch: "chans w p = Some ch" "ch_fd ch = f"
  shows "conn_local L c p f w w'" "same_at p w w'"
proof -
  let ?w1 = "upd_poller L (\<lambda>q. q\<lparr>po_channels := (po_channels q)(f := None)\<rparr>) w"
  have reg: "conn_local L c p f w ?w1" "chans ?w1 = chans w" by (auto intro: local_map_step)
  from u ch obtain w2 where w2: "w' = upd_chan p (Channel_set_index kNew) w2"
    "w2 = ?w1 \<or> EPollPoller_update os L EPOLL_CTL_DEL p ?w1 = Inr w2"
    by (auto simp: EPollPoller_removeChannel_def Let_def res_simps split: if_splits)
  then have "conn_local L c p f w w2" "chans w2 = chans w"
    using reg local_update_step [OF _ reg ch] by blast+
  from local_index_step [OF this] show "conn_local L c p f w w'" "same_at p w w'" by (simp_all add: w2(1))
qed

text \<open>The operations of a channel that reach the poller.\<close>

lemma conn_local_Channel_update:
  assumes u: "Channel_update os p (upd_chan p g w) = Inr w'" and ch: "chans w p = Some ch" "ch_loop ch = L" "ch_fd ch = f"
    and g: "\<And>ch. ch_loop (g ch) = ch_loop ch" "\<And>ch. ch_fd (g ch) = ch_fd ch"
  shows "conn_local L c p f w w'" "(\<And>ch. same_chan ch (g ch)) \<Longrightarrow> same_at p w w'"
proof -
  let ?w = "upd_chan p g w"
  have ch1: "chans ?w p = Some (g ch)" "ch_fd (g ch) = f" using ch g by simp_all
  then have "EPollPoller_updateChannel os L p ?w = Inr w'"
    using u ch(2) g(1) by (simp add: Channel_update_def EventLoop_updateChannel_def)
  note step = conn_local_updateChannel [OF this ch1]
  show "conn_local L c p f w w'" using conn_local_trans [OF conn_local_upd_chan step(1)] .
  show "same_at p w w'" if "\<And>ch. same_chan ch (g ch)"
    using same_at_trans [OF same_at_upd_chan step(2)] that by blast
qed

lemma conn_local_Channel_remove:
  assumes u: "Channel_remove os p w = Inr w'" and ch: "chans w p = Some ch" "ch_loop ch = L" "ch_fd ch = f"
  shows "conn_local L c p f w w'" "same_at p w w'"
proof -
  have "EPollPoller_removeChannel os L p w = Inr w'"
    using u ch by (simp add: Channel_remove_def EventLoop_removeChannel_def)
  from conn_local_removeChannel [OF this ch(1,3)] show "conn_local L c p f w w'" "same_at p w w'" .
qed

subsection \<open>The other loops\<close>

text \<open>The invariant of a poller speaks only of the channels of its loop.\<close>

lemma poller_inv_other:
  assumes inv: "poller_inv M w" and same: "pollers w' M = pollers w M"
      "interest (hist w') (po_epollfd (pollers w M)) = interest (hist w) (po_epollfd (pollers w M))"
    and chans: "\<And>q ch. ch_loop ch = M \<Longrightarrow> chans w' q = Some ch \<longleftrightarrow> chans w q = Some ch"
  shows "poller_inv M w'"
proof -
  have "chan_ok M w' q ch = chan_ok M w q ch" for q ch using same by (simp add: chan_ok_def)
  then show ?thesis
    using inv chans unfolding poller_inv_def same by metis
qed

lemma conn_local_poller_other:
  assumes loc: "conn_local L c p f w w'" and inv: "poller_inv M w" and ne: "M \<noteq> L"
      "po_epollfd (pollers w M) \<noteq> po_epollfd (pollers w L)"
    and ch: "\<And>ch. chans w p = Some ch \<Longrightarrow> ch_loop ch = L" "\<And>ch. chans w' p = Some ch \<Longrightarrow> ch_loop ch = L"
  shows "poller_inv M w'"
proof (rule poller_inv_other [OF inv])
  show "pollers w' M = pollers w M" using loc ne by (simp add: conn_local_def)
  show "interest (hist w') (po_epollfd (pollers w M)) = interest (hist w) (po_epollfd (pollers w M))"
    using loc ne(2) by (simp add: conn_local_def fun_eq_iff)
  show "chans w' q = Some dh \<longleftrightarrow> chans w q = Some dh" if "ch_loop dh = M" for q dh
    using loc ch ne(1) that by (cases "q = p") (auto simp: conn_local_def)
qed

lemma open_conns_wakeup [simp]: "open_conns (hist (EventLoop_wakeup os L w)) = open_conns (hist w)"
  by (simp add: EventLoop_wakeup_def sys_write_def Let_def)

lemma queueInLoop_local_simps [simp]:
  fixes w :: "'w timer_world_scheme"
  shows "open_conns (hist (EventLoop_queueInLoop os L cb w)) = open_conns (hist w)"
    "timerqueues (EventLoop_queueInLoop os L cb w) = timerqueues w"
  by (simp_all add: EventLoop_queueInLoop_def EventLoop_wakeup_def sys_write_def Let_def upd_loop_def)

end
