(* ===== verification/ConnSteps.thy ===== *)
theory ConnSteps
  imports Locality
begin

section \<open>ConnSteps: every operation of a connection, with what it leaves alone\<close>

text \<open>
  For each operation of \<open>TcpConnection\<close> that the loop can run: it succeeds in every state of the
  connection it can meet, keeps the relation between the connection, its channel and the poller, and
  is local.  Unlike in \<open>TcpStream\<close> nothing is said of the bytes, so no assumption on the peer or on
  the order of the application's calls is needed.
\<close>

definition same_conn :: "conn \<Rightarrow> conn \<Rightarrow> bool" where
  "same_conn cn cn' \<longleftrightarrow> cn_loop cn' = cn_loop cn \<and> cn_name cn' = cn_name cn \<and> cn_socket cn' = cn_socket cn \<and>
     cn_channel cn' = cn_channel cn \<and> cn_connectionCallback cn' = cn_connectionCallback cn \<and>
     cn_messageCallback cn' = cn_messageCallback cn \<and> cn_closeCallback cn' = cn_closeCallback cn"

definition conn_step ::
  "conn_ptr \<Rightarrow> 'w conn_world_scheme \<Rightarrow> conn \<Rightarrow> 'w conn_world_scheme \<Rightarrow> conn \<Rightarrow> channel \<Rightarrow> bool" where
  "conn_step c w cn w' cn' ch' \<longleftrightarrow> conn_rel w' c cn' ch' \<and> same_conn cn cn' \<and>
     conn_local (cn_loop cn) c (cn_channel cn) (cn_socket cn) w w' \<and> same_at (cn_channel cn) w w'"

lemma same_conn_refl [simp]: "same_conn cn cn"
  by (simp add: same_conn_def)

lemma same_conn_trans: "same_conn a b \<Longrightarrow> same_conn b c \<Longrightarrow> same_conn a c"
  by (simp add: same_conn_def)

lemma same_conn_upd [simp]:
  "same_conn cn (cn\<lparr>cn_inputBuffer := b\<rparr>)" "same_conn cn (cn\<lparr>cn_outputBuffer := b\<rparr>)"
  "same_conn cn (cn\<lparr>cn_state := s\<rparr>)"
  by (simp_all add: same_conn_def)

lemma conn_step_refl: "conn_rel w c cn ch \<Longrightarrow> conn_step c w cn w cn ch"
  by (simp add: conn_step_def)

lemma conn_step_trans:
  "conn_step c w cn w1 cn1 ch1 \<Longrightarrow> conn_step c w1 cn1 w2 cn2 ch2 \<Longrightarrow> conn_step c w cn w2 cn2 ch2"
  by (auto simp: conn_step_def same_conn_def intro: conn_local_trans same_at_trans)

text \<open>A step that only touches the kernel, the queue or the application's memory.\<close>

lemma conn_step_frame:
  assumes "conn_rel w c cn ch" "conn_frame w w'"
    and "conn_local (cn_loop cn) c (cn_channel cn) (cn_socket cn) w w'"
  shows "conn_step c w cn w' cn ch"
  using assms conn_rel_frame [OF assms(1,2)] same_at_cong [of w' "cn_channel cn" w]
  by (simp add: conn_step_def conn_frame_def)

lemma reports_on [simp]:
  "map_option (\<lambda>u. Bind_writeComplete u c) x = Some f \<Longrightarrow> report_of c f"
  "map_option (\<lambda>u. Bind_highWaterMark u c n) x = Some f \<Longrightarrow> report_of c f"
  by auto

subsection \<open>Writing\<close>

lemma shutdownInLoop_step:
  assumes rel: "conn_rel w c cn ch"
  shows "\<exists>w'. TcpConnection_shutdownInLoop os c w = Inr w' \<and> conn_step c w cn w' cn ch"
  using conn_relD(1,2) [OF rel] conn_step_refl [OF rel] conn_step_frame [OF rel conn_frame_sys(3)]
  by (auto simp: TcpConnection_shutdownInLoop_def)

lemma set_writing_step:
  assumes os: "epoll_ok os" and rel: "conn_rel w c cn ch" and opn: "conn_open cn"
    and g: "g = add_events kWriteEvent \<and> content b \<noteq> [] \<or> g = del_events kWriteEvent \<and> content b = []"
    and b: "wf_buffer b"
  shows "\<exists>w' ch'. Channel_update os (cn_channel cn) (upd_chan (cn_channel cn) g
        (upd_conn c (\<lambda>cn. cn\<lparr>cn_outputBuffer := b\<rparr>) w)) = Inr w' \<and>
    conn_step c w cn w' (cn\<lparr>cn_outputBuffer := b\<rparr>) ch'"
proof -
  from conn_set_writing [OF assms] obtain w' ch' where
    w': "Channel_update os (cn_channel cn) (upd_chan (cn_channel cn) g
          (upd_conn c (\<lambda>cn. cn\<lparr>cn_outputBuffer := b\<rparr>) w)) = Inr w'"
      "conn_rel w' c (cn\<lparr>cn_outputBuffer := b\<rparr>) ch'" by blast
  note r = conn_relD [OF rel]
  let ?w1 = "upd_conn c (\<lambda>cn. cn\<lparr>cn_outputBuffer := b\<rparr>) w"
  have ch: "chans ?w1 (cn_channel cn) = Some ch" using r(2) by simp
  have same: "ch_loop (g x) = ch_loop x" "ch_fd (g x) = ch_fd x" "same_chan x (g x)" for x using g by auto
  have "conn_local (cn_loop cn) c (cn_channel cn) (cn_socket cn) w w'"
    using conn_local_Channel_update(1) [OF w'(1) ch r(4,3) same(1,2)]
    by (rule conn_local_trans [OF conn_local_upd_conn])
  moreover have "same_at (cn_channel cn) w w'"
    using same_at_trans [OF same_at_cong conn_local_Channel_update(2) [OF w'(1) ch r(4,3) same]] by simp
  ultimately show ?thesis using w' by (auto simp: conn_step_def)
qed

lemma handleWrite_step:
  assumes os: "epoll_ok os" "write_ok os" and rel: "conn_rel w c cn ch" and opn: "conn_open cn"
  shows "\<exists>w' b ch'. TcpConnection_handleWrite os c w = Inr w' \<and>
    conn_step c w cn w' (cn\<lparr>cn_outputBuffer := b\<rparr>) ch' \<and>
    unat (buf_writer b) \<le> unat (buf_writer (cn_outputBuffer cn))"
proof (cases "isWriting ch")
  case False
  then show ?thesis
    using conn_relD(1,2) [OF rel] conn_step_refl [OF rel]
    by (intro exI [of _ w] exI [of _ "cn_outputBuffer cn"] exI [of _ ch]) (simp add: TcpConnection_handleWrite_def)
next
  case True
  note r = conn_relD [OF rel]
  let ?out = "cn_outputBuffer cn" and ?f = "cn_socket cn" and ?L = "cn_loop cn" and ?p = "cn_channel cn"
  define w1 where "w1 = snd (sys_write os ?f (content ?out) w)"
  have sysw: "sys_write os ?f (content ?out) w = (os_write os (hist w) ?f (content ?out), w1)"
    by (metis fst_sys_write prod.collapse w1_def)
  have step1: "conn_step c w cn w1 cn ch" unfolding w1_def by (rule conn_step_frame [OF rel]) simp_all
  then have rel1: "conn_rel w1 c cn ch" by (simp add: conn_step_def)
  let ?cb = "map_option (\<lambda>u. Bind_writeComplete u c) (cn_writeCompleteCallback cn)"
  have eq: "TcpConnection_handleWrite os c w =
      (case os_write os (hist w) ?f (content ?out) of Inl _ \<Rightarrow> Inr w1
       | Inr n \<Rightarrow> if 0 < n then
           let out = retrieve (of_nat n) ?out; w2 = upd_conn c (\<lambda>cn. cn\<lparr>cn_outputBuffer := out\<rparr>) w1
           in if readableBytes out = 0
              then bindE (Channel_disableWriting os ?p w2) (\<lambda>w3.
                let w4 = queue_opt os ?L ?cb w3
                in if cn_state cn = kDisconnecting
                   then TcpConnection_shutdownInLoop os c w4 else Inr w4)
              else Inr w2
           else Inr w1)"
    using r(1-3) True sysw peek_all [OF r(6)]
    by (simp add: TcpConnection_handleWrite_def split: sum.splits)
  have same: ?thesis if "TcpConnection_handleWrite os c w = Inr w1"
    using that step1 by (intro exI [of _ w1] exI [of _ ?out] exI [of _ ch]) simp
  show ?thesis
  proof (cases "os_write os (hist w) ?f (content ?out)")
    case (Inl e)
    with eq show ?thesis by (intro same) simp
  next
    case (Inr n)
    with os(2) have n: "n \<le> length (content ?out)" by (auto dest: write_okD)
    let ?b = "retrieve (of_nat n) ?out"
    let ?w2 = "upd_conn c (\<lambda>cn. cn\<lparr>cn_outputBuffer := ?b\<rparr>) w1"
    have get: "wf_buffer ?b" using buffer_get_ok [OF r(6) n] by (auto simp: buffer_get_def)
    have wr: "unat (buf_writer ?b) \<le> unat (buf_writer ?out)" using writer_retrieve [OF r(6)] .
    consider "n = 0" | "0 < n" "content ?b = []" | "0 < n" "content ?b \<noteq> []" by blast
    then show ?thesis
    proof cases
      case 1
      with eq Inr show ?thesis by (intro same) simp
    next
      case 2
      from set_writing_step [OF os(1) rel1 opn _ get, of "del_events kWriteEvent"] 2(2) obtain w3 ch3 where
        w3: "Channel_disableWriting os ?p ?w2 = Inr w3" "conn_step c w1 cn w3 (cn\<lparr>cn_outputBuffer := ?b\<rparr>) ch3"
        by (auto simp: Channel_disableWriting_def)
      let ?cn = "cn\<lparr>cn_outputBuffer := ?b\<rparr>" and ?w4 = "queue_opt os ?L ?cb w3"
      have rel3: "conn_rel w3 c ?cn ch3" using w3(2) by (simp add: conn_step_def)
      have "conn_step c w3 ?cn ?w4 ?cn ch3"
        by (rule conn_step_frame [OF rel3]) (auto intro!: conn_local_queue_opt)
      then have step4: "conn_step c w cn ?w4 ?cn ch3" using step1 w3(2) conn_step_trans by blast
      then have rel4: "conn_rel ?w4 c ?cn ch3" by (simp add: conn_step_def)
      from shutdownInLoop_step [OF rel4, of os] obtain w5 where
        "TcpConnection_shutdownInLoop os c ?w4 = Inr w5" "conn_step c w cn w5 ?cn ch3"
        using conn_step_trans [OF step4] by blast
      then show ?thesis using eq Inr 2 w3(1) get wr step4
        by (cases "cn_state cn = kDisconnecting") (auto simp: readable_0_iff Let_def)
    next
      case 3
      have "conn_rel ?w2 c (cn\<lparr>cn_outputBuffer := ?b\<rparr>) ch"
        using conn_relD [OF rel1] get 3(2) True by (simp add: conn_rel_def conn_open_def)
      then have "conn_step c w1 cn ?w2 (cn\<lparr>cn_outputBuffer := ?b\<rparr>) ch"
        by (auto simp: conn_step_def intro!: same_at_cong)
      from conn_step_trans [OF step1 this] show ?thesis
        using eq Inr 3 get wr
        by (intro exI [of _ ?w2] exI [of _ ?b] exI [of _ ch]) (simp add: readable_0_iff Let_def)
    qed
  qed
qed

subsection \<open>Sending\<close>

lemma sendInLoop_write_local:
  assumes "sendInLoop_write os c cn ch p len w = Inr (n, r, fe, w1)" and L: "cn_loop cn = L"
  shows "conn_local L c P f w w1" "chans w1 = chans w"
proof -
  have "conn_local L c P f w w1 \<and> chans w1 = chans w"
  proof (cases "\<not> isWriting ch \<and> readableBytes (cn_outputBuffer cn) = 0")
    case True
    with assms obtain data where data: "bytes_at p 0 len w = Inr data"
      by (auto simp: sendInLoop_write_def res_simps)
    obtain res v where v: "sys_write os (ch_fd ch) data w = (res, v)" by fastforce
    have loc: "conn_local L c P f w v" "chans v = chans w"
      using conn_local_sys(1) [of L c P f w os "ch_fd ch" data] conn_frame_sys(1) [of w os "ch_fd ch" data] v
      by (simp_all add: conn_frame_def)
    have "conn_local L c P f v (queue_opt os L (map_option (\<lambda>u. Bind_writeComplete u c) x) v)" for x
      by (rule conn_local_queue_opt) auto
    moreover have "chans (queue_opt os M x v) = chans v" for M x
      using conn_frame_queue_opt [of v os M x] by (simp add: conn_frame_def)
    ultimately show ?thesis
      using assms(1) L True data v loc conn_local_trans [OF loc(1)]
      by (cases res) (auto simp: sendInLoop_write_def Let_def split: if_splits)
  next
    case False
    with assms(1) show ?thesis by (auto simp: sendInLoop_write_def)
  qed
  then show "conn_local L c P f w w1" "chans w1 = chans w" by simp_all
qed

lemma sendInLoop_buffer_local:
  assumes res: "sendInLoop_buffer os c cn ch p n r w = Inr w'"
    and ch: "chans w (cn_channel cn) = Some ch0" "ch_loop ch0 = L" "ch_fd ch0 = f" and L: "cn_loop cn = L"
  shows "conn_local L c (cn_channel cn) f w w'" "same_at (cn_channel cn) w w'"
proof -
  let ?p = "cn_channel cn"
  let ?hw = "\<lambda>k. map_option (\<lambda>u. Bind_highWaterMark u c k) (cn_highWaterMarkCallback cn)"
  have q: "conn_local L c ?p f w (queue_opt os L (?hw k) w)" "chans (queue_opt os M x w) = chans w" for M k x
    using conn_frame_queue_opt [of w os M x] by (auto intro!: conn_local_queue_opt simp: conn_frame_def)
  define w1 where "w1 = (if cn_highWaterMark cn \<le> readableBytes (cn_outputBuffer cn) + r \<and>
      readableBytes (cn_outputBuffer cn) < cn_highWaterMark cn
    then queue_opt os (cn_loop cn) (?hw (readableBytes (cn_outputBuffer cn) + r)) w else w)"
  have w1: "conn_local L c ?p f w w1" "chans w1 = chans w" using q L by (simp_all add: w1_def)
  from res obtain b where
    w': "(if \<not> isWriting ch then Channel_enableWriting os ?p (upd_conn c (\<lambda>cn. cn\<lparr>cn_outputBuffer := b\<rparr>) w1)
          else Inr (upd_conn c (\<lambda>cn. cn\<lparr>cn_outputBuffer := b\<rparr>) w1)) = Inr w'"
    unfolding sendInLoop_buffer_def Let_def w1_def [symmetric] by (auto simp: bindE_eq_Inr)
  let ?w2 = "upd_conn c (\<lambda>cn. cn\<lparr>cn_outputBuffer := b\<rparr>) w1"
  have w2: "conn_local L c ?p f w ?w2" "same_at ?p w ?w2" "chans ?w2 ?p = Some ch0"
    using conn_local_trans [OF w1(1) conn_local_upd_conn] w1(2) ch(1) by (auto intro: same_at_cong)
  show "conn_local L c ?p f w w'" "same_at ?p w w'"
    using w' w2 conn_local_trans [OF w2(1)] same_at_trans [OF w2(2)]
      conn_local_Channel_update [where g = "add_events kWriteEvent", OF _ w2(3) ch(2,3)]
    by (auto simp: Channel_enableWriting_def split: if_splits)
qed

lemma sendInLoop_local:
  assumes res: "TcpConnection_sendInLoop os c p len w = Inr w'" and cn: "conns w c = Some cn"
    and ch: "chans w (cn_channel cn) = Some ch" "ch_loop ch = L" "ch_fd ch = f" and L: "cn_loop cn = L"
  shows "conn_local L c (cn_channel cn) f w w'" "same_at (cn_channel cn) w w'"
proof -
  have "conn_local L c (cn_channel cn) f w w' \<and> same_at (cn_channel cn) w w'"
  proof (cases "cn_state cn = kDisconnected")
    case True
    then show ?thesis using res cn by (simp add: TcpConnection_sendInLoop_def)
  next
    case False
    with res cn ch(1) obtain n r fe w1 where
      w1: "sendInLoop_write os c cn ch p len w = Inr (n, r, fe, w1)" and
      w': "(if \<not> fe \<and> 0 < r then sendInLoop_buffer os c cn ch p n r w1 else Inr w1) = Inr w'"
      by (auto simp: TcpConnection_sendInLoop_def bindE_eq_Inr)
    have a: "conn_local L c (cn_channel cn) f w w1" "chans w1 = chans w"
      using sendInLoop_write_local [OF w1 L] by blast+
    have at: "same_at (cn_channel cn) w w1" using a(2) by (simp add: same_at_cong)
    have ch1: "chans w1 (cn_channel cn) = Some ch" using a(2) ch(1) by simp
    show ?thesis
      using w' a(1) at conn_local_trans [OF a(1)] same_at_trans [OF at]
        sendInLoop_buffer_local [OF _ ch1 ch(2,3) L]
      by (auto split: if_splits)
  qed
  then show "conn_local L c (cn_channel cn) f w w'" "same_at (cn_channel cn) w w'" by simp_all
qed

lemma send_step:
  assumes os: "epoll_ok os" "write_ok os" and rel: "conn_rel w c cn ch" and here: "isInLoopThread (cn_loop cn) w"
    and d: "memory w p = Some d" and room: "unat (buf_writer (cn_outputBuffer cn)) + length d \<le> max_size"
  shows "\<exists>w' b ch'. TcpConnection_send os c p w = Inr w' \<and> conn_step c w cn w' (cn\<lparr>cn_outputBuffer := b\<rparr>) ch' \<and>
    unat (buf_writer b) \<le> unat (buf_writer (cn_outputBuffer cn)) + length d \<and>
    (cn_state cn \<noteq> kConnected \<longrightarrow> ch' = ch)"
proof (cases "cn_state cn = kConnected")
  case False
  then show ?thesis
    using conn_relD(1) [OF rel] d conn_step_refl [OF rel]
    by (intro exI [of _ w] exI [of _ "cn_outputBuffer cn"] exI [of _ ch]) (simp add: TcpConnection_send_def)
next
  case True
  note r = conn_relD [OF rel]
  let ?len = "of_nat (length d) :: size_t"
  have len: "unat ?len \<le> length d" by (simp add: unat_of_nat)
  from sendInLoop_ok [OF os rel _ d len] room True len obtain w' b ch' where
    w': "TcpConnection_sendInLoop os c p ?len w = Inr w'" "conn_rel w' c (cn\<lparr>cn_outputBuffer := b\<rparr>) ch'"
      "unat (buf_writer b) \<le> unat (buf_writer (cn_outputBuffer cn)) + unat ?len"
    by (auto simp: conn_open_def)
  note loc = sendInLoop_local [OF w'(1) r(1,2,4,3) refl]
  have "TcpConnection_send os c p w = Inr w'"
    using r(1) d True here w'(1) by (simp add: TcpConnection_send_def)
  then show ?thesis using w'(2,3) len loc True
    by (intro exI [of _ w'] exI [of _ b] exI [of _ ch']) (simp add: conn_step_def)
qed

subsection \<open>Reading\<close>

text \<open>The first half of \<open>handleRead\<close>, before it calls anyone.\<close>

lemma handleRead_step:
  assumes os: "readv_ok os" and rel: "conn_rel w c cn ch"
    and room: "buffer_room extrabuf_size (cn_inputBuffer cn)"
  shows "\<exists>inp w1. conn_step c w cn w1 (cn\<lparr>cn_inputBuffer := inp\<rparr>) ch \<and>
    length (buf_bytes inp) \<le> length (buf_bytes (cn_inputBuffer cn)) + extrabuf_size \<and>
    TcpConnection_handleRead os env c t w =
      (case os_readv os (hist w) (cn_socket cn) (readv_iov (cn_inputBuffer cn)) of
         Inr bs \<Rightarrow> if bs \<noteq> [] then call_message env c t w1 else TcpConnection_handleClose os env c w1
       | Inl _ \<Rightarrow> TcpConnection_handleError os c w1)"
proof -
  from conn_handleRead_ok [OF os rel room refl, of env t] obtain inp w1 where
    r: "conn_rel w1 c (cn\<lparr>cn_inputBuffer := inp\<rparr>) ch"
      "length (buf_bytes inp) \<le> length (buf_bytes (cn_inputBuffer cn)) + extrabuf_size"
      "w1 = upd_conn c (\<lambda>cn. cn\<lparr>cn_inputBuffer := inp\<rparr>) (w\<lparr>hist := hist w @
        [Readv (cn_socket cn) (readv_iov (cn_inputBuffer cn))
           (os_readv os (hist w) (cn_socket cn) (readv_iov (cn_inputBuffer cn)))]\<rparr>)"
      "TcpConnection_handleRead os env c t w =
        (case os_readv os (hist w) (cn_socket cn) (readv_iov (cn_inputBuffer cn)) of
           Inr bs \<Rightarrow> if bs \<noteq> [] then call_message env c t w1 else TcpConnection_handleClose os env c w1
         | Inl _ \<Rightarrow> TcpConnection_handleError os c w1)" by blast
  have "conn_local L c p f w w1" for L p f
    unfolding r(3) by (rule conn_local_trans [OF _ conn_local_upd_conn])
      (simp add: conn_local_def loop_local_def)
  moreover have "same_at (cn_channel cn) w w1" unfolding r(3) by (rule same_at_cong) simp
  ultimately show ?thesis
    using r(1,2,4) by (intro exI [of _ inp] exI [of _ w1]) (simp add: conn_step_def)
qed

lemma handleError_step:
  assumes "conn_rel w c cn ch"
  shows "\<exists>w'. TcpConnection_handleError os c w = Inr w' \<and> conn_step c w cn w' cn ch"
  using conn_relD(1,2) [OF assms] conn_step_frame [OF assms conn_frame_sys(4)]
  by (simp add: TcpConnection_handleError_def)

text \<open>The default message callback.\<close>

lemma retrieveAll_step:
  assumes "conn_rel w c cn ch"
  shows "conn_step c w cn (upd_conn c (\<lambda>cn. cn\<lparr>cn_inputBuffer := retrieveAll (cn_inputBuffer cn)\<rparr>) w)
    (cn\<lparr>cn_inputBuffer := retrieveAll (cn_inputBuffer cn)\<rparr>) ch"
  using assms wf_retrieveAll [OF conn_relD(5) [OF assms]]
  by (auto simp: conn_step_def conn_rel_def conn_open_def intro!: same_at_cong)

subsection \<open>Coming up, closing and destroying\<close>

lemma connectEstablished_step:
  assumes os: "epoll_ok os" "epoll_adds os (po_epollfd (pollers w (cn_loop cn))) (cn_socket cn)"
    and fresh: "conn_fresh w c cn ch"
  shows "\<exists>w1 ch1. TcpConnection_connectEstablished os env c w = call_connection env c w1 \<and>
    conn_rel w1 c (cn\<lparr>cn_state := kConnected\<rparr>) ch1 \<and> ch_tie ch1 = Some c \<and> ch_tied ch1 \<and>
    ch_index ch1 = kAdded \<and> (own_callbacks c ch \<longrightarrow> own_callbacks c ch1) \<and>
    conn_local (cn_loop cn) c (cn_channel cn) (cn_socket cn) w w1"
proof -
  let ?L = "cn_loop cn" and ?p = "cn_channel cn" and ?w = "TcpConnection_setState c kConnected w"
  let ?ch1 = "Channel_set_index kAdded (add_events kReadEvent (Channel_tie c ch))"
  note fr = fresh [unfolded conn_fresh_def]
  have "interest (hist w) (po_epollfd (pollers w ?L)) (cn_socket cn) = None"
    using poller_invD(3) [of ?L w "cn_socket cn"] fr
    by (cases "interest (hist w) (po_epollfd (pollers w ?L)) (cn_socket cn)") auto
  then have "os_epoll_ctl os (hist w) (po_epollfd (pollers w ?L)) EPOLL_CTL_ADD (cn_socket cn) kReadEvent ?p = Inr ()"
    using os(2) by (simp add: epoll_adds_def)
  from connectEstablished_update [OF os(1) fresh this, of env] obtain w1 where
    w1: "Channel_update os ?p (upd_chan ?p (\<lambda>ch. add_events kReadEvent (Channel_tie c ch)) ?w) = Inr w1"
      "TcpConnection_connectEstablished os env c w = call_connection env c w1"
      "conn_rel w1 c (cn\<lparr>cn_state := kConnected\<rparr>) ?ch1" by blast
  have ch: "chans ?w ?p = Some ch" "ch_loop ch = ?L" "ch_fd ch = cn_socket cn"
    using fr by (simp_all add: TcpConnection_setState_def)
  have "conn_local ?L c ?p (cn_socket cn) ?w w1"
    by (rule conn_local_Channel_update(1) [OF w1(1) ch]) (simp_all add: Channel_tie_def)
  then have "conn_local ?L c ?p (cn_socket cn) w w1"
    using conn_local_trans [OF conn_local_upd_conn] by (fastforce simp: TcpConnection_setState_def)
  moreover have "own_callbacks c ch \<longrightarrow> own_callbacks c ?ch1" "ch_tie ?ch1 = Some c" "ch_tied ?ch1"
    by (simp_all add: own_callbacks_def Channel_set_index_def add_events_def Channel_tie_def)
  ultimately show ?thesis
    using w1(2,3) by (intro exI [of _ w1] exI [of _ ?ch1]) simp
qed

text \<open>
  The first half of \<open>handleClose\<close>, on an open connection or again on a closed one: the connection is
  closed and its channel wants nothing any more.
\<close>

lemma close_step:
  assumes os: "epoll_ok os" "epoll_adds os (po_epollfd (pollers w (cn_loop cn))) (cn_socket cn)"
    and rel: "conn_rel w c cn ch" and idx: "ch_index ch \<noteq> kNew"
  shows "\<exists>w1 ch1. TcpConnection_handleClose os env c w = bindE (call_connection env c w1) (call_close env c) \<and>
    conn_step c w cn w1 (cn\<lparr>cn_state := kDisconnected\<rparr>) ch1 \<and> isNoneEvent ch1 \<and> ch_index ch1 \<noteq> kNew"
proof -
  let ?p = "cn_channel cn" and ?L = "cn_loop cn" and ?cn = "cn\<lparr>cn_state := kDisconnected\<rparr>"
  let ?w = "TcpConnection_setState c kDisconnected w"
  note r = conn_relD [OF rel]
  have chan: "chans ?w ?p = Some ch" using r(2) by (simp add: TcpConnection_setState_def)
  have inv: "poller_inv ?L ?w" using r(7) by (simp add: TcpConnection_setState_def)
  let ?op = "if ch_index ch = kAdded then EPOLL_CTL_DEL else EPOLL_CTL_ADD"
  have "ch_index ch \<noteq> kAdded \<Longrightarrow> interest (hist w) (po_epollfd (pollers w ?L)) (ch_fd ch) = None"
    using poller_invD(2) [OF r(7,2,4)] idx by (cases rule: chan_ok_cases) auto
  then have add: "ch_index ch \<noteq> kAdded \<Longrightarrow>
      os_epoll_ctl os (hist w) (po_epollfd (pollers w ?L)) EPOLL_CTL_ADD (cn_socket cn) e ?p = Inr ()" for e
    using os(2) r(3) by (simp add: epoll_adds_def)
  have "\<exists>w1. Channel_disableAll os ?p ?w = Inr w1"
  proof (cases "ch_index ch = kAdded")
    case True
    show ?thesis unfolding Channel_disableAll_def
      by (rule Channel_update_added_Inr [OF os(1) inv chan r(4) _ _ _ True]) simp_all
  next
    case False
    have "ch_index ch = kDeleted"
      using poller_invD(2) [OF r(7,2,4)] idx False by (cases rule: chan_ok_cases) auto
    then show ?thesis using add [OF False] r(2-4)
      by (auto simp: Channel_disableAll_def Channel_update_def EventLoop_updateChannel_def
          EPollPoller_updateChannel_def EPollPoller_update_def sys_epoll_ctl_def Let_def kIndex_defs
          TcpConnection_setState_def)
  qed
  then obtain w1 where w1: "Channel_disableAll os ?p ?w = Inr w1" by blast
  note eff = disableAll_ok [OF os(1) inv chan r(4) idx w1]
  let ?ch = "Channel_set_index (if ch_index ch = kAdded then kDeleted else kAdded) (clear_events ch)"
  have none: "isNoneEvent ?ch" "\<not> isWriting ?ch"
    by (simp_all add: isNoneEvent_def isWriting_def Channel_set_index_def kNoneEvent_def)
  have loc: "conn_local ?L c ?p (cn_socket cn) ?w w1" "same_at ?p ?w w1"
    using conn_local_Channel_update [OF w1 [unfolded Channel_disableAll_def] chan r(4,3)] by simp_all
  have "conns w1 = conns ?w" "loops w1 = loops w"
    using conn_frameD [OF eff(2)] loop_frameD [OF eff(2)] by (simp_all add: TcpConnection_setState_def)
  then have "conn_rel w1 c ?cn ?ch"
    using r(1-8) eff(1,3) none by (simp add: conn_rel_def TcpConnection_setState_def conn_open_def)
  moreover have "TcpConnection_handleClose os env c w = bindE (call_connection env c w1) (call_close env c)"
    using r(1) w1 by (simp add: TcpConnection_handleClose_def)
  moreover have "conn_local ?L c ?p (cn_socket cn) w w1"
    using loc(1) conn_local_trans [OF conn_local_upd_conn] by (fastforce simp: TcpConnection_setState_def)
  moreover have "same_at ?p w w1"
    by (rule same_at_trans [OF same_at_cong loc(2)]) (simp add: TcpConnection_setState_def)
  moreover have "ch_index ?ch \<noteq> kNew" by (simp add: kIndex_defs)
  ultimately show ?thesis
    using none(1) by (intro exI [of _ w1] exI [of _ ?ch]) (simp add: conn_step_def)
qed

text \<open>\<open>connectDestroyed\<close> of a closed connection, the first time or again: its channel is out of the poller.\<close>

lemma destroy_step:
  assumes os: "epoll_ok os" and rel: "conn_rel w c cn ch" and st: "cn_state cn = kDisconnected"
    and reg: "ch_index ch = kNew \<Longrightarrow> po_channels (pollers w (cn_loop cn)) (ch_fd ch) = None"
  shows "\<exists>w1 ch1. TcpConnection_connectDestroyed os env c w = Inr w1 \<and>
    conn_step c w cn w1 cn ch1 \<and> ch_index ch1 = kNew \<and> ch_events ch1 = ch_events ch"
proof -
  let ?p = "cn_channel cn" and ?L = "cn_loop cn"
  note r = conn_relD [OF rel]
  from Channel_remove_Inr [of w ?p ch os] r(2) obtain w1 where w1: "Channel_remove os ?p w = Inr w1" by blast
  then have rem: "EPollPoller_removeChannel os ?L ?p w = Inr w1"
    using r(2,4) by (simp add: Channel_remove_def EventLoop_removeChannel_def)
  note inv = removeChannel_inv [OF rem os r(7,2,4) reg]
  note eff = removeChannel_effect [OF rem os r(7,2,4) reg]
  let ?ch = "Channel_set_index kNew ch"
  have "conns w1 = conns w" "loops w1 = loops w"
    using conn_frameD [OF eff(6)] loop_frameD [OF eff(6)] by simp_all
  moreover have "isWriting ?ch = isWriting ch" by (simp add: isWriting_def)
  ultimately have "conn_rel w1 c cn ?ch"
    using r(1-9) st inv(1) eff(1) by (simp add: conn_rel_def conn_open_def)
  moreover have "TcpConnection_connectDestroyed os env c w = Inr w1"
    using r(1) st w1 by (simp add: TcpConnection_connectDestroyed_def)
  ultimately show ?thesis
    using conn_local_Channel_remove [OF w1 r(2,4,3)]
    by (intro exI [of _ w1] exI [of _ ?ch]) (simp add: conn_step_def)
qed

end
