(* ===== verification/ServerInv.thy ===== *)
theory ServerInv
  imports System ConnSteps
begin

section \<open>ServerInv: the invariant of a server with its loops\<close>

text \<open>
  The whole of a server: its listening socket in the base loop, the wake-up and the timer descriptor
  of every loop, its connections in every state and in whichever loop they live, the functors that wait
  in the loops.  \<open>server_sys\<close> is the invariant of that system as the thread of one of the loops sees
  it, with connections that are destroyed when the last \<open>shared_ptr\<close> to them goes.  Every event and
  every functor of every loop keeps it and succeeds.  A server without threads of its own is the
  case of a single loop.
\<close>

subsection \<open>The site\<close>

text \<open>
  What stays the same while a server runs: \<open>st_fds\<close>, the descriptors that belong to no connection (those
  of the wake-up, timer and listening channels); the server; its base loop; all its loops.
\<close>

record site =
  st_fds :: "fd set"
  st_server :: server_ptr
  st_base :: loop_ptr
  st_loops :: "loop_ptr list"

text \<open>
  The functors of a loop that are not in its queue: \<open>hold\<close> those of the vector \<open>doPendingFunctors\<close> works
  through or destroys, \<open>todo\<close> those of them that have not run yet.  With the queue of the loop they
  are the functors that exist, or that wait to be run.
\<close>

type_synonym queues = "loop_ptr \<Rightarrow> closure list"

definition waiting :: "'w loop_world_scheme \<Rightarrow> queues \<Rightarrow> loop_ptr \<Rightarrow> closure list" where
  "waiting w qs M = lp_pendingFunctors (loops w M) @ qs M"

definition all_waiting :: "site \<Rightarrow> 'w loop_world_scheme \<Rightarrow> queues \<Rightarrow> closure list" where
  "all_waiting S w qs = concat (map (waiting w qs) (st_loops S))"

definition no_functors :: queues where
  "no_functors M = []"

subsection \<open>Ownership\<close>

text \<open>
  The functors that hold a \<open>shared_ptr\<close>: those that \<open>std::bind\<close> was given \<open>shared_from_this()\<close> or a
  \<open>TcpConnectionPtr\<close> for.  The others bind a bare \<open>this\<close>.
\<close>

fun owner :: "closure \<Rightarrow> conn_ptr option" where
  "owner (Bind_TcpConnection_connectEstablished c) = Some c"
| "owner (Bind_TcpConnection_connectDestroyed c) = Some c"
| "owner (Bind_TcpConnection_forceCloseInLoop c) = Some c"
| "owner (Bind_TcpConnection_setCloseCallback c cb) = Some c"
| "owner (Bind_TcpServer_removeConnectionInLoop s c) = Some c"
| "owner (Bind_writeComplete u c) = Some c"
| "owner (Bind_highWaterMark u c n) = Some c"
| "owner _ = None"

text \<open>
  Who still refers to connection \<open>c\<close> when one of its references goes: the server's map, the functors
  that wait in a loop, and \<open>hold\<close>, those in the vectors of the loops that still exist.
\<close>

definition referenced ::
  "site \<Rightarrow> queues \<Rightarrow> conn_ptr \<Rightarrow> conn \<Rightarrow> 'w client_world_scheme \<Rightarrow> bool" where
  "referenced S hold c cn w \<longleftrightarrow>
     (case servers w (st_server S) of None \<Rightarrow> False | Some sv \<Rightarrow> sv_connections sv (cn_name cn) = Some c) \<or>
     list_ex (\<lambda>cb. owner cb = Some c) (all_waiting S w hold)"

definition drop_reference ::
  "os \<Rightarrow> site \<Rightarrow> queues \<Rightarrow> conn_ptr \<Rightarrow> 'w client_world_scheme \<Rightarrow> 'w client_world_scheme result" where
  "drop_reference os S hold c w =
     (case conns w c of
        None \<Rightarrow> Inr w
      | Some cn \<Rightarrow> if referenced S hold c cn w then Inr w else TcpConnection_dtor os c w)"

text \<open>One functor of the vector of loop \<open>L\<close> is destroyed; \<open>hold\<close> is what remains.\<close>

definition release_functor ::
  "os \<Rightarrow> site \<Rightarrow> queues \<Rightarrow> closure \<Rightarrow> 'w client_world_scheme \<Rightarrow> 'w client_world_scheme result" where
  "release_functor os S hold cb w =
     (case owner cb of None \<Rightarrow> Inr w | Some c \<Rightarrow> drop_reference os S hold c w)"

text \<open>The end of \<open>doPendingFunctors\<close>: the local vector of functors is destroyed, in order.\<close>

fun release_functors ::
  "os \<Rightarrow> site \<Rightarrow> loop_ptr \<Rightarrow> queues \<Rightarrow> closure list \<Rightarrow> 'w client_world_scheme \<Rightarrow> 'w client_world_scheme result" where
  "release_functors os S L hold [] w = Inr w"
| "release_functors os S L hold (cb # fs) w =
     bindE (release_functor os S (hold(L := fs)) cb w) (release_functors os S L hold fs)"

subsection \<open>The invariant\<close>

text \<open>
  One connection: in its relation to channel and poller, with the callbacks of its channel its own and
  those of the server set; its descriptor open; room for \<open>k\<close> more events in both buffers; untouched
  until it is established, and tied since; and, unless it is open, wanting no events.
\<close>

definition conn_wf ::
  "site \<Rightarrow> nat \<Rightarrow> 'w client_world_scheme \<Rightarrow> conn_ptr \<Rightarrow> conn \<Rightarrow> channel \<Rightarrow> bool" where
  "conn_wf S k w c cn ch \<longleftrightarrow>
     conn_rel w c cn ch \<and> cn_loop cn \<in> set (st_loops S) \<and>
     (cn_state cn \<noteq> kConnecting \<longrightarrow> ch_tied ch \<and> ch_tie ch = Some c) \<and>
     (cn_state cn = kConnecting \<longrightarrow> ch_index ch = kNew \<and> ch_events ch = 0 \<and>
        content (cn_inputBuffer cn) = [] \<and> content (cn_outputBuffer cn) = []) \<and>
     own_callbacks c ch \<and> cn_connectionCallback cn \<noteq> None \<and> cn_messageCallback cn \<noteq> None \<and>
     cn_closeCallback cn = Some (Bind_TcpServer_removeConnection (st_server S)) \<and>
     cn_socket cn \<in> open_conns (hist w) \<and>
     length (buf_bytes (cn_inputBuffer cn)) + k * extrabuf_size \<le> max_size \<and>
     unat (buf_writer (cn_outputBuffer cn)) + k * extrabuf_size \<le> max_size \<and>
     (\<not> conn_open cn \<longrightarrow> isNoneEvent ch)"

text \<open>
  Why it exists: the server's map has it, and if it is not established yet, a functor that waits in its
  loop will do that, and if it is closed, a functor that waits in the base loop will take it out of the
  map; or it is closed and out of the map, some functor holds it, and it is out of its poller or will be when a
  functor that waits in its loop has run.  \<open>H\<close> are the functors that exist, \<open>T\<close> those that wait in
  the loop of the connection, \<open>R\<close> those that wait in the base loop.
\<close>

definition leaving :: "closure set \<Rightarrow> conn_ptr \<Rightarrow> bool" where
  "leaving R c \<longleftrightarrow> (\<exists>s. Bind_TcpServer_removeConnectionInLoop s c \<in> R)"

definition conn_held ::
  "server \<Rightarrow> closure set \<Rightarrow> closure set \<Rightarrow> closure set \<Rightarrow> conn_ptr \<Rightarrow> conn \<Rightarrow> channel \<Rightarrow> bool" where
  "conn_held sv H T R c cn ch \<longleftrightarrow>
     sv_connections sv (cn_name cn) = Some c \<and>
     (cn_state cn = kConnecting \<longrightarrow> Bind_TcpConnection_connectEstablished c \<in> T) \<and>
     (cn_state cn = kDisconnected \<longrightarrow> leaving R c) \<or>
     sv_connections sv (cn_name cn) \<noteq> Some c \<and> cn_state cn = kDisconnected \<and> (\<exists>cb \<in> H. owner cb = Some c) \<and>
     (ch_index ch = kNew \<or> Bind_TcpConnection_connectDestroyed c \<in> T)"

text \<open>A connection of loop \<open>M\<close> that has been established.\<close>

definition conn_up :: "loop_ptr \<Rightarrow> conn_ptr \<Rightarrow> 'w conn_world_scheme \<Rightarrow> bool" where
  "conn_up M c w \<longleftrightarrow>
     (case conns w c of None \<Rightarrow> False | Some cn \<Rightarrow> cn_loop cn = M \<and> cn_state cn \<noteq> kConnecting)"

text \<open>What each functor that waits in loop \<open>M\<close> relies on.\<close>

fun functor_wf :: "site \<Rightarrow> 'w client_world_scheme \<Rightarrow> loop_ptr \<Rightarrow> closure \<Rightarrow> bool" where
  "functor_wf S w M (Bind_TcpConnection_connectEstablished c) =
     (case conns w c of None \<Rightarrow> False | Some cn \<Rightarrow> cn_loop cn = M \<and> cn_state cn = kConnecting)"
| "functor_wf S w M (Bind_TcpConnection_connectDestroyed c) =
     (case conns w c of None \<Rightarrow> False | Some cn \<Rightarrow> cn_loop cn = M \<and> cn_state cn = kDisconnected)"
| "functor_wf S w M (Bind_TcpServer_removeConnectionInLoop s c) =
     (s = st_server S \<and> M = st_base S \<and>
      (case conns w c of None \<Rightarrow> False | Some cn \<Rightarrow> cn_state cn = kDisconnected))"
| "functor_wf S w M (Bind_TcpConnection_forceCloseInLoop c) = conn_up M c w"
| "functor_wf S w M (Bind_writeComplete u c) = conn_up M c w"
| "functor_wf S w M (Bind_highWaterMark u c n) = conn_up M c w"
| "functor_wf S w M _ = False"

fun establishes :: "closure \<Rightarrow> bool" where
  "establishes (Bind_TcpConnection_connectEstablished c) = True"
| "establishes _ = False"

text \<open>The channels that do not belong to a connection: wake-up, timers, listening socket.\<close>

definition base_chan :: "site \<Rightarrow> channel \<Rightarrow> bool" where
  "base_chan S ch \<longleftrightarrow>
     (ch_readCallback ch = Some (Bind_EventLoop_handleRead (ch_loop ch)) \<or>
      ch_readCallback ch = Some (Bind_TimerQueue_handleRead (ch_loop ch)) \<or>
      ch_readCallback ch = Some (Bind_Acceptor_handleRead (st_server S)) \<and> ch_loop ch = st_base S) \<and>
     ch_writeCallback ch = None \<and> ch_closeCallback ch = None \<and> ch_errorCallback ch = None \<and>
     \<not> ch_tied ch \<and> ch_fd ch \<in> st_fds S"

text \<open>The server itself: room for \<open>k\<close> more connection numbers, callbacks set, its loops those of the site.\<close>

definition server_wf :: "site \<Rightarrow> nat \<Rightarrow> 'w client_world_scheme \<Rightarrow> server \<Rightarrow> bool" where
  "server_wf S k w sv \<longleftrightarrow>
     server_inv w (st_server S) sv \<and> sv_loop sv = st_base S \<and> pl_baseLoop (sv_pool sv) = st_base S \<and>
     set (pl_loops (sv_pool sv)) \<subseteq> set (st_loops S) \<and>
     sint (sv_nextConnId sv) + int k < 2 ^ 31 \<and> sv_connectionCallback sv \<noteq> None \<and> sv_messageCallback sv \<noteq> None \<and>
     (\<forall>c cn. conns w c = Some cn \<longrightarrow> (\<exists>nr. 0 < nr \<and> nr < sint (sv_nextConnId sv) \<and> cn_name cn = conn_name sv nr)) \<and>
     (\<forall>c d cn dn. conns w c = Some cn \<longrightarrow> conns w d = Some dn \<longrightarrow> cn_name cn = cn_name dn \<longrightarrow> c = d)"

text \<open>One loop, and what keeps the loops apart.\<close>

definition loop_wf :: "site \<Rightarrow> loop_ptr \<Rightarrow> 'w timer_world_scheme \<Rightarrow> bool" where
  "loop_wf S M w \<longleftrightarrow> poller_inv M w \<and> lp_wakeupFd (loops w M) \<in> st_fds S \<and>
     tq_timers (timerqueues w M) = [] \<and> \<not> lp_quit (loops w M)"

definition loops_apart :: "site \<Rightarrow> 'w loop_world_scheme \<Rightarrow> bool" where
  "loops_apart S w \<longleftrightarrow> (\<forall>M \<in> set (st_loops S). \<forall>N \<in> set (st_loops S). M \<noteq> N \<longrightarrow>
     lp_threadId (loops w M) \<noteq> lp_threadId (loops w N) \<and> po_epollfd (pollers w M) \<noteq> po_epollfd (pollers w N))"

text \<open>
  The system, as the thread of loop \<open>L\<close> sees it.  Every descriptor that \<open>accept\<close> has returned and that
  is still open is the socket of a connection.
\<close>

definition sys_base :: "site \<Rightarrow> loop_ptr \<Rightarrow> 'w client_world_scheme \<Rightarrow> bool" where
  "sys_base S L w \<longleftrightarrow>
     L \<in> set (st_loops S) \<and> st_base S \<in> set (st_loops S) \<and> isInLoopThread L w \<and>
     finite (dom (chans w)) \<and> finite (dom (conns w)) \<and>
     (\<exists>a. acceptors w (st_server S) = Some a \<and> ac_newConnectionCallback a = Some (st_server S)) \<and>
     (\<forall>M \<in> set (st_loops S). loop_wf S M w) \<and> loops_apart S w \<and>
     (\<forall>f \<in> open_conns (hist w). \<exists>c cn. conns w c = Some cn \<and> cn_socket cn = f)"

definition sys_conns ::
  "site \<Rightarrow> nat \<Rightarrow> queues \<Rightarrow> queues \<Rightarrow> server \<Rightarrow> 'w client_world_scheme \<Rightarrow> bool" where
  "sys_conns S k hold todo sv w \<longleftrightarrow>
     (\<forall>c cn. conns w c = Some cn \<longrightarrow> (\<exists>ch. conn_wf S k w c cn ch \<and>
        conn_held sv (set (all_waiting S w hold)) (set (waiting w todo (cn_loop cn))) (set (waiting w todo (st_base S))) c cn ch))"

definition sys_chans :: "site \<Rightarrow> 'w client_world_scheme \<Rightarrow> bool" where
  "sys_chans S w \<longleftrightarrow>
     (\<forall>p ch. chans w p = Some ch \<longrightarrow> ch_loop ch \<in> set (st_loops S) \<longrightarrow>
        base_chan S ch \<or> (\<exists>c cn. conns w c = Some cn \<and> cn_channel cn = p)) \<and>
     (\<forall>p q ch dh. chans w p = Some ch \<longrightarrow> chans w q = Some dh \<longrightarrow>
        ch_loop ch \<in> set (st_loops S) \<longrightarrow> ch_loop dh \<in> set (st_loops S) \<longrightarrow> ch_fd ch = ch_fd dh \<longrightarrow> p = q)"

definition sys_queues :: "site \<Rightarrow> queues \<Rightarrow> 'w client_world_scheme \<Rightarrow> bool" where
  "sys_queues S todo w \<longleftrightarrow>
     (\<forall>M \<in> set (st_loops S). list_all (functor_wf S w M) (waiting w todo M) \<and>
        distinct (filter establishes (waiting w todo M)))"

definition server_sys ::
  "site \<Rightarrow> loop_ptr \<Rightarrow> nat \<Rightarrow> queues \<Rightarrow> queues \<Rightarrow> 'w client_world_scheme \<Rightarrow> bool" where
  "server_sys S L k hold todo w \<longleftrightarrow>
     sys_base S L w \<and> (\<exists>sv. server_wf S k w sv \<and> sys_conns S k hold todo sv w) \<and> sys_chans S w \<and>
     sys_queues S todo w"

text \<open>What a callback keeps of the channels and the connections there were.\<close>

definition keeps :: "'w conn_world_scheme \<Rightarrow> 'w conn_world_scheme \<Rightarrow> bool" where
  "keeps w w' \<longleftrightarrow>
     (\<forall>p ch. chans w p = Some ch \<longrightarrow>
        (\<exists>ch'. chans w' p = Some ch' \<and> same_chan ch ch' \<and> (ch_index ch' = kNew \<longrightarrow> ch_index ch = kNew))) \<and>
     (\<forall>c cn. conns w c = Some cn \<longrightarrow>
        (\<exists>cn'. conns w' c = Some cn' \<and> same_conn cn cn' \<and> (cn_state cn = kDisconnected \<longrightarrow> cn_state cn' = kDisconnected) \<and>
           (cn_state cn' = kConnecting \<longrightarrow> cn_state cn = kConnecting)))"

lemma keeps_refl [simp]: "keeps w w"
  by (simp add: keeps_def)

lemma keeps_trans:
  assumes a: "keeps w1 w2" and b: "keeps w2 w3"
  shows "keeps w1 w3"
proof -
  have "\<exists>ch'. chans w3 p = Some ch' \<and> same_chan ch ch' \<and> (ch_index ch' = kNew \<longrightarrow> ch_index ch = kNew)"
    if ch: "chans w1 p = Some ch" for p ch
  proof -
    from a ch obtain ch2 where 2: "chans w2 p = Some ch2" "same_chan ch ch2" "ch_index ch2 = kNew \<longrightarrow> ch_index ch = kNew"
      unfolding keeps_def by blast
    with b obtain ch3 where "chans w3 p = Some ch3" "same_chan ch2 ch3" "ch_index ch3 = kNew \<longrightarrow> ch_index ch2 = kNew"
      unfolding keeps_def by blast
    with 2 show ?thesis using same_chan_trans by blast
  qed
  moreover have "\<exists>cn'. conns w3 c = Some cn' \<and> same_conn cn cn' \<and>
      (cn_state cn = kDisconnected \<longrightarrow> cn_state cn' = kDisconnected) \<and> (cn_state cn' = kConnecting \<longrightarrow> cn_state cn = kConnecting)"
    if "conns w1 c = Some cn" for c cn
  proof -
    from a that obtain cn2 where 2: "conns w2 c = Some cn2" "same_conn cn cn2"
        "cn_state cn = kDisconnected \<longrightarrow> cn_state cn2 = kDisconnected" "cn_state cn2 = kConnecting \<longrightarrow> cn_state cn = kConnecting"
      unfolding keeps_def by blast
    with b obtain cn3 where "conns w3 c = Some cn3" "same_conn cn2 cn3"
        "cn_state cn2 = kDisconnected \<longrightarrow> cn_state cn3 = kDisconnected" "cn_state cn3 = kConnecting \<longrightarrow> cn_state cn2 = kConnecting"
      unfolding keeps_def by blast
    with 2 show ?thesis using same_conn_trans by blast
  qed
  ultimately show ?thesis by (simp add: keeps_def)
qed

subsection \<open>Taking the invariant apart\<close>

lemma sys_baseD:
  assumes "sys_base S L w"
  shows "L \<in> set (st_loops S)" "st_base S \<in> set (st_loops S)" "isInLoopThread L w"
    "finite (dom (chans w))" "finite (dom (conns w))"
    "\<exists>a. acceptors w (st_server S) = Some a \<and> ac_newConnectionCallback a = Some (st_server S)"
    "M \<in> set (st_loops S) \<Longrightarrow> loop_wf S M w" "loops_apart S w"
    "f \<in> open_conns (hist w) \<Longrightarrow> \<exists>c cn. conns w c = Some cn \<and> cn_socket cn = f"
  using assms unfolding sys_base_def by blast+

lemma loop_wfD:
  assumes "loop_wf S M w"
  shows "poller_inv M w" "lp_wakeupFd (loops w M) \<in> st_fds S" "tq_timers (timerqueues w M) = []" "\<not> lp_quit (loops w M)"
  using assms by (simp_all add: loop_wf_def)

lemma server_sysD:
  assumes "server_sys S L k hold todo w"
  shows "sys_base S L w" "sys_chans S w" "sys_queues S todo w"
  using assms unfolding server_sys_def by blast+

lemma sys_here:
  assumes "server_sys S L k hold todo w"
  shows "L \<in> set (st_loops S)" "isInLoopThread L w" "poller_inv L w" "tq_timers (timerqueues w L) = []"
  using sys_baseD(1,3,7) [OF server_sysD(1) [OF assms]] loop_wfD by blast+

lemma sys_loop:
  assumes "server_sys S L k hold todo w" "M \<in> set (st_loops S)"
  shows "poller_inv M w" "lp_wakeupFd (loops w M) \<in> st_fds S" "tq_timers (timerqueues w M) = []" "\<not> lp_quit (loops w M)"
  using loop_wfD [OF sys_baseD(7) [OF server_sysD(1) [OF assms(1)] assms(2)]] by blast+

lemma sys_queuesD:
  assumes "sys_queues S todo w" "M \<in> set (st_loops S)"
  shows "cb \<in> set (waiting w todo M) \<Longrightarrow> functor_wf S w M cb" "distinct (filter establishes (waiting w todo M))"
  using assms unfolding sys_queues_def list_all_iff by blast+

lemma sys_chansD:
  assumes "sys_chans S w" "chans w p = Some ch" "ch_loop ch \<in> set (st_loops S)"
  shows "base_chan S ch \<or> (\<exists>c cn. conns w c = Some cn \<and> cn_channel cn = p)"
    and "chans w q = Some dh \<Longrightarrow> ch_loop dh \<in> set (st_loops S) \<Longrightarrow> ch_fd ch = ch_fd dh \<Longrightarrow> p = q"
  using assms unfolding sys_chans_def by blast+

lemma sys_connsD:
  assumes "sys_conns S k hold todo sv w" "conns w c = Some cn"
  shows "\<exists>ch. conn_wf S k w c cn ch \<and>
    conn_held sv (set (all_waiting S w hold)) (set (waiting w todo (cn_loop cn))) (set (waiting w todo (st_base S))) c cn ch"
  using assms unfolding sys_conns_def by blast

lemma server_sys_serverE:
  assumes "server_sys S L k hold todo w"
  obtains sv where "server_wf S k w sv" "sys_conns S k hold todo sv w"
  using assms unfolding server_sys_def by blast

lemma server_sys_connE:
  assumes "server_sys S L k hold todo w" "conns w c = Some cn"
  obtains ch where "conn_wf S k w c cn ch"
  using server_sys_serverE [OF assms(1)] sys_connsD [OF _ assms(2)] by metis

lemma conn_wfD:
  assumes "conn_wf S k w c cn ch"
  shows "conn_rel w c cn ch" "cn_loop cn \<in> set (st_loops S)"
    "cn_state cn \<noteq> kConnecting \<Longrightarrow> ch_tied ch" "cn_state cn \<noteq> kConnecting \<Longrightarrow> ch_tie ch = Some c"
    "ch_readCallback ch = Some (Bind_TcpConnection_handleRead c)"
    "ch_writeCallback ch = Some (Bind_TcpConnection_handleWrite c)"
    "ch_closeCallback ch = Some (Bind_TcpConnection_handleClose c)"
    "ch_errorCallback ch = Some (Bind_TcpConnection_handleError c)"
    "cn_connectionCallback cn \<noteq> None" "cn_messageCallback cn \<noteq> None"
    "cn_closeCallback cn = Some (Bind_TcpServer_removeConnection (st_server S))" "cn_socket cn \<in> open_conns (hist w)"
    "length (buf_bytes (cn_inputBuffer cn)) + k * extrabuf_size \<le> max_size"
    "unat (buf_writer (cn_outputBuffer cn)) + k * extrabuf_size \<le> max_size"
    "\<not> conn_open cn \<Longrightarrow> isNoneEvent ch" "cn_state cn = kConnecting \<Longrightarrow> ch_index ch = kNew" "own_callbacks c ch"
  using assms by (simp_all add: conn_wf_def own_callbacks_def)

lemma server_wfD:
  assumes "server_wf S k w sv"
  shows "server_inv w (st_server S) sv" "servers w (st_server S) = Some sv" "sv_loop sv = st_base S"
    "pl_baseLoop (sv_pool sv) = st_base S" "set (pl_loops (sv_pool sv)) \<subseteq> set (st_loops S)"
    "sint (sv_nextConnId sv) + int k < 2 ^ 31" "sv_connectionCallback sv \<noteq> None" "sv_messageCallback sv \<noteq> None"
    "conns w c = Some cn \<Longrightarrow> \<exists>nr. 0 < nr \<and> nr < sint (sv_nextConnId sv) \<and> cn_name cn = conn_name sv nr"
    "conns w c = Some cn \<Longrightarrow> conns w d = Some dn \<Longrightarrow> cn_name cn = cn_name dn \<Longrightarrow> c = d"
proof -
  show inv: "server_inv w (st_server S) sv" using assms by (simp add: server_wf_def)
  show "servers w (st_server S) = Some sv" using server_invD(1) [OF inv] .
qed (use assms in \<open>unfold server_wf_def, blast+\<close>)

text \<open>A registered connection is established.\<close>

lemma conn_wf_up:
  assumes "conn_wf S k w c cn ch" "ch_index ch \<noteq> kNew"
  shows "cn_state cn \<noteq> kConnecting" "ch_tied ch" "ch_tie ch = Some c"
  using conn_wfD(3,4,16) [OF assms(1)] assms(2) by blast+

lemma mult_le_trans: "a + m * c \<le> (b::nat) \<Longrightarrow> n \<le> m \<Longrightarrow> a + n * c \<le> b"
  using mult_le_mono1 [of n m c] by linarith

lemma server_sys_mono:
  assumes sys: "server_sys S L m hold todo w" and le: "k \<le> m"
  shows "server_sys S L k hold todo w"
proof -
  from server_sys_serverE [OF sys] obtain sv where
    sv: "server_wf S m w sv" "sys_conns S m hold todo sv w" .
  have "server_wf S k w sv" using sv(1) le by (simp add: server_wf_def)
  moreover have "conn_wf S k w c cn ch" if "conn_wf S m w c cn ch" for c cn ch
    using that le by (auto simp: conn_wf_def elim: mult_le_trans)
  then have "sys_conns S k hold todo sv w" using sv(2) unfolding sys_conns_def by meson
  ultimately show ?thesis using server_sysD [OF sys] unfolding server_sys_def by blast
qed

end
