(* ===== verification/ServerSafety.thy ===== *)
theory ServerSafety
  imports ServerInv
begin

section \<open>ServerSafety: what keeps the invariant of a server\<close>

text \<open>
  The steps a server is made of, and that they keep the invariant of \<open>ServerInv\<close>: a step of one
  connection, a step that touches no connection, a functor put into the queue of a loop, a
  connection taken out of the map.
\<close>

subsection \<open>The functors that wait\<close>

lemma set_all_waiting: "set (all_waiting S w qs) = (\<Union>M \<in> set (st_loops S). set (waiting w qs M))"
  by (simp add: all_waiting_def)

lemma waiting_all: "M \<in> set (st_loops S) \<Longrightarrow> set (waiting w qs M) \<subseteq> set (all_waiting S w qs)"
  by (auto simp: set_all_waiting)

lemma all_waiting_mono:
  "(\<And>M. M \<in> set (st_loops S) \<Longrightarrow> set (waiting w qs M) \<subseteq> set (waiting w' qs' M)) \<Longrightarrow>
    set (all_waiting S w qs) \<subseteq> set (all_waiting S w' qs')"
  by (fastforce simp: set_all_waiting)

lemma waiting_cong: "lp_pendingFunctors (loops w' M) = lp_pendingFunctors (loops w M) \<Longrightarrow> waiting w' qs M = waiting w qs M"
  by (simp add: waiting_def)

lemma conn_upD:
  assumes "conn_up M c w"
  obtains cn where "conns w c = Some cn" "cn_loop cn = M" "cn_state cn \<noteq> kConnecting"
  using assms by (auto simp: conn_up_def split: option.splits)

lemma conn_upI: "conns w c = Some cn \<Longrightarrow> cn_loop cn = M \<Longrightarrow> cn_state cn \<noteq> kConnecting \<Longrightarrow> conn_up M c w"
  by (simp add: conn_up_def)

text \<open>A functor keeps what it relies on while connections keep their loops and only go forward.\<close>

lemma functor_wf_mono:
  assumes "functor_wf S w M cb"
    and "\<And>c cn. owner cb = Some c \<Longrightarrow> conns w c = Some cn \<Longrightarrow> \<exists>cn'. conns w' c = Some cn' \<and> cn_loop cn' = cn_loop cn \<and>
      (cn_state cn = kDisconnected \<longrightarrow> cn_state cn' = kDisconnected) \<and> (cn_state cn' = kConnecting \<longleftrightarrow> cn_state cn = kConnecting)"
  shows "functor_wf S w' M cb"
proof -
  have m: "case conns w' c of None \<Rightarrow> False | Some cn \<Rightarrow> P cn"
    if "owner cb = Some c" "case conns w c of None \<Rightarrow> False | Some cn \<Rightarrow> P cn"
      "\<And>cn cn'. cn_loop cn' = cn_loop cn \<Longrightarrow> (cn_state cn = kDisconnected \<longrightarrow> cn_state cn' = kDisconnected) \<Longrightarrow>
        (cn_state cn' = kConnecting \<longleftrightarrow> cn_state cn = kConnecting) \<Longrightarrow> P cn \<Longrightarrow> P cn'" for c P
  proof (cases "conns w c")
    case (Some cn)
    from assms(2) [OF that(1) this] obtain cn' where "conns w' c = Some cn'" "cn_loop cn' = cn_loop cn"
      "cn_state cn = kDisconnected \<longrightarrow> cn_state cn' = kDisconnected" "cn_state cn' = kConnecting \<longleftrightarrow> cn_state cn = kConnecting"
      by blast
    with that(2) that(3) [of cn' cn] Some show ?thesis by simp
  qed (use that(2) in simp)
  show ?thesis
  proof (cases cb)
    case (Bind_TcpConnection_connectEstablished c)
    then show ?thesis using assms(1) m [of c "\<lambda>cn. cn_loop cn = M \<and> cn_state cn = kConnecting"] by simp
  next
    case (Bind_TcpConnection_connectDestroyed c)
    then show ?thesis using assms(1) m [of c "\<lambda>cn. cn_loop cn = M \<and> cn_state cn = kDisconnected"] by simp
  next
    case (Bind_TcpServer_removeConnectionInLoop s c)
    then show ?thesis using assms(1) m [of c "\<lambda>cn. cn_state cn = kDisconnected"] by simp
  next
    case (Bind_TcpConnection_forceCloseInLoop c)
    then show ?thesis using assms(1) m [of c "\<lambda>cn. cn_loop cn = M \<and> cn_state cn \<noteq> kConnecting"] by (simp add: conn_up_def)
  next
    case (Bind_writeComplete u c)
    then show ?thesis using assms(1) m [of c "\<lambda>cn. cn_loop cn = M \<and> cn_state cn \<noteq> kConnecting"] by (simp add: conn_up_def)
  next
    case (Bind_highWaterMark u c n)
    then show ?thesis using assms(1) m [of c "\<lambda>cn. cn_loop cn = M \<and> cn_state cn \<noteq> kConnecting"] by (simp add: conn_up_def)
  qed (use assms(1) in simp_all)
qed

lemma functor_wf_frame: "conns w' = conns w \<Longrightarrow> functor_wf S w' = functor_wf S w"
proof (intro ext)
  show "functor_wf S w' M cb = functor_wf S w M cb" if "conns w' = conns w" for M cb
    using that by (cases cb) (simp_all add: conn_up_def)
qed

lemma functor_wf_report: "report_of c cb \<Longrightarrow> conn_up M c w \<Longrightarrow> functor_wf S w M cb"
  by (cases cb) auto

lemma report_establishes: "list_all (report_of c) fs \<Longrightarrow> filter establishes fs = []"
proof (induction fs)
  case (Cons f fs)
  then show ?case by (cases f) simp_all
qed simp

lemma leaving_mono: "leaving R c \<Longrightarrow> R \<subseteq> R' \<Longrightarrow> leaving R' c"
  by (auto simp: leaving_def)

lemma conn_held_mono:
  assumes "conn_held sv H T R c cn ch" "H \<subseteq> H'" "T \<subseteq> T'" "R \<subseteq> R'"
    and "cn_name cn' = cn_name cn" "cn_state cn = kDisconnected \<Longrightarrow> cn_state cn' = kDisconnected"
    and "cn_state cn' = kConnecting \<Longrightarrow> cn_state cn = kConnecting" "ch_index ch = kNew \<Longrightarrow> ch_index ch' = kNew"
    and "cn_state cn' = kDisconnected \<Longrightarrow> cn_state cn = kDisconnected \<or> leaving R' c"
  shows "conn_held sv H' T' R' c cn' ch'"
proof -
  note leave = leaving_mono [OF _ assms(4), of c]
  from assms(1) consider "sv_connections sv (cn_name cn) = Some c" "cn_state cn = kConnecting \<longrightarrow> Bind_TcpConnection_connectEstablished c \<in> T"
      "cn_state cn = kDisconnected \<longrightarrow> leaving R c"
    | cb where "sv_connections sv (cn_name cn) \<noteq> Some c" "cn_state cn = kDisconnected" "cb \<in> H" "owner cb = Some c" "ch_index ch = kNew \<or> Bind_TcpConnection_connectDestroyed c \<in> T"
    unfolding conn_held_def by blast
  then show ?thesis
  proof cases
    case 1
    then show ?thesis using assms(3,5,7,9) leave unfolding conn_held_def by (intro disjI1) (simp; blast)
  next
    case 2
    then show ?thesis using assms(2,3,5,6,8) unfolding conn_held_def by auto
  qed
qed

lemma sys_connD:
  assumes "sys_conns S k hold todo sv w" "conns w c = Some cn" "chans w (cn_channel cn) = Some ch"
  shows "conn_wf S k w c cn ch"
    "conn_held sv (set (all_waiting S w hold)) (set (waiting w todo (cn_loop cn))) (set (waiting w todo (st_base S))) c cn ch"
proof -
  from sys_connsD [OF assms(1,2)] obtain dh where dh: "conn_wf S k w c cn dh"
    "conn_held sv (set (all_waiting S w hold)) (set (waiting w todo (cn_loop cn))) (set (waiting w todo (st_base S))) c cn dh" by blast
  then have "dh = ch" using conn_relD(2) [OF conn_wfD(1)] assms(3) by fastforce
  with dh show "conn_wf S k w c cn ch"
    "conn_held sv (set (all_waiting S w hold)) (set (waiting w todo (cn_loop cn))) (set (waiting w todo (st_base S))) c cn ch" by simp_all
qed

text \<open>The channels of two connections are different.\<close>

lemma conn_wf_channel_inj:
  assumes "conn_wf S k w c cn ch" "conn_wf S k w d dn dh" "cn_channel cn = cn_channel dn"
  shows "c = d"
  using conn_relD(2) [OF conn_wfD(1) [OF assms(1)]] conn_relD(2) [OF conn_wfD(1) [OF assms(2)]]
    conn_wfD(5) [OF assms(1)] conn_wfD(5) [OF assms(2)] assms(3) by simp

text \<open>A connection that a step leaves alone.\<close>

lemma conn_wf_other:
  assumes wf: "conn_wf S k w d dn dh" and inv: "poller_inv (cn_loop dn) w'"
    and same: "conns w' d = conns w d" "chans w' (cn_channel dn) = chans w (cn_channel dn)"
      "lp_wakeupFd (loops w' (cn_loop dn)) = lp_wakeupFd (loops w (cn_loop dn))"
      "cn_socket dn \<in> open_conns (hist w')"
  shows "conn_wf S k w' d dn dh"
proof -
  have "conn_rel w' d dn dh"
    using conn_wfD(1) [OF wf] inv same(1-3) by (simp add: conn_rel_def)
  then show ?thesis using wf same(4) by (auto simp: conn_wf_def)
qed

subsection \<open>A step of one connection in the system\<close>

text \<open>What a local step leaves of the loops, its own and the others.\<close>

lemma loops_step:
  fixes w :: "'w conn_world_scheme"
  assumes loc: "conn_local M c p f w w'" and inv: "poller_inv M w'" and M: "M \<in> set (st_loops S)"
    and wf: "\<And>N. N \<in> set (st_loops S) \<Longrightarrow> loop_wf S N w" and apart: "loops_apart S w"
    and ch: "\<And>ch. chans w p = Some ch \<Longrightarrow> ch_loop ch = M" "\<And>ch. chans w' p = Some ch \<Longrightarrow> ch_loop ch = M"
  shows "N \<in> set (st_loops S) \<Longrightarrow> loop_wf S N w'" "loops_apart S w'"
proof -
  have same: "lp_wakeupFd (loops w' N) = lp_wakeupFd (loops w N)" "lp_threadId (loops w' N) = lp_threadId (loops w N)"
    "lp_quit (loops w' N) = lp_quit (loops w N)" "po_epollfd (pollers w' N) = po_epollfd (pollers w N)" for N
    using loc by (cases "N = M"; simp add: conn_local_def loop_local_def)+
  show "loops_apart S w'" using apart by (simp add: loops_apart_def same)
  assume N: "N \<in> set (st_loops S)"
  have "poller_inv N w'"
  proof (cases "N = M")
    case False
    have "po_epollfd (pollers w N) \<noteq> po_epollfd (pollers w M)" using apart N M False by (auto simp: loops_apart_def)
    from conn_local_poller_other [OF loc loop_wfD(1) [OF wf [OF N]] False this ch] show ?thesis .
  qed (use inv in simp)
  then show "loop_wf S N w'" using loop_wfD [OF wf [OF N]] loc same by (simp add: loop_wf_def conn_local_def)
qed

text \<open>What a local step adds to the queues.\<close>

lemma waiting_step:
  assumes loc: "conn_local M c p f w w'"
  shows "\<exists>fs. (\<forall>qs N. waiting w' qs N = (if N = M then lp_pendingFunctors (loops w M) @ fs @ qs M else waiting w qs N)) \<and>
    list_all (report_of c) fs"
proof -
  from loc obtain fs where "lp_pendingFunctors (loops w' M) = lp_pendingFunctors (loops w M) @ fs"
    "list_all (report_of c) fs" "\<forall>N. N \<noteq> M \<longrightarrow> loops w' N = loops w N"
    by (auto simp: conn_local_def loop_local_def)
  then show ?thesis by (intro exI [of _ fs]) (simp add: waiting_def)
qed

lemma queues_step:
  assumes q: "sys_queues S todo w" and loc: "conn_local M c p f w w'" and M: "conn_up M c w'"
    and mono: "\<And>N cb. functor_wf S w N cb \<Longrightarrow> functor_wf S w' N cb"
  shows "sys_queues S todo w'"
proof -
  from waiting_step [OF loc] obtain fs where
    fs: "\<And>qs N. waiting w' qs N = (if N = M then lp_pendingFunctors (loops w M) @ fs @ qs M else waiting w qs N)"
      "list_all (report_of c) fs" by blast
  have "functor_wf S w' M cb" if "cb \<in> set fs" for cb
    using functor_wf_report [OF _ M] fs(2) that by (auto simp: list_all_iff)
  then show ?thesis
    using q mono report_establishes [OF fs(2)] unfolding sys_queues_def fs(1) list_all_iff
    by (auto simp: waiting_def)
qed

text \<open>
  A local step of connection \<open>c\<close> keeps the rest of the system; what it does to \<open>c\<close> itself and to the
  functors that wait is asked of it.
\<close>

lemma local_sys:
  fixes w :: "'w client_world_scheme"
  assumes sys: "server_sys S L k hold todo w"
    and c: "conns w c = Some cn" "chans w (cn_channel cn) = Some ch"
    and same: "same_conn cn cn'" and loc: "conn_local (cn_loop cn) c (cn_channel cn) (cn_socket cn) w w'"
    and wf': "conn_wf S k w' c cn' ch'" and queues: "sys_queues S todo' w'"
    and own: "\<And>sv. conn_held sv (set (all_waiting S w hold)) (set (waiting w todo (cn_loop cn))) (set (waiting w todo (st_base S))) c cn ch \<Longrightarrow>
      conn_held sv (set (all_waiting S w' hold)) (set (waiting w' todo' (cn_loop cn))) (set (waiting w' todo' (st_base S))) c cn' ch'"
    and other: "\<And>sv d dn dh. d \<noteq> c \<Longrightarrow>
      conn_held sv (set (all_waiting S w hold)) (set (waiting w todo (cn_loop dn))) (set (waiting w todo (st_base S))) d dn dh \<Longrightarrow>
      conn_held sv (set (all_waiting S w' hold)) (set (waiting w' todo' (cn_loop dn))) (set (waiting w' todo' (st_base S))) d dn dh"
  shows "server_sys S L k hold todo' w'"
proof -
  let ?p = "cn_channel cn" and ?f = "cn_socket cn" and ?M = "cn_loop cn"
  from server_sys_serverE [OF sys] obtain sv where
    sv: "server_wf S k w sv" "sys_conns S k hold todo sv w" .
  note wf = sys_connD(1) [OF sv(2) c] and held = sys_connD(2) [OF sv(2) c]
  note wfd = conn_wfD [OF wf] and base = sys_baseD [OF server_sysD(1) [OF sys]]
  note rel' = conn_wfD(1) [OF wf']
  have same': "cn_loop cn' = ?M" "cn_channel cn' = ?p" "cn_socket cn' = ?f" "cn_name cn' = cn_name cn"
    "cn_closeCallback cn' = cn_closeCallback cn" using same by (simp_all add: same_conn_def)
  have ch': "chans w' ?p = Some ch'" "ch_loop ch' = ?M" "ch_fd ch' = ?f"
    using conn_relD(2-4) [OF rel'] same' by simp_all
  have inv': "poller_inv ?M w'" using conn_relD(7) [OF rel'] same' by simp
  have more: "servers w' = servers w" "acceptors w' = acceptors w"
    using server_frameD loc by (auto simp: conn_local_def)
  have conns': "conns w' = (conns w)(c \<mapsto> cn')"
    using loc conn_relD(1) [OF rel'] by (auto simp: conn_local_def fun_eq_iff)
  have chans': "chans w' = (chans w)(?p \<mapsto> ch')" using loc ch'(1) by (auto simp: conn_local_def fun_eq_iff)
  have chl: "ch_loop dh = ?M" if "chans w ?p = Some dh" for dh using c(2) that conn_relD(4) [OF wfd(1)] by simp
  have chl': "ch_loop dh = ?M" if "chans w' ?p = Some dh" for dh using ch' that by simp
  note lps = loops_step [OF loc inv' wfd(2) base(7,8) chl chl']
  have "isInLoopThread L w'"
    using base(3) loc by (cases "L = ?M") (simp_all add: isInLoopThread_def conn_local_def loop_local_def)
  moreover have "\<exists>d dn. conns w' d = Some dn \<and> cn_socket dn = g" if "g \<in> open_conns (hist w')" for g
  proof -
    from that loc base(9) [of g] obtain d dn where d: "conns w d = Some dn" "cn_socket dn = g" by (auto simp: conn_local_def)
    show ?thesis
    proof (cases "d = c")
      case True
      with d c(1) same'(3) conns' show ?thesis by (intro exI [of _ c] exI [of _ cn']) simp
    qed (use d conns' in auto)
  qed
  ultimately have b': "sys_base S L w'"
    using base(1-6) lps conns' chans' more unfolding sys_base_def by simp
  have "server_inv w' (st_server S) sv"
    using sv(1) server_inv_conn_update [of w "st_server S" sv c cn w' cn'] c(1) conns' more(1) same'
    by (simp add: server_wf_def)
  then have srv: "server_wf S k w' sv"
    using sv(1) same' c(1) unfolding server_wf_def conns'
    by (auto split: if_splits)
  have "conn_held sv (set (all_waiting S w' hold)) (set (waiting w' todo' (cn_loop cn'))) (set (waiting w' todo' (st_base S))) c cn' ch'"
    unfolding same'(1) by (rule own [OF held])
  moreover have "\<exists>dh. conn_wf S k w' d dn dh \<and>
      conn_held sv (set (all_waiting S w' hold)) (set (waiting w' todo' (cn_loop dn))) (set (waiting w' todo' (st_base S))) d dn dh"
    if d: "conns w d = Some dn" "d \<noteq> c" for d dn
  proof -
    from sys_connsD [OF sv(2) d(1)] obtain dh where dh: "conn_wf S k w d dn dh"
      "conn_held sv (set (all_waiting S w hold)) (set (waiting w todo (cn_loop dn))) (set (waiting w todo (st_base S))) d dn dh" by blast
    have "cn_channel dn \<noteq> ?p" using conn_wf_channel_inj [OF dh(1) wf] d(2) by auto
    moreover have "lp_wakeupFd (loops w' N) = lp_wakeupFd (loops w N)" for N
      using loc by (cases "N = ?M") (simp_all add: conn_local_def loop_local_def)
    ultimately have "conn_wf S k w' d dn dh"
      using loc d(2) conn_wfD(2,12) [OF dh(1)] loop_wfD(1) [OF lps(1)]
      by (intro conn_wf_other [OF dh(1)]) (simp_all add: conn_local_def)
    with other [OF d(2) dh(2)] show ?thesis by blast
  qed
  ultimately have cs: "sys_conns S k hold todo' sv w'"
    using wf' unfolding sys_conns_def conns' by auto
  have role: "base_chan S xh \<or> (\<exists>d dn. conns w' d = Some dn \<and> cn_channel dn = q)"
    if q: "chans w' q = Some xh" "ch_loop xh \<in> set (st_loops S)" for q xh
  proof (cases "q = ?p")
    case True
    then show ?thesis using conns' same' by (intro disjI2 exI [of _ c] exI [of _ cn']) simp
  next
    case False
    with q chans' have "chans w q = Some xh" by simp
    from sys_chansD(1) [OF server_sysD(2) [OF sys] this q(2)] show ?thesis
      using c(1) False unfolding conns' by (metis fun_upd_other option.inject)
  qed
  have fds: "q = r" if "chans w' q = Some xh" "chans w' r = Some yh" "ch_loop xh \<in> set (st_loops S)"
    "ch_loop yh \<in> set (st_loops S)" "ch_fd xh = ch_fd yh" for q r xh yh
  proof -
    have old: "\<exists>zh. chans w x = Some zh \<and> ch_loop vh = ch_loop zh \<and> ch_fd vh = ch_fd zh" if "chans w' x = Some vh" for x vh
      using that chans' ch'(2,3) c(2) conn_relD(3,4) [OF wfd(1)] by (cases "x = ?p") auto
    from old [OF that(1)] obtain zh where z: "chans w q = Some zh" "ch_loop xh = ch_loop zh" "ch_fd xh = ch_fd zh" by blast
    from old [OF that(2)] obtain uh where u: "chans w r = Some uh" "ch_loop yh = ch_loop uh" "ch_fd yh = ch_fd uh" by blast
    show ?thesis using sys_chansD(2) [OF server_sysD(2) [OF sys] z(1) _ u(1)] that(3-5) z(2,3) u(2,3) by simp
  qed
  show ?thesis using b' srv cs role fds queues unfolding server_sys_def sys_chans_def by blast
qed

lemma queues_push:
  assumes "sys_queues S todo w" "functor_wf S w M cb" "\<not> establishes cb"
  shows "sys_queues S (todo(M := cb # todo M)) w"
  using assms by (auto simp: sys_queues_def waiting_def)

text \<open>A step with which a connection closes leaves a functor to be run, which takes it out of the map.\<close>

definition closing :: "site \<Rightarrow> conn_ptr \<Rightarrow> queues \<Rightarrow> queues" where
  "closing S c todo = todo(st_base S := Bind_TcpServer_removeConnectionInLoop (st_server S) c # todo (st_base S))"

lemma sys_step_closing:
  fixes w :: "'w client_world_scheme"
  assumes sys: "server_sys S L k hold todo w"
    and c: "conns w c = Some cn" "chans w (cn_channel cn) = Some ch"
    and step: "conn_step c w cn w' cn' ch'"
    and closes: "todo' = todo \<and> (cn_state cn' = kDisconnected \<longrightarrow> cn_state cn = kDisconnected) \<or>
      todo' = closing S c todo \<and> cn_state cn' = kDisconnected"
    and st: "cn_state cn \<noteq> kConnecting" "cn_state cn' \<noteq> kConnecting" "cn_state cn = kDisconnected \<Longrightarrow> cn_state cn' = kDisconnected"
      "\<not> conn_open cn' \<Longrightarrow> isNoneEvent ch'"
    and room: "length (buf_bytes (cn_inputBuffer cn')) + k * extrabuf_size \<le> max_size"
      "unat (buf_writer (cn_outputBuffer cn')) + k * extrabuf_size \<le> max_size"
    and idx: "ch_index ch = kNew \<Longrightarrow> ch_index ch' = kNew"
  shows "server_sys S L k hold todo' w'"
proof -
  let ?M = "cn_loop cn"
  from server_sys_serverE [OF sys] obtain sv where sv: "sys_conns S k hold todo sv w" .
  note wf = sys_connD(1) [OF sv c]
  have rel': "conn_rel w' c cn' ch'" and same: "same_conn cn cn'"
    and loc: "conn_local ?M c (cn_channel cn) (cn_socket cn) w w'" and chan: "same_at (cn_channel cn) w w'"
    using step by (simp_all add: conn_step_def)
  have same': "cn_loop cn' = ?M" "cn_name cn' = cn_name cn" "cn_channel cn' = cn_channel cn" using same by (simp_all add: same_conn_def)
  from chan c(2) conn_relD(2) [OF rel'] same' have ch': "same_chan ch ch'" by (auto simp: same_at_def)
  from waiting_step [OF loc] obtain fs where
    fs: "\<And>qs N. waiting w' qs N = (if N = ?M then lp_pendingFunctors (loops w ?M) @ fs @ qs ?M else waiting w qs N)" by blast
  have wait: "set (waiting w qs N) \<subseteq> set (waiting w' qs N)" for qs N
    unfolding fs by (auto simp: waiting_def)
  have wait': "set (waiting w todo N) \<subseteq> set (waiting w' todo' N)" for N
    using wait [of todo N] closes by (cases "N = st_base S") (auto simp: waiting_def closing_def)
  note mono = conn_held_mono [OF _ all_waiting_mono [OF wait] wait' wait']
  have wf': "conn_wf S k w' c cn' ch'"
    using wf rel' same st room ch' loc
    by (simp add: conn_wf_def same_conn_def same_chan_def same_dispatch_def conn_local_def own_callbacks_def)
  have up: "conn_up ?M c w'" using conn_relD(1) [OF rel'] same' st(2) by (simp add: conn_up_def)
  have "\<exists>dn'. conns w' d = Some dn' \<and> cn_loop dn' = cn_loop dn \<and>
      (cn_state dn = kDisconnected \<longrightarrow> cn_state dn' = kDisconnected) \<and> (cn_state dn' = kConnecting \<longleftrightarrow> cn_state dn = kConnecting)"
    if "conns w d = Some dn" for d dn
    using that c(1) st(1-3) same'(1) conn_relD(1) [OF rel'] loc by (cases "d = c") (simp_all add: conn_local_def)
  then have "functor_wf S w' N cb" if "functor_wf S w N cb" for N cb
    using functor_wf_mono [OF that] by blast
  note queues = queues_step [OF server_sysD(3) [OF sys] loc up this]
  have "functor_wf S w' (st_base S) (Bind_TcpServer_removeConnectionInLoop (st_server S) c)" if "cn_state cn' = kDisconnected"
    using that conn_relD(1) [OF rel'] by simp
  then have queues': "sys_queues S todo' w'"
    using closes queues queues_push [OF queues] unfolding closing_def by auto
  show ?thesis
  proof (rule local_sys [OF sys c same loc wf' queues'])
    fix sv assume "conn_held sv (set (all_waiting S w hold)) (set (waiting w todo ?M)) (set (waiting w todo (st_base S))) c cn ch"
    then show "conn_held sv (set (all_waiting S w' hold)) (set (waiting w' todo' ?M)) (set (waiting w' todo' (st_base S))) c cn' ch'"
      by (rule mono) (use same' st idx closes in \<open>auto simp: leaving_def closing_def waiting_def\<close>)
  next
    fix sv d dn dh assume "conn_held sv (set (all_waiting S w hold)) (set (waiting w todo (cn_loop dn))) (set (waiting w todo (st_base S))) d dn dh"
    then show "conn_held sv (set (all_waiting S w' hold)) (set (waiting w' todo' (cn_loop dn))) (set (waiting w' todo' (st_base S))) d dn dh"
      by (rule mono) simp_all
  qed
qed

lemma sys_step:
  fixes w :: "'w client_world_scheme"
  assumes sys: "server_sys S L k hold todo w"
    and c: "conns w c = Some cn" "chans w (cn_channel cn) = Some ch"
    and step: "conn_step c w cn w' cn' ch'"
    and st: "cn_state cn \<noteq> kConnecting" "cn_state cn' \<noteq> kConnecting" "cn_state cn' = kDisconnected \<longleftrightarrow> cn_state cn = kDisconnected"
      "\<not> conn_open cn' \<Longrightarrow> isNoneEvent ch'"
    and room: "length (buf_bytes (cn_inputBuffer cn')) + k * extrabuf_size \<le> max_size"
      "unat (buf_writer (cn_outputBuffer cn')) + k * extrabuf_size \<le> max_size"
    and idx: "ch_index ch = kNew \<Longrightarrow> ch_index ch' = kNew"
  shows "server_sys S L k hold todo w'"
  using st(3) by (intro sys_step_closing [OF sys c step _ st(1,2) _ st(4) room idx]) simp_all

lemma step_keeps:
  assumes "conns w c = Some cn" "chans w (cn_channel cn) = Some ch" "conn_step c w cn w' cn' ch'"
    and "cn_state cn = kDisconnected \<Longrightarrow> cn_state cn' = kDisconnected" "cn_state cn' = kConnecting \<Longrightarrow> cn_state cn = kConnecting"
    and "ch_index ch' = kNew \<Longrightarrow> ch_index ch = kNew"
  shows "keeps w w'"
proof -
  have loc: "conn_local (cn_loop cn) c (cn_channel cn) (cn_socket cn) w w'" "same_at (cn_channel cn) w w'"
    and rel: "conn_rel w' c cn' ch'" and same: "same_conn cn cn'"
    using assms(3) by (simp_all add: conn_step_def)
  have cn': "conns w' c = Some cn'" "same_conn cn cn'" and ch': "chans w' (cn_channel cn) = Some ch'"
    using conn_relD(1,2) [OF rel] same by (simp_all add: same_conn_def)
  have "same_chan ch ch'" using loc(2) assms(2) ch' by (auto simp: same_at_def)
  moreover have "chans w' p = chans w p" if "p \<noteq> cn_channel cn" for p using loc(1) that by (simp add: conn_local_def)
  moreover have "conns w' d = conns w d" if "d \<noteq> c" for d using loc(1) that by (simp add: conn_local_def)
  ultimately show ?thesis
    unfolding keeps_def using assms(1,2,4-6) cn' ch' by (metis option.inject same_chan_refl same_conn_refl)
qed

subsection \<open>What is asked of the application\<close>

text \<open>
  The result of a callback or of an operation: it succeeds, keeps the invariant, and no channel or
  connection goes away meanwhile.
\<close>

definition safe ::
  "site \<Rightarrow> loop_ptr \<Rightarrow> nat \<Rightarrow> queues \<Rightarrow> queues \<Rightarrow> 'w client_world_scheme \<Rightarrow> 'w client_world_scheme result \<Rightarrow> bool" where
  "safe S L k hold todo w r \<longleftrightarrow>
     (\<exists>w'. r = Inr w' \<and> server_sys S L k hold todo w' \<and> keeps w w')"

text \<open>
  An application is safe when its callbacks are, called in the loop of an established connection; to
  answer a message it may use up room in the output buffer, the other callbacks may not.
\<close>

definition app_safe :: "site \<Rightarrow> ('w client_world_scheme) app \<Rightarrow> bool" where
  "app_safe S ap \<longleftrightarrow>
     (\<forall>L k hold todo w c u n. server_sys S L k hold todo w \<longrightarrow> conn_up L c w \<longrightarrow>
        safe S L k hold todo w (app_connection ap u c w) \<and>
        safe S L k hold todo w (app_writeComplete ap u c w) \<and>
        safe S L k hold todo w (app_highWaterMark ap u c n w)) \<and>
     (\<forall>L k hold todo w c u t. server_sys S L (Suc k) hold todo w \<longrightarrow> conn_up L c w \<longrightarrow>
        safe S L k hold todo w (app_message ap u c t w))"

lemma safeI: "r = Inr w' \<Longrightarrow> server_sys S L k hold todo w' \<Longrightarrow> keeps w w' \<Longrightarrow> safe S L k hold todo w r"
  by (auto simp: safe_def)

lemma safe_Inr: "server_sys S L k hold todo w \<Longrightarrow> safe S L k hold todo w (Inr w)"
  by (auto intro: safeI)

lemma safe_after: "keeps w w1 \<Longrightarrow> safe S L k hold todo w1 r \<Longrightarrow> safe S L k hold todo w r"
  by (auto simp: safe_def intro: keeps_trans)

lemma safe_bind:
  assumes "safe S L m hold' todo' w r" "\<And>w'. server_sys S L m hold' todo' w' \<Longrightarrow> keeps w w' \<Longrightarrow> safe S L k hold todo w' (f w')"
  shows "safe S L k hold todo w (bindE r f)"
proof -
  from assms(1) obtain w1 where w1: "r = Inr w1" "server_sys S L m hold' todo' w1" "keeps w w1"
    by (auto simp: safe_def)
  from assms(2) [OF w1(2,3)] safe_after [OF w1(3)] w1(1) show ?thesis by simp
qed

lemma keeps_connD:
  assumes "keeps w w'" "conns w c = Some cn"
  obtains cn' where "conns w' c = Some cn'" "same_conn cn cn'" "cn_state cn = kDisconnected \<Longrightarrow> cn_state cn' = kDisconnected"
    "cn_state cn' = kConnecting \<Longrightarrow> cn_state cn = kConnecting"
  using assms unfolding keeps_def by blast

lemma keeps_chanD:
  assumes "keeps w w'" "chans w p = Some ch"
  obtains ch' where "chans w' p = Some ch'" "same_chan ch ch'" "ch_index ch' = kNew \<Longrightarrow> ch_index ch = kNew"
  using assms unfolding keeps_def by blast

lemma keeps_up:
  assumes "keeps w w'" "conn_up M c w"
  shows "conn_up M c w'"
proof -
  from conn_upD [OF assms(2)] obtain cn where cn: "conns w c = Some cn" "cn_loop cn = M" "cn_state cn \<noteq> kConnecting" .
  from keeps_connD [OF assms(1) cn(1)] obtain cn' where "conns w' c = Some cn'" "same_conn cn cn'" "cn_state cn' \<noteq> kConnecting"
    using cn(3) by blast
  then show ?thesis using cn(2) by (intro conn_upI [of _ _ cn']) (simp_all add: same_conn_def)
qed

text \<open>A connection of the system with its channel.\<close>

lemma sys_connE:
  assumes "server_sys S L k hold todo w" "conns w c = Some cn"
  obtains ch where "chans w (cn_channel cn) = Some ch" "conn_wf S k w c cn ch"
  using server_sys_connE [OF assms] conn_relD(2) [OF conn_wfD(1)] by metis

lemma sys_conn_at:
  assumes "server_sys S L k hold todo w" "conns w c = Some cn" "chans w (cn_channel cn) = Some ch"
  shows "conn_wf S k w c cn ch"
  using sys_connE [OF assms(1,2)] assms(3) by (metis option.inject)

lemma sys_conn_loop:
  assumes "server_sys S L k hold todo w" "conns w c = Some cn"
  shows "cn_loop cn \<in> set (st_loops S)"
proof -
  from sys_connE [OF assms] obtain ch where "conn_wf S k w c cn ch" .
  then show ?thesis by (rule conn_wfD(2))
qed

subsection \<open>The callbacks of the application\<close>

lemma call_connection_safe:
  assumes sys: "server_sys S L k hold todo w" and c: "conn_up L c w" and ap: "app_safe S ap"
  shows "safe S L k hold todo w (call_connection (env_of os al ap) c w)"
proof -
  from conn_upD [OF c] obtain cn where cn: "conns w c = Some cn" .
  from sys_connE [OF sys cn] obtain ch where "conn_wf S k w c cn ch" .
  then obtain cb where cb: "cn_connectionCallback cn = Some cb" using conn_wfD(9) by blast
  show ?thesis
    using ap sys c safe_Inr [OF sys]
    by (cases cb) (auto simp: call_connection_def cn cb env_of_def app_safe_def)
qed

lemma call_message_safe:
  assumes sys: "server_sys S L (Suc k) hold todo w" and c: "conn_up L c w" and ap: "app_safe S ap"
  shows "safe S L k hold todo w (call_message (env_of os al ap) c t w)"
proof -
  from conn_upD [OF c] obtain cn where cn: "conns w c = Some cn" "cn_state cn \<noteq> kConnecting" .
  have sys': "server_sys S L k hold todo w" using server_sys_mono [OF sys] by simp
  from sys_connE [OF sys' cn(1)] obtain ch where ch: "chans w (cn_channel cn) = Some ch" "conn_wf S k w c cn ch" .
  then obtain cb where cb: "cn_messageCallback cn = Some cb" using conn_wfD(10) by blast
  show ?thesis
  proof (cases cb)
    case Default_message
    note wf = conn_wfD [OF ch(2)]
    let ?w' = "upd_conn c (\<lambda>cn. cn\<lparr>cn_inputBuffer := retrieveAll (cn_inputBuffer cn)\<rparr>) w"
    note step = retrieveAll_step [OF wf(1)]
    have "server_sys S L k hold todo ?w'"
      using wf(13-15) cn(2) by (intro sys_step [OF sys' cn(1) ch(1) step]) (simp_all add: conn_open_def retrieveAll_def)
    moreover have "keeps w ?w'" by (rule step_keeps [OF cn(1) ch(1) step]) simp_all
    ultimately show ?thesis
      using Default_message by (intro safeI [of _ ?w']) (simp_all add: call_message_def cn cb)
  next
    case (App_message u)
    then show ?thesis
      using ap sys c by (simp add: call_message_def cn cb env_of_def app_safe_def)
  qed
qed

subsection \<open>Steps that touch no connection\<close>

text \<open>Such a step may put functors into queues, or take them out; what it does to the queues is apart.\<close>

definition quiet :: "'w client_world_scheme \<Rightarrow> 'w client_world_scheme \<Rightarrow> bool" where
  "quiet w w' \<longleftrightarrow> conn_frame w w' \<and> open_conns (hist w') = open_conns (hist w) \<and>
     (\<forall>M. tq_timers (timerqueues w' M) = tq_timers (timerqueues w M) \<and> lp_quit (loops w' M) = lp_quit (loops w M)) \<and>
     conn_world.more w' = conn_world.more w"

lemma quiet_trans: "quiet w1 w2 \<Longrightarrow> quiet w2 w3 \<Longrightarrow> quiet w1 w3"
  by (auto simp: quiet_def intro: conn_frame_trans)

lemma quiet_loop:
  fixes w :: "'w client_world_scheme"
  assumes "\<And>l. lp_wakeupFd (g l) = lp_wakeupFd l" "\<And>l. lp_threadId (g l) = lp_threadId l" "\<And>l. lp_quit (g l) = lp_quit l"
  shows "quiet w (upd_loop M g w)"
  using assms by (simp add: quiet_def conn_frame_def upd_loop_def)

lemma quiet_queueInLoop:
  fixes w :: "'w client_world_scheme"
  shows "quiet w (EventLoop_queueInLoop os M cb w)"
proof -
  have "conn_world.more (EventLoop_queueInLoop os M cb w) = conn_world.more w"
    by (simp add: EventLoop_queueInLoop_def EventLoop_wakeup_def sys_write_def Let_def upd_loop_def)
  then show ?thesis by (simp add: quiet_def)
qed

lemma quietD:
  fixes w :: "'w client_world_scheme"
  assumes "quiet w w'"
  shows "conn_frame w w'" "conns w' = conns w" "chans w' = chans w" "servers w' = servers w" "acceptors w' = acceptors w"
    "keeps w w'"
  using assms server_frameD [of w' w] by (simp_all add: quiet_def conn_frame_def keeps_def)

lemma conn_wf_frame:
  assumes "conn_wf S k w c cn ch" "conn_frame w w'" "open_conns (hist w') = open_conns (hist w)"
  shows "conn_wf S k w' c cn ch"
  using assms conn_rel_frame [OF conn_wfD(1) [OF assms(1)] assms(2)] by (auto simp: conn_wf_def)

lemma server_wf_frame:
  assumes "server_wf S k w sv" "conns w' = conns w" "servers w' = servers w"
  shows "server_wf S k w' sv"
  using assms by (simp add: server_wf_def server_inv_def)

lemma quiet_base:
  fixes w :: "'w client_world_scheme"
  assumes base: "sys_base S L w" and q: "quiet w w'"
  shows "sys_base S L w'"
proof -
  note b = sys_baseD [OF base]
  have "loop_wf S M w'" if "M \<in> set (st_loops S)" for M
    using loop_wfD [OF b(7) [OF that]] q poller_inv_cong [of w' w M] by (simp add: loop_wf_def quiet_def conn_frame_def)
  moreover have "loops_apart S w'" "isInLoopThread L w'" "open_conns (hist w') = open_conns (hist w)"
    using b(3,8) q by (simp_all add: loops_apart_def isInLoopThread_def quiet_def conn_frame_def)
  ultimately show ?thesis using b(1-6,9) quietD(2-5) [OF q] unfolding sys_base_def by simp
qed

lemma quiet_sys:
  fixes w :: "'w client_world_scheme"
  assumes sys: "server_sys S L k hold todo w" and q: "quiet w w'" and queues: "sys_queues S todo' w'"
    and held: "\<And>sv c cn ch. conn_held sv (set (all_waiting S w hold)) (set (waiting w todo (cn_loop cn))) (set (waiting w todo (st_base S))) c cn ch \<Longrightarrow>
      conn_held sv (set (all_waiting S w' hold')) (set (waiting w' todo' (cn_loop cn))) (set (waiting w' todo' (st_base S))) c cn ch"
  shows "server_sys S L k hold' todo' w'"
proof -
  from server_sys_serverE [OF sys] obtain sv where
    sv: "server_wf S k w sv" "sys_conns S k hold todo sv w" .
  note same = quietD [OF q]
  have op: "open_conns (hist w') = open_conns (hist w)" using q by (simp add: quiet_def)
  have "sys_conns S k hold' todo' sv w'"
    using sv(2) conn_wf_frame [OF _ same(1) op] held unfolding sys_conns_def same(2) by meson
  moreover have "sys_chans S w'" using server_sysD(2) [OF sys] by (simp add: sys_chans_def same(2,3))
  ultimately show ?thesis
    using server_wf_frame [OF sv(1) same(2,4)] quiet_base [OF server_sysD(1) [OF sys] q] queues
    unfolding server_sys_def by blast
qed

lemma sys_quiet:
  fixes w :: "'w client_world_scheme"
  assumes sys: "server_sys S L k hold todo w" and q: "quiet w w'"
    and pend: "\<And>M. lp_pendingFunctors (loops w' M) = lp_pendingFunctors (loops w M)"
  shows "server_sys S L k hold todo w'"
proof -
  have wait: "waiting w' qs = waiting w qs" for qs using pend by (simp add: waiting_def fun_eq_iff)
  have "sys_queues S todo w'"
    using server_sysD(3) [OF sys] functor_wf_frame [OF quietD(2) [OF q]] by (simp add: sys_queues_def wait)
  from quiet_sys [OF sys q this] show ?thesis by (simp add: all_waiting_def wait)
qed

lemma quiet_safe:
  fixes w :: "'w client_world_scheme"
  assumes "server_sys S L k hold todo w" "quiet w w'" "\<And>M. lp_pendingFunctors (loops w' M) = lp_pendingFunctors (loops w M)"
  shows "safe S L k hold todo w (Inr w')"
  using sys_quiet [OF assms] quietD(6) [OF assms(2)] by (intro safeI) simp_all

subsection \<open>Putting a functor into a queue\<close>

text \<open>A functor that has to run next can as well wait at the end of the queue.\<close>

lemma requeue_sys:
  fixes w :: "'w client_world_scheme"
  assumes sys: "server_sys S L k hold (todo(M := cb # todo M)) w" and M: "M \<in> set (st_loops S)"
  shows "server_sys S L k hold todo (EventLoop_queueInLoop os M cb w)"
proof (rule quiet_sys [OF sys quiet_queueInLoop])
  let ?w' = "EventLoop_queueInLoop os M cb w" and ?todo = "todo(M := cb # todo M)"
  have wait: "waiting ?w' qs N = (if N = M then lp_pendingFunctors (loops w M) @ cb # qs M else waiting w qs N)" for qs N
    by (simp add: waiting_def)
  have same: "set (waiting ?w' todo N) = set (waiting w ?todo N)" for N
    by (auto simp: wait waiting_def)
  have dist: "waiting ?w' todo N = waiting w ?todo N" for N by (simp add: wait waiting_def)
  show "sys_queues S todo ?w'"
    using server_sysD(3) [OF sys] functor_wf_frame [OF quietD(2) [OF quiet_queueInLoop]]
    unfolding sys_queues_def dist by metis
  fix sv c cn ch
  assume "conn_held sv (set (all_waiting S w hold)) (set (waiting w ?todo (cn_loop cn))) (set (waiting w ?todo (st_base S))) c cn ch"
  moreover have "set (all_waiting S w hold) \<subseteq> set (all_waiting S ?w' hold)"
    by (rule all_waiting_mono) (auto simp: wait waiting_def)
  ultimately show "conn_held sv (set (all_waiting S ?w' hold)) (set (waiting ?w' todo (cn_loop cn))) (set (waiting ?w' todo (st_base S))) c cn ch"
    unfolding same by (rule conn_held_mono) simp_all
qed

lemma push_todo:
  assumes sys: "server_sys S L k hold todo w" and cb: "functor_wf S w M cb" "\<not> establishes cb"
  shows "server_sys S L k hold (todo(M := cb # todo M)) w"
proof -
  let ?todo = "todo(M := cb # todo M)"
  have sub: "set (waiting w todo N) \<subseteq> set (waiting w ?todo N)" for N by (auto simp: waiting_def)
  have "sys_queues S ?todo w" using queues_push [OF server_sysD(3) [OF sys] cb] .
  moreover have "sys_conns S k hold ?todo sv w" if "sys_conns S k hold todo sv w" for sv
    using that conn_held_mono [OF _ subset_refl sub sub refl] unfolding sys_conns_def by meson
  ultimately show ?thesis using sys unfolding server_sys_def by blast
qed

lemma queue_safe:
  fixes w :: "'w client_world_scheme"
  assumes "server_sys S L k hold todo w" "M \<in> set (st_loops S)" "functor_wf S w M cb" "\<not> establishes cb"
  shows "safe S L k hold todo w (Inr (EventLoop_queueInLoop os M cb w))"
  using requeue_sys [OF push_todo [OF assms(1,3,4)] assms(2)] quietD(6) [OF quiet_queueInLoop]
  by (intro safeI) simp_all

text \<open>A functor that has done its work is no longer needed.\<close>

lemma drop_todo:
  assumes sys: "server_sys S L k hold todo w" and todo: "todo M = cb # rest"
    and run: "\<And>c cn ch. cb = Bind_TcpConnection_connectDestroyed c \<Longrightarrow> conns w c = Some cn \<Longrightarrow>
      chans w (cn_channel cn) = Some ch \<Longrightarrow> ch_index ch = kNew" "\<not> establishes cb"
      "\<And>s c cn sv. cb = Bind_TcpServer_removeConnectionInLoop s c \<Longrightarrow> conns w c = Some cn \<Longrightarrow>
        servers w (st_server S) = Some sv \<Longrightarrow> sv_connections sv (cn_name cn) \<noteq> Some c"
  shows "server_sys S L k hold (todo(M := rest)) w"
proof -
  let ?todo = "todo(M := rest)"
  from server_sys_serverE [OF sys] obtain sv where
    sv: "server_wf S k w sv" "sys_conns S k hold todo sv w" .
  have sub: "set (waiting w todo N) \<subseteq> insert cb (set (waiting w ?todo N))" for N
    by (auto simp: waiting_def todo)
  have "conn_held sv H (set (waiting w ?todo (cn_loop cn))) (set (waiting w ?todo (st_base S))) c cn ch"
    if c: "conns w c = Some cn" "conn_wf S k w c cn ch"
      "conn_held sv H (set (waiting w todo (cn_loop cn))) (set (waiting w todo (st_base S))) c cn ch" for c cn ch H
  proof -
    have "leaving (set (waiting w ?todo (st_base S))) c"
      if "leaving (set (waiting w todo (st_base S))) c" "sv_connections sv (cn_name cn) = Some c"
      using run(3) [OF _ c(1) server_wfD(2) [OF sv(1)]] that sub [of "st_base S"] unfolding leaving_def by blast
    moreover have "Bind_TcpConnection_connectEstablished c \<in> set (waiting w ?todo (cn_loop cn))"
      if "Bind_TcpConnection_connectEstablished c \<in> set (waiting w todo (cn_loop cn))"
      using that run(2) sub [of "cn_loop cn"] by auto
    moreover have "ch_index ch = kNew \<or> Bind_TcpConnection_connectDestroyed c \<in> set (waiting w ?todo (cn_loop cn))"
      if "Bind_TcpConnection_connectDestroyed c \<in> set (waiting w todo (cn_loop cn))"
      using that run(1) [OF _ c(1) conn_relD(2) [OF conn_wfD(1) [OF c(2)]]] sub [of "cn_loop cn"] by blast
    ultimately show ?thesis using c(3) unfolding conn_held_def by blast
  qed
  then have "sys_conns S k hold ?todo sv w"
    using sv(2) unfolding sys_conns_def by blast
  moreover have "filter establishes (waiting w ?todo N) = filter establishes (waiting w todo N)"
    "set (waiting w ?todo N) \<subseteq> set (waiting w todo N)" for N
    using run(2) by (auto simp: waiting_def todo)
  then have "sys_queues S ?todo w"
    using server_sysD(3) [OF sys] unfolding sys_queues_def list_all_iff by (metis subsetD)
  ultimately show ?thesis using sv(1) server_sysD [OF sys] unfolding server_sys_def by blast
qed

subsection \<open>Taking a connection out of the map\<close>

lemma erase_sys:
  fixes w :: "'w client_world_scheme"
  assumes sys: "server_sys S L k hold todo w" and c: "conns w c = Some cn" "cn_state cn = kDisconnected"
    and wait: "Bind_TcpConnection_connectDestroyed c \<in> set (waiting w no_functors (cn_loop cn))"
  shows "server_sys S L k hold todo
    (upd_server (st_server S) (\<lambda>sv. sv\<lparr>sv_connections := (sv_connections sv)(cn_name cn := None)\<rparr>) w)"
    (is "server_sys S L k hold todo ?w'")
proof -
  let ?g = "\<lambda>sv. sv\<lparr>sv_connections := (sv_connections sv)(cn_name cn := None)\<rparr>"
  from server_sys_serverE [OF sys] obtain sv where
    sv: "server_wf S k w sv" "sys_conns S k hold todo sv w" .
  have inv: "server_inv w (st_server S) sv" using sv(1) by (simp add: server_wf_def)
  have fr: "conn_frame w ?w'" "open_conns (hist ?w') = open_conns (hist w)" by (simp_all add: conn_frame_def upd_server_def)
  have same: "conns ?w' = conns w" "chans ?w' = chans w" "servers ?w' (st_server S) = Some (?g sv)"
    using server_invD(1) [OF inv] by simp_all
  have pend: "waiting ?w' qs N = waiting w qs N" for qs N by (simp add: waiting_def)
  have name: "conn_name (?g sv) = conn_name sv" by (simp add: conn_name_def fun_eq_iff)
  have "server_inv ?w' (st_server S) (?g sv)"
    using inv same(1,3) unfolding server_inv_def name by auto
  then have srv: "server_wf S k ?w' (?g sv)"
    using sv(1) unfolding server_wf_def same(1) name by simp
  have loopc: "cn_loop cn \<in> set (st_loops S)" using sys_conn_loop [OF sys c(1)] .
  then have wait': "Bind_TcpConnection_connectDestroyed c \<in> set (waiting w todo (cn_loop cn))"
    "Bind_TcpConnection_connectDestroyed c \<in> set (all_waiting S w hold)"
    using wait waiting_all [OF loopc, of w hold] by (auto simp: waiting_def no_functors_def)
  have "conn_held (?g sv) (set (all_waiting S w hold)) (set (waiting w todo (cn_loop dn))) (set (waiting w todo (st_base S))) d dn dh"
    if d: "conns w d = Some dn" "conn_held sv (set (all_waiting S w hold)) (set (waiting w todo (cn_loop dn))) (set (waiting w todo (st_base S))) d dn dh" for d dn dh
  proof (cases "d = c")
    case True
    then show ?thesis using d(1) c wait' by (force simp: conn_held_def)
  next
    case False
    then have "cn_name dn \<noteq> cn_name cn" using sv(1) d(1) c(1) by (auto simp: server_wf_def)
    then show ?thesis using d(2) by (auto simp: conn_held_def)
  qed
  then have "sys_conns S k hold todo (?g sv) ?w'"
    using sv(2) conn_wf_frame [OF _ fr] unfolding sys_conns_def same all_waiting_def pend [abs_def] by meson
  moreover have "sys_queues S todo ?w'"
    using server_sysD(3) [OF sys] functor_wf_frame [OF same(1)] by (simp add: sys_queues_def pend)
  moreover have "sys_chans S ?w'" using server_sysD(2) [OF sys] by (simp add: sys_chans_def)
  moreover have "sys_base S L ?w'"
  proof -
    note b = sys_baseD [OF server_sysD(1) [OF sys]]
    have "loop_wf S M ?w'" if "M \<in> set (st_loops S)" for M
      using loop_wfD [OF b(7) [OF that]] poller_inv_cong [of ?w' w M] by (simp add: loop_wf_def)
    then show ?thesis using b(1-6,8,9) by (simp add: sys_base_def isInLoopThread_def loops_apart_def)
  qed
  ultimately show ?thesis using srv unfolding server_sys_def by blast
qed

lemma queueInLoop_upd_server:
  "EventLoop_queueInLoop os M cb (upd_server s g w) = upd_server s g (EventLoop_queueInLoop os M cb w)"
  by (simp add: EventLoop_queueInLoop_def EventLoop_wakeup_def sys_write_def isInLoopThread_def upd_loop_def
      upd_server_def Let_def)

definition not_registered :: "site \<Rightarrow> conn_ptr \<Rightarrow> 'w client_world_scheme \<Rightarrow> bool" where
  "not_registered S c w \<longleftrightarrow>
     (\<forall>sv cn. servers w (st_server S) = Some sv \<longrightarrow> conns w c = Some cn \<longrightarrow> sv_connections sv (cn_name cn) \<noteq> Some c)"

lemma remove_in_loop_safe:
  fixes w :: "'w client_world_scheme"
  assumes sys: "server_sys S L k hold todo w" and c: "conns w c = Some cn" "cn_state cn = kDisconnected"
  shows "\<exists>w'. TcpServer_removeConnectionInLoop os (st_server S) c w = Inr w' \<and> server_sys S L k hold todo w' \<and>
    keeps w w' \<and> not_registered S c w'"
proof -
  let ?g = "\<lambda>sv. sv\<lparr>sv_connections := (sv_connections sv)(cn_name cn := None)\<rparr>"
  let ?cb = "Bind_TcpConnection_connectDestroyed c"
  let ?w1 = "EventLoop_queueInLoop os (cn_loop cn) ?cb w"
  from server_sys_serverE [OF sys] obtain sv where "server_wf S k w sv" .
  note sv = server_wfD(2) [OF this]
  have "cn_loop cn \<in> set (st_loops S)" using sys_conn_loop [OF sys c(1)] .
  from queue_safe [OF sys this, of ?cb os] c obtain
    s1: "server_sys S L k hold todo ?w1" "keeps w ?w1" by (auto simp: safe_def)
  have c1: "conns ?w1 c = Some cn" using c(1) quietD(2) [OF quiet_queueInLoop] by metis
  have "?cb \<in> set (waiting ?w1 no_functors (cn_loop cn))" by (simp add: waiting_def)
  from erase_sys [OF s1(1) c1 c(2) this] have
    "server_sys S L k hold todo (upd_server (st_server S) ?g ?w1)" .
  moreover have "TcpServer_removeConnectionInLoop os (st_server S) c w = Inr (upd_server (st_server S) ?g ?w1)"
    using sv c(1) by (simp add: TcpServer_removeConnectionInLoop_def queueInLoop_upd_server)
  moreover have "keeps ?w1 (upd_server (st_server S) ?g ?w1)" by (simp add: keeps_def)
  moreover have "not_registered S c (upd_server (st_server S) ?g ?w1)"
    using c1 by (auto simp: not_registered_def upd_server_def)
  ultimately show ?thesis using keeps_trans [OF s1(2)] by blast
qed

text \<open>In the base loop the connection leaves the map at once, in another a functor of the base loop will see to it.\<close>

lemma remove_closing:
  fixes w :: "'w client_world_scheme"
  assumes sys: "server_sys S L k hold (closing S c todo) w" and c: "conns w c = Some cn" "cn_state cn = kDisconnected"
  shows "safe S L k hold todo w (TcpServer_removeConnection os (st_server S) c w)"
proof -
  let ?cb = "Bind_TcpServer_removeConnectionInLoop (st_server S) c"
  from server_sys_serverE [OF sys] obtain sv where "server_wf S k w sv" .
  note sv = server_wfD(2,3) [OF this]
  show ?thesis
  proof (cases "isInLoopThread (st_base S) w")
    case True
    from remove_in_loop_safe [OF sys c, of os] obtain w' where
      w': "TcpServer_removeConnectionInLoop os (st_server S) c w = Inr w'" "server_sys S L k hold (closing S c todo) w'"
        "keeps w w'" "not_registered S c w'" by blast
    have "server_sys S L k hold ((closing S c todo)(st_base S := todo (st_base S))) w'"
      by (rule drop_todo [OF w'(2)]) (use w'(4) in \<open>auto simp: closing_def not_registered_def\<close>)
    moreover have "(closing S c todo)(st_base S := todo (st_base S)) = todo" by (simp add: closing_def)
    ultimately have "server_sys S L k hold todo w'" by metis
    then show ?thesis
      using w'(1,3) sv True by (intro safeI) (simp_all add: TcpServer_removeConnection_def EventLoop_runInLoop_def)
  next
    case False
    have "server_sys S L k hold todo (EventLoop_queueInLoop os (st_base S) ?cb w)"
      using requeue_sys [OF sys [unfolded closing_def] sys_baseD(2) [OF server_sysD(1) [OF sys]]] .
    then show ?thesis
      using quietD(6) [OF quiet_queueInLoop] sv False
      by (intro safeI) (simp_all add: TcpServer_removeConnection_def EventLoop_runInLoop_def)
  qed
qed

end
