(* ===== verification/ServerEvents.thy ===== *)
theory ServerEvents
  imports ServerSafety
begin

section \<open>ServerEvents: every event of a server is handled safely\<close>

text \<open>
  The callbacks of the channels, one by one: the four of a connection, the wake-up, the timers and the
  listening socket; \<open>connectEstablished\<close>, called by the base loop or as a functor of another loop.
  Then a whole event.
\<close>

text \<open>What is asked of the kernel, of \<open>accept\<close> and of the allocator.\<close>

definition kernel_ok :: "os \<Rightarrow> bool" where
  "kernel_ok os \<longleftrightarrow> epoll_ok os \<and> write_ok os \<and> readv_ok os \<and> clock_ok os \<and> (\<forall>ep f. epoll_adds os ep f)"

definition accept_fresh :: "os \<Rightarrow> fd set \<Rightarrow> bool" where
  "accept_fresh os B \<longleftrightarrow> (\<forall>h l f a. os_accept os h l = Inr (f, a) \<longrightarrow> f \<notin> B \<and> f \<notin> open_conns h)"

definition alloc_ok :: "alloc \<Rightarrow> bool" where
  "alloc_ok al \<longleftrightarrow> (\<forall>m. finite (dom m) \<longrightarrow> m (al_channel al m) = None) \<and>
     (\<forall>m. finite (dom m) \<longrightarrow> m (al_conn al m) = None)"

lemma kernel_okD:
  assumes "kernel_ok os"
  shows "epoll_ok os" "write_ok os" "readv_ok os" "clock_ok os" "epoll_adds os ep f"
  using assms by (simp_all add: kernel_ok_def)

lemma conn_step_at:
  assumes "conn_step c w cn w' cn' ch'"
  shows "conns w' c = Some cn'" "chans w' (cn_channel cn') = Some ch'"
  using assms conn_relD(1,2) unfolding conn_step_def by blast+

subsection \<open>The callbacks of a connection\<close>

lemma handleClose_safe:
  assumes sys: "server_sys S L k hold todo w" and c: "conns w c = Some cn" "chans w (cn_channel cn) = Some ch"
    and idx: "ch_index ch \<noteq> kNew" and here: "cn_loop cn = L" and os: "kernel_ok os" and ap: "app_safe S ap"
  shows "safe S L k hold todo w (TcpConnection_handleClose os (env_of os al ap) c w)"
proof -
  let ?env = "env_of os al ap" and ?cn = "cn\<lparr>cn_state := kDisconnected\<rparr>"
  note wf = conn_wfD [OF sys_conn_at [OF sys c]] and up = conn_wf_up [OF sys_conn_at [OF sys c] idx]
  from close_step [OF kernel_okD(1,5) [OF os] wf(1) idx, of ?env] obtain w1 ch1 where
    w1: "TcpConnection_handleClose os ?env c w = bindE (call_connection ?env c w1) (call_close ?env c)"
      "conn_step c w cn w1 ?cn ch1" "isNoneEvent ch1" "ch_index ch1 \<noteq> kNew" by blast
  have sys1: "server_sys S L k hold (closing S c todo) w1"
    using w1(3) idx wf(13,14) up(1) by (intro sys_step_closing [OF sys c w1(2)]) simp_all
  have k1: "keeps w w1" using w1(4) by (intro step_keeps [OF c w1(2)]) simp_all
  have c1: "conns w1 c = Some ?cn" using conn_step_at(1) [OF w1(2)] .
  have "safe S L k hold todo w2 (call_close ?env c w2)"
    if sys2: "server_sys S L k hold (closing S c todo) w2" and k2: "keeps w1 w2" for w2
  proof -
    from keeps_connD [OF k2 c1] obtain cn2 where
      c2: "conns w2 c = Some cn2" "same_conn ?cn cn2" "cn_state cn2 = kDisconnected" by auto
    then have "cn_closeCallback cn2 = Some (Bind_TcpServer_removeConnection (st_server S))"
      using wf(11) by (simp add: same_conn_def)
    then show ?thesis
      using remove_closing [OF sys2 c2(1,3)] c2(1) by (simp add: call_close_def env_of_def close_of_def)
  qed
  moreover have "conn_up L c w1" using here by (intro conn_upI [OF c1]) simp_all
  ultimately have "safe S L k hold todo w1 (bindE (call_connection ?env c w1) (call_close ?env c))"
    by (intro safe_bind [OF call_connection_safe [OF sys1 _ ap]]) auto
  then show ?thesis unfolding w1(1) by (rule safe_after [OF k1])
qed

lemma handleError_safe:
  assumes sys: "server_sys S L k hold todo w" and c: "conns w c = Some cn" "cn_state cn \<noteq> kConnecting"
  shows "safe S L k hold todo w (TcpConnection_handleError os c w)"
proof -
  from sys_connE [OF sys c(1)] obtain ch where ch: "chans w (cn_channel cn) = Some ch" "conn_wf S k w c cn ch" .
  note wf = conn_wfD [OF ch(2)]
  from handleError_step [OF wf(1)] obtain w1 where
    w1: "TcpConnection_handleError os c w = Inr w1" "conn_step c w cn w1 cn ch" by blast
  have "server_sys S L k hold todo w1"
    using wf(13-15) c(2) by (intro sys_step [OF sys c(1) ch(1) w1(2)]) simp_all
  then show ?thesis using w1(1) step_keeps [OF c(1) ch(1) w1(2)] by (intro safeI) simp_all
qed

lemma handleWrite_safe:
  assumes sys: "server_sys S L k hold todo w" and c: "conns w c = Some cn" and os: "kernel_ok os"
  shows "safe S L k hold todo w (TcpConnection_handleWrite os c w)"
proof -
  from sys_connE [OF sys c] obtain ch where ch: "chans w (cn_channel cn) = Some ch" "conn_wf S k w c cn ch" .
  note wf = conn_wfD [OF ch(2)]
  show ?thesis
  proof (cases "conn_open cn")
    case False
    then have "TcpConnection_handleWrite os c w = Inr w"
      using c ch(1) isNoneEvent_iff [OF wf(15)] by (simp add: TcpConnection_handleWrite_def)
    then show ?thesis using safe_Inr [OF sys] by simp
  next
    case True
    from handleWrite_step [OF kernel_okD(1,2) [OF os] wf(1) True] obtain w1 b ch1 where
      w1: "TcpConnection_handleWrite os c w = Inr w1" "conn_step c w cn w1 (cn\<lparr>cn_outputBuffer := b\<rparr>) ch1"
        "unat (buf_writer b) \<le> unat (buf_writer (cn_outputBuffer cn))" by blast
    have idx: "ch_index ch \<noteq> kNew" "ch_index ch1 \<noteq> kNew"
      using conn_relD(11) [OF wf(1) True] conn_relD(11) [of w1 c "cn\<lparr>cn_outputBuffer := b\<rparr>" ch1] w1(2) True
      by (simp_all add: conn_step_def conn_open_def kIndex_defs)
    have "server_sys S L k hold todo w1"
      using conn_wf_up(1) [OF ch(2) idx(1)] wf(13,14) w1(3) True idx
      by (intro sys_step [OF sys c ch(1) w1(2)]) (simp_all add: conn_open_def)
    then show ?thesis using w1(1) step_keeps [OF c ch(1) w1(2)] idx by (intro safeI) simp_all
  qed
qed

lemma handleRead_safe:
  assumes sys: "server_sys S L (Suc (Suc k)) hold todo w" and c: "conns w c = Some cn"
    "chans w (cn_channel cn) = Some ch" and idx: "ch_index ch \<noteq> kNew" and here: "cn_loop cn = L"
    and os: "kernel_ok os" and ap: "app_safe S ap"
  shows "safe S L k hold todo w (TcpConnection_handleRead os (env_of os al ap) c t w)"
proof -
  let ?env = "env_of os al ap"
  note wf = conn_wfD [OF sys_conn_at [OF sys c]] and up = conn_wf_up(1) [OF sys_conn_at [OF sys c] idx]
  have room: "buffer_room extrabuf_size (cn_inputBuffer cn)"
    using wf(13) by (simp add: buffer_room_def)
  from handleRead_step [OF kernel_okD(3) [OF os] wf(1) room, of ?env t] obtain inp w1 where
    w1: "conn_step c w cn w1 (cn\<lparr>cn_inputBuffer := inp\<rparr>) ch"
      "length (buf_bytes inp) \<le> length (buf_bytes (cn_inputBuffer cn)) + extrabuf_size"
      "TcpConnection_handleRead os ?env c t w =
      (case os_readv os (hist w) (cn_socket cn) (readv_iov (cn_inputBuffer cn)) of
         Inr bs \<Rightarrow> if bs \<noteq> [] then call_message ?env c t w1 else TcpConnection_handleClose os ?env c w1
       | Inl _ \<Rightarrow> TcpConnection_handleError os c w1)" by blast
  have "server_sys S L (Suc k) hold todo w"
    using server_sys_mono [OF sys] by simp
  then have sys1: "server_sys S L (Suc k) hold todo w1"
    using up wf(13-15) w1(2) by (intro sys_step [OF _ c w1(1)]) (simp_all add: conn_open_def)
  then have sys1': "server_sys S L k hold todo w1" using server_sys_mono by fastforce
  have k1: "keeps w w1" by (rule step_keeps [OF c w1(1)]) simp_all
  have c1: "conns w1 c = Some (cn\<lparr>cn_inputBuffer := inp\<rparr>)" "chans w1 (cn_channel cn) = Some ch"
    using conn_step_at [OF w1(1)] by simp_all
  have "conn_up L c w1" using here up by (intro conn_upI [OF c1(1)]) simp_all
  then have "safe S L k hold todo w1 (TcpConnection_handleRead os ?env c t w)"
    using w1(3) call_message_safe [OF sys1 _ ap] handleError_safe [OF sys1' c1(1)]
      handleClose_safe [OF sys1' c1(1) _ idx _ os ap] c1 up here
    by (simp split: sum.splits)
  then show ?thesis by (rule safe_after [OF k1])
qed

subsection \<open>Establishing a connection\<close>

text \<open>A channel that is not in its poller leaves its descriptor free there.\<close>

lemma sys_unregistered:
  assumes sys: "server_sys S L k hold todo w" and ch: "chans w p = Some ch" "ch_loop ch \<in> set (st_loops S)" "ch_index ch = kNew"
  shows "po_channels (pollers w (ch_loop ch)) (ch_fd ch) = None"
proof (rule ccontr)
  note inv = sys_loop(1) [OF sys ch(2)]
  assume "\<not> ?thesis"
  then obtain q where q: "po_channels (pollers w (ch_loop ch)) (ch_fd ch) = Some q" by auto
  from poller_invD(1) [OF inv q] obtain dh where dh: "chans w q = Some dh" "ch_loop dh = ch_loop ch" "ch_fd dh = ch_fd ch" by blast
  with sys_chansD(2) [OF server_sysD(2) [OF sys] ch(1,2) dh(1)] ch(2) have "q = p" by simp
  from poller_invD(2) [OF inv ch(1) refl] q ch(3) \<open>q = p\<close> show False by (cases rule: chan_ok_cases) (auto simp: kIndex_defs)
qed

lemma functor_wf_connecting:
  "functor_wf S w M cb \<Longrightarrow> owner cb = Some c \<Longrightarrow> conns w c = Some cn \<Longrightarrow> cn_state cn = kConnecting \<Longrightarrow>
    cb = Bind_TcpConnection_connectEstablished c"
  by (cases cb) (auto simp: conn_up_def)

lemma filter_establishes_Cons:
  assumes "distinct (filter establishes (as @ Bind_TcpConnection_connectEstablished c # bs))"
  shows "Bind_TcpConnection_connectEstablished c \<notin> set (as @ bs)" "distinct (filter establishes (as @ bs))"
  using assms by auto

lemma establish_sys:
  fixes w :: "'w client_world_scheme"
  assumes sys: "server_sys S L k hold todo w" and M: "M \<in> set (st_loops S)"
    and todo: "todo M = Bind_TcpConnection_connectEstablished c # rest" and os: "kernel_ok os"
  shows "\<exists>cn w2. conns w c = Some cn \<and> cn_loop cn = M \<and>
    TcpConnection_connectEstablished os env c w = call_connection env c w2 \<and>
    server_sys S L k hold (todo(M := rest)) w2 \<and> conn_up M c w2 \<and>
    (\<forall>d. d \<noteq> c \<longrightarrow> conns w2 d = conns w d) \<and> (\<forall>q. q \<noteq> cn_channel cn \<longrightarrow> chans w2 q = chans w q)"
proof -
  let ?est = "Bind_TcpConnection_connectEstablished c" and ?pend = "lp_pendingFunctors (loops w M)"
  note q = sys_queuesD [OF server_sysD(3) [OF sys] M]
  have "functor_wf S w M ?est" by (rule q(1)) (simp add: waiting_def todo)
  then obtain cn where cn: "conns w c = Some cn" "cn_loop cn = M" "cn_state cn = kConnecting"
    by (auto split: option.splits)
  from sys_connE [OF sys cn(1)] obtain ch where
    ch: "chans w (cn_channel cn) = Some ch" "conn_wf S k w c cn ch" .
  note wf = conn_wfD [OF ch(2)]
  note r = conn_relD [OF wf(1)]
  have new: "ch_index ch = kNew" "ch_events ch = 0" "content (cn_inputBuffer cn) = []" "content (cn_outputBuffer cn) = []"
    using ch(2) cn(3) by (simp_all add: conn_wf_def)
  have lp: "ch_loop ch = M" "ch_fd ch = cn_socket cn" using r(3,4) cn(2) by simp_all
  have "po_channels (pollers w M) (cn_socket cn) = None"
    using sys_unregistered [OF sys ch(1) _ new(1)] lp M by simp
  then have fresh: "conn_fresh w c cn ch"
    using r(1-8) new cn(2) by (simp add: conn_fresh_def)
  let ?cn = "cn\<lparr>cn_state := kConnected\<rparr>"
  from connectEstablished_step [OF kernel_okD(1,5) [OF os] fresh, of env] obtain w2 ch2 where
    e: "TcpConnection_connectEstablished os env c w = call_connection env c w2"
      "conn_rel w2 c ?cn ch2" "ch_tie ch2 = Some c" "ch_tied ch2" "own_callbacks c ch \<longrightarrow> own_callbacks c ch2"
      "conn_local (cn_loop cn) c (cn_channel cn) (cn_socket cn) w w2" by blast
  have wf2: "conn_wf S k w2 c ?cn ch2"
    using e wf ch(2) by (simp add: conn_wf_def conn_open_def conn_local_def)
  from waiting_step [OF e(6)] obtain fs where
    fs: "\<And>qs N. waiting w2 qs N = (if N = M then ?pend @ fs @ qs M else waiting w qs N)"
      "list_all (report_of c) fs" unfolding cn(2) by blast
  have conns2: "conns w2 d = conns w d" if "d \<noteq> c" for d using e(6) that by (simp add: conn_local_def)
  have c2: "conns w2 c = Some ?cn" using conn_relD(1) [OF e(2)] .
  have up: "conn_up M c w2" using cn(2) by (intro conn_upI [OF c2]) simp_all
  have mono: "functor_wf S w2 N cb" if cb: "functor_wf S w N cb" "cb \<noteq> ?est" for N cb
    using cb(1)
  proof (rule functor_wf_mono)
    fix d dn assume d: "owner cb = Some d" "conns w d = Some dn"
    then have "d \<noteq> c" using functor_wf_connecting [OF cb(1) _ cn(1,3)] cb(2) by auto
    with d(2) conns2 show "\<exists>dn'. conns w2 d = Some dn' \<and> cn_loop dn' = cn_loop dn \<and>
        (cn_state dn = kDisconnected \<longrightarrow> cn_state dn' = kDisconnected) \<and> (cn_state dn' = kConnecting \<longleftrightarrow> cn_state dn = kConnecting)"
      by simp
  qed
  have queues: "sys_queues S (todo(M := rest)) w2"
    unfolding sys_queues_def
  proof
    fix N assume N: "N \<in> set (st_loops S)"
    note qN = sys_queuesD [OF server_sysD(3) [OF sys] N]
    show "list_all (functor_wf S w2 N) (waiting w2 (todo(M := rest)) N) \<and> distinct (filter establishes (waiting w2 (todo(M := rest)) N))"
    proof (cases "N = M")
      case True
      have "distinct (filter establishes (?pend @ ?est # rest))" using q(2) by (simp add: waiting_def todo)
      note once = filter_establishes_Cons [OF this]
      have "functor_wf S w2 M cb" if "cb \<in> set (?pend @ rest)" for cb
        using mono [OF q(1) [of cb]] that once(1) by (auto simp: waiting_def todo)
      moreover have "functor_wf S w2 M cb" if "cb \<in> set fs" for cb
        using functor_wf_report [OF _ up] fs(2) that by (auto simp: list_all_iff)
      ultimately show ?thesis using True once(2) report_establishes [OF fs(2)] by (auto simp: fs(1) list_all_iff)
    next
      case False
      have "functor_wf S w2 N cb" if "cb \<in> set (waiting w todo N)" for cb
        using mono [OF qN(1) [OF that]] qN(1) [OF that] cn(1,2) False by (cases "cb = ?est") auto
      moreover have "waiting w2 (todo(M := rest)) N = waiting w todo N" using False by (simp add: fs(1)) (simp add: waiting_def)
      ultimately show ?thesis using qN(2) by (simp add: list_all_iff)
    qed
  qed
  have H: "set (all_waiting S w hold) \<subseteq> set (all_waiting S w2 hold)"
    by (rule all_waiting_mono) (unfold fs(1), auto simp: waiting_def)
  have T: "set (waiting w todo N) \<subseteq> insert ?est (set (waiting w2 (todo(M := rest)) N))" for N
    unfolding fs(1) by (auto simp: waiting_def todo)
  have "server_sys S L k hold (todo(M := rest)) w2"
  proof (rule local_sys [OF sys cn(1) ch(1) _ e(6) wf2 queues])
    fix sv d dn dh assume "d \<noteq> c" "conn_held sv (set (all_waiting S w hold)) (set (waiting w todo (cn_loop dn))) (set (waiting w todo (st_base S))) d dn dh"
    then show "conn_held sv (set (all_waiting S w2 hold)) (set (waiting w2 (todo(M := rest)) (cn_loop dn))) (set (waiting w2 (todo(M := rest)) (st_base S))) d dn dh"
      using H T [of "cn_loop dn"] T [of "st_base S"] unfolding conn_held_def leaving_def by blast
  qed (use cn(3) in \<open>simp_all add: conn_held_def\<close>)
  then show ?thesis
    using cn(1,2) e(1,6) up conns2 by (intro exI [of _ cn] exI [of _ w2]) (simp add: conn_local_def)
qed

subsection \<open>Accepting\<close>

lemma names_new:
  assumes srv: "server_wf S k w sv" and c: "conns w d = Some dn"
  shows "cn_name dn \<noteq> conn_name sv (sint (sv_nextConnId sv))"
proof -
  from server_wfD(9) [OF srv c] obtain nr where nr: "0 < nr" "nr < sint (sv_nextConnId sv)" "cn_name dn = conn_name sv nr"
    by blast
  from server_invD(4) [OF server_wfD(1) [OF srv]] obtain a where a: "sv_ipPort sv = toIpPort a" ..
  have "sint (sv_nextConnId sv) < 2 ^ 31" using sint_range(2) [of "sv_nextConnId sv"] by simp
  with nr conn_name_inj [OF a, of nr "sint (sv_nextConnId sv)"] show ?thesis by simp
qed

text \<open>A connection is added to the server: it waits to be established in its loop.\<close>

lemma server_wf_add:
  assumes sv: "server_wf S (Suc k) w sv" and conns1: "conns w1 = (conns w)(c \<mapsto> cn)" "conns w c = None"
    and name: "cn_name cn = conn_name sv (sint (sv_nextConnId sv))"
    and sv1: "server_inv w1 (st_server S) sv1" "same_settings sv sv1" "pl_loops (sv_pool sv1) = pl_loops (sv_pool sv)"
      "pl_baseLoop (sv_pool sv1) = pl_baseLoop (sv_pool sv)" "conn_name sv1 = conn_name sv"
      "sint (sv_nextConnId sv1) = sint (sv_nextConnId sv) + 1"
  shows "server_wf S k w1 sv1"
proof -
  have names: "cn_name dn \<noteq> cn_name cn" if "conns w d = Some dn" for d dn
    using names_new [OF sv that] name by simp
  have "\<exists>nr. 0 < nr \<and> nr < sint (sv_nextConnId sv) + 1 \<and> cn_name dn = conn_name sv nr"
    if d: "conns w1 d = Some dn" for d dn
  proof (cases "d = c")
    case True
    then show ?thesis using d conns1 name server_invD(3) [OF server_wfD(1) [OF sv]] by auto
  next
    case False
    with d conns1 have "conns w d = Some dn" by simp
    from server_wfD(9) [OF sv this] show ?thesis by (metis zless_add1_eq)
  qed
  moreover have "d = e" if "conns w1 d = Some dn" "conns w1 e = Some en" "cn_name dn = cn_name en" for d e dn en
    using that names [of d dn] names [of e en] server_wfD(10) [OF sv, of d dn e en] unfolding conns1(1) by (auto split: if_splits)
  ultimately show ?thesis
    using server_wfD(3-8) [OF sv] sv1 unfolding server_wf_def same_settings_def by simp
qed

lemma room_for_new:
  assumes sv: "server_wf S (Suc k) w sv" and b: "length (buf_bytes inp) = unat kInitialSize + 8" "unat (buf_writer out) = 8"
  shows "length (buf_bytes inp) + k * extrabuf_size \<le> max_size" "unat (buf_writer out) + k * extrabuf_size \<le> max_size"
proof -
  have "int (Suc k) < 2 ^ 31" using server_wfD(6) [OF sv] server_invD(3) [OF server_wfD(1) [OF sv]] by linarith
  then have "Suc k * extrabuf_size \<le> 2 ^ 31 * extrabuf_size" by (intro mult_le_mono1) simp
  then show "length (buf_bytes inp) + k * extrabuf_size \<le> max_size" "unat (buf_writer out) + k * extrabuf_size \<le> max_size"
    using b by (simp_all add: kInitialSize_def max_size_def extrabuf_size_def)
qed

lemma add_conn_sys:
  fixes w :: "'w client_world_scheme"
  assumes sys: "server_sys S L (Suc k) hold todo w"
    and sv: "server_wf S (Suc k) w sv" "sys_conns S (Suc k) hold todo sv w"
    and fresh: "conns w c = None" "chans w (cn_channel cn) = None"
      "\<And>q qh. chans w q = Some qh \<Longrightarrow> ch_loop qh \<in> set (st_loops S) \<Longrightarrow> ch_fd qh \<noteq> cn_socket cn"
    and add: "conn_added c cn ch w w1" "conn_fresh w1 c cn ch" "acceptors w1 = acceptors w"
      "open_conns (hist w1) = insert (cn_socket cn) (open_conns (hist w))" "interest (hist w1) = interest (hist w)"
    and cn: "cn_loop cn = M" "M \<in> set (st_loops S)" "cn_state cn = kConnecting"
      "cn_name cn = conn_name sv (sint (sv_nextConnId sv))"
      "cn_connectionCallback cn = sv_connectionCallback sv" "cn_messageCallback cn = sv_messageCallback sv"
      "cn_closeCallback cn = Some (Bind_TcpServer_removeConnection (st_server S))"
    and sv1: "server_inv w1 (st_server S) sv1" "same_settings sv sv1" "pl_loops (sv_pool sv1) = pl_loops (sv_pool sv)"
      "pl_baseLoop (sv_pool sv1) = pl_baseLoop (sv_pool sv)" "conn_name sv1 = conn_name sv"
      "sint (sv_nextConnId sv1) = sint (sv_nextConnId sv) + 1"
      "sv_connections sv1 = (sv_connections sv)(cn_name cn \<mapsto> c)"
  shows "server_sys S L k hold (todo(M := Bind_TcpConnection_connectEstablished c # todo M)) w1" "keeps w w1"
proof -
  let ?p = "cn_channel cn" and ?est = "Bind_TcpConnection_connectEstablished c"
  let ?todo = "todo(M := ?est # todo M)"
  have conns1: "conns w1 = (conns w)(c \<mapsto> cn)" and chans1: "chans w1 = (chans w)(?p \<mapsto> ch)"
    and same: "pollers w1 = pollers w" "loops w1 = loops w" "current_tid w1 = current_tid w" "timerqueues w1 = timerqueues w"
    and own: "own_callbacks c ch" and size: "length (buf_bytes (cn_inputBuffer cn)) = unat kInitialSize + 8"
      "unat (buf_writer (cn_outputBuffer cn)) = 8"
    using add(1) by (simp_all add: conn_added_def)
  note fr = add(2) [unfolded conn_fresh_def]
  note base = sys_baseD [OF server_sysD(1) [OF sys]]
  have wait: "waiting w1 qs = waiting w qs" for qs by (simp add: waiting_def same(2) fun_eq_iff)
  have lp: "loop_wf S N w1" if N: "N \<in> set (st_loops S)" for N
  proof -
    have "poller_inv N (w\<lparr>chans := (chans w)(?p \<mapsto> ch)\<rparr>)"
      using poller_inv_new_chan [OF loop_wfD(1) [OF base(7) [OF N]] fresh(2)] fr by simp
    then have "poller_inv N w1"
      using poller_inv_cong [of w1 "w\<lparr>chans := (chans w)(?p \<mapsto> ch)\<rparr>" N] chans1 same(1) add(5) by simp
    then show ?thesis using loop_wfD [OF base(7) [OF N]] same by (simp add: loop_wf_def)
  qed
  have "\<exists>d dn. conns w1 d = Some dn \<and> cn_socket dn = f" if "f \<in> open_conns (hist w1)" for f
  proof (cases "f = cn_socket cn")
    case True
    then show ?thesis using conns1 by (intro exI [of _ c] exI [of _ cn]) simp
  next
    case False
    then have "f \<in> open_conns (hist w)" using that add(4) by simp
    from base(9) [OF this] obtain d dn where d: "conns w d = Some dn" "cn_socket dn = f" by blast
    then have "d \<noteq> c" using fresh(1) by auto
    with d show ?thesis using conns1 by (intro exI [of _ d] exI [of _ dn]) simp
  qed
  then have b1: "sys_base S L w1"
    using base(1-6,8) lp same conns1 chans1 add(3) by (simp add: sys_base_def isInLoopThread_def loops_apart_def)
  have names: "cn_name dn \<noteq> cn_name cn" if "conns w d = Some dn" for d dn
    using names_new [OF sv(1) that] cn(4) by simp
  note srv = server_wf_add [OF sv(1) conns1 fresh(1) cn(4) sv1(1-6)]
  have none: "isNoneEvent ch" "\<not> isWriting ch" using fr by (simp_all add: isNoneEvent_def kNoneEvent_def isWriting_def)
  then have "conn_rel w1 c cn ch"
    using fr cn(3) by (simp add: conn_rel_def conn_open_def)
  then have wf: "conn_wf S k w1 c cn ch"
    using cn fr none own room_for_new [OF sv(1) size] add(4) server_wfD(7,8) [OF sv(1)] by (simp add: conn_wf_def)
  have old: "\<exists>dh. conn_wf S k w1 d dn dh \<and>
      conn_held sv1 (set (all_waiting S w1 hold)) (set (waiting w1 ?todo (cn_loop dn))) (set (waiting w1 ?todo (st_base S))) d dn dh"
    if d: "conns w d = Some dn" for d dn
  proof -
    from sys_connsD [OF sv(2) d] obtain dh where dh: "conn_wf S (Suc k) w d dn dh"
      "conn_held sv (set (all_waiting S w hold)) (set (waiting w todo (cn_loop dn))) (set (waiting w todo (st_base S))) d dn dh" by blast
    have ne: "d \<noteq> c" "cn_channel dn \<noteq> ?p"
      using d fresh(1,2) conn_relD(2) [OF conn_wfD(1) [OF dh(1)]] by auto
    then have "conn_wf S (Suc k) w1 d dn dh"
      using conn_wfD(2,12) [OF dh(1)] loop_wfD(1) [OF lp]
      by (intro conn_wf_other [OF dh(1)]) (simp_all add: conns1 chans1 same add(4))
    then have "conn_wf S k w1 d dn dh" by (simp add: conn_wf_def)
    moreover have "conn_held sv1 (set (all_waiting S w hold)) (set (waiting w todo (cn_loop dn))) (set (waiting w todo (st_base S))) d dn dh"
      using dh(2) names [OF d] unfolding conn_held_def sv1(7) by simp
    then have "conn_held sv1 (set (all_waiting S w1 hold)) (set (waiting w1 ?todo (cn_loop dn))) (set (waiting w1 ?todo (st_base S))) d dn dh"
      by (rule conn_held_mono) (auto simp: wait all_waiting_def, auto simp: waiting_def)
    ultimately show ?thesis by blast
  qed
  have cs: "sys_conns S k hold ?todo sv1 w1"
    unfolding sys_conns_def
  proof (intro allI impI)
    fix d dn assume d: "conns w1 d = Some dn"
    show "\<exists>dh. conn_wf S k w1 d dn dh \<and> conn_held sv1 (set (all_waiting S w1 hold)) (set (waiting w1 ?todo (cn_loop dn))) (set (waiting w1 ?todo (st_base S))) d dn dh"
    proof (cases "d = c")
      case True
      then have "dn = cn" using d conns1 by simp
      moreover have "conn_held sv1 (set (all_waiting S w1 hold)) (set (waiting w1 ?todo (cn_loop cn))) (set (waiting w1 ?todo (st_base S))) c cn ch"
        by (simp add: conn_held_def sv1(7) cn(1,3) waiting_def)
      ultimately show ?thesis using wf True by blast
    qed (use d old conns1 in simp)
  qed
  have chs: "sys_chans S w1"
    unfolding sys_chans_def
  proof (intro conjI allI impI)
    fix q xh assume q: "chans w1 q = Some xh" "ch_loop xh \<in> set (st_loops S)"
    show "base_chan S xh \<or> (\<exists>d dn. conns w1 d = Some dn \<and> cn_channel dn = q)"
    proof (cases "q = ?p")
      case True
      then show ?thesis using conns1 by (intro disjI2 exI [of _ c] exI [of _ cn]) simp
    next
      case False
      with q chans1 have "chans w q = Some xh" by simp
      from sys_chansD(1) [OF server_sysD(2) [OF sys] this q(2)] show ?thesis
        using fresh(1) unfolding conns1 by (metis fun_upd_other option.distinct(1))
    qed
  next
    fix q r xh yh assume "chans w1 q = Some xh" "chans w1 r = Some yh" "ch_loop xh \<in> set (st_loops S)"
      "ch_loop yh \<in> set (st_loops S)" "ch_fd xh = ch_fd yh"
    then show "q = r"
      using fresh(3) [of q xh] fresh(3) [of r yh] sys_chansD(2) [OF server_sysD(2) [OF sys], of q xh r yh] fr
      by (auto simp: chans1 split: if_splits)
  qed
  have mono: "functor_wf S w1 N cb" if "functor_wf S w N cb" for N cb
    using that by (rule functor_wf_mono) (use fresh(1) conns1 in auto)
  have new: "?est \<notin> set (waiting w todo M)"
    using sys_queuesD(1) [OF server_sysD(3) [OF sys] cn(2), of ?est] fresh(1) by auto
  have "sys_queues S ?todo w1"
    unfolding sys_queues_def
  proof
    fix N assume N: "N \<in> set (st_loops S)"
    note qN = sys_queuesD [OF server_sysD(3) [OF sys] N]
    show "list_all (functor_wf S w1 N) (waiting w1 ?todo N) \<and> distinct (filter establishes (waiting w1 ?todo N))"
    proof (cases "N = M")
      case True
      have "functor_wf S w1 M ?est" using conns1 cn(1,3) by simp
      moreover have "functor_wf S w1 M cb" if "cb \<in> set (waiting w todo M)" for cb
        using mono qN(1) that True by blast
      ultimately show ?thesis using True qN(2) new by (auto simp: wait waiting_def list_all_iff)
    next
      case False
      then have "waiting w1 ?todo N = waiting w todo N" by (simp add: wait) (simp add: waiting_def)
      then show ?thesis using qN mono by (simp add: list_all_iff)
    qed
  qed
  then show "server_sys S L k hold ?todo w1" using b1 srv cs chs unfolding server_sys_def by blast
  show "keeps w w1"
    unfolding keeps_def conns1 chans1 using fresh(1,2) by auto
qed

lemma getNextLoop_among:
  assumes "EventLoopThreadPool_getNextLoop p = Inr (M, pl)"
  shows "pl_loops pl = pl_loops p" "pl_baseLoop pl = pl_baseLoop p" "M = pl_baseLoop p \<or> M \<in> set (pl_loops p)"
  using assms by (auto simp: EventLoopThreadPool_getNextLoop_def Let_def res_simps split: if_splits)

lemma getNextLoop_Inr:
  assumes "pool_inv p"
  shows "\<exists>M pl. EventLoopThreadPool_getNextLoop p = Inr (M, pl) \<and> pool_inv pl"
  using getNextLoop_ok [OF assms] assms
  by (cases "pl_loops p = []") (auto simp: EventLoopThreadPool_getNextLoop_def)

text \<open>Only the loop whose thread runs is in its thread.\<close>

lemma only_here:
  assumes "server_sys S L k hold todo w" "M \<in> set (st_loops S)" "isInLoopThread M w"
  shows "M = L"
proof (rule ccontr)
  note base = sys_baseD [OF server_sysD(1) [OF assms(1)]]
  assume "M \<noteq> L"
  with base(1,8) assms(2) have "lp_threadId (loops w M) \<noteq> lp_threadId (loops w L)" by (auto simp: loops_apart_def)
  with base(3) assms(3) show False by (simp add: isInLoopThread_def)
qed

lemma keeps_grown:
  assumes "\<And>d. conns w d \<noteq> None \<Longrightarrow> conns w' d = conns w d" "\<And>q. chans w q \<noteq> None \<Longrightarrow> chans w' q = chans w q"
  shows "keeps w w'"
proof -
  have "conns w' d = Some dn" if "conns w d = Some dn" for d dn using assms(1) [of d] that by simp
  moreover have "chans w' q = Some dh" if "chans w q = Some dh" for q dh using assms(2) [of q] that by simp
  ultimately show ?thesis by (simp add: keeps_def)
qed

lemma accept_safe:
  fixes w :: "'w client_world_scheme"
  assumes sys: "server_sys S L (Suc k) hold todo w" and os: "kernel_ok os" "accept_fresh os (st_fds S)"
    and al: "alloc_ok al" and ap: "app_safe S ap"
  shows "safe S L k hold todo w (Acceptor_handleRead os (TcpServer_newConnection os al (env_of os al ap)) (st_server S) w)"
proof -
  let ?env = "env_of os al ap" and ?s = "st_server S"
  note base = sys_baseD [OF server_sysD(1) [OF sys]]
  from base(6) obtain a where a: "acceptors w ?s = Some a" "ac_newConnectionCallback a = Some ?s" by blast
  let ?acc = "os_accept os (hist w) (ac_socket a)"
  let ?w = "w\<lparr>hist := hist w @ [Accept (ac_socket a) ?acc]\<rparr>"
  have run: "Acceptor_handleRead os (TcpServer_newConnection os al ?env) ?s w =
      (case ?acc of Inl e \<Rightarrow> Inr ?w | Inr (f, peer) \<Rightarrow> TcpServer_newConnection os al ?env ?s f peer ?w)"
    using Acceptor_handleRead_cases [OF a(1)] a(2) by (simp add: Let_def split: sum.splits)
  show ?thesis
  proof (cases ?acc)
    case (Inl e)
    have "server_sys S L k hold todo w" using server_sys_mono [OF sys] by simp
    moreover have "quiet w ?w" using Inl by (simp add: quiet_def conn_frame_def fun_eq_iff)
    ultimately have "safe S L k hold todo w (Inr ?w)" by (rule quiet_safe) simp
    then show ?thesis using run Inl by simp
  next
    case (Inr r)
    then obtain f peer where acc: "?acc = Inr (f, peer)" by (cases r) auto
    let ?c = "al_conn al (conns w)" and ?p = "al_channel al (chans w)"
    have f: "f \<notin> st_fds S" "f \<notin> open_conns (hist w)" using os(2) acc unfolding accept_fresh_def by blast+
    from server_sys_serverE [OF sys] obtain sv where
      sv: "server_wf S (Suc k) w sv" "sys_conns S (Suc k) hold todo sv w" .
    have fds: "ch_fd qh \<noteq> f" if q: "chans w q = Some qh" "ch_loop qh \<in> set (st_loops S)" for q qh
    proof -
      from sys_chansD(1) [OF server_sysD(2) [OF sys] q] consider "base_chan S qh"
        | d dn where "conns w d = Some dn" "cn_channel dn = q" by blast
      then show ?thesis
      proof cases
        case 2
        from sys_conn_at [OF sys 2(1)] q 2(2) have wf: "conn_wf S (Suc k) w d dn qh" by simp
        show ?thesis using conn_wfD(12) [OF wf] conn_relD(3) [OF conn_wfD(1) [OF wf]] f(2) by auto
      qed (use f(1) in \<open>auto simp: base_chan_def\<close>)
    qed
    have "server_inv ?w ?s sv" using server_wfD(1) [OF sv(1)] by (simp add: server_inv_def)
    note inv = this
    from getNextLoop_Inr [OF server_invD(2) [OF inv]] obtain M pl where
      pl: "EventLoopThreadPool_getNextLoop (sv_pool sv) = Inr (M, pl)" "pool_inv pl" by blast
    note among = getNextLoop_among [OF pl(1)]
    have M: "M \<in> set (st_loops S)" using among(3) server_wfD(4,5) [OF sv(1)] base(2) by auto
    note lp = loop_wfD [OF base(7) [OF M]]
    have reg: "po_channels (pollers ?w M) f = None"
      using poller_invD(1) [OF lp(1), of f] fds M by (cases "po_channels (pollers w M) f") auto
    have ids: "sint (sv_nextConnId sv) < 2 ^ 31 - 1" using server_wfD(6) [OF sv(1)] by simp
    have new: "chans ?w (al_channel al (chans ?w)) = None" "conns ?w (al_conn al (conns ?w)) = None"
      using al base(4,5) by (simp_all add: alloc_ok_def)
    have pinv: "poller_inv M ?w" using lp(1) poller_inv_cong [of ?w w M] by simp
    have wake: "lp_wakeupFd (loops ?w M) \<noteq> f" using lp(2) f(1) by auto
    from newConnection_ok [OF inv pl ids new pinv reg wake, of os ?env peer]
    obtain w1 sv1 cn ch where n:
      "TcpServer_newConnection os al ?env ?s f peer ?w = EventLoop_runInLoop os M
         (Bind_TcpConnection_connectEstablished ?c) (TcpConnection_connectEstablished os ?env ?c) w1"
      "conn_fresh w1 ?c cn ch" "cn_state cn = kConnecting" "cn_loop cn = M" "cn_socket cn = f" "cn_channel cn = ?p"
      "cn_connectionCallback cn = sv_connectionCallback sv" "cn_messageCallback cn = sv_messageCallback sv"
      "cn_name cn = conn_name sv (sint (sv_nextConnId sv))"
      "cn_closeCallback cn = Some (Bind_TcpServer_removeConnection ?s)" and n':
      "server_inv w1 ?s sv1" "same_settings sv sv1" "sv_pool sv1 = pl" "conn_name sv1 = conn_name sv"
      "sint (sv_nextConnId sv1) = sint (sv_nextConnId sv) + 1"
      "sv_connections sv1 = (sv_connections sv)(cn_name cn \<mapsto> ?c)" and w1:
      "conn_added ?c cn ch ?w w1" "acceptors w1 = acceptors ?w"
      "\<exists>r. hist w1 = hist ?w @ [Getsockname f r, Setsockopt f SO_KEEPALIVE True]" by auto
    have added: "conn_added ?c cn ch w w1" using w1(1) by (simp add: conn_added_def)
    have fresh: "conns w ?c = None" "chans w (cn_channel cn) = None" using new n(6) by simp_all
    have fd': "ch_fd qh \<noteq> cn_socket cn" if "chans w q = Some qh" "ch_loop qh \<in> set (st_loops S)" for q qh
      using fds [of q qh] that n(5) by simp
    have op: "open_conns (hist w1) = insert (cn_socket cn) (open_conns (hist w))" "interest (hist w1) = interest (hist w)"
      using w1(3) acc n(5) by (auto simp: fun_eq_iff)
    have ac: "acceptors w1 = acceptors w" using w1(2) by simp
    have pool: "pl_loops (sv_pool sv1) = pl_loops (sv_pool sv)" "pl_baseLoop (sv_pool sv1) = pl_baseLoop (sv_pool sv)"
      using among(1,2) n'(3) by simp_all
    let ?est = "Bind_TcpConnection_connectEstablished ?c" and ?w2 = "EventLoop_queueInLoop os M (Bind_TcpConnection_connectEstablished ?c) w1"
    have sys1: "server_sys S L k hold (todo(M := ?est # todo M)) w1" "keeps w w1"
      using add_conn_sys [OF sys sv fresh _ added n(2) ac op n(4) M n(3,9,7,8,10) n'(1,2) pool n'(4-6)] fd' by blast+
    show ?thesis
    proof (cases "isInLoopThread M w1")
      case False
      then have "Acceptor_handleRead os (TcpServer_newConnection os al ?env) ?s w = Inr ?w2"
        using run acc n(1) by (simp add: EventLoop_runInLoop_def)
      then show ?thesis
        using requeue_sys [OF sys1(1) M] keeps_trans [OF sys1(2) quietD(6) [OF quiet_queueInLoop]] by (intro safeI)
    next
      case True
      then have here: "M = L" using only_here [OF sys1(1) M] by simp
      from establish_sys [OF sys1(1) M _ os(1), where c = ?c and rest = "todo M" and env = ?env] obtain w2 where
        e: "TcpConnection_connectEstablished os ?env ?c w1 = call_connection ?env ?c w2"
        "server_sys S L k hold todo w2" "conn_up M ?c w2" "\<forall>d. d \<noteq> ?c \<longrightarrow> conns w2 d = conns w1 d"
        "\<forall>q. q \<noteq> cn_channel cn \<longrightarrow> chans w2 q = chans w1 q"
        using added by (auto simp: conn_added_def)
      have "keeps w w2"
        using e(4,5) added fresh by (intro keeps_grown; metis conn_added_def fun_upd_other)
      moreover have "Acceptor_handleRead os (TcpServer_newConnection os al ?env) ?s w = call_connection ?env ?c w2"
        using run acc n(1) e(1) True by (simp add: EventLoop_runInLoop_def)
      ultimately show ?thesis
        using safe_after [OF _ call_connection_safe [OF e(2) _ ap]] e(3) here by simp
    qed
  qed
qed

subsection \<open>The wake-up and the timers\<close>

lemma wakeup_safe:
  fixes w :: "'w client_world_scheme"
  assumes "server_sys S L k hold todo w"
  shows "safe S L k hold todo w (Inr (EventLoop_handleRead os M w))"
  by (rule quiet_safe [OF assms])
    (simp_all add: quiet_def conn_frame_def EventLoop_handleRead_def sys_read_def Let_def fun_eq_iff)

lemma timers_safe:
  fixes w :: "'w client_world_scheme"
  assumes sys: "server_sys S L k hold todo w" and os: "kernel_ok os"
  shows "safe S L k hold todo w (TimerQueue_handleRead os run L w)"
proof -
  from Timestamp_now_ok [OF kernel_okD(4) [OF os], of w] obtain now where
    now: "Timestamp_now os w = Inr (now, snd (sys_gettimeofday os w))" by blast
  let ?w1 = "snd (sys_gettimeofday os w)"
  let ?w2 = "readTimerfd os (tq_timerfd (timerqueues ?w1 L)) ?w1"
  let ?w' = "upd_tq L (\<lambda>q. q\<lparr>tq_callingExpiredTimers := False\<rparr>) (upd_tq L (\<lambda>q. q\<lparr>tq_callingExpiredTimers := True\<rparr>)
    (upd_tq L (\<lambda>q. q\<lparr>tq_timers := []\<rparr>) ?w2))"
  have empty: "tq_timers (timerqueues ?w2 L) = []" using sys_here(4) [OF sys] by simp
  have "TimerQueue_handleRead os run L w = Inr ?w'"
    using empty
    by (simp add: TimerQueue_handleRead_def now TimerQueue_getExpired_def set_cut_def TimerQueue_reset_def
        set_begin_def Timestamp_zero_def Let_def)
  moreover have "quiet w ?w'" "lp_pendingFunctors (loops ?w' M) = lp_pendingFunctors (loops w M)" for M
    using sys_here(4) [OF sys]
    by (simp_all add: quiet_def conn_frame_def upd_tq_def readTimerfd_def sys_read_def sys_gettimeofday_def Let_def fun_eq_iff)
  ultimately show ?thesis using quiet_safe [OF sys] by simp
qed

subsection \<open>One event\<close>

text \<open>A channel that can get an event: it is alive and registered in its loop.\<close>

definition active_in :: "loop_ptr \<Rightarrow> 'w chan_world_scheme \<Rightarrow> chan_ptr \<Rightarrow> bool" where
  "active_in M w p \<longleftrightarrow> (\<exists>ch. chans w p = Some ch \<and> ch_loop ch = M \<and> ch_index ch \<noteq> kNew)"

definition conn_event :: "loop_ptr \<Rightarrow> chan_ptr \<Rightarrow> conn_ptr \<Rightarrow> 'w conn_world_scheme \<Rightarrow> bool" where
  "conn_event L p c w \<longleftrightarrow> active_in L w p \<and> (\<exists>cn. conns w c = Some cn \<and> cn_channel cn = p)"

lemma active_keeps:
  assumes "active_in M w p" "keeps w w'"
  shows "active_in M w' p"
proof -
  from assms(1) obtain ch where ch: "chans w p = Some ch" "ch_loop ch = M" "ch_index ch \<noteq> kNew"
    unfolding active_in_def by blast
  from keeps_chanD [OF assms(2) ch(1)] obtain ch' where
    "chans w' p = Some ch'" "same_chan ch ch'" "ch_index ch' \<noteq> kNew" using ch(3) by blast
  then show ?thesis using ch(2) by (auto simp: active_in_def same_chan_def)
qed

lemma conn_event_keeps:
  assumes "conn_event L p c w" "keeps w w'"
  shows "conn_event L p c w'"
proof -
  from assms(1) obtain cn where c: "conns w c = Some cn" "cn_channel cn = p" unfolding conn_event_def by blast
  from keeps_connD [OF assms(2) c(1)] obtain cn' where "conns w' c = Some cn'" "same_conn cn cn'" .
  moreover have "active_in L w' p" using assms active_keeps unfolding conn_event_def by blast
  ultimately show ?thesis using c by (auto simp: conn_event_def same_conn_def)
qed

lemma dispatch_safe:
  assumes sys: "server_sys S L k hold todo w" and ev: "conn_event L p c w"
    and cb: "\<And>ch. own_callbacks c ch \<Longrightarrow> callback ch = Some cb"
    and run: "\<And>cn ch. conns w c = Some cn \<Longrightarrow> chans w (cn_channel cn) = Some ch \<Longrightarrow> ch_index ch \<noteq> kNew \<Longrightarrow>
      cn_loop cn = L \<Longrightarrow> cn_state cn \<noteq> kConnecting \<Longrightarrow> safe S L k hold todo w (run cb w)"
  shows "safe S L k hold todo w (dispatch_if run cond callback p w)"
proof -
  from ev obtain cn ch where c: "conns w c = Some cn" "cn_channel cn = p" "chans w p = Some ch"
    "ch_index ch \<noteq> kNew" "ch_loop ch = L" unfolding conn_event_def active_in_def by blast
  have wf: "conn_wf S k w c cn ch" using sys_conn_at [OF sys c(1)] c(2,3) by simp
  have "cn_loop cn = L" using conn_relD(4) [OF conn_wfD(1) [OF wf]] c(5) by simp
  with cb [OF conn_wfD(17) [OF wf]] run [OF c(1)] c(2-4) conn_wf_up(1) [OF wf c(4)] safe_Inr [OF sys]
  show ?thesis by (simp add: dispatch_if_def)
qed

lemma conn_event_safe:
  fixes w :: "'w client_world_scheme"
  assumes sys: "server_sys S L (Suc (Suc k)) hold todo w" and ev: "conn_event L p c w"
    and os: "kernel_ok os" and ap: "app_safe S ap"
  shows "safe S L k hold todo w (Channel_handleEventWithGuard (invoke os al ap) p t w)"
proof -
  let ?run = "\<lambda>cb. invoke os al ap cb t"
  have one: "safe S L (Suc (Suc k)) hold todo v (dispatch_if ?run cond ch_closeCallback p v)"
    "safe S L (Suc (Suc k)) hold todo v (dispatch_if ?run cond ch_errorCallback p v)"
    if v: "server_sys S L (Suc (Suc k)) hold todo v" "conn_event L p c v" for v :: "'w client_world_scheme" and cond
  proof (rule dispatch_safe [OF v, where cb = "Bind_TcpConnection_handleClose c"])
    show "safe S L (Suc (Suc k)) hold todo v (dispatch_if ?run cond ch_errorCallback p v)"
      by (rule dispatch_safe [OF v, where cb = "Bind_TcpConnection_handleError c"])
        (simp_all add: own_callbacks_def invoke_def invoke_with_def Let_def handleError_safe [OF v(1)])
  qed (simp_all add: own_callbacks_def invoke_def invoke_with_def Let_def handleClose_safe [OF v(1) _ _ _ _ os ap])
  have rd: "safe S L k hold todo v (dispatch_if ?run cond ch_readCallback p v)"
    if v: "server_sys S L (Suc (Suc k)) hold todo v" "conn_event L p c v" for v :: "'w client_world_scheme" and cond
    by (rule dispatch_safe [OF _ v(2), where cb = "Bind_TcpConnection_handleRead c"])
      (simp_all add: own_callbacks_def invoke_def invoke_with_def Let_def handleRead_safe [OF v(1) _ _ _ _ os ap]
        server_sys_mono [OF v(1)])
  have wr: "safe S L k hold todo v (dispatch_if ?run cond ch_writeCallback p v)"
    if v: "server_sys S L k hold todo v" "conn_event L p c v" for v :: "'w client_world_scheme" and cond
    by (rule dispatch_safe [OF v, where cb = "Bind_TcpConnection_handleWrite c"])
      (simp_all add: own_callbacks_def invoke_def invoke_with_def Let_def handleWrite_safe [OF v(1) _ os])
  show ?thesis
    unfolding Channel_handleEventWithGuard_def Let_def
    by (intro safe_bind [OF one(1) [OF sys ev]] safe_bind [OF one(2)] safe_bind [OF rd] wr)
      (meson ev conn_event_keeps)+
qed

lemma base_event_safe:
  fixes w :: "'w client_world_scheme"
  assumes sys: "server_sys S L (Suc k) hold todo w" and ch: "chans w p = Some ch" "ch_loop ch = L" "base_chan S ch"
    and os: "kernel_ok os" "accept_fresh os (st_fds S)" and al: "alloc_ok al" and ap: "app_safe S ap"
  shows "safe S L k hold todo w (Channel_handleEventWithGuard (invoke os al ap) p t w)"
proof -
  let ?run = "\<lambda>cb. invoke os al ap cb t"
  from ch(2,3) obtain cb where cb: "ch_readCallback ch = Some cb" and
    cases: "cb = Bind_EventLoop_handleRead L \<or> cb = Bind_TimerQueue_handleRead L \<or> cb = Bind_Acceptor_handleRead (st_server S)"
    by (auto simp: base_chan_def)
  have sys': "server_sys S L k hold todo w" using server_sys_mono [OF sys] by simp
  have none: "dispatch_if ?run cond ch_closeCallback p w = Inr w" "dispatch_if ?run cond ch_errorCallback p w = Inr w" for cond
    using ch by (simp_all add: dispatch_if_def base_chan_def)
  have rd: "safe S L k hold todo w (dispatch_if ?run cond ch_readCallback p w)" for cond
    using cases wakeup_safe [OF sys'] timers_safe [OF sys' os(1)] accept_safe [OF sys os al ap] safe_Inr [OF sys']
    by (auto simp: dispatch_if_def ch(1) cb invoke_def invoke_with_def timer_read_def Let_def)
  have wr: "safe S L k hold todo v (dispatch_if ?run cond ch_writeCallback p v)"
    if v: "server_sys S L k hold todo v" "keeps w v" for v :: "'w client_world_scheme" and cond
  proof -
    from keeps_chanD [OF v(2) ch(1)] obtain ch' where "chans v p = Some ch'" "same_chan ch ch'" .
    then show ?thesis using safe_Inr [OF v(1)] ch(3)
      by (simp add: dispatch_if_def base_chan_def same_chan_def same_dispatch_def)
  qed
  show ?thesis
    unfolding Channel_handleEventWithGuard_def Let_def none bindE_Inr
    by (intro safe_bind [OF rd] wr)
qed

lemma event_safe:
  fixes w :: "'w client_world_scheme"
  assumes sys: "server_sys S L (Suc (Suc k)) hold todo w" and p: "active_in L w p"
    and os: "kernel_ok os" "accept_fresh os (st_fds S)" and al: "alloc_ok al" and ap: "app_safe S ap"
  shows "safe S L k hold todo w (Channel_handleEvent (invoke os al ap) conn_alive p t w)"
proof -
  from p obtain ch where ch: "chans w p = Some ch" "ch_loop ch = L" "ch_index ch \<noteq> kNew" unfolding active_in_def by blast
  have sys1: "server_sys S L (Suc k) hold todo w" using server_sys_mono [OF sys] by simp
  have "ch_loop ch \<in> set (st_loops S)" using ch(2) sys_here(1) [OF sys] by simp
  from sys_chansD(1) [OF server_sysD(2) [OF sys] ch(1) this] consider "base_chan S ch"
    | c cn where "conns w c = Some cn" "cn_channel cn = p" by blast
  then show ?thesis
  proof cases
    case 1
    then show ?thesis
      using base_event_safe [OF sys1 ch(1,2) 1 os al ap] ch(1) by (simp add: Channel_handleEvent_def base_chan_def)
  next
    case 2
    from sys_conn_at [OF sys 2(1)] 2(2) ch(1) have wf: "conn_wf S (Suc (Suc k)) w c cn ch" by simp
    have "conn_event L p c w" using 2 p by (auto simp: conn_event_def)
    from conn_event_safe [OF sys this os(1) ap] show ?thesis
      using ch(1) conn_wf_up(2,3) [OF wf ch(3)] 2(1) by (simp add: Channel_handleEvent_def conn_alive_def)
  qed
qed

end
