(* ===== verification/ServerTurn.thy ===== *)
theory ServerTurn
  imports ServerEvents
begin

section \<open>ServerTurn: a whole turn of a loop of a server\<close>

text \<open>
  The poll, the events it returns, the functors that wait, and the end of the vector of functors,
  where the last references to closed connections go.  Each part keeps the invariant, so the turn does.
  What a part does in the thread of one loop leaves the active channels of the other loops active.
\<close>

subsection \<open>The poll\<close>

lemma fillActiveChannels_hist:
  "fillActiveChannels evs (w, active) = Inr (w', active') \<Longrightarrow> hist w' = hist w"
  by (induction evs arbitrary: w active) (auto simp: res_simps)

lemma poll_hist:
  assumes os: "clock_ok os" and res: "EPollPoller_poll os L [] w = Inr (now, active, w')"
  shows "\<exists>e s u. hist w' = hist w @ [Epoll_wait (po_epollfd (pollers w L)) (po_capacity (pollers w L)) e, Gettimeofday s u]"
proof -
  let ?r = "os_epoll_wait os (hist w) (po_epollfd (pollers w L)) (po_capacity (pollers w L))"
  let ?w1 = "w\<lparr>hist := hist w @ [Epoll_wait (po_epollfd (pollers w L)) (po_capacity (pollers w L)) ?r]\<rparr>"
  from Timestamp_now_ok [OF os, of ?w1] obtain t where
    "Timestamp_now os ?w1 = Inr (t, snd (sys_gettimeofday os ?w1))" by blast
  then show ?thesis
    using res
    by (auto simp: EPollPoller_poll_def sys_epoll_wait_def sys_gettimeofday_def Let_def res_simps
        dest!: fillActiveChannels_hist split: sum.splits if_splits)
qed

definition set_revents_by :: "(chan_ptr \<Rightarrow> uint32 option) \<Rightarrow> chan_ptr \<Rightarrow> channel \<Rightarrow> channel" where
  "set_revents_by m p ch = (case m p of Some ev \<Rightarrow> Channel_set_revents ev ch | None \<Rightarrow> ch)"

lemma set_revents_by_simps [simp]:
  "ch_loop (set_revents_by m p ch) = ch_loop ch" "ch_fd (set_revents_by m p ch) = ch_fd ch"
  "ch_index (set_revents_by m p ch) = ch_index ch" "ch_events (set_revents_by m p ch) = ch_events ch"
  "ch_tie (set_revents_by m p ch) = ch_tie ch" "ch_tied (set_revents_by m p ch) = ch_tied ch"
  "own_callbacks c (set_revents_by m p ch) = own_callbacks c ch"
  "base_chan S (set_revents_by m p ch) = base_chan S ch"
  by (simp_all add: set_revents_by_def Channel_set_revents_def own_callbacks_def base_chan_def split: option.split)

lemma poller_inv_revents:
  assumes inv: "poller_inv M w" and same: "po_channels (pollers w' M) = po_channels (pollers w M)"
      "po_epollfd (pollers w' M) = po_epollfd (pollers w M)" "interest (hist w') = interest (hist w)"
    and chans: "\<And>p. chans w' p = map_option (set_revents_by m p) (chans w p)"
  shows "poller_inv M w'"
proof -
  have ok: "chan_ok M w' c (set_revents_by m p ch) = chan_ok M w c ch" for c p ch
    by (simp add: chan_ok_def same)
  have "\<exists>ch. chans w' c = Some ch \<and> ch_loop ch = M \<and> ch_fd ch = f" if "po_channels (pollers w' M) f = Some c" for f c
    using poller_invD(1) [OF inv, of f c] that same(1) by (auto simp: chans)
  moreover have "chan_ok M w' c ch" if "chans w' c = Some ch" "ch_loop ch = M" for c ch
  proof -
    from that(1) obtain dh where dh: "chans w c = Some dh" "ch = set_revents_by m c dh" by (auto simp: chans)
    then show ?thesis using poller_invD(2) [OF inv dh(1)] that(2) by (simp add: ok)
  qed
  ultimately show ?thesis using poller_invD(3) [OF inv] unfolding poller_inv_def same by blast
qed

lemma sys_revents:
  fixes w :: "'w client_world_scheme"
  assumes sys: "server_sys S L k hold todo w"
    and same: "\<And>M. po_channels (pollers w' M) = po_channels (pollers w M)"
      "\<And>M. po_epollfd (pollers w' M) = po_epollfd (pollers w M)" "interest (hist w') = interest (hist w)"
    and chans: "\<And>p. chans w' p = map_option (set_revents_by m p) (chans w p)"
    and more: "poller_world.more w' = poller_world.more w" and op: "open_conns (hist w') = open_conns (hist w)"
  shows "server_sys S L k hold todo w'"
proof -
  from server_sys_serverE [OF sys] obtain sv where
    sv: "server_wf S k w sv" "sys_conns S k hold todo sv w" .
  note fr = loop_frameD [OF more] conn_frameD [OF more]
  note srv = server_frameD [OF fr(7)]
  note base = sys_baseD [OF server_sysD(1) [OF sys]]
  have tq: "timerqueues w' = timerqueues w" using timer_frameD [OF more] by simp
  have inv: "poller_inv M w'" if "M \<in> set (st_loops S)" for M
    by (rule poller_inv_revents [OF sys_loop(1) [OF sys that] same chans])
  have lp: "loop_wf S M w'" if "M \<in> set (st_loops S)" for M
    using sys_loop [OF sys that] inv [OF that] fr tq by (simp add: loop_wf_def)
  have "sys_base S L w'"
    using base(1-6,8,9) lp fr srv op
    by (simp add: sys_base_def isInLoopThread_def loops_apart_def same dom_def chans)
  moreover have "server_wf S k w' sv" using server_wf_frame [OF sv(1) fr(5) srv(1)] .
  moreover have "conn_wf S k w' c cn (set_revents_by m (cn_channel cn) ch) \<and>
      conn_held sv H T R c cn (set_revents_by m (cn_channel cn) ch)"
    if "conn_wf S k w c cn ch" "conn_held sv H T R c cn ch" for c cn ch H T R
  proof -
    have "conn_rel w' c cn (set_revents_by m (cn_channel cn) ch)"
      using conn_wfD(1,2) [OF that(1)] inv fr chans
      by (simp add: conn_rel_def isWriting_def isReading_def)
    then show ?thesis using that op by (simp add: conn_wf_def conn_held_def isNoneEvent_def)
  qed
  then have "sys_conns S k hold todo sv w'"
    using sv(2) unfolding sys_conns_def fr all_waiting_def waiting_def [abs_def] by meson
  moreover have "sys_chans S w'"
  proof -
    have old: "\<exists>dh. chans w p = Some dh \<and> ch = set_revents_by m p dh" if "chans w' p = Some ch" for p ch
      using that chans by (cases "chans w p") auto
    show ?thesis
      unfolding sys_chans_def fr
    proof (intro conjI allI impI)
      fix p ch assume p: "chans w' p = Some ch" "ch_loop ch \<in> set (st_loops S)"
      from old [OF p(1)] obtain dh where "chans w p = Some dh" "ch = set_revents_by m p dh" by blast
      with sys_chansD(1) [OF server_sysD(2) [OF sys], of p dh] p(2)
      show "base_chan S ch \<or> (\<exists>c cn. conns w c = Some cn \<and> cn_channel cn = p)" by simp
    next
      fix p q ch dh assume p: "chans w' p = Some ch" "chans w' q = Some dh" "ch_loop ch \<in> set (st_loops S)"
        "ch_loop dh \<in> set (st_loops S)" "ch_fd ch = ch_fd dh"
      from old [OF p(1)] obtain ch0 where a: "chans w p = Some ch0" "ch = set_revents_by m p ch0" by blast
      from old [OF p(2)] obtain dh0 where b: "chans w q = Some dh0" "dh = set_revents_by m q dh0" by blast
      show "p = q"
        using p(3-5) a(2) b(2) by (intro sys_chansD(2) [OF server_sysD(2) [OF sys] a(1) _ b(1)]) simp_all
    qed
  qed
  moreover have "sys_queues S todo w'"
    using server_sysD(3) [OF sys] functor_wf_frame [OF fr(5)] fr(1) by (simp add: sys_queues_def waiting_def)
  ultimately show ?thesis unfolding server_sys_def by blast
qed

text \<open>
  The poll: the invariant stays, and every active channel is alive and registered.
\<close>

lemma poll_safe:
  fixes w :: "'w client_world_scheme"
  assumes sys: "server_sys S L k hold todo w" and os: "kernel_ok os"
  shows "\<exists>now active w'. EPollPoller_poll os L [] w = Inr (now, active, w') \<and> server_sys S L k hold todo w' \<and>
    length active \<le> po_capacity (pollers w L) \<and> (\<forall>p \<in> set active. active_in L w' p) \<and>
    (\<forall>M p. active_in M w p \<longrightarrow> active_in M w' p)"
proof -
  note inv = sys_here(3) [OF sys]
  from poll_no_fault [OF kernel_okD(1,4) [OF os] inv] obtain now active w' evs where
    p: "EPollPoller_poll os L [] w = Inr (now, active, w')" "active = map fst evs"
      "length evs \<le> po_capacity (pollers w L)"
      "\<forall>p \<in> set active. \<exists>ch. chans w p = Some ch \<and> ch_loop ch = L \<and> ch_index ch = kAdded"
      "\<forall>c. chans w' c = map_option (\<lambda>ch. case map_of (rev evs) c of
         Some ev \<Rightarrow> Channel_set_revents ev ch | None \<Rightarrow> ch) (chans w c)"
      "poller_world.more w' = poller_world.more w" "po_channels (pollers w' L) = po_channels (pollers w L)"
      "po_epollfd (pollers w' L) = po_epollfd (pollers w L)" "\<forall>M. M \<noteq> L \<longrightarrow> pollers w' M = pollers w M"
      "interest (hist w') = interest (hist w)" by blast
  have chans: "chans w' c = map_option (set_revents_by (map_of (rev evs)) c) (chans w c)" for c
    using p(5) by (simp add: set_revents_by_def [abs_def])
  have same: "po_channels (pollers w' M) = po_channels (pollers w M)" "po_epollfd (pollers w' M) = po_epollfd (pollers w M)" for M
    using p(7-9) by (cases "M = L"; simp)+
  have "open_conns (hist w') = open_conns (hist w)" using poll_hist [OF kernel_okD(4) [OF os] p(1)] by auto
  from sys_revents [OF sys same p(10) chans p(6) this] have "server_sys S L k hold todo w'" .
  moreover have all: "active_in M w' q" if "active_in M w q" for M q
    using that by (auto simp: active_in_def chans)
  moreover have "active_in L w q" if "q \<in> set active" for q
    using p(4) that by (fastforce simp: active_in_def kIndex_defs)
  ultimately show ?thesis using p(1-3) by auto
qed

subsection \<open>The events\<close>

lemma events_safe:
  fixes w :: "'w client_world_scheme"
  assumes os: "kernel_ok os" "accept_fresh os (st_fds S)" and al: "alloc_ok al" and ap: "app_safe S ap"
  shows "server_sys S L (k + 2 * length ps) hold todo w \<Longrightarrow> \<forall>p \<in> set ps. active_in L w p \<Longrightarrow>
    safe S L k hold todo w (foldE (\<lambda>p w. Channel_handleEvent (invoke os al ap) conn_alive p (t w) w) ps w)"
proof (induction ps arbitrary: w)
  case Nil
  then show ?case using safe_Inr by simp
next
  case (Cons p ps)
  let ?ev = "\<lambda>w. Channel_handleEvent (invoke os al ap) conn_alive p (t w) w"
  have "server_sys S L (Suc (Suc (k + 2 * length ps))) hold todo w" "active_in L w p" using Cons.prems by simp_all
  from event_safe [OF this os al ap] have ev: "safe S L (k + 2 * length ps) hold todo w (?ev w)" .
  have live: "\<forall>q \<in> set ps. active_in L w' q" if "keeps w w'" for w'
    using Cons.prems(2) active_keeps [OF _ that] by simp
  show ?case
    unfolding foldE.simps(2) by (rule safe_bind [OF ev]) (use Cons.IH live in blast)
qed

subsection \<open>The functors\<close>

text \<open>What a functor that runs in loop \<open>L\<close> must do: succeed, keep the invariant, leave the other loops alone.\<close>

definition functor_runs ::
  "site \<Rightarrow> loop_ptr \<Rightarrow> nat \<Rightarrow> queues \<Rightarrow> queues \<Rightarrow> closure list \<Rightarrow> 'w client_world_scheme \<Rightarrow> 'w client_world_scheme result \<Rightarrow> bool" where
  "functor_runs S L k hold todo rest w r \<longleftrightarrow>
     (\<exists>w'. r = Inr w' \<and> server_sys S L k hold (todo(L := rest)) w' \<and>
        (\<forall>M p. M \<noteq> L \<longrightarrow> active_in M w p \<longrightarrow> active_in M w' p))"

lemma functor_runs_safe:
  assumes "safe S L k hold todo w r" "todo L = cb # rest" "\<And>c. cb \<noteq> Bind_TcpConnection_connectDestroyed c" "\<not> establishes cb"
    "\<And>s c. cb \<noteq> Bind_TcpServer_removeConnectionInLoop s c"
  shows "functor_runs S L k hold todo rest w r"
proof -
  from assms(1) obtain w' where w': "r = Inr w'" "server_sys S L k hold todo w'" "keeps w w'" by (auto simp: safe_def)
  have "server_sys S L k hold (todo(L := rest)) w'"
    by (rule drop_todo [OF w'(2) assms(2)]) (use assms(3-5) in auto)
  with w'(1) active_keeps [OF _ w'(3)] show ?thesis by (auto simp: functor_runs_def)
qed

lemma establish_functor:
  fixes w :: "'w client_world_scheme"
  assumes sys: "server_sys S L k hold todo w" and todo: "todo L = Bind_TcpConnection_connectEstablished c # rest"
    and os: "kernel_ok os" and ap: "app_safe S ap"
  shows "functor_runs S L k hold todo rest w (TcpConnection_connectEstablished os (env_of os al ap) c w)"
proof -
  from establish_sys [OF sys sys_here(1) [OF sys] todo os, where env = "env_of os al ap"] obtain cn w1 where
    e: "conns w c = Some cn" "cn_loop cn = L"
      "TcpConnection_connectEstablished os (env_of os al ap) c w = call_connection (env_of os al ap) c w1"
      "server_sys S L k hold (todo(L := rest)) w1" "conn_up L c w1"
      "\<forall>q. q \<noteq> cn_channel cn \<longrightarrow> chans w1 q = chans w q" by blast
  from call_connection_safe [OF e(4,5) ap, of os al] obtain w2 where
    w2: "call_connection (env_of os al ap) c w1 = Inr w2" "server_sys S L k hold (todo(L := rest)) w2" "keeps w1 w2"
    by (auto simp: safe_def)
  from sys_connE [OF sys e(1)] obtain ch where ch: "chans w (cn_channel cn) = Some ch" "conn_wf S k w c cn ch" .
  have "active_in M w2 p" if "M \<noteq> L" "active_in M w p" for M p
  proof -
    have "p \<noteq> cn_channel cn" using that ch(1) conn_relD(4) [OF conn_wfD(1) [OF ch(2)]] e(2) by (auto simp: active_in_def)
    then have "active_in M w1 p" using e(6) that(2) by (simp add: active_in_def)
    then show ?thesis using active_keeps w2(3) by blast
  qed
  then show ?thesis using e(3) w2(1,2) by (auto simp: functor_runs_def)
qed

lemma destroy_functor:
  fixes w :: "'w client_world_scheme"
  assumes sys: "server_sys S L k hold todo w" and todo: "todo L = Bind_TcpConnection_connectDestroyed c # rest"
    and os: "kernel_ok os"
  shows "functor_runs S L k hold todo rest w (TcpConnection_connectDestroyed os env c w)"
proof -
  have "functor_wf S w L (Bind_TcpConnection_connectDestroyed c)"
    by (rule sys_queuesD(1) [OF server_sysD(3) [OF sys] sys_here(1) [OF sys]]) (simp add: waiting_def todo)
  then obtain cn where cn: "conns w c = Some cn" "cn_loop cn = L" "cn_state cn = kDisconnected"
    by (auto split: option.splits)
  from sys_connE [OF sys cn(1)] obtain ch where
    ch: "chans w (cn_channel cn) = Some ch" "conn_wf S k w c cn ch" .
  note wf = conn_wfD [OF ch(2)]
  have lp: "ch_loop ch = L" using conn_relD(4) [OF wf(1)] cn(2) by simp
  have reg: "po_channels (pollers w (cn_loop cn)) (ch_fd ch) = None" if "ch_index ch = kNew"
    using sys_unregistered [OF sys ch(1) _ that] wf(2) lp cn(2) by simp
  from destroy_step [OF kernel_okD(1) [OF os] wf(1) cn(3) reg, of env] obtain w1 ch1 where
    w1: "TcpConnection_connectDestroyed os env c w = Inr w1" "conn_step c w cn w1 cn ch1"
      "ch_index ch1 = kNew" "ch_events ch1 = ch_events ch" by blast
  have "server_sys S L k hold todo w1"
    using wf(13-15) cn(3) w1(3,4)
    by (intro sys_step [OF sys cn(1) ch(1) w1(2)]) (simp_all add: isNoneEvent_def conn_open_def)
  then have "server_sys S L k hold (todo(L := rest)) w1"
    by (rule drop_todo [where todo = todo and M = L, OF _ todo]) (use conn_step_at [OF w1(2)] w1(3) in auto)
  moreover have "active_in M w1 p" if "M \<noteq> L" "active_in M w p" for M p
  proof -
    have "p \<noteq> cn_channel cn" using that ch(1) lp by (auto simp: active_in_def)
    then show ?thesis using w1(2) that(2) by (simp add: conn_step_def conn_local_def active_in_def)
  qed
  ultimately show ?thesis using w1(1) by (auto simp: functor_runs_def)
qed

lemma functor_safe:
  fixes w :: "'w client_world_scheme"
  assumes sys: "server_sys S L k hold todo w" and todo: "todo L = cb # rest" and os: "kernel_ok os" and ap: "app_safe S ap"
  shows "functor_runs S L k hold todo rest w (invoke os al ap cb t w)"
proof -
  have wf: "functor_wf S w L cb"
    by (rule sys_queuesD(1) [OF server_sysD(3) [OF sys] sys_here(1) [OF sys]]) (simp add: waiting_def todo)
  note other = functor_runs_safe [where todo = todo and L = L, OF _ todo]
  show ?thesis
  proof (cases cb)
    case (Bind_TcpConnection_connectEstablished c)
    with establish_functor [OF sys todo [unfolded Bind_TcpConnection_connectEstablished] os ap, of al]
    show ?thesis by (simp add: invoke_def invoke_with_def)
  next
    case (Bind_TcpConnection_connectDestroyed c)
    with destroy_functor [OF sys todo [unfolded Bind_TcpConnection_connectDestroyed] os, of "env_of os al ap"]
    show ?thesis by (simp add: invoke_def invoke_with_def)
  next
    case (Bind_TcpServer_removeConnectionInLoop s c)
    with wf obtain cn where cn: "s = st_server S" "conns w c = Some cn" "cn_state cn = kDisconnected"
      by (auto split: option.splits)
    from remove_in_loop_safe [OF sys cn(2,3), of os] obtain w' where
      w': "TcpServer_removeConnectionInLoop os (st_server S) c w = Inr w'" "server_sys S L k hold todo w'"
        "keeps w w'" "not_registered S c w'" by blast
    have "server_sys S L k hold (todo(L := rest)) w'"
      by (rule drop_todo [where todo = todo and M = L, OF w'(2) todo])
        (use w'(4) Bind_TcpServer_removeConnectionInLoop in \<open>auto simp: not_registered_def\<close>)
    then show ?thesis
      using w'(1) active_keeps [OF _ w'(3)] cn(1)
      by (auto simp: functor_runs_def Bind_TcpServer_removeConnectionInLoop invoke_def invoke_with_def)
  next
    case (Bind_TcpConnection_forceCloseInLoop c)
    with wf obtain cn where cn: "conns w c = Some cn" "cn_loop cn = L" by (auto elim: conn_upD)
    from sys_connE [OF sys cn(1)] obtain ch where
      ch: "chans w (cn_channel cn) = Some ch" "conn_wf S k w c cn ch" .
    have "safe S L k hold todo w (TcpConnection_forceCloseInLoop os (env_of os al ap) c w)"
    proof (cases "conn_open cn")
      case True
      then have "ch_index ch \<noteq> kNew"
        using conn_relD(11) [OF conn_wfD(1) [OF ch(2)]] by (simp add: kIndex_defs)
      from handleClose_safe [OF sys cn(1) ch(1) this cn(2) os ap, of al] True cn(1) show ?thesis
        by (auto simp: TcpConnection_forceCloseInLoop_def conn_open_def)
    next
      case False
      with forceCloseInLoop_closed [of w c cn os "env_of os al ap"] cn(1) safe_Inr [OF sys] show ?thesis by simp
    qed
    then show ?thesis using Bind_TcpConnection_forceCloseInLoop by (intro other) (simp_all add: invoke_def invoke_with_def)
  next
    case (Bind_writeComplete u c)
    then show ?thesis
      using wf sys ap by (intro other) (auto simp: app_safe_def invoke_def invoke_with_def)
  next
    case (Bind_highWaterMark u c n)
    then show ?thesis
      using wf sys ap by (intro other) (auto simp: app_safe_def invoke_def invoke_with_def)
  qed (use wf in simp_all)
qed

text \<open>\<open>doPendingFunctors\<close> takes the queue of the loop.\<close>

definition take_functors :: "loop_ptr \<Rightarrow> 'w loop_world_scheme \<Rightarrow> 'w loop_world_scheme" where
  "take_functors L w = upd_loop L (\<lambda>l. l\<lparr>lp_pendingFunctors := []\<rparr>)
     (upd_loop L (\<lambda>l. l\<lparr>lp_callingPendingFunctors := True\<rparr>) w)"

lemma take_sys:
  fixes w :: "'w client_world_scheme"
  assumes sys: "server_sys S L k hold todo w" and none: "hold L = []" "todo L = []"
    and fs: "fs = lp_pendingFunctors (loops w L)"
  shows "server_sys S L k (hold(L := fs)) (todo(L := fs)) (take_functors L w)" "keeps w (take_functors L w)"
proof -
  have q: "quiet w (take_functors L w)"
    unfolding take_functors_def by (rule quiet_trans [OF quiet_loop quiet_loop]) simp_all
  have wait: "waiting (take_functors L w) (qs(L := fs)) = waiting w qs" if "qs L = []" for qs
    using that fs by (simp add: waiting_def take_functors_def fun_eq_iff)
  have "sys_queues S (todo(L := fs)) (take_functors L w)"
    using server_sysD(3) [OF sys] functor_wf_frame [OF quietD(2) [OF q]] by (simp add: sys_queues_def wait none)
  from quiet_sys [OF sys q this] show "server_sys S L k (hold(L := fs)) (todo(L := fs)) (take_functors L w)"
    by (simp add: all_waiting_def wait none)
  show "keeps w (take_functors L w)" using quietD(6) [OF q] .
qed

lemma functors_safe:
  fixes w :: "'w client_world_scheme"
  assumes os: "kernel_ok os" and ap: "app_safe S ap"
  shows "server_sys S L k hold (todo(L := fs)) w \<Longrightarrow>
    \<exists>w'. foldE (\<lambda>cb. invoke os al ap cb t) fs w = Inr w' \<and> server_sys S L k hold (todo(L := [])) w'"
proof (induction fs arbitrary: w)
  case (Cons cb fs)
  have "functor_runs S L k hold (todo(L := cb # fs)) fs w (invoke os al ap cb t w)"
    by (rule functor_safe [OF Cons.prems _ os ap]) simp
  then obtain w1 where
    w1: "invoke os al ap cb t w = Inr w1" "server_sys S L k hold (todo(L := fs)) w1" by (auto simp: functor_runs_def)
  from Cons.IH [OF w1(2)] w1(1) show ?case by simp
qed simp

lemma pending_safe:
  fixes w :: "'w client_world_scheme"
  assumes sys: "server_sys S L k hold todo w" and none: "hold L = []" "todo L = []"
    and os: "kernel_ok os" and ap: "app_safe S ap"
  shows "\<exists>w'. EventLoop_doPendingFunctors (invoke os al ap) L w = Inr w' \<and>
    server_sys S L k (hold(L := lp_pendingFunctors (loops w L))) todo w'"
proof -
  let ?fs = "lp_pendingFunctors (loops w L)"
  from functors_safe [OF os ap take_sys(1) [OF sys none refl], of al Timestamp_zero] obtain w3 where
    w3: "foldE (\<lambda>cb. invoke os al ap cb Timestamp_zero) ?fs (take_functors L w) = Inr w3"
      "server_sys S L k (hold(L := ?fs)) (todo(L := [])) w3" by blast
  let ?w4 = "upd_loop L (\<lambda>l. l\<lparr>lp_callingPendingFunctors := False\<rparr>) w3"
  have "quiet w3 ?w4" by (rule quiet_loop) simp_all
  from sys_quiet [OF w3(2) this] none(2) have "server_sys S L k (hold(L := ?fs)) todo ?w4" by (simp add: fun_upd_idem)
  moreover have "EventLoop_doPendingFunctors (invoke os al ap) L w = Inr ?w4"
    using w3(1) by (simp add: EventLoop_doPendingFunctors_def take_functors_def Let_def)
  ultimately show ?thesis by blast
qed

subsection \<open>The last reference to a connection\<close>

lemma functor_wf_other:
  assumes "functor_wf S w M cb" "owner cb \<noteq> Some c" "\<And>d. d \<noteq> c \<Longrightarrow> conns w' d = conns w d"
  shows "functor_wf S w' M cb"
  using assms(1)
proof (rule functor_wf_mono)
  fix d dn assume "owner cb = Some d" "conns w d = Some dn"
  with assms(2,3) show "\<exists>dn'. conns w' d = Some dn' \<and> cn_loop dn' = cn_loop dn \<and>
      (cn_state dn = kDisconnected \<longrightarrow> cn_state dn' = kDisconnected) \<and> (cn_state dn' = kConnecting \<longleftrightarrow> cn_state dn = kConnecting)"
    by auto
qed

text \<open>A functor is destroyed that holds no connection, or not the last reference to its connection.\<close>

lemma drop_hold:
  assumes sys: "server_sys S L k hold todo w" and hold: "hold L = cb # fs"
    and ref: "\<And>c cn. owner cb = Some c \<Longrightarrow> conns w c = Some cn \<Longrightarrow> referenced S (hold(L := fs)) c cn w"
  shows "server_sys S L k (hold(L := fs)) todo w"
proof -
  from server_sys_serverE [OF sys] obtain sv where
    sv: "server_wf S k w sv" "sys_conns S k hold todo sv w" .
  note srv = server_wfD(2) [OF sv(1)]
  have sub: "set (all_waiting S w hold) \<subseteq> insert cb (set (all_waiting S w (hold(L := fs))))"
    by (auto simp: set_all_waiting waiting_def hold split: if_splits)
  have "conn_held sv (set (all_waiting S w (hold(L := fs)))) T R c cn ch"
    if "conns w c = Some cn" "conn_held sv (set (all_waiting S w hold)) T R c cn ch" for c cn ch T R
  proof (cases "owner cb = Some c")
    case True
    from ref [OF True that(1)] that(2) srv show ?thesis by (auto simp: conn_held_def referenced_def list_ex_iff)
  next
    case False
    with that(2) sub show ?thesis unfolding conn_held_def by blast
  qed
  then have "sys_conns S k (hold(L := fs)) todo sv w"
    using sv(2) unfolding sys_conns_def by blast
  then show ?thesis using sv(1) server_sysD [OF sys] unfolding server_sys_def by blast
qed

text \<open>
  The destructor of a connection that nobody refers to, in whatever thread: its channel is out of its
  poller, so no loop has it among its active channels.
\<close>

lemma dtor_safe:
  fixes w :: "'w client_world_scheme"
  assumes sys: "server_sys S L k hold todo w" and hold: "hold L = cb # fs" and c: "owner cb = Some c" "conns w c = Some cn"
    and ref: "\<not> referenced S (hold(L := fs)) c cn w" and sub: "\<And>M. set (todo M) \<subseteq> set ((hold(L := fs)) M)"
  shows "\<exists>w'. TcpConnection_dtor os c w = Inr w' \<and> server_sys S L k (hold(L := fs)) todo w' \<and>
    (\<forall>M p. active_in M w p \<longrightarrow> active_in M w' p)"
proof -
  let ?hold = "hold(L := fs)"
  from server_sys_serverE [OF sys] obtain sv where
    sv: "server_wf S k w sv" "sys_conns S k hold todo sv w" .
  note sinv = server_wfD(1,2) [OF sv(1)] and base = sys_baseD [OF server_sysD(1) [OF sys]]
  from sys_connE [OF sys c(2)] obtain ch where
    ch: "chans w (cn_channel cn) = Some ch" "conn_wf S k w c cn ch" .
  note wf = conn_wfD [OF ch(2)] and r = conn_relD [OF conn_wfD(1) [OF ch(2)]]
  let ?p = "cn_channel cn" and ?f = "cn_socket cn" and ?M = "cn_loop cn"
  have noref: "sv_connections sv (cn_name cn) \<noteq> Some c" "\<And>f. f \<in> set (all_waiting S w ?hold) \<Longrightarrow> owner f \<noteq> Some c"
    using ref sinv(2) by (auto simp: referenced_def list_ex_iff)
  have nowait: "owner f \<noteq> Some c" if "f \<in> set (waiting w todo N)" "N \<in> set (st_loops S)" for f N
    using that sub [of N] noref(2) [of f] by (auto simp: set_all_waiting waiting_def)
  have "Bind_TcpConnection_connectDestroyed c \<notin> set (waiting w todo ?M)" using nowait [OF _ wf(2)] by fastforce
  with sys_connD(2) [OF sv(2) c(2) ch(1)] noref(1) have new: "ch_index ch = kNew" by (simp add: conn_held_def)
  have loop: "ch_loop ch = ?M" "ch_loop ch \<in> set (st_loops S)" using r(4) wf(2) by simp_all
  have free: "po_channels (pollers w ?M) ?f = None" using sys_unregistered [OF sys ch(1) loop(2) new] r(3) loop(1) by simp
  have gone: "po_channels (pollers w N) ?f = None" if N: "N \<in> set (st_loops S)" for N
  proof (rule ccontr)
    assume "po_channels (pollers w N) ?f \<noteq> None"
    then obtain q where q: "po_channels (pollers w N) ?f = Some q" by blast
    from poller_invD(1) [OF sys_loop(1) [OF sys N] q] obtain dh where
      dh: "chans w q = Some dh" "ch_loop dh = N" "ch_fd dh = ?f" by blast
    with sys_chansD(2) [OF server_sysD(2) [OF sys] ch(1) loop(2) dh(1)] N r(3) have "q = ?p" by simp
    then show False using dh ch(1) loop(1) q free by simp
  qed
  let ?w0 = "w\<lparr>chans := (chans w)(?p := None)\<rparr>"
  let ?w1 = "w\<lparr>chans := (chans w)(?p := None), conns := (conns w)(c := None)\<rparr>"
  define w' where "w' = snd (sys_close os ?f ?w1)"
  have dtor: "TcpConnection_dtor os c w = Inr w'"
    using c(2) ch(1) by (simp add: TcpConnection_dtor_def Socket_dtor_def w'_def)
  have eqs: "chans w' = (chans w)(?p := None)" "conns w' = (conns w)(c := None)" "loops w' = loops w"
    "pollers w' = pollers w" "current_tid w' = current_tid w" "timerqueues w' = timerqueues w"
    "hist w' = hist w @ [Close ?f (os_close os (hist w) ?f)]" "conn_world.more w' = conn_world.more w"
    by (simp_all add: w'_def sys_close_def Let_def)
  note srv' = server_frameD [OF eqs(8)]
  have wait: "waiting w' qs = waiting w qs" for qs by (simp add: waiting_def eqs(3) fun_eq_iff)
  have inv': "poller_inv N w'" if N: "N \<in> set (st_loops S)" for N
  proof -
    note inv = sys_loop(1) [OF sys N]
    have "po_channels (pollers w N) g \<noteq> Some ?p" for g
    proof
      assume "po_channels (pollers w N) g = Some ?p"
      with poller_invD(1) [OF inv this] ch(1) r(3) gone [OF N] show False by auto
    qed
    then have "poller_inv N ?w0" by (rule poller_inv_delete_chan [OF inv])
    moreover have "interest (hist w') (po_epollfd (pollers w N)) = interest (hist w) (po_epollfd (pollers w N))"
      using unregistered_unwatched [OF inv gone [OF N]] by (simp add: eqs(7) fun_upd_idem)
    ultimately show ?thesis
      using poller_inv_cong [of w' ?w0 N] eqs(1,4) by simp
  qed
  have apart: "cn_channel dn \<noteq> ?p" "cn_socket dn \<noteq> ?f" if "conn_wf S k w d dn dh" "d \<noteq> c" for d dn dh
  proof -
    show "cn_channel dn \<noteq> ?p" using conn_wf_channel_inj [OF that(1) ch(2)] that(2) by auto
    moreover note q = conn_relD(2-4) [OF conn_wfD(1) [OF that(1)]] conn_wfD(2) [OF that(1)]
    ultimately show "cn_socket dn \<noteq> ?f"
      using sys_chansD(2) [OF server_sysD(2) [OF sys] ch(1) loop(2) q(1)] r(3) by auto
  qed
  have "\<exists>d dn. conns w' d = Some dn \<and> cn_socket dn = g" if "g \<in> open_conns (hist w')" for g
  proof -
    have g: "g \<in> open_conns (hist w)" "g \<noteq> ?f" using that by (auto simp: eqs(7))
    from base(9) [OF g(1)] obtain d dn where d: "conns w d = Some dn" "cn_socket dn = g" by blast
    then have "d \<noteq> c" using c(2) g(2) by auto
    with d show ?thesis by (auto simp: eqs(2))
  qed
  then have b': "sys_base S L w'"
    using base(1-6,8) inv' sys_loop(2-4) [OF sys] eqs(1-6) srv'
    by (simp add: sys_base_def loop_wf_def isInLoopThread_def loops_apart_def)
  have "d \<noteq> c" if "sv_connections sv nm = Some d" for nm d
    using server_invD(5) [OF sinv(1) that] that noref(1) c(2) by auto
  then have "server_inv w' (st_server S) sv"
    using sinv(1) unfolding server_inv_def eqs srv' by (metis fun_upd_other)
  then have swf: "server_wf S k w' sv"
    using sv(1) unfolding server_wf_def eqs by (auto split: if_splits)
  have keep: "conn_wf S k w' d dn dh \<and> conn_held sv (set (all_waiting S w ?hold)) (set (waiting w todo (cn_loop dn))) (set (waiting w todo (st_base S))) d dn dh"
    if d: "d \<noteq> c" "conn_wf S k w d dn dh"
      "conn_held sv (set (all_waiting S w hold)) (set (waiting w todo (cn_loop dn))) (set (waiting w todo (st_base S))) d dn dh" for d dn dh
  proof
    have "conn_rel w' d dn dh"
      using conn_wfD(1,2) [OF d(2)] inv' apart [OF d(2,1)] d(1) eqs by (simp add: conn_rel_def)
    then show "conn_wf S k w' d dn dh"
      using d(2) apart(2) [OF d(2,1)] eqs(7) by (simp add: conn_wf_def)
    have "set (all_waiting S w hold) \<subseteq> insert cb (set (all_waiting S w ?hold))"
      by (auto simp: set_all_waiting waiting_def hold split: if_splits)
    then show "conn_held sv (set (all_waiting S w ?hold)) (set (waiting w todo (cn_loop dn))) (set (waiting w todo (st_base S))) d dn dh"
      using d(1,3) c(1) unfolding conn_held_def by auto
  qed
  have "sys_conns S k ?hold todo sv w'"
    unfolding sys_conns_def all_waiting_def wait
  proof (intro allI impI)
    fix d dn assume "conns w' d = Some dn"
    then have d: "d \<noteq> c" "conns w d = Some dn" by (auto simp: eqs(2) split: if_splits)
    from sys_connsD [OF sv(2) d(2)] keep [OF d(1)]
    show "\<exists>dh. conn_wf S k w' d dn dh \<and> conn_held sv (set (concat (map (waiting w ?hold) (st_loops S))))
        (set (waiting w todo (cn_loop dn))) (set (waiting w todo (st_base S))) d dn dh"
      unfolding all_waiting_def by blast
  qed
  moreover have "sys_chans S w'"
    unfolding sys_chans_def
  proof (intro conjI allI impI)
    fix q qh assume "chans w' q = Some qh" "ch_loop qh \<in> set (st_loops S)"
    then have q: "q \<noteq> ?p" "chans w q = Some qh" "ch_loop qh \<in> set (st_loops S)" by (auto simp: eqs(1) split: if_splits)
    from sys_chansD(1) [OF server_sysD(2) [OF sys] q(2,3)]
    show "base_chan S qh \<or> (\<exists>d dn. conns w' d = Some dn \<and> cn_channel dn = q)"
      using q(1) c(2) unfolding eqs(2) by (metis fun_upd_other option.inject)
  next
    fix q r xh yh assume "chans w' q = Some xh" "chans w' r = Some yh" "ch_loop xh \<in> set (st_loops S)"
      "ch_loop yh \<in> set (st_loops S)" "ch_fd xh = ch_fd yh"
    then show "q = r"
      using sys_chansD(2) [OF server_sysD(2) [OF sys], of q xh r yh] by (auto simp: eqs(1) split: if_splits)
  qed
  moreover have "sys_queues S todo w'"
    unfolding sys_queues_def wait
  proof
    fix N assume N: "N \<in> set (st_loops S)"
    note qN = sys_queuesD [OF server_sysD(3) [OF sys] N]
    have "functor_wf S w' N f" if "f \<in> set (waiting w todo N)" for f
      by (rule functor_wf_other [OF qN(1) [OF that] nowait [OF that N]]) (simp add: eqs(2))
    then show "list_all (functor_wf S w' N) (waiting w todo N) \<and> distinct (filter establishes (waiting w todo N))"
      using qN(2) by (simp add: list_all_iff)
  qed
  moreover have "active_in N w' q" if "active_in N w q" for N q
    using that ch(1) new by (auto simp: active_in_def eqs(1))
  ultimately show ?thesis using dtor b' swf unfolding server_sys_def by blast
qed

lemma release_safe:
  fixes w :: "'w client_world_scheme"
  assumes sys: "server_sys S L k hold todo w" and hold: "hold L = cb # fs"
    and sub: "\<And>M. set (todo M) \<subseteq> set ((hold(L := fs)) M)"
  shows "\<exists>w'. release_functor os S (hold(L := fs)) cb w = Inr w' \<and> server_sys S L k (hold(L := fs)) todo w' \<and>
    (\<forall>M p. active_in M w p \<longrightarrow> active_in M w' p)"
proof (cases "\<exists>c cn. owner cb = Some c \<and> conns w c = Some cn \<and> \<not> referenced S (hold(L := fs)) c cn w")
  case True
  then obtain c cn where c: "owner cb = Some c" "conns w c = Some cn" "\<not> referenced S (hold(L := fs)) c cn w" by blast
  from dtor_safe [where hold = hold, OF sys hold c sub] show ?thesis
    using c by (simp add: release_functor_def drop_reference_def)
next
  case False
  then have "server_sys S L k (hold(L := fs)) todo w" by (intro drop_hold [where hold = hold, OF sys hold]) blast
  moreover have "release_functor os S (hold(L := fs)) cb w = Inr w"
    using False by (auto simp: release_functor_def drop_reference_def split: option.split)
  ultimately show ?thesis by auto
qed

lemma release_all_safe:
  fixes w :: "'w client_world_scheme"
  assumes sub: "\<And>M. M \<noteq> L \<Longrightarrow> set (todo M) \<subseteq> set (hold M)" "todo L = []"
  shows "server_sys S L k (hold(L := fs)) todo w \<Longrightarrow>
    \<exists>w'. release_functors os S L hold fs w = Inr w' \<and> server_sys S L k (hold(L := [])) todo w'"
proof (induction fs arbitrary: w)
  case (Cons cb fs)
  have "set (todo M) \<subseteq> set ((hold(L := cb # fs, L := fs)) M)" for M using sub by (cases "M = L") auto
  from release_safe [where hold = "hold(L := cb # fs)" and cb = cb, OF Cons.prems _ this, of os] obtain w1 where
    w1: "release_functor os S (hold(L := fs)) cb w = Inr w1" "server_sys S L k (hold(L := fs)) todo w1"
    by (simp only: fun_upd_upd fun_upd_same) blast
  from Cons.IH [OF w1(2)] w1(1) show ?case by simp
qed simp

subsection \<open>The turn\<close>

lemma no_functors_simps [simp]: "no_functors M = []" "no_functors(M := []) = no_functors"
  by (simp_all add: no_functors_def fun_eq_iff)

text \<open>
  One turn of \<open>EventLoop::loop\<close>, with the destruction of the vector of functors at the end of
  \<open>doPendingFunctors\<close>.  \<open>EventLoop_iteration\<close> is the same turn without it.
\<close>

definition server_turn ::
  "os \<Rightarrow> alloc \<Rightarrow> ('w client_world_scheme) app \<Rightarrow> site \<Rightarrow> loop_ptr \<Rightarrow> 'w client_world_scheme
     \<Rightarrow> 'w client_world_scheme result" where
  "server_turn os al ap S L w =
     bindE (EventLoop_events os (invoke os al ap) conn_alive L w) (\<lambda>w1.
     bindE (EventLoop_doPendingFunctors (invoke os al ap) L w1)
       (release_functors os S L no_functors (lp_pendingFunctors (loops w1 L))))"

lemma turn_events_safe:
  fixes w :: "'w client_world_scheme"
  assumes sys: "server_sys S L (k + 2 * po_capacity (pollers w L)) hold todo w"
    and os: "kernel_ok os" "accept_fresh os (st_fds S)" and al: "alloc_ok al" and ap: "app_safe S ap"
  shows "\<exists>w'. EventLoop_events os (invoke os al ap) conn_alive L w = Inr w' \<and> server_sys S L k hold todo w'"
proof -
  let ?w1 = "upd_loop L (\<lambda>l. l\<lparr>lp_activeChannels := []\<rparr>) w"
  have "quiet w ?w1" by (rule quiet_loop) simp_all
  then have "server_sys S L (k + 2 * po_capacity (pollers w L)) hold todo ?w1" by (rule sys_quiet [OF sys]) simp
  from poll_safe [OF this os(1)] obtain now active w2 where
    p: "EPollPoller_poll os L [] ?w1 = Inr (now, active, w2)"
      "server_sys S L (k + 2 * po_capacity (pollers w L)) hold todo w2"
      "length active \<le> po_capacity (pollers w L)" "\<forall>p \<in> set active. active_in L w2 p" by auto
  let ?w3 = "upd_loop L (\<lambda>l. l\<lparr>lp_pollReturnTime := now, lp_activeChannels := active\<rparr>) w2"
  have "quiet w2 ?w3" by (rule quiet_loop) simp_all
  then have "server_sys S L (k + 2 * po_capacity (pollers w L)) hold todo ?w3" by (rule sys_quiet [OF p(2)]) simp
  then have "server_sys S L (k + 2 * length active) hold todo ?w3" by (rule server_sys_mono) (use p(3) in simp)
  moreover have "\<forall>p \<in> set active. active_in L ?w3 p" using p(4) by (simp add: active_in_def)
  ultimately have "safe S L k hold todo ?w3 (foldE (\<lambda>p w. Channel_handleEvent (invoke os al ap) conn_alive p
      (lp_pollReturnTime (loops w L)) w) active ?w3)"
    by (rule events_safe [OF os al ap])
  then show ?thesis using p(1) by (auto simp: EventLoop_events_def safe_def)
qed

lemma server_turn_safe:
  fixes w :: "'w client_world_scheme"
  assumes "server_sys S L (k + 2 * po_capacity (pollers w L)) no_functors no_functors w"
    and "kernel_ok os" "accept_fresh os (st_fds S)" and "alloc_ok al" and "app_safe S ap"
  shows "\<exists>w'. server_turn os al ap S L w = Inr w' \<and> server_sys S L k no_functors no_functors w'"
proof -
  from turn_events_safe [OF assms] obtain w1 where
    w1: "EventLoop_events os (invoke os al ap) conn_alive L w = Inr w1" "server_sys S L k no_functors no_functors w1" by blast
  let ?fs = "lp_pendingFunctors (loops w1 L)"
  from pending_safe [OF w1(2) _ _ assms(2,5), of al] obtain w2 where
    w2: "EventLoop_doPendingFunctors (invoke os al ap) L w1 = Inr w2"
      "server_sys S L k (no_functors(L := ?fs)) no_functors w2" by auto
  from release_all_safe [OF _ _ w2(2), of os] w1(1) w2(1) show ?thesis by (auto simp: server_turn_def)
qed

subsection \<open>Many turns\<close>

fun server_turns ::
  "os \<Rightarrow> alloc \<Rightarrow> ('w client_world_scheme) app \<Rightarrow> site \<Rightarrow> loop_ptr \<Rightarrow> nat \<Rightarrow> 'w client_world_scheme
     \<Rightarrow> 'w client_world_scheme result" where
  "server_turns os al ap S L 0 w = Inr w"
| "server_turns os al ap S L (Suc n) w = bindE (server_turn os al ap S L w) (server_turns os al ap S L n)"

text \<open>
  What a long run can use up: the numbers of the connections, which are an \<open>int\<close>, and the sizes of the
  buffers.  \<open>server_room\<close> says that \<open>k\<close> more events fit.
\<close>

definition server_room :: "site \<Rightarrow> nat \<Rightarrow> 'w client_world_scheme \<Rightarrow> bool" where
  "server_room S k w \<longleftrightarrow>
     (\<forall>sv. servers w (st_server S) = Some sv \<longrightarrow> sint (sv_nextConnId sv) + int k < 2 ^ 31) \<and>
     (\<forall>c cn. conns w c = Some cn \<longrightarrow>
        length (buf_bytes (cn_inputBuffer cn)) + k * extrabuf_size \<le> max_size \<and>
        unat (buf_writer (cn_outputBuffer cn)) + k * extrabuf_size \<le> max_size)"

lemma room_sys:
  assumes sys: "server_sys S L 0 hold todo w" and room: "server_room S k w"
  shows "server_sys S L k hold todo w"
proof -
  from server_sys_serverE [OF sys] obtain sv where
    sv: "server_wf S 0 w sv" "sys_conns S 0 hold todo sv w" .
  note srv = server_wfD(2) [OF sv(1)]
  have "server_wf S k w sv" using sv(1) room srv by (simp add: server_wf_def server_room_def)
  moreover have "conn_wf S k w c cn ch" if "conn_wf S 0 w c cn ch" for c cn ch
    using that room conn_relD(1) [OF conn_wfD(1) [OF that]] by (simp add: conn_wf_def server_room_def)
  then have "sys_conns S k hold todo sv w" using sv(2) unfolding sys_conns_def by blast
  ultimately show ?thesis using server_sysD [OF sys] unfolding server_sys_def by blast
qed

lemma sys_room:
  assumes sys: "server_sys S L k hold todo w"
  shows "server_room S k w"
proof -
  from server_sys_serverE [OF sys] obtain sv where
    sv: "server_wf S k w sv" "sys_conns S k hold todo sv w" .
  note srv = server_wfD(2) [OF sv(1)]
  have "length (buf_bytes (cn_inputBuffer cn)) + k * extrabuf_size \<le> max_size \<and>
      unat (buf_writer (cn_outputBuffer cn)) + k * extrabuf_size \<le> max_size" if "conns w c = Some cn" for c cn
    using sys_connsD [OF sv(2) that] conn_wfD(13,14) by blast
  then show ?thesis using sv(1) srv by (simp add: server_room_def server_wf_def)
qed

lemma server_turns_Suc:
  assumes "server_turn os al ap S L w = Inr w1"
  shows "server_turns os al ap S L (Suc n) w = server_turns os al ap S L n w1"
  using assms by simp

lemma server_turns_ok:
  fixes w :: "'w client_world_scheme"
  assumes os: "kernel_ok os" "accept_fresh os (st_fds S)" and al: "alloc_ok al" and ap: "app_safe S ap"
  shows "server_sys S L 0 no_functors no_functors w \<Longrightarrow>
    (\<exists>w'. server_turns os al ap S L n w = Inr w' \<and> server_sys S L 0 no_functors no_functors w') \<or>
    (\<exists>m < n. \<exists>w'. server_turns os al ap S L m w = Inr w' \<and> \<not> server_room S (2 * po_capacity (pollers w' L)) w')"
proof (induction n arbitrary: w)
  case (Suc n)
  show ?case
  proof (cases "server_room S (2 * po_capacity (pollers w L)) w")
    case False
    then show ?thesis by (intro disjI2 exI [of _ 0]) simp
  next
    case True
    have "server_sys S L (0 + 2 * po_capacity (pollers w L)) no_functors no_functors w"
      using room_sys [OF Suc.prems True] by (simp only: add_0)
    from server_turn_safe [OF this os al ap] obtain w1 where
      w1: "server_turn os al ap S L w = Inr w1" "server_sys S L 0 no_functors no_functors w1" by blast
    from Suc.IH [OF w1(2)] show ?thesis
      unfolding server_turns_Suc [OF w1(1)]
      by (metis Suc_less_eq server_turns_Suc [OF w1(1)])
  qed
qed simp

text \<open>
  Every connection that exists is referred to, and every accepted descriptor that is open is the socket
  of exactly one connection: nothing is leaked.
\<close>

lemma server_sys_no_leak:
  assumes sys: "server_sys S L k hold todo w" and c: "conns w c = Some cn"
  shows "referenced S hold c cn w"
proof -
  from server_sys_serverE [OF sys] obtain sv where
    sv: "server_wf S k w sv" "sys_conns S k hold todo sv w" .
  from sys_connsD [OF sv(2) c] server_wfD(2) [OF sv(1)] show ?thesis
    by (auto simp: conn_held_def referenced_def list_ex_iff)
qed

lemma server_sys_descriptors:
  assumes sys: "server_sys S L k hold todo w"
  shows "bij_betw (\<lambda>c. cn_socket (the (conns w c))) (dom (conns w)) (open_conns (hist w))"
proof (rule bij_betwI')
  fix c d assume "c \<in> dom (conns w)" "d \<in> dom (conns w)"
  then obtain cn dn where c: "conns w c = Some cn" "conns w d = Some dn" by blast
  from sys_connE [OF sys c(1)] obtain ch where ch: "chans w (cn_channel cn) = Some ch" "conn_wf S k w c cn ch" .
  from sys_connE [OF sys c(2)] obtain dh where dh: "chans w (cn_channel dn) = Some dh" "conn_wf S k w d dn dh" .
  have "c = d" if "cn_socket cn = cn_socket dn"
  proof -
    have "cn_channel cn = cn_channel dn"
      using sys_chansD(2) [OF server_sysD(2) [OF sys] ch(1) _ dh(1)] that conn_relD(3,4) [OF conn_wfD(1) [OF ch(2)]]
        conn_relD(3,4) [OF conn_wfD(1) [OF dh(2)]] conn_wfD(2) [OF ch(2)] conn_wfD(2) [OF dh(2)] by simp
    then show ?thesis by (rule conn_wf_channel_inj [OF ch(2) dh(2)])
  qed
  then show "(cn_socket (the (conns w c)) = cn_socket (the (conns w d))) = (c = d)" using c by auto
next
  fix c assume "c \<in> dom (conns w)"
  then obtain cn where c: "conns w c = Some cn" by blast
  from sys_connE [OF sys c] obtain ch where "conn_wf S k w c cn ch" .
  then show "cn_socket (the (conns w c)) \<in> open_conns (hist w)" using conn_wfD(12) c by simp
next
  fix f assume "f \<in> open_conns (hist w)"
  from sys_baseD(9) [OF server_sysD(1) [OF sys] this] show "\<exists>c \<in> dom (conns w). f = cn_socket (the (conns w c))"
    by (metis domI option.sel)
qed

end
