(* ===== verification/ClientInv.thy ===== *)
theory ClientInv
  imports ClientLife ServerTurn
begin

section \<open>ClientInv: the invariant of a client in its loop\<close>

text \<open>
  A client (\<open>src/src/TcpClient.cc\<close>), its connector (\<open>Connector.cc\<close>), the connection it makes and the
  timer with which it tries again, all in one loop.  \<open>client_turn\<close> is a round of that loop, with the
  destruction of the functors and of the connections they held last.  \<open>client_sys\<close> is the invariant:
  the connector is a state machine with exactly one token, the connect in progress, the retry timer or the
  connection.  It holds for clients that do not retry after the connection is lost, which is the default.
\<close>

subsection \<open>The site\<close>

text \<open>The loop, the client, its connector, and the descriptors of the loop itself.\<close>

record client_site =
  cs_loop :: loop_ptr
  cs_client :: client_ptr
  cs_connector :: connector_ptr
  cs_fds :: "fd set"

subsection \<open>A round of the loop\<close>

text \<open>Who refers to a connection: the client, the functors that wait, and \<open>hold\<close>, those not yet destroyed.\<close>

definition client_referenced :: "client_site \<Rightarrow> closure list \<Rightarrow> conn_ptr \<Rightarrow> 'w client_world_scheme \<Rightarrow> bool" where
  "client_referenced D hold c w \<longleftrightarrow>
     (case clients w (cs_client D) of None \<Rightarrow> False | Some cl \<Rightarrow> cl_connection cl = Some c) \<or>
     list_ex (\<lambda>cb. owner cb = Some c) (lp_pendingFunctors (loops w (cs_loop D)) @ hold)"

text \<open>A functor of the vector is destroyed; the connection it held goes when that was the last reference.\<close>

definition client_release ::
  "os \<Rightarrow> client_site \<Rightarrow> closure list \<Rightarrow> closure \<Rightarrow> 'w client_world_scheme \<Rightarrow> 'w client_world_scheme result" where
  "client_release os D hold cb w =
     (case owner cb of
        None \<Rightarrow> Inr w
      | Some c \<Rightarrow> if conns w c = None \<or> client_referenced D hold c w then Inr w else TcpConnection_dtor os c w)"

fun client_releases ::
  "os \<Rightarrow> client_site \<Rightarrow> closure list \<Rightarrow> 'w client_world_scheme \<Rightarrow> 'w client_world_scheme result" where
  "client_releases os D [] w = Inr w"
| "client_releases os D (cb # fs) w = bindE (client_release os D fs cb w) (client_releases os D fs)"

definition client_turn ::
  "os \<Rightarrow> alloc \<Rightarrow> ('w client_world_scheme) app \<Rightarrow> client_site \<Rightarrow> 'w client_world_scheme
     \<Rightarrow> 'w client_world_scheme result" where
  "client_turn os al ap D w =
     bindE (EventLoop_events os (invoke os al ap) conn_alive (cs_loop D) w) (\<lambda>w1.
     bindE (EventLoop_doPendingFunctors (invoke os al ap) (cs_loop D) w1)
       (client_releases os D (lp_pendingFunctors (loops w1 (cs_loop D)))))"

text \<open>At most \<open>n\<close> rounds of \<open>while (!quit_)\<close>.\<close>

fun client_turns ::
  "os \<Rightarrow> alloc \<Rightarrow> ('w client_world_scheme) app \<Rightarrow> client_site \<Rightarrow> nat \<Rightarrow> 'w client_world_scheme
     \<Rightarrow> 'w client_world_scheme result" where
  "client_turns os al ap D 0 w = Inr w"
| "client_turns os al ap D (Suc n) w =
     (if lp_quit (loops w (cs_loop D)) then Inr w
      else bindE (client_turn os al ap D w) (client_turns os al ap D n))"

subsection \<open>The clock\<close>

definition clock :: "os \<Rightarrow> sysevent list \<Rightarrow> int" where
  "clock os h = sint (fst (os_gettimeofday os h)) * 1000000 + sint (snd (os_gettimeofday os h))"

fun is_wait :: "sysevent \<Rightarrow> bool" where
  "is_wait (Epoll_wait ep n r) = True"
| "is_wait _ = False"

text \<open>Between two calls of \<open>epoll_wait\<close> the clock advances by less than the five seconds of a retry.\<close>

definition timely :: "os \<Rightarrow> bool" where
  "timely os \<longleftrightarrow> (\<forall>h e. \<not> list_ex is_wait e \<longrightarrow> clock os (h @ e) < clock os h + 5000000)"

subsection \<open>The invariant\<close>

definition waits :: "client_site \<Rightarrow> closure list \<Rightarrow> 'w loop_world_scheme \<Rightarrow> closure list" where
  "waits D qs w = lp_pendingFunctors (loops w (cs_loop D)) @ qs"

definition reset_waits :: "client_site \<Rightarrow> closure list \<Rightarrow> 'w loop_world_scheme \<Rightarrow> bool" where
  "reset_waits D qs w \<longleftrightarrow> Bind_Connector_resetChannel (cs_connector D) \<in> set (waits D qs w)"

text \<open>The timers were set in this round, so none of them can be due before it ends.\<close>

definition recent :: "os \<Rightarrow> client_site \<Rightarrow> 'w timer_world_scheme \<Rightarrow> bool" where
  "recent os D w \<longleftrightarrow> (\<exists>h e. hist w = h @ e \<and> \<not> list_ex is_wait e \<and>
     (\<forall>x \<in> set (tq_entries (cs_loop D) w). clock os h + 5000000 \<le> micros (fst x)))"

definition retry_timer :: "client_site \<Rightarrow> 'w timer_world_scheme \<Rightarrow> bool" where
  "retry_timer D w \<longleftrightarrow> tq_entries (cs_loop D) w = [] \<or>
     (\<exists>t p tm. tq_entries (cs_loop D) w = [(t, p)] \<and> timers w p = Some tm \<and>
        tm_callback tm = Bind_Connector_startInLoop (cs_connector D))"

text \<open>
  The timers that exist are those in the queue, and the one whose callback is on the stack: the model notes
  it as \<open>Bind_TimerQueue_addTimerInLoop L p\<close> in front of the functors that have still to run.
\<close>

definition running :: "client_site \<Rightarrow> closure list \<Rightarrow> 'w loop_world_scheme \<Rightarrow> timer_ptr set" where
  "running D qs w = {p. Bind_TimerQueue_addTimerInLoop (cs_loop D) p \<in> set (waits D qs w)}"

definition timers_known :: "client_site \<Rightarrow> closure list \<Rightarrow> 'w timer_world_scheme \<Rightarrow> bool" where
  "timers_known D qs w \<longleftrightarrow> dom (timers w) = snd ` set (tq_entries (cs_loop D) w) \<union> running D qs w \<and>
     (\<exists>p. running D qs w \<subseteq> {p})"

text \<open>The channels: of the loop itself, and of the connector.\<close>

definition loop_chan :: "client_site \<Rightarrow> channel \<Rightarrow> bool" where
  "loop_chan D ch \<longleftrightarrow>
     (ch_readCallback ch = Some (Bind_EventLoop_handleRead (cs_loop D)) \<or>
      ch_readCallback ch = Some (Bind_TimerQueue_handleRead (cs_loop D))) \<and>
     ch_writeCallback ch = None \<and> ch_closeCallback ch = None \<and> ch_errorCallback ch = None \<and>
     \<not> ch_tied ch \<and> ch_fd ch \<in> cs_fds D"

definition link_chan :: "client_site \<Rightarrow> channel \<Rightarrow> bool" where
  "link_chan D ch \<longleftrightarrow>
     ch_writeCallback ch = Some (Bind_Connector_handleWriter (cs_connector D)) \<and>
     ch_errorCallback ch = Some (Bind_Connector_handleError (cs_connector D)) \<and>
     ch_readCallback ch = None \<and> ch_closeCallback ch = None \<and>
     \<not> ch_tied ch \<and> ch_fd ch \<notin> cs_fds D \<and> ch_loop ch = cs_loop D"

text \<open>
  The connector.  While it connects, nothing waits to reset its channel; in the other states a channel it
  still has waits to be reset.  When it is disconnected there may be one retry timer, which is not due
  while a channel waits to be reset.
\<close>

definition link_wf :: "os \<Rightarrow> client_site \<Rightarrow> closure list \<Rightarrow> 'w client_world_scheme \<Rightarrow> connector \<Rightarrow> bool" where
  "link_wf os D todo w c \<longleftrightarrow>
     connector_rel w (cs_connector D) c \<and> ct_loop c = cs_loop D \<and> ct_connect c \<and>
     ct_newConnectionCallback c = Some (cs_client D) \<and> timers_wf (cs_loop D) w \<and>
     (\<forall>p ch. ct_channel c = Some p \<longrightarrow> chans w p = Some ch \<longrightarrow> link_chan D ch) \<and>
     (ct_channel c \<noteq> None \<longrightarrow> ct_state c \<noteq> Ct_kConnecting \<longrightarrow> reset_waits D todo w) \<and>
     (ct_state c \<noteq> Ct_kConnected \<longrightarrow> timers_known D todo w) \<and>
     (case ct_state c of
        Ct_kConnecting \<Rightarrow> \<not> reset_waits D todo w \<and> tq_entries (cs_loop D) w = []
      | Ct_kDisconnected \<Rightarrow> retry_timer D w \<and> (reset_waits D todo w \<longrightarrow> recent os D w)
      | Ct_kConnected \<Rightarrow> tq_entries (cs_loop D) w = [])"

text \<open>The client: it has had no connection before the connector is connected.\<close>

definition client_wf :: "client_site \<Rightarrow> 'w client_world_scheme \<Rightarrow> connector \<Rightarrow> client \<Rightarrow> bool" where
  "client_wf D w c cl \<longleftrightarrow>
     clients w (cs_client D) = Some cl \<and> cl_loop cl = cs_loop D \<and> cl_connector cl = cs_connector D \<and>
     \<not> cl_retry cl \<and> cl_connectionCallback cl \<noteq> None \<and> cl_messageCallback cl \<noteq> None \<and>
     (ct_state c \<noteq> Ct_kConnected \<longrightarrow> conns w = Map.empty \<and> cl_connection cl = None \<and>
        0 \<le> sint (cl_nextConnId cl) \<and> sint (cl_nextConnId cl) < 2 ^ 31 - 1) \<and>
     (\<forall>d. cl_connection cl = Some d \<longrightarrow> conns w d \<noteq> None)"

text \<open>Its connection, with room for \<open>k\<close> more events in both buffers.\<close>

definition peer_wf :: "client_site \<Rightarrow> nat \<Rightarrow> 'w client_world_scheme \<Rightarrow> conn_ptr \<Rightarrow> conn \<Rightarrow> channel \<Rightarrow> bool" where
  "peer_wf D k w d dn dh \<longleftrightarrow>
     conn_rel w d dn dh \<and> cn_loop dn = cs_loop D \<and> cn_state dn \<noteq> kConnecting \<and>
     ch_tied dh \<and> ch_tie dh = Some d \<and> own_callbacks d dh \<and>
     cn_connectionCallback dn \<noteq> None \<and> cn_messageCallback dn \<noteq> None \<and>
     cn_closeCallback dn = Some (Bind_TcpClient_removeConnection (cs_client D)) \<and>
     length (buf_bytes (cn_inputBuffer dn)) + k * extrabuf_size \<le> max_size \<and>
     unat (buf_writer (cn_outputBuffer dn)) + k * extrabuf_size \<le> max_size \<and> cn_socket dn \<notin> cs_fds D \<and>
     (\<not> conn_open dn \<longrightarrow> isNoneEvent dh)"

text \<open>
  Who holds it: the client, until it is closed; then the functor that destroys it, and whatever else still
  refers to it.  While \<open>handleClose\<close> is on the stack between the two, the model notes it as
  \<open>Bind_TcpConnection_handleClose d\<close> in front of the functors that have still to run.
\<close>

definition peer_held :: "closure set \<Rightarrow> closure set \<Rightarrow> client \<Rightarrow> conn_ptr \<Rightarrow> conn \<Rightarrow> channel \<Rightarrow> bool" where
  "peer_held H T cl d dn dh \<longleftrightarrow>
     (if cl_connection cl = Some d then cn_state dn = kDisconnected \<longrightarrow> Bind_TcpConnection_handleClose d \<in> T
      else cn_state dn = kDisconnected \<and> (\<exists>cb \<in> H. owner cb = Some d) \<and>
        (ch_index dh = kNew \<or> Bind_TcpConnection_connectDestroyed d \<in> T))"

fun waits_wf :: "client_site \<Rightarrow> 'w client_world_scheme \<Rightarrow> closure \<Rightarrow> bool" where
  "waits_wf D w (Bind_TcpConnection_connectDestroyed c) =
     ((case conns w c of None \<Rightarrow> False | Some cn \<Rightarrow> cn_state cn = kDisconnected) \<and>
      (case clients w (cs_client D) of None \<Rightarrow> False | Some cl \<Rightarrow> cl_connection cl \<noteq> Some c))"
| "waits_wf D w (Bind_TcpConnection_forceCloseInLoop c) = (conns w c \<noteq> None)"
| "waits_wf D w (Bind_writeComplete u c) = (conns w c \<noteq> None)"
| "waits_wf D w (Bind_highWaterMark u c n) = (conns w c \<noteq> None)"
| "waits_wf D w (Bind_Connector_resetChannel k) = (k = cs_connector D)"
| "waits_wf D w _ = False"

fun on_stack :: "closure \<Rightarrow> bool" where
  "on_stack (Bind_TcpConnection_handleClose c) = True"
| "on_stack (Bind_TimerQueue_addTimerInLoop L p) = True"
| "on_stack _ = False"

text \<open>So few descriptors are watched that the event list of the poller never grows.\<close>

definition desk_small :: "client_site \<Rightarrow> 'w client_world_scheme \<Rightarrow> bool" where
  "desk_small D w \<longleftrightarrow> finite (cs_fds D) \<and> card (cs_fds D) \<le> 2 \<and> po_capacity (pollers w (cs_loop D)) = kInitEventListSize"

lemma desk_small_cong:
  "po_capacity (pollers w' (cs_loop D)) = po_capacity (pollers w (cs_loop D)) \<Longrightarrow> desk_small D w' = desk_small D w"
  by (simp add: desk_small_def)

definition desk_wf :: "client_site \<Rightarrow> 'w client_world_scheme \<Rightarrow> connector \<Rightarrow> bool" where
  "desk_wf D w c \<longleftrightarrow>
     isInLoopThread (cs_loop D) w \<and> \<not> lp_quit (loops w (cs_loop D)) \<and> lp_wakeupFd (loops w (cs_loop D)) \<in> cs_fds D \<and>
     finite (dom (chans w)) \<and> finite (dom (conns w)) \<and> desk_small D w \<and>
     (\<forall>p ch. chans w p = Some ch \<longrightarrow> ch_loop ch = cs_loop D \<longrightarrow>
        loop_chan D ch \<or> ct_channel c = Some p \<or> (\<exists>d dn. conns w d = Some dn \<and> cn_channel dn = p))"

definition client_sys ::
  "os \<Rightarrow> client_site \<Rightarrow> nat \<Rightarrow> closure list \<Rightarrow> closure list \<Rightarrow> 'w client_world_scheme \<Rightarrow> connector \<Rightarrow> client \<Rightarrow> bool" where
  "client_sys os D k hold todo w c cl \<longleftrightarrow>
     desk_wf D w c \<and> link_wf os D todo w c \<and> client_wf D w c cl \<and>
     (\<forall>d dn. conns w d = Some dn \<longrightarrow> (\<exists>dh. peer_wf D k w d dn dh \<and>
        peer_held (set (waits D hold w)) (set (waits D todo w)) cl d dn dh)) \<and>
     (\<forall>d e. conns w d \<noteq> None \<longrightarrow> conns w e \<noteq> None \<longrightarrow> d = e) \<and>
     list_all (waits_wf D w) (lp_pendingFunctors (loops w (cs_loop D))) \<and>
     list_all (\<lambda>cb. waits_wf D w cb \<or> on_stack cb) todo"

definition client_ready ::
  "os \<Rightarrow> client_site \<Rightarrow> nat \<Rightarrow> closure list \<Rightarrow> closure list \<Rightarrow> 'w client_world_scheme \<Rightarrow> bool" where
  "client_ready os D k hold todo w \<longleftrightarrow> (\<exists>c cl. client_sys os D k hold todo w c cl)"

subsection \<open>Taking the invariant apart\<close>

lemma client_sysD:
  assumes "client_sys os D k hold todo w c cl"
  shows "desk_wf D w c" "link_wf os D todo w c" "client_wf D w c cl"
    "conns w d = Some dn \<Longrightarrow> \<exists>dh. peer_wf D k w d dn dh \<and>
       peer_held (set (waits D hold w)) (set (waits D todo w)) cl d dn dh"
    "conns w d = Some dn \<Longrightarrow> conns w e = Some en \<Longrightarrow> d = e"
    "cb \<in> set (lp_pendingFunctors (loops w (cs_loop D))) \<Longrightarrow> waits_wf D w cb"
    "cb \<in> set todo \<Longrightarrow> waits_wf D w cb \<or> on_stack cb"
  using assms unfolding client_sys_def list_all_iff by blast+

lemma desk_wfD:
  assumes "desk_wf D w c"
  shows "isInLoopThread (cs_loop D) w" "\<not> lp_quit (loops w (cs_loop D))" "lp_wakeupFd (loops w (cs_loop D)) \<in> cs_fds D"
    "finite (dom (chans w))" "finite (dom (conns w))"
    "chans w p = Some ch \<Longrightarrow> ch_loop ch = cs_loop D \<Longrightarrow>
       loop_chan D ch \<or> ct_channel c = Some p \<or> (\<exists>d dn. conns w d = Some dn \<and> cn_channel dn = p)"
    "desk_small D w"
  using assms unfolding desk_wf_def by blast+

lemma link_wfD:
  assumes "link_wf os D todo w c"
  shows "connector_rel w (cs_connector D) c" "ct_loop c = cs_loop D" "ct_connect c"
    "ct_newConnectionCallback c = Some (cs_client D)" "timers_wf (cs_loop D) w"
    "ct_channel c = Some p \<Longrightarrow> chans w p = Some ch \<Longrightarrow> link_chan D ch"
    "ct_channel c \<noteq> None \<Longrightarrow> ct_state c \<noteq> Ct_kConnecting \<Longrightarrow> reset_waits D todo w"
    "ct_state c \<noteq> Ct_kConnected \<Longrightarrow> timers_known D todo w"
    "ct_state c = Ct_kConnecting \<Longrightarrow> \<not> reset_waits D todo w" "ct_state c \<noteq> Ct_kDisconnected \<Longrightarrow> tq_entries (cs_loop D) w = []"
    "ct_state c = Ct_kDisconnected \<Longrightarrow> retry_timer D w"
    "ct_state c = Ct_kDisconnected \<Longrightarrow> reset_waits D todo w \<Longrightarrow> recent os D w"
    "connectors w (cs_connector D) = Some c" "poller_inv (cs_loop D) w"
    "ct_channel c = Some p \<Longrightarrow> \<exists>ch. chans w p = Some ch \<and> ch_loop ch = cs_loop D"
  using assms unfolding link_wf_def connector_rel_def by (auto split: States.splits)

lemma client_wfD:
  assumes "client_wf D w c cl"
  shows "clients w (cs_client D) = Some cl" "cl_loop cl = cs_loop D" "cl_connector cl = cs_connector D" "\<not> cl_retry cl"
    "cl_connectionCallback cl \<noteq> None" "cl_messageCallback cl \<noteq> None"
    "ct_state c \<noteq> Ct_kConnected \<Longrightarrow> conns w = Map.empty" "ct_state c \<noteq> Ct_kConnected \<Longrightarrow> cl_connection cl = None"
    "ct_state c \<noteq> Ct_kConnected \<Longrightarrow> 0 \<le> sint (cl_nextConnId cl)"
    "ct_state c \<noteq> Ct_kConnected \<Longrightarrow> sint (cl_nextConnId cl) < 2 ^ 31 - 1"
    "cl_connection cl = Some d \<Longrightarrow> conns w d \<noteq> None"
  using assms unfolding client_wf_def by blast+

lemma peer_wfD:
  assumes "peer_wf D k w d dn dh"
  shows "conn_rel w d dn dh" "cn_loop dn = cs_loop D" "cn_state dn \<noteq> kConnecting" "ch_tied dh" "ch_tie dh = Some d"
    "own_callbacks d dh" "cn_connectionCallback dn \<noteq> None" "cn_messageCallback dn \<noteq> None"
    "cn_closeCallback dn = Some (Bind_TcpClient_removeConnection (cs_client D))"
    "length (buf_bytes (cn_inputBuffer dn)) + k * extrabuf_size \<le> max_size"
    "unat (buf_writer (cn_outputBuffer dn)) + k * extrabuf_size \<le> max_size"
    "\<not> conn_open dn \<Longrightarrow> isNoneEvent dh" "cn_socket dn \<notin> cs_fds D"
  using assms by (simp_all add: peer_wf_def)

text \<open>A connection exists only after the connect has succeeded.\<close>

lemma connected_of_conn:
  assumes "client_sys os D k hold todo w c cl" "conns w d = Some dn"
  shows "ct_state c = Ct_kConnected"
  using client_wfD(7) [OF client_sysD(3) [OF assms(1)]] assms(2) by (rule_tac ccontr) simp

lemma client_connE:
  assumes "client_sys os D k hold todo w c cl" "conns w d = Some dn"
  obtains dh where "peer_wf D k w d dn dh" "chans w (cn_channel dn) = Some dh"
    "peer_held (set (waits D hold w)) (set (waits D todo w)) cl d dn dh"
  using client_sysD(4) [OF assms] conn_relD(2) [OF peer_wfD(1)] by metis

lemma client_conn_at:
  assumes "client_sys os D k hold todo w c cl" "conns w d = Some dn" "chans w (cn_channel dn) = Some dh"
  shows "peer_wf D k w d dn dh" "peer_held (set (waits D hold w)) (set (waits D todo w)) cl d dn dh"
  using client_connE [OF assms(1,2)] assms(3) by (metis option.inject)+

lemma client_sys_mono:
  assumes sys: "client_sys os D m hold todo w c cl" and le: "k \<le> m"
  shows "client_sys os D k hold todo w c cl"
proof -
  have "peer_wf D k w d dn dh" if "peer_wf D m w d dn dh" for d dn dh
    using that le by (auto simp: peer_wf_def elim: mult_le_trans)
  then show ?thesis using sys unfolding client_sys_def by meson
qed

text \<open>The channel of the connector is not that of a connection.\<close>

lemma link_not_peer:
  assumes "client_sys os D k hold todo w c cl" "conns w d = Some dn"
  shows "ct_channel c \<noteq> Some (cn_channel dn)"
proof
  assume p: "ct_channel c = Some (cn_channel dn)"
  from client_connE [OF assms] obtain dh where
    "peer_wf D k w d dn dh" "chans w (cn_channel dn) = Some dh" .
  with link_wfD(6) [OF client_sysD(2) [OF assms(1)] p] show False
    by (auto simp: link_chan_def peer_wf_def own_callbacks_def)
qed

end
