(* ===== verification/ClientSteps.thy ===== *)
theory ClientSteps
  imports ClientInv
begin

section \<open>ClientSteps: what keeps the invariant of a client\<close>

text \<open>
  A step of the connection, the end of the connection, a step that touches only the history, and what is
  asked of the application.
\<close>

lemma waits_simps: "set (waits D qs w) = set (lp_pendingFunctors (loops w (cs_loop D))) \<union> set qs"
  by (simp add: waits_def)

lemma reset_waits_mono: "reset_waits D qs w \<Longrightarrow> set (waits D qs w) \<subseteq> set (waits D qs' w') \<Longrightarrow> reset_waits D qs' w'"
  by (auto simp: reset_waits_def)

lemma running_Cons: "\<not> on_stack cb \<Longrightarrow> running D (cb # todo) w = running D todo w"
  by (auto simp: running_def waits_simps)

lemma timers_known_cong:
  assumes "timers w' = timers w" "tq_entries (cs_loop D) w' = tq_entries (cs_loop D) w" "running D qs' w' = running D qs w"
  shows "timers_known D qs' w' = timers_known D qs w"
  using assms by (simp add: timers_known_def)

text \<open>When the queue is empty, there is at most the timer whose callback is on the stack.\<close>

lemma timers_idle:
  assumes "timers_known D qs w" "tq_entries (cs_loop D) w = []"
  shows "card (dom (timers w)) \<le> 1"
proof -
  from assms obtain p where "dom (timers w) \<subseteq> {p}" by (auto simp: timers_known_def)
  then have "card (dom (timers w)) \<le> card {p}" by (intro card_mono) simp_all
  then show ?thesis by simp
qed

lemma report_not_reset: "report_of c cb \<Longrightarrow> cb \<noteq> Bind_Connector_resetChannel k"
  by auto

lemma waits_wf_mono:
  assumes "waits_wf D w cb" "clients w' = clients w"
    and "\<And>d dn. owner cb = Some d \<Longrightarrow> conns w d = Some dn \<Longrightarrow> \<exists>dn'. conns w' d = Some dn' \<and> (cn_state dn = kDisconnected \<longrightarrow> cn_state dn' = kDisconnected)"
  shows "waits_wf D w' cb"
proof (cases cb)
  case (Bind_TcpConnection_connectDestroyed d)
  with assms show ?thesis by (cases "conns w d") (fastforce split: option.splits)+
next
  case (Bind_TcpConnection_forceCloseInLoop d)
  with assms show ?thesis by (cases "conns w d") (fastforce split: option.splits)+
next
  case (Bind_writeComplete u d)
  with assms show ?thesis by (cases "conns w d") (fastforce split: option.splits)+
next
  case (Bind_highWaterMark u d n)
  with assms show ?thesis by (cases "conns w d") (fastforce split: option.splits)+
qed (use assms(1,2) in simp_all)

lemma waits_wf_report: "report_of d cb \<Longrightarrow> conns w d \<noteq> None \<Longrightarrow> waits_wf D w cb"
  by (cases cb) auto

lemma peer_held_mono:
  assumes "peer_held H T cl d dn dh" "H \<subseteq> H'" "T \<subseteq> T'" "cn_state dn = kDisconnected \<Longrightarrow> cn_state dn' = kDisconnected"
    "ch_index dh = kNew \<Longrightarrow> ch_index dh' = kNew"
    "cn_state dn' = kDisconnected \<Longrightarrow> cn_state dn = kDisconnected \<or> Bind_TcpConnection_handleClose d \<in> T'"
  shows "peer_held H' T' cl d dn' dh'"
  using assms unfolding peer_held_def by (auto split: if_splits)

lemma connector_rel_frame:
  assumes rel: "connector_rel w k c" and same: "connectors w' k = connectors w k" and inv: "poller_inv (ct_loop c) w'"
    and chans: "\<And>p. ct_channel c = Some p \<Longrightarrow> chans w' p = chans w p"
  shows "connector_rel w' k c"
  using assms unfolding connector_rel_def by auto

text \<open>A connector that is connected needs little of the world.\<close>

lemma link_wf_connected:
  assumes wf: "link_wf os D todo w c" and st: "ct_state c = Ct_kConnected"
    and same: "connectors w' = connectors w" "poller_inv (cs_loop D) w'" "tq_entries (cs_loop D) w' = tq_entries (cs_loop D) w"
      "\<And>p. ct_channel c = Some p \<Longrightarrow> chans w' p = chans w p"
    and waits: "reset_waits D todo w \<Longrightarrow> reset_waits D todo' w'"
  shows "link_wf os D todo' w' c"
proof -
  note l = link_wfD [OF wf]
  have "connector_rel w' (cs_connector D) c"
    by (rule connector_rel_frame [OF l(1)]) (simp_all add: same l(2))
  moreover have "timers_wf (cs_loop D) w'" using l(10) st same(3) by (simp add: timers_wf_def)
  moreover have "reset_waits D todo' w'" if "ct_channel c \<noteq> None"
    using l(7) [OF that] waits st by simp
  ultimately show ?thesis
    using l st same unfolding link_wf_def by auto
qed

subsection \<open>A step of the connection\<close>

lemma client_step_closing:
  fixes w :: "'w client_world_scheme"
  assumes sys: "client_sys os D k hold todo w c cl"
    and d: "conns w d = Some dn" "chans w (cn_channel dn) = Some dh"
    and step: "conn_step d w dn w' dn' dh'"
    and closes: "todo' = todo \<and> (cn_state dn' = kDisconnected \<longrightarrow> cn_state dn = kDisconnected) \<or>
      todo' = Bind_TcpConnection_handleClose d # todo \<and> cn_state dn' = kDisconnected"
    and st: "cn_state dn' \<noteq> kConnecting" "cn_state dn = kDisconnected \<Longrightarrow> cn_state dn' = kDisconnected"
      "\<not> conn_open dn' \<Longrightarrow> isNoneEvent dh'"
    and room: "length (buf_bytes (cn_inputBuffer dn')) + k * extrabuf_size \<le> max_size"
      "unat (buf_writer (cn_outputBuffer dn')) + k * extrabuf_size \<le> max_size"
    and idx: "ch_index dh = kNew \<Longrightarrow> ch_index dh' = kNew"
  shows "client_sys os D k hold todo' w' c cl"
proof -
  let ?L = "cs_loop D" and ?p = "cn_channel dn"
  have connected: "ct_state c = Ct_kConnected" using connected_of_conn [OF sys d(1)] .
  note peer = client_conn_at [OF sys d]
  note pw = peer_wfD [OF peer(1)]
  note desk = desk_wfD [OF client_sysD(1) [OF sys]] and link = link_wfD [OF client_sysD(2) [OF sys]]
    and cw = client_wfD [OF client_sysD(3) [OF sys]]
  have rel': "conn_rel w' d dn' dh'" and same: "same_conn dn dn'"
    and loc: "conn_local ?L d ?p (cn_socket dn) w w'" and chan: "same_at ?p w w'"
    using step pw(2) by (simp_all add: conn_step_def)
  have same': "cn_loop dn' = ?L" "cn_channel dn' = ?p" using same pw(2) by (simp_all add: same_conn_def)
  have at': "conns w' d = Some dn'" "chans w' ?p = Some dh'" "poller_inv ?L w'"
    using conn_relD(1,2,7) [OF rel'] same' by simp_all
  have ch': "same_chan dh dh'" using chan d(2) at'(2) by (auto simp: same_at_def)
  have conns': "conns w' = (conns w)(d \<mapsto> dn')" and chans': "chans w' = (chans w)(?p \<mapsto> dh')"
    using loc at' by (auto simp: conn_local_def fun_eq_iff)
  have more: "clients w' = clients w" "connectors w' = connectors w" using client_frameD loc by (auto simp: conn_local_def)
  have tq: "tq_entries ?L w' = tq_entries ?L w" using loc by (simp add: conn_local_def tq_entries_def)
  from loc obtain fs where fs: "lp_pendingFunctors (loops w' ?L) = lp_pendingFunctors (loops w ?L) @ fs" "list_all (report_of d) fs"
    and lps: "lp_threadId (loops w' ?L) = lp_threadId (loops w ?L)" "current_tid w' = current_tid w"
      "lp_wakeupFd (loops w' ?L) = lp_wakeupFd (loops w ?L)" "lp_quit (loops w' ?L) = lp_quit (loops w ?L)"
    by (auto simp: conn_local_def loop_local_def)
  have H: "set (waits D qs w) \<subseteq> set (waits D qs w')" for qs by (auto simp: waits_simps fs(1))
  have T: "set (waits D todo w) \<subseteq> set (waits D todo' w')" using H [of todo] closes by (auto simp: waits_simps)
  have "link_wf os D todo' w' c"
    by (rule link_wf_connected [OF client_sysD(2) [OF sys] connected])
      (use more tq at'(3) reset_waits_mono [OF _ T] link_not_peer [OF sys d(1)] chans' in auto)
  moreover have "client_wf D w' c cl"
    using cw connected more conns' by (simp add: client_wf_def)
  moreover have "desk_wf D w' c"
  proof -
    have "loop_chan D xh \<or> ct_channel c = Some q \<or> (\<exists>e en. conns w' e = Some en \<and> cn_channel en = q)"
      if q: "chans w' q = Some xh" "ch_loop xh = ?L" for q xh
    proof (cases "q = ?p")
      case True
      then show ?thesis using at'(1) same'(2) by blast
    next
      case False
      with q chans' have "chans w q = Some xh" by simp
      from desk(6) [OF this q(2)] show ?thesis using False d(1) unfolding conns' by (metis fun_upd_other option.inject)
    qed
    moreover have "desk_small D w'" using desk(7) loc by (simp add: desk_small_def conn_local_def)
    ultimately show ?thesis using desk(1-5) lps conns' chans' by (simp add: desk_wf_def isInLoopThread_def)
  qed
  moreover have wfs: "waits_wf D w' cb" if "waits_wf D w cb" for cb
    by (rule waits_wf_mono [OF that]) (use more conns' d(1) st(2) in auto)
  have "waits_wf D w' cb" if "cb \<in> set fs" for cb
    using waits_wf_report [of d cb w' D] fs(2) that at'(1) by (auto simp: list_all_iff)
  then have "list_all (waits_wf D w') (lp_pendingFunctors (loops w' ?L))"
    using client_sysD(6) [OF sys] wfs unfolding list_all_iff fs(1) by auto
  moreover have "list_all (\<lambda>cb. waits_wf D w' cb \<or> on_stack cb) todo'"
    using client_sysD(7) [OF sys] wfs closes unfolding list_all_iff by (metis on_stack.simps(1) set_ConsD)
  moreover have "peer_wf D k w' d dn' dh'"
    using pw rel' same st room ch' same' by (simp add: peer_wf_def same_conn_def same_chan_def same_dispatch_def own_callbacks_def)
  moreover have "peer_held (set (waits D hold w')) (set (waits D todo' w')) cl d dn' dh'"
    by (rule peer_held_mono [OF peer(2) H T]) (use st(2) idx closes in \<open>auto simp: waits_simps\<close>)
  moreover have "e = d" if "conns w' e \<noteq> None" for e
    using that client_sysD(5) [OF sys d(1)] conns' by (cases "e = d") auto
  ultimately show ?thesis
    using at'(1) unfolding client_sys_def by (metis (no_types, lifting) option.distinct(1) option.inject)
qed

lemma client_step:
  fixes w :: "'w client_world_scheme"
  assumes sys: "client_sys os D k hold todo w c cl"
    and d: "conns w d = Some dn" "chans w (cn_channel dn) = Some dh"
    and step: "conn_step d w dn w' dn' dh'"
    and st: "cn_state dn' \<noteq> kConnecting" "cn_state dn' = kDisconnected \<longleftrightarrow> cn_state dn = kDisconnected"
      "\<not> conn_open dn' \<Longrightarrow> isNoneEvent dh'"
    and room: "length (buf_bytes (cn_inputBuffer dn')) + k * extrabuf_size \<le> max_size"
      "unat (buf_writer (cn_outputBuffer dn')) + k * extrabuf_size \<le> max_size"
    and idx: "ch_index dh = kNew \<Longrightarrow> ch_index dh' = kNew"
  shows "client_sys os D k hold todo w' c cl"
  using st(2) by (intro client_step_closing [OF sys d step _ st(1) _ st(3) room idx]) simp_all

subsection \<open>A step that touches no connection and no connector\<close>

text \<open>
  Such a step may write to the history, note the events of the channels, and move functors from the queue
  to the vector that is worked through.
\<close>

definition apart_step ::
  "client_site \<Rightarrow> (chan_ptr \<Rightarrow> uint32 option) \<Rightarrow> 'w client_world_scheme \<Rightarrow> 'w client_world_scheme \<Rightarrow> bool" where
  "apart_step D m w w' \<longleftrightarrow>
     (let L = cs_loop D in
      (\<forall>p. chans w' p = map_option (set_revents_by m p) (chans w p)) \<and>
      po_channels (pollers w' L) = po_channels (pollers w L) \<and> po_epollfd (pollers w' L) = po_epollfd (pollers w L) \<and>
      po_capacity (pollers w' L) = po_capacity (pollers w L) \<and> interest (hist w') = interest (hist w) \<and> conns w' = conns w \<and> connectors w' = connectors w \<and> clients w' = clients w \<and>
      (\<forall>e \<in> set (tq_entries L w). timers w' (snd e) = timers w (snd e)) \<and>
      dom (timers w') = dom (timers w) \<and> tq_entries L w' = tq_entries L w \<and> current_tid w' = current_tid w \<and>
      lp_threadId (loops w' L) = lp_threadId (loops w L) \<and> lp_wakeupFd (loops w' L) = lp_wakeupFd (loops w L) \<and>
      lp_quit (loops w' L) = lp_quit (loops w L))"

lemma set_revents_by_chan [simp]:
  "loop_chan D (set_revents_by m p ch) = loop_chan D ch" "link_chan D (set_revents_by m p ch) = link_chan D ch"
  "isWriting (set_revents_by m p ch) = isWriting ch" "isNoneEvent (set_revents_by m p ch) = isNoneEvent ch"
  "isReading (set_revents_by m p ch) = isReading ch"
  "ch_writeCallback (set_revents_by m p ch) = ch_writeCallback ch" "ch_errorCallback (set_revents_by m p ch) = ch_errorCallback ch"
  by (simp_all add: set_revents_by_def Channel_set_revents_def loop_chan_def link_chan_def isWriting_def
      isNoneEvent_def isReading_def split: option.split)

lemma set_revents_by_empty [simp]: "map_option (set_revents_by Map.empty p) x = x"
  by (cases x) (simp_all add: set_revents_by_def)

lemma apart_sys:
  fixes w :: "'w client_world_scheme"
  assumes sys: "client_sys os D k hold todo w c cl" and ap: "apart_step D m w w'"
    and waits: "set (waits D hold' w') = set (waits D hold w)" "set (waits D todo' w') = set (waits D todo w)"
    and moved: "list_all (waits_wf D w) (lp_pendingFunctors (loops w' (cs_loop D)))"
      "list_all (\<lambda>cb. waits_wf D w cb \<or> on_stack cb) todo'"
    and recent: "ct_state c = Ct_kDisconnected \<Longrightarrow> reset_waits D todo w \<Longrightarrow> recent os D w \<Longrightarrow> recent os D w'"
  shows "client_sys os D k hold' todo' w' c cl"
proof -
  let ?L = "cs_loop D"
  note a = ap [unfolded apart_step_def Let_def]
  have chans: "chans w' p = map_option (set_revents_by m p) (chans w p)" for p using a by blast
  note desk = desk_wfD [OF client_sysD(1) [OF sys]] and link = link_wfD [OF client_sysD(2) [OF sys]]
    and cw = client_wfD [OF client_sysD(3) [OF sys]]
  have inv: "poller_inv ?L w'"
    by (rule poller_inv_revents [OF link(14) _ _ _ chans]) (use a in simp_all)
  have old: "\<exists>yh. chans w q = Some yh \<and> xh = set_revents_by m q yh" if "chans w' q = Some xh" for q xh
    using that by (cases "chans w q") (simp_all add: chans)
  have rw: "reset_waits D todo' w' = reset_waits D todo w" by (simp add: reset_waits_def waits)
  have desk': "desk_wf D w' c"
  proof -
    have "loop_chan D xh \<or> ct_channel c = Some q \<or> (\<exists>e en. conns w' e = Some en \<and> cn_channel en = q)"
      if q: "chans w' q = Some xh" "ch_loop xh = ?L" for q xh
    proof -
      from old [OF q(1)] obtain yh where "chans w q = Some yh" "xh = set_revents_by m q yh" by blast
      with desk(6) [of q yh] q(2) a show ?thesis by simp
    qed
    moreover have "dom (chans w') = dom (chans w)" by (auto simp: chans dom_def)
    moreover have "desk_small D w'" using desk(7) a by (simp add: desk_small_def)
    ultimately show ?thesis using desk(1-5) a by (simp add: desk_wf_def isInLoopThread_def)
  qed
  have "connector_rel w' (cs_connector D) c"
    using link(1,2) inv a chans unfolding connector_rel_def by fastforce
  moreover have "link_chan D ch" if "ct_channel c = Some p" "chans w' p = Some ch" for p ch
    using link(6) [OF that(1)] old [OF that(2)] by auto
  moreover have "timers_wf ?L w'" using link(5) a by (simp add: timers_wf_def entry_ok_def)
  moreover have "tq_entries ?L w' = tq_entries ?L w" "\<forall>e \<in> set (tq_entries ?L w). timers w' (snd e) = timers w (snd e)"
    using a by blast+
  then have "retry_timer D w' = retry_timer D w" unfolding retry_timer_def by (auto simp del: split_paired_Ex)
  moreover have "ct_state c = Ct_kDisconnected \<longrightarrow> reset_waits D todo w \<longrightarrow> recent os D w'" using link(12) recent by blast
  moreover have "timers_known D todo' w' = timers_known D todo w"
    using a by (simp add: timers_known_def running_def waits)
  ultimately have link': "link_wf os D todo' w' c"
    using client_sysD(2) [OF sys] a unfolding link_wf_def rw by (simp split: States.splits)
  have "conn_rel w' d dn (set_revents_by m (cn_channel dn) dh)" if "conn_rel w d dn dh" "cn_loop dn = ?L" for d dn dh
    using that inv a chans by (simp add: conn_rel_def)
  then have "peer_wf D k w' d dn (set_revents_by m (cn_channel dn) dh) \<and>
      peer_held H T cl d dn (set_revents_by m (cn_channel dn) dh)"
    if "peer_wf D k w d dn dh" "peer_held H T cl d dn dh" for d dn dh H T
    using that by (simp add: peer_wf_def peer_held_def)
  then have "\<forall>d dn. conns w' d = Some dn \<longrightarrow> (\<exists>dh. peer_wf D k w' d dn dh \<and>
      peer_held (set (waits D hold' w')) (set (waits D todo' w')) cl d dn dh)"
    using client_sysD(4) [OF sys] a unfolding waits by metis
  moreover have "client_wf D w' c cl" using client_sysD(3) [OF sys] a by (simp add: client_wf_def)
  moreover have "waits_wf D w' = waits_wf D w"
  proof
    show "waits_wf D w' cb = waits_wf D w cb" for cb using a by (cases cb) simp_all
  qed
  then have "list_all (waits_wf D w') (lp_pendingFunctors (loops w' ?L))" "list_all (\<lambda>cb. waits_wf D w' cb \<or> on_stack cb) todo'"
    using moved by simp_all
  moreover have "\<forall>d e. conns w' d \<noteq> None \<longrightarrow> conns w' e \<noteq> None \<longrightarrow> d = e" using client_sysD(5) [OF sys] a by auto
  ultimately show ?thesis using desk' link' unfolding client_sys_def by (intro conjI)
qed

text \<open>Steps that only write to the history.\<close>

definition only_hist :: "'w client_world_scheme \<Rightarrow> 'w client_world_scheme \<Rightarrow> bool" where
  "only_hist w w' \<longleftrightarrow> w' = w\<lparr>hist := hist w'\<rparr> \<and> interest (hist w') = interest (hist w) \<and>
     (\<exists>e. hist w' = hist w @ e \<and> \<not> list_ex is_wait e)"

lemma recent_hist:
  assumes "recent os D w" "hist w' = hist w @ e" "\<not> list_ex is_wait e" "tq_entries (cs_loop D) w' = tq_entries (cs_loop D) w"
  shows "recent os D w'"
proof -
  from assms(1) obtain h e0 where "hist w = h @ e0" "\<not> list_ex is_wait e0"
    "\<forall>x \<in> set (tq_entries (cs_loop D) w). clock os h + 5000000 \<le> micros (fst x)" by (auto simp: recent_def)
  then show ?thesis using assms(2-4) unfolding recent_def by (intro exI [of _ h] exI [of _ "e0 @ e"]) simp
qed

lemma only_hist_simps:
  assumes "only_hist w w'"
  shows "chans w' = chans w" "conns w' = conns w" "loops w' = loops w" "pollers w' = pollers w" "timers w' = timers w"
    "timerqueues w' = timerqueues w" "clients w' = clients w" "connectors w' = connectors w" "current_tid w' = current_tid w"
    "interest (hist w') = interest (hist w)"
proof -
  have w': "w' = w\<lparr>hist := hist w'\<rparr>" and i: "interest (hist w') = interest (hist w)" using assms by (simp_all add: only_hist_def)
  show "chans w' = chans w" "conns w' = conns w" "loops w' = loops w" "pollers w' = pollers w" "timers w' = timers w"
    "timerqueues w' = timerqueues w" "clients w' = clients w" "connectors w' = connectors w" "current_tid w' = current_tid w"
    by (subst w', simp)+
  show "interest (hist w') = interest (hist w)" by (rule i)
qed

lemma only_hist_sys:
  fixes w :: "'w client_world_scheme"
  assumes sys: "client_sys os D k hold todo w c cl" and h: "only_hist w w'"
  shows "client_sys os D k hold todo w' c cl" "keeps w w'"
proof -
  note s = only_hist_simps [OF h]
  show "client_sys os D k hold todo w' c cl"
  proof (rule apart_sys [OF sys, of Map.empty])
    show "apart_step D Map.empty w w'" by (simp add: apart_step_def s tq_entries_def)
    obtain e where "hist w' = hist w @ e" "\<not> list_ex is_wait e" using h by (auto simp: only_hist_def)
    then show "recent os D w'" if "recent os D w"
      by (rule recent_hist [OF that]) (simp add: tq_entries_def s)
  qed (use client_sysD(6,7) [OF sys] in \<open>simp_all add: waits_def s list_all_iff\<close>)
  show "keeps w w'" by (simp add: keeps_def s)
qed

text \<open>Steps that only change flags of a loop.\<close>

lemma flag_sys:
  fixes w :: "'w client_world_scheme"
  assumes sys: "client_sys os D k hold todo w c cl"
    and g: "\<And>l. lp_threadId (g l) = lp_threadId l" "\<And>l. lp_wakeupFd (g l) = lp_wakeupFd l" "\<And>l. lp_quit (g l) = lp_quit l"
      "\<And>l. lp_pendingFunctors (g l) = lp_pendingFunctors l"
  shows "client_sys os D k hold todo (upd_loop L g w) c cl"
proof (rule apart_sys [OF sys, of Map.empty])
  show "apart_step D Map.empty w (upd_loop L g w)"
    using g by (simp add: apart_step_def upd_loop_def tq_entries_def)
  show "recent os D (upd_loop L g w)" if "recent os D w"
    using that by (simp add: recent_def tq_entries_def upd_loop_def)
qed (use g client_sysD(6,7) [OF sys] in \<open>simp_all add: waits_def upd_loop_def list_all_iff\<close>)

subsection \<open>Results\<close>

text \<open>No channel goes away, and what it dispatches to stays.\<close>

definition stays :: "'w chan_world_scheme \<Rightarrow> 'w chan_world_scheme \<Rightarrow> bool" where
  "stays w w' \<longleftrightarrow> (\<forall>p ch. chans w p = Some ch \<longrightarrow> (\<exists>ch'. chans w' p = Some ch' \<and> same_chan ch ch'))"

lemma stays_refl [simp]: "stays w w"
  by (simp add: stays_def)

lemma stays_trans: "stays w1 w2 \<Longrightarrow> stays w2 w3 \<Longrightarrow> stays w1 w3"
  unfolding stays_def by (meson same_chan_trans)

lemma keeps_stays: "keeps w w' \<Longrightarrow> stays w w'"
  unfolding keeps_def stays_def by blast

text \<open>
  The result of a callback of the connection: it succeeds, with the connector as it was, and nothing goes
  away meanwhile.
\<close>

definition client_safe ::
  "os \<Rightarrow> client_site \<Rightarrow> nat \<Rightarrow> closure list \<Rightarrow> closure list \<Rightarrow> connector \<Rightarrow> 'w client_world_scheme
     \<Rightarrow> 'w client_world_scheme result \<Rightarrow> bool" where
  "client_safe os D k hold todo c w r \<longleftrightarrow>
     (\<exists>w' cl'. r = Inr w' \<and> client_sys os D k hold todo w' c cl' \<and> keeps w w')"

text \<open>An application is safe when its callbacks are; connection and message callback may use up room.\<close>

definition client_app_safe :: "os \<Rightarrow> client_site \<Rightarrow> ('w client_world_scheme) app \<Rightarrow> bool" where
  "client_app_safe os D ap \<longleftrightarrow>
     (\<forall>k hold todo w c cl d u n. client_sys os D k hold todo w c cl \<longrightarrow> conns w d \<noteq> None \<longrightarrow>
        client_safe os D k hold todo c w (app_writeComplete ap u d w) \<and>
        client_safe os D k hold todo c w (app_highWaterMark ap u d n w)) \<and>
     (\<forall>k hold todo w c cl d u t. client_sys os D (Suc k) hold todo w c cl \<longrightarrow> conns w d \<noteq> None \<longrightarrow>
        client_safe os D k hold todo c w (app_connection ap u d w) \<and>
        client_safe os D k hold todo c w (app_message ap u d t w))"

lemma client_safeI: "r = Inr w' \<Longrightarrow> client_sys os D k hold todo w' c cl \<Longrightarrow> keeps w w' \<Longrightarrow> client_safe os D k hold todo c w r"
  unfolding client_safe_def by blast

lemma client_safe_Inr: "client_sys os D k hold todo w c cl \<Longrightarrow> client_safe os D k hold todo c w (Inr w)"
  by (rule client_safeI [OF refl]) simp_all

lemma client_app_safeD:
  assumes "client_app_safe os D ap" "conns w d \<noteq> None"
  shows "client_sys os D k hold todo w c cl \<Longrightarrow> client_safe os D k hold todo c w (app_writeComplete ap u d w)"
    "client_sys os D k hold todo w c cl \<Longrightarrow> client_safe os D k hold todo c w (app_highWaterMark ap u d n w)"
    "client_sys os D (Suc k) hold todo w c cl \<Longrightarrow> client_safe os D k hold todo c w (app_connection ap u d w)"
    "client_sys os D (Suc k) hold todo w c cl \<Longrightarrow> client_safe os D k hold todo c w (app_message ap u d t w)"
  using assms unfolding client_app_safe_def by blast+

lemma client_safe_after: "keeps w w1 \<Longrightarrow> client_safe os D k hold todo c w1 r \<Longrightarrow> client_safe os D k hold todo c w r"
  unfolding client_safe_def using keeps_trans by blast

lemma client_safe_bind:
  assumes "client_safe os D m hold' todo' c w r"
    "\<And>w' cl'. client_sys os D m hold' todo' w' c cl' \<Longrightarrow> keeps w w' \<Longrightarrow> client_safe os D k hold todo c w' (f w')"
  shows "client_safe os D k hold todo c w (bindE r f)"
proof -
  from assms(1) obtain w1 cl1 where w1: "r = Inr w1" "client_sys os D m hold' todo' w1 c cl1" "keeps w w1"
    unfolding client_safe_def by blast
  from assms(2) [OF w1(2,3)] client_safe_after [OF w1(3)] w1(1) show ?thesis by simp
qed

subsection \<open>The callbacks of the application\<close>

lemma client_call_connection:
  assumes sys: "client_sys os D (Suc k) hold todo w c cl" and d: "conns w d = Some dn" and ap: "client_app_safe os D ap"
  shows "client_safe os D k hold todo c w (call_connection (env_of os' al ap) d w)"
proof -
  from client_connE [OF sys d] obtain dh where "peer_wf D (Suc k) w d dn dh" .
  then obtain cb where cb: "cn_connectionCallback dn = Some cb" using peer_wfD(7) by blast
  show ?thesis
    using client_app_safeD(3) [OF ap _ sys] client_safe_Inr [OF client_sys_mono [OF sys, of k]] d
    by (cases cb) (simp_all add: call_connection_def cb env_of_def)
qed

lemma client_call_message:
  fixes w :: "'w client_world_scheme"
  assumes sys: "client_sys os D (Suc k) hold todo w c cl" and d: "conns w d = Some dn" and ap: "client_app_safe os D ap"
  shows "client_safe os D k hold todo c w (call_message (env_of os' al ap) d t w)"
proof -
  have sys': "client_sys os D k hold todo w c cl" using client_sys_mono [OF sys] by simp
  from client_connE [OF sys' d] obtain dh where dh: "peer_wf D k w d dn dh" "chans w (cn_channel dn) = Some dh" .
  note pw = peer_wfD [OF dh(1)]
  from pw(8) obtain cb where cb: "cn_messageCallback dn = Some cb" by blast
  show ?thesis
  proof (cases cb)
    case Default_message
    let ?w' = "upd_conn d (\<lambda>cn. cn\<lparr>cn_inputBuffer := retrieveAll (cn_inputBuffer cn)\<rparr>) w"
    note step = retrieveAll_step [OF pw(1)]
    have "client_sys os D k hold todo ?w' c cl"
      using pw by (intro client_step [OF sys' d dh(2) step]) (simp_all add: conn_open_def retrieveAll_def)
    moreover have "keeps w ?w'" by (rule step_keeps [OF d dh(2) step]) simp_all
    ultimately show ?thesis
      using Default_message by (intro client_safeI [of _ ?w']) (simp_all add: call_message_def d cb)
  next
    case (App_message u)
    then show ?thesis
      using client_app_safeD(4) [OF ap _ sys] d by (simp add: call_message_def cb env_of_def)
  qed
qed

subsection \<open>The connection taken from the client\<close>

lemma queueInLoop_hist:
  fixes w :: "'w client_world_scheme"
  shows "\<exists>e. hist (EventLoop_queueInLoop os L cb w) = hist w @ e \<and> \<not> list_ex is_wait e"
  by (simp add: EventLoop_queueInLoop_def EventLoop_wakeup_def sys_write_def Let_def)

lemma queueInLoop_client_simps [simp]:
  fixes w :: "'w client_world_scheme"
  shows "timers (EventLoop_queueInLoop os L cb w) = timers w" "timerqueues (EventLoop_queueInLoop os L cb w) = timerqueues w"
    "clients (EventLoop_queueInLoop os L cb w) = clients w" "connectors (EventLoop_queueInLoop os L cb w) = connectors w"
    "lp_quit (loops (EventLoop_queueInLoop os L cb w) M) = lp_quit (loops w M)"
  by (simp_all add: EventLoop_queueInLoop_def EventLoop_wakeup_def sys_write_def Let_def upd_loop_def)

lemma client_removeConnection:
  fixes w :: "'w client_world_scheme"
  assumes sys: "client_sys os D k hold (Bind_TcpConnection_handleClose d # todo) w c cl"
    and d: "conns w d = Some dn" "cn_state dn = kDisconnected"
  shows "client_safe os D k hold todo c w (TcpClient_removeConnection os' al (cs_client D) d w)"
proof -
  let ?L = "cs_loop D" and ?b = "Bind_TcpConnection_connectDestroyed d" and ?cl = "cl\<lparr>cl_connection := None\<rparr>"
  let ?w1 = "upd_client (cs_client D) (\<lambda>cl. cl\<lparr>cl_connection := None\<rparr>) w"
  let ?w = "EventLoop_queueInLoop os' ?L ?b ?w1"
  have connected: "ct_state c = Ct_kConnected" using connected_of_conn [OF sys d(1)] .
  note desk = desk_wfD [OF client_sysD(1) [OF sys]] and link = link_wfD [OF client_sysD(2) [OF sys]]
    and cw = client_wfD [OF client_sysD(3) [OF sys]]
  have eq: "TcpClient_removeConnection os' al (cs_client D) d w = Inr ?w"
    using cw(1,2,4) by (simp add: TcpClient_removeConnection_def Let_def)
  have "conn_frame w ?w1" by (simp add: conn_frame_def)
  then have fr: "conn_frame w ?w" using conn_frame_trans conn_frame_queueInLoop by blast
  have same: "conns ?w = conns w" "chans ?w = chans w" "pollers ?w = pollers w" "interest (hist ?w) = interest (hist w)"
    "current_tid ?w = current_tid w" "lp_wakeupFd (loops ?w ?L) = lp_wakeupFd (loops w ?L)"
    "lp_threadId (loops ?w ?L) = lp_threadId (loops w ?L)"
    using fr unfolding conn_frame_def by blast+
  have inv: "poller_inv ?L ?w" using poller_inv_cong [of ?w w ?L] same link(14) by simp
  have more: "timerqueues ?w = timerqueues w" "connectors ?w = connectors w" "clients ?w = (clients w)(cs_client D \<mapsto> ?cl)"
      "lp_quit (loops ?w ?L) = lp_quit (loops w ?L)"
    using cw(1) by (simp_all add: upd_client_def)
  have pend: "lp_pendingFunctors (loops ?w ?L) = lp_pendingFunctors (loops w ?L) @ [?b]" by simp
  have T: "set (waits D (Bind_TcpConnection_handleClose d # todo) w) \<subseteq> insert (Bind_TcpConnection_handleClose d) (set (waits D todo ?w))"
    unfolding waits_simps pend by auto
  have "link_wf os D todo ?w c"
    by (rule link_wf_connected [OF client_sysD(2) [OF sys] connected])
      (use more inv same T in \<open>auto simp: tq_entries_def reset_waits_def\<close>)
  moreover have "client_wf D ?w c ?cl" using cw connected more same by (simp add: client_wf_def)
  moreover have "desk_wf D ?w c" using desk same more by (simp add: desk_wf_def desk_small_def isInLoopThread_def)
  moreover have wfs: "waits_wf D ?w cb" if "waits_wf D w cb" for cb
    using that same(1) more(3) by (cases cb) simp_all
  have "waits_wf D ?w ?b" using d same(1) more(3) by simp
  then have "list_all (waits_wf D ?w) (lp_pendingFunctors (loops ?w ?L))"
    using client_sysD(6) [OF sys] wfs unfolding pend list_all_iff by auto
  moreover have "list_all (\<lambda>cb. waits_wf D ?w cb \<or> on_stack cb) todo"
    using client_sysD(7) [OF sys] wfs unfolding list_all_iff by auto
  moreover have "\<exists>eh. peer_wf D k ?w e en eh \<and> peer_held (set (waits D hold ?w)) (set (waits D todo ?w)) ?cl e en eh"
    if e: "conns ?w e = Some en" for e en
  proof -
    have "e = d" using client_sysD(5) [OF sys d(1)] e same(1) by simp
    with e d same(1) have en: "en = dn" by simp
    from client_connE [OF sys d(1)] obtain dh where dh: "peer_wf D k w d dn dh" .
    have "conn_rel ?w d dn dh" using conn_rel_frame [OF peer_wfD(1) [OF dh] fr] .
    then have "peer_wf D k ?w d dn dh" using dh by (simp add: peer_wf_def)
    moreover have "peer_held (set (waits D hold ?w)) (set (waits D todo ?w)) ?cl d dn dh"
      using d(2) unfolding peer_held_def waits_simps pend by auto
    ultimately show ?thesis using \<open>e = d\<close> en by blast
  qed
  moreover have "\<forall>d e. conns ?w d \<noteq> None \<longrightarrow> conns ?w e \<noteq> None \<longrightarrow> d = e" using client_sysD(5) [OF sys] same(1) by auto
  ultimately have "client_sys os D k hold todo ?w c ?cl" unfolding client_sys_def by blast
  moreover have "keeps w ?w" by (simp add: keeps_def same)
  ultimately show ?thesis using eq by (rule_tac client_safeI)
qed

end
