(* ===== verification/ClientConn.thy ===== *)
theory ClientConn
  imports ClientSteps
begin

section \<open>ClientConn: the events of a client's connection\<close>

text \<open>The four callbacks of the connection's channel, an event of it, and the functors that concern it.\<close>

subsection \<open>The callbacks\<close>

lemma peer_conn_up: "peer_wf D k w d dn dh \<Longrightarrow> conns w d = Some dn"
  using conn_relD(1) [OF peer_wfD(1)] .

lemma client_handleClose_closed:
  assumes sys: "client_sys os D (Suc k) hold todo w c cl" and d: "conns w d = Some dn" "chans w (cn_channel dn) = Some dh"
    and idx: "ch_index dh \<noteq> kNew" and os: "kernel_ok os" and ap: "client_app_safe os D ap"
  shows "\<exists>w' cl' dn'. TcpConnection_handleClose os (env_of os al ap) d w = Inr w' \<and> client_sys os D k hold todo w' c cl' \<and>
    keeps w w' \<and> conns w' d = Some dn' \<and> cn_state dn' = kDisconnected"
proof -
  let ?env = "env_of os al ap" and ?dn = "dn\<lparr>cn_state := kDisconnected\<rparr>" and ?b = "Bind_TcpConnection_handleClose d"
  note pw = peer_wfD [OF client_conn_at(1) [OF sys d]]
  from close_step [OF kernel_okD(1,5) [OF os] pw(1) idx, of ?env] obtain w1 ch1 where
    w1: "TcpConnection_handleClose os ?env d w = bindE (call_connection ?env d w1) (call_close ?env d)"
      "conn_step d w dn w1 ?dn ch1" "isNoneEvent ch1" "ch_index ch1 \<noteq> kNew" by blast
  have sys1: "client_sys os D (Suc k) hold (?b # todo) w1 c cl"
    using w1(3) idx pw(10,11) by (intro client_step_closing [OF sys d w1(2)]) simp_all
  have k1: "keeps w w1" using w1(4) by (intro step_keeps [OF d w1(2)]) simp_all
  have d1: "conns w1 d = Some ?dn" using conn_step_at(1) [OF w1(2)] .
  have "client_safe os D k hold todo c w2 (call_close ?env d w2)"
    if sys2: "client_sys os D k hold (?b # todo) w2 c cl2" and k2: "keeps w1 w2" for w2 cl2
  proof -
    from keeps_connD [OF k2 d1] obtain d2 where
      d2: "conns w2 d = Some d2" "same_conn ?dn d2" "cn_state d2 = kDisconnected" by auto
    then have "cn_closeCallback d2 = Some (Bind_TcpClient_removeConnection (cs_client D))"
      using pw(9) by (simp add: same_conn_def)
    then show ?thesis
      using client_removeConnection [OF sys2 d2(1,3)] d2(1) by (simp add: call_close_def env_of_def close_of_def)
  qed
  then have "client_safe os D k hold todo c w1 (bindE (call_connection ?env d w1) (call_close ?env d))"
    by (intro client_safe_bind [OF client_call_connection [OF sys1 d1 ap]])
  then obtain w2 cl2 where w2: "bindE (call_connection ?env d w1) (call_close ?env d) = Inr w2"
    "client_sys os D k hold todo w2 c cl2" "keeps w1 w2" unfolding client_safe_def by blast
  from keeps_connD [OF w2(3) d1] obtain d2 where "conns w2 d = Some d2" "cn_state d2 = kDisconnected" by auto
  then show ?thesis using w1(1) w2(1,2) keeps_trans [OF k1 w2(3)] by auto
qed

lemma client_handleClose:
  assumes "client_sys os D (Suc k) hold todo w c cl" "conns w d = Some dn" "chans w (cn_channel dn) = Some dh"
    "ch_index dh \<noteq> kNew" "kernel_ok os" "client_app_safe os D ap"
  shows "client_safe os D k hold todo c w (TcpConnection_handleClose os (env_of os al ap) d w)"
  using client_handleClose_closed [OF assms, of al] unfolding client_safe_def by blast

lemma client_handleError:
  assumes sys: "client_sys os D k hold todo w c cl" and d: "conns w d = Some dn"
  shows "client_safe os D k hold todo c w (TcpConnection_handleError os' d w)"
proof -
  from client_connE [OF sys d] obtain dh where dh: "peer_wf D k w d dn dh" "chans w (cn_channel dn) = Some dh" .
  note pw = peer_wfD [OF dh(1)]
  from handleError_step [OF pw(1)] obtain w1 where
    w1: "TcpConnection_handleError os' d w = Inr w1" "conn_step d w dn w1 dn dh" by blast
  have "client_sys os D k hold todo w1 c cl"
    using pw by (intro client_step [OF sys d dh(2) w1(2)]) simp_all
  then show ?thesis by (rule client_safeI [OF w1(1)]) (rule step_keeps [OF d dh(2) w1(2)], simp_all)
qed

lemma client_handleWrite:
  assumes sys: "client_sys os D k hold todo w c cl" and d: "conns w d = Some dn" and os: "kernel_ok os"
  shows "client_safe os D k hold todo c w (TcpConnection_handleWrite os d w)"
proof -
  from client_connE [OF sys d] obtain dh where dh: "peer_wf D k w d dn dh" "chans w (cn_channel dn) = Some dh" .
  note pw = peer_wfD [OF dh(1)]
  show ?thesis
  proof (cases "conn_open dn")
    case False
    then have "TcpConnection_handleWrite os d w = Inr w"
      using d dh(2) isNoneEvent_iff [OF pw(12)] by (simp add: TcpConnection_handleWrite_def)
    then show ?thesis using client_safe_Inr [OF sys] by simp
  next
    case True
    from handleWrite_step [OF kernel_okD(1,2) [OF os] pw(1) True] obtain w1 b dh1 where
      w1: "TcpConnection_handleWrite os d w = Inr w1" "conn_step d w dn w1 (dn\<lparr>cn_outputBuffer := b\<rparr>) dh1"
        "unat (buf_writer b) \<le> unat (buf_writer (cn_outputBuffer dn))" by blast
    have idx: "ch_index dh \<noteq> kNew" "ch_index dh1 \<noteq> kNew"
      using conn_relD(11) [OF pw(1) True] conn_relD(11) [of w1 d "dn\<lparr>cn_outputBuffer := b\<rparr>" dh1] w1(2) True
      by (simp_all add: conn_step_def conn_open_def kIndex_defs)
    have "client_sys os D k hold todo w1 c cl"
      using pw w1(3) True idx by (intro client_step [OF sys d dh(2) w1(2)]) (simp_all add: conn_open_def)
    then show ?thesis by (rule client_safeI [OF w1(1)]) (rule step_keeps [OF d dh(2) w1(2)], use idx in simp_all)
  qed
qed

lemma client_handleRead:
  assumes sys: "client_sys os D (Suc (Suc k)) hold todo w c cl" and d: "conns w d = Some dn"
    "chans w (cn_channel dn) = Some dh" and idx: "ch_index dh \<noteq> kNew"
    and os: "kernel_ok os" and ap: "client_app_safe os D ap"
  shows "client_safe os D k hold todo c w (TcpConnection_handleRead os (env_of os al ap) d t w)"
proof -
  let ?env = "env_of os al ap"
  note pw = peer_wfD [OF client_conn_at(1) [OF sys d]]
  have room: "buffer_room extrabuf_size (cn_inputBuffer dn)" using pw(10) by (simp add: buffer_room_def)
  from handleRead_step [OF kernel_okD(3) [OF os] pw(1) room, of ?env t] obtain inp w1 where
    w1: "conn_step d w dn w1 (dn\<lparr>cn_inputBuffer := inp\<rparr>) dh"
      "length (buf_bytes inp) \<le> length (buf_bytes (cn_inputBuffer dn)) + extrabuf_size"
      "TcpConnection_handleRead os ?env d t w =
      (case os_readv os (hist w) (cn_socket dn) (readv_iov (cn_inputBuffer dn)) of
         Inr bs \<Rightarrow> if bs \<noteq> [] then call_message ?env d t w1 else TcpConnection_handleClose os ?env d w1
       | Inl _ \<Rightarrow> TcpConnection_handleError os d w1)" by blast
  have "client_sys os D (Suc k) hold todo w c cl" using client_sys_mono [OF sys] by simp
  then have sys1: "client_sys os D (Suc k) hold todo w1 c cl"
    using pw w1(2) by (intro client_step [OF _ d w1(1)]) (simp_all add: conn_open_def)
  then have sys1': "client_sys os D k hold todo w1 c cl" using client_sys_mono by fastforce
  have k1: "keeps w w1" by (rule step_keeps [OF d w1(1)]) simp_all
  have d1: "conns w1 d = Some (dn\<lparr>cn_inputBuffer := inp\<rparr>)" "chans w1 (cn_channel dn) = Some dh"
    using conn_step_at [OF w1(1)] by simp_all
  have "client_safe os D k hold todo c w1 (TcpConnection_handleRead os ?env d t w)"
    using w1(3) client_call_message [OF sys1 d1(1) ap] client_handleError [OF sys1' d1(1)]
      client_handleClose [OF sys1 d1(1) _ idx os ap] d1
    by (simp split: sum.splits)
  then show ?thesis by (rule client_safe_after [OF k1])
qed

subsection \<open>An event\<close>

lemma client_dispatch:
  assumes sys: "client_sys os D k hold todo w c cl" and ev: "conn_event (cs_loop D) p d w"
    and cb: "\<And>ch. own_callbacks d ch \<Longrightarrow> callback ch = Some cb"
    and run: "\<And>dn dh. conns w d = Some dn \<Longrightarrow> chans w (cn_channel dn) = Some dh \<Longrightarrow> ch_index dh \<noteq> kNew \<Longrightarrow>
      client_safe os D k hold todo c w (run cb w)"
  shows "client_safe os D k hold todo c w (dispatch_if run cond callback p w)"
proof -
  from ev obtain dn dh where d: "conns w d = Some dn" "cn_channel dn = p" "chans w p = Some dh" "ch_index dh \<noteq> kNew"
    unfolding conn_event_def active_in_def by blast
  then have pw: "peer_wf D k w d dn dh" using client_conn_at(1) [OF sys d(1)] by simp
  from cb [OF peer_wfD(6) [OF pw]] run [OF d(1)] d(2-4) client_safe_Inr [OF sys]
  show ?thesis by (simp add: dispatch_if_def)
qed

lemma client_conn_event:
  fixes w :: "'w client_world_scheme"
  assumes sys: "client_sys os D (Suc (Suc (Suc k))) hold todo w c cl" and ev: "conn_event (cs_loop D) p d w"
    and os: "kernel_ok os" and ap: "client_app_safe os D ap"
  shows "client_safe os D k hold todo c w (Channel_handleEventWithGuard (invoke os al ap) p t w)"
proof -
  let ?run = "\<lambda>cb. invoke os al ap cb t" and ?k2 = "Suc (Suc k)"
  have cl: "client_safe os D ?k2 hold todo c v (dispatch_if ?run cond ch_closeCallback p v)"
    if v: "client_sys os D (Suc ?k2) hold todo v c cl2" "conn_event (cs_loop D) p d v" for v :: "'w client_world_scheme" and cond cl2
    by (rule client_dispatch [OF client_sys_mono [OF v(1)] v(2), where cb = "Bind_TcpConnection_handleClose d"])
      (simp_all add: own_callbacks_def invoke_def invoke_with_def Let_def client_handleClose [OF v(1) _ _ _ os ap])
  have er: "client_safe os D ?k2 hold todo c v (dispatch_if ?run cond ch_errorCallback p v)"
    if v: "client_sys os D ?k2 hold todo v c cl2" "conn_event (cs_loop D) p d v" for v :: "'w client_world_scheme" and cond cl2
    by (rule client_dispatch [OF v, where cb = "Bind_TcpConnection_handleError d"])
      (simp_all add: own_callbacks_def invoke_def invoke_with_def Let_def client_handleError [OF v(1)])
  have rd: "client_safe os D k hold todo c v (dispatch_if ?run cond ch_readCallback p v)"
    if v: "client_sys os D ?k2 hold todo v c cl2" "conn_event (cs_loop D) p d v" for v :: "'w client_world_scheme" and cond cl2
    by (rule client_dispatch [OF client_sys_mono [OF v(1)] v(2), where cb = "Bind_TcpConnection_handleRead d"])
      (simp_all add: own_callbacks_def invoke_def invoke_with_def Let_def client_handleRead [OF v(1) _ _ _ os ap])
  have wr: "client_safe os D k hold todo c v (dispatch_if ?run cond ch_writeCallback p v)"
    if v: "client_sys os D k hold todo v c cl2" "conn_event (cs_loop D) p d v" for v :: "'w client_world_scheme" and cond cl2
    by (rule client_dispatch [OF v, where cb = "Bind_TcpConnection_handleWrite d"])
      (simp_all add: own_callbacks_def invoke_def invoke_with_def Let_def client_handleWrite [OF v(1) _ os])
  show ?thesis
    unfolding Channel_handleEventWithGuard_def Let_def
    by (intro client_safe_bind [OF cl [OF sys ev]] client_safe_bind [OF er] client_safe_bind [OF rd] wr)
      (assumption | meson ev conn_event_keeps)+
qed

subsection \<open>The functors that concern the connection\<close>

text \<open>A functor has run and leaves the list of those that have not.\<close>

lemma client_drop_todo:
  assumes sys: "client_sys os D k hold (cb # todo) w c cl"
    and stack: "\<not> on_stack cb"
    and run: "\<And>d. cb = Bind_TcpConnection_connectDestroyed d \<Longrightarrow> \<exists>dn dh. conns w d = Some dn \<and>
      chans w (cn_channel dn) = Some dh \<and> ch_index dh = kNew"
    and reset: "cb = Bind_Connector_resetChannel (cs_connector D) \<Longrightarrow> ct_channel c = None"
  shows "client_sys os D k hold todo w c cl"
proof -
  have sub: "set (waits D todo w) \<subseteq> set (waits D (cb # todo) w)" and
    sup: "set (waits D (cb # todo) w) \<subseteq> insert cb (set (waits D todo w))" by (auto simp: waits_simps)
  have rw: "reset_waits D todo w" if "reset_waits D (cb # todo) w" "ct_channel c \<noteq> None"
    using that sup reset by (auto simp: reset_waits_def)
  have rw': "reset_waits D (cb # todo) w" if "reset_waits D todo w" using that sub by (auto simp: reset_waits_def)
  have "timers_known D (cb # todo) w = timers_known D todo w"
    by (rule timers_known_cong) (simp_all add: running_Cons [OF stack])
  then have "link_wf os D todo w c"
    using client_sysD(2) [OF sys] rw rw' unfolding link_wf_def by (auto split: States.splits)
  moreover have "peer_held (set (waits D hold w)) (set (waits D todo w)) cl e en eh"
    if e: "conns w e = Some en" "peer_wf D k w e en eh" "peer_held (set (waits D hold w)) (set (waits D (cb # todo) w)) cl e en eh" for e en eh
  proof (cases "cb = Bind_TcpConnection_connectDestroyed e")
    case True
    from run [OF this] e(1) conn_relD(2) [OF peer_wfD(1) [OF e(2)]] have "ch_index eh = kNew" by auto
    moreover have "cl_connection cl \<noteq> Some e"
      using client_sysD(7) [OF sys, of cb] True client_wfD(1) [OF client_sysD(3) [OF sys]] by simp
    ultimately show ?thesis using e(3) by (auto simp: peer_held_def)
  next
    case False
    moreover have "cb \<noteq> Bind_TcpConnection_handleClose e" using stack by auto
    ultimately show ?thesis using e(3) sup unfolding peer_held_def by (auto split: if_splits)
  qed
  moreover have "list_all (\<lambda>cb. waits_wf D w cb \<or> on_stack cb) todo"
    using client_sysD(7) [OF sys] by (auto simp: list_all_iff)
  ultimately show ?thesis using sys unfolding client_sys_def by metis
qed

text \<open>A descriptor that is not one of the loop's is registered only for the channel that uses it.\<close>

lemma client_unregistered:
  assumes sys: "client_sys os D k hold todo w c cl" and d: "conns w d = Some dn" "chans w (cn_channel dn) = Some dh"
    and new: "ch_index dh = kNew"
  shows "po_channels (pollers w (cs_loop D)) (cn_socket dn) = None"
proof (rule ccontr)
  let ?L = "cs_loop D"
  note pw = peer_wfD [OF client_conn_at(1) [OF sys d]]
  note link = link_wfD [OF client_sysD(2) [OF sys]]
  have connected: "ct_state c = Ct_kConnected" using connected_of_conn [OF sys d(1)] .
  assume "\<not> ?thesis"
  then obtain q where q: "po_channels (pollers w ?L) (cn_socket dn) = Some q" by auto
  from poller_invD(1) [OF link(14) q] obtain xh where
    xh: "chans w q = Some xh" "ch_loop xh = ?L" "ch_fd xh = cn_socket dn" by blast
  have registered: "ch_index xh \<noteq> kNew"
    using poller_invD(2) [OF link(14) xh(1,2)] q xh(3) by (cases rule: chan_ok_cases) (auto simp: kIndex_defs)
  from desk_wfD(6) [OF client_sysD(1) [OF sys] xh(1,2)] consider "loop_chan D xh" | "ct_channel c = Some q"
    | e en where "conns w e = Some en" "cn_channel en = q" by blast
  then show False
  proof cases
    case 1
    then show False using pw(13) xh(3) by (simp add: loop_chan_def)
  next
    case 2
    then show False using link(1) xh(1) registered connected by (auto simp: connector_rel_def)
  next
    case 3
    with client_sysD(5) [OF sys d(1) 3(1)] d xh(1) registered new show False by simp
  qed
qed

lemma client_destroy:
  fixes w :: "'w client_world_scheme"
  assumes sys: "client_sys os D k hold (Bind_TcpConnection_connectDestroyed d # todo) w c cl" and os: "kernel_ok os"
  shows "\<exists>w'. TcpConnection_connectDestroyed os env d w = Inr w' \<and> client_sys os D k hold todo w' c cl \<and> conns w' d = conns w d"
proof -
  let ?b = "Bind_TcpConnection_connectDestroyed d"
  have "waits_wf D w ?b" using client_sysD(7) [OF sys, of ?b] by simp
  then obtain dn where dn: "conns w d = Some dn" "cn_state dn = kDisconnected" by (auto split: option.splits)
  from client_connE [OF sys dn(1)] obtain dh where dh: "peer_wf D k w d dn dh" "chans w (cn_channel dn) = Some dh" .
  note pw = peer_wfD [OF dh(1)]
  have "po_channels (pollers w (cn_loop dn)) (ch_fd dh) = None" if "ch_index dh = kNew"
    using client_unregistered [OF sys dn(1) dh(2) that] pw(2) conn_relD(3) [OF pw(1)] by simp
  from destroy_step [OF kernel_okD(1) [OF os] pw(1) dn(2) this, of env] obtain w1 ch1 where
    w1: "TcpConnection_connectDestroyed os env d w = Inr w1" "conn_step d w dn w1 dn ch1"
      "ch_index ch1 = kNew" "ch_events ch1 = ch_events dh" by blast
  have "client_sys os D k hold (?b # todo) w1 c cl"
    using pw dn(2) w1(3,4)
    by (intro client_step [OF sys dn(1) dh(2) w1(2)]) (simp_all add: isNoneEvent_def conn_open_def)
  then have "client_sys os D k hold todo w1 c cl"
    by (rule client_drop_todo) (use conn_step_at [OF w1(2)] w1(3) in auto)
  then show ?thesis using w1(1) dn(1) conn_step_at(1) [OF w1(2)] by auto
qed

end
