(* ===== verification/ClientLink.thy ===== *)
theory ClientLink
  imports ClientConn
begin

section \<open>ClientLink: the connector of a client\<close>

text \<open>
  What \<open>retry\<close>, \<open>connect\<close> and the handlers of the connector do in a client: whatever the kernel answers,
  the connector ends in a state with its one token, a registered channel, a timer, or a connection.
\<close>

text \<open>What is asked of the kernel and of the allocator beyond what a server needs.\<close>

definition sockets_ok :: "os \<Rightarrow> fd set \<Rightarrow> bool" where
  "sockets_ok os B \<longleftrightarrow> (\<forall>h. \<exists>f. os_socket os h = Inr f \<and> f \<notin> B)"

definition names_ok :: "os \<Rightarrow> bool" where
  "names_ok os \<longleftrightarrow> (\<forall>h f. os_getsockopt_error os h f \<noteq> Inl 0) \<and>
     (\<forall>h f. \<exists>a. os_getpeername os h f = Inr a) \<and> (\<forall>h f. \<exists>a. os_getsockname os h f = Inr a)"

definition timers_fresh :: "alloc \<Rightarrow> bool" where
  "timers_fresh al \<longleftrightarrow> (\<forall>m. card (dom m) \<le> 1 \<longrightarrow> m (al_timer al m) = None \<and> al_timer al m \<noteq> -1)"

definition dial_ok :: "os \<Rightarrow> alloc \<Rightarrow> client_site \<Rightarrow> bool" where
  "dial_ok os al D \<longleftrightarrow> kernel_ok os \<and> sockets_ok os (cs_fds D) \<and> names_ok os \<and> alloc_ok al \<and> timers_fresh al"

lemma dial_okD:
  assumes "dial_ok os al D"
  shows "kernel_ok os" "sockets_ok os (cs_fds D)" "names_ok os" "alloc_ok al" "timers_fresh al"
  using assms by (simp_all add: dial_ok_def)

subsection \<open>The retry timer\<close>

lemma resetTimerfd_events:
  assumes "resetTimerfd os f e w = Inr w'"
  shows "\<exists>s u s' n. hist w' = hist w @ [Gettimeofday s u, Timerfd_settime f s' n]"
proof -
  from assms obtain now w1 sec nsec where
    "Timestamp_now os w = Inr (now, w1)" "w' = sys_timerfd_settime f sec nsec w1"
    by (auto simp: resetTimerfd_def howMuchTimeFromNow_def bindE_eq_Inr Let_def)
  then show ?thesis
    using Timestamp_now_frame [of os w now w1] by (auto simp: sys_gettimeofday_def sys_timerfd_settime_def Let_def)
qed

lemma addTime_five:
  assumes "0 \<le> micros t" "micros t < 2 ^ 61"
  shows "\<exists>t'. addTime t 5 = Inr t' \<and> micros t' = micros t + 5000000"
proof -
  have "sint (word_of_int (micros t + 5000000) :: int64) = micros t + 5000000"
    using assms by (intro sint_word_of_int_small) simp_all
  then show ?thesis
    by (intro exI [of _ "Timestamp (word_of_int (micros t + 5000000))"]) (simp add: addTime_eq_Inr)
qed

lemma clock_now:
  assumes "clock_ok os"
  shows "\<exists>t. Timestamp_now os w = Inr (t, snd (sys_gettimeofday os w)) \<and> micros t = clock os (hist w) \<and>
    0 \<le> micros t \<and> micros t < 2 ^ 61"
proof -
  from Timestamp_now_ok [OF assms, of w] obtain t where
    t: "Timestamp_now os w = Inr (t, snd (sys_gettimeofday os w))" "micros t = clock os (hist w)"
    by (auto simp: clock_def)
  have "0 \<le> clock os (hist w) \<and> clock os (hist w) < 2 ^ 40 * 1000000 + 1000000"
    using assms unfolding clock_ok_def clock_def by (smt (verit) mult_nonneg_nonneg)
  with t show ?thesis by simp
qed

text \<open>What setting the only timer of a loop leaves of the world.\<close>

definition timer_set ::
  "os \<Rightarrow> loop_ptr \<Rightarrow> closure \<Rightarrow> timer_ptr \<Rightarrow> timestamp \<Rightarrow> 'w client_world_scheme \<Rightarrow> 'w client_world_scheme \<Rightarrow> bool" where
  "timer_set os L cb p t w w' \<longleftrightarrow>
     tq_entries L w' = [(t, p)] \<and> sane_time t \<and> clock os (hist w) + 5000000 \<le> micros t \<and>
     (\<exists>tm. timers w' = (timers w)(p \<mapsto> tm) \<and> tm_callback tm = cb \<and> tm_expiration tm = t) \<and>
     (\<exists>e. hist w' = hist w @ e \<and> \<not> list_ex is_wait e) \<and> interest (hist w') = interest (hist w) \<and>
     conns w' = conns w \<and> chans w' = chans w \<and> pollers w' = pollers w \<and> loops w' = loops w \<and>
     current_tid w' = current_tid w \<and> clients w' = clients w \<and> connectors w' = connectors w \<and>
     tq_timerfd (timerqueues w' L) = tq_timerfd (timerqueues w L)"

lemma runAfter_ok:
  fixes w :: "'w client_world_scheme"
  assumes clock: "clock_ok os" and here: "isInLoopThread L w" and none: "tq_entries L w = []"
  shows "\<exists>i w' t. EventLoop_runAfter os L p 5 cb w = Inr (i, w') \<and> timer_set os L cb p t w w'"
proof -
  from clock_now [OF clock, of w] obtain now where now: "Timestamp_now os w = Inr (now, snd (sys_gettimeofday os w))"
    "micros now = clock os (hist w)" "0 \<le> micros now" "micros now < 2 ^ 61" by blast
  from addTime_five [OF now(3,4)] obtain t where t: "addTime now 5 = Inr t" "micros t = micros now + 5000000" by blast
  let ?w1 = "snd (sys_gettimeofday os w)"
  let ?w2 = "Timer_new p cb t 0 ?w1"
  let ?w3 = "upd_tq L (\<lambda>q. q\<lparr>tq_timers := [(t, p)]\<rparr>) ?w2"
  have sane: "sane_time t" using t now(3,4) by (simp add: sane_time_def)
  from resetTimerfd_ok [OF clock sane, of "tq_timerfd (timerqueues ?w3 L)" ?w3] obtain w4 where
    w4: "resetTimerfd os (tq_timerfd (timerqueues ?w3 L)) t ?w3 = Inr w4" "w4 = ?w3\<lparr>hist := hist w4\<rparr>"
      "interest (hist w4) = interest (hist ?w3)" by blast
  from resetTimerfd_events [OF w4(1)] obtain s u s' n f where
    h4: "hist w4 = hist ?w3 @ [Gettimeofday s u, Timerfd_settime f s' n]" by blast
  have hist3: "hist ?w3 = hist w @ [Gettimeofday (fst (os_gettimeofday os (hist w))) (snd (os_gettimeofday os (hist w)))]"
    by (simp add: Timer_new_def sys_gettimeofday_def Let_def)
  obtain tm where tm: "timers ?w3 = (timers w)(p \<mapsto> tm)" "tm_callback tm = cb" "tm_expiration tm = t"
    by (simp add: Timer_new_def Let_def)
  have same3: "conns ?w3 = conns w" "chans ?w3 = chans w" "pollers ?w3 = pollers w" "loops ?w3 = loops w"
    "current_tid ?w3 = current_tid w" "clients ?w3 = clients w" "connectors ?w3 = connectors w"
    "tq_timerfd (timerqueues ?w3 L) = tq_timerfd (timerqueues w L)" "tq_entries L ?w3 = [(t, p)]"
    by (simp_all add: Timer_new_def sys_gettimeofday_def Let_def upd_tq_def tq_entries_def)
  have same: "conns w4 = conns w" "chans w4 = chans w" "pollers w4 = pollers w" "loops w4 = loops w"
    "current_tid w4 = current_tid w" "clients w4 = clients w" "connectors w4 = connectors w" "timers w4 = timers ?w3"
    "tq_timerfd (timerqueues w4 L) = tq_timerfd (timerqueues w L)" "tq_entries L w4 = [(t, p)]"
    using same3 by (subst w4(2), simp add: tq_entries_def)+
  have here2: "isInLoopThread L ?w2" using here by (simp add: isInLoopThread_def Timer_new_def sys_gettimeofday_def Let_def)
  have none2: "tq_timers (timerqueues ?w2 L) = []" using none by (simp add: tq_entries_def Timer_new_def Let_def)
  have t2: "timers ?w2 p = Some tm" using tm by simp
  have "TimerQueue_insert L p ?w2 = Inr (True, ?w3)"
    using none2 t2 tm(3) by (simp add: TimerQueue_insert_def set_begin_def upd_tq_def Let_def)
  then have "TimerQueue_addTimerInLoop os L p ?w2 = Inr w4"
    using w4(1) tm by (simp add: TimerQueue_addTimerInLoop_def)
  then have "\<exists>i. TimerQueue_addTimer os L p cb t 0 ?w1 = Inr (i, w4)"
    using here2 same(8) tm(1) by (simp add: TimerQueue_addTimer_def EventLoop_runInLoop_def)
  then have run: "\<exists>i. EventLoop_runAfter os L p 5 cb w = Inr (i, w4)"
    using now(1) t(1) by (simp add: EventLoop_runAfter_def EventLoop_runAt_def)
  have "interest (hist w4) = interest (hist w)" using w4(3) hist3 by (simp add: fun_eq_iff)
  moreover have "\<exists>e. hist w4 = hist w @ e \<and> \<not> list_ex is_wait e" using h4 hist3 by simp
  moreover have "timers w4 = (timers w)(p \<mapsto> tm)" using same(8) tm(1) by simp
  moreover have "clock os (hist w) + 5000000 \<le> micros t" using t(2) now(2) by simp
  ultimately have "timer_set os L cb p t w w4"
    unfolding timer_set_def using same(1-7,9,10) sane tm(2,3) by (intro conjI) blast+
  then show ?thesis using run by blast
qed

subsection \<open>Trying again\<close>

lemma interest_close: "interest (h @ [Close f r]) ep = (interest h ep)(f := None)"
  by simp

lemma close_poller:
  assumes inv: "poller_inv L w" and free: "po_channels (pollers w L) f = None"
    and same: "pollers w' = pollers w" "chans w' = chans w" "interest (hist w') = interest (hist w @ [Close f r])"
  shows "poller_inv L w'"
proof (rule poller_inv_other [OF inv])
  have "interest (hist w) (po_epollfd (pollers w L)) f = None"
    using poller_invD(3) [OF inv, of f] free by (cases "interest (hist w) (po_epollfd (pollers w L)) f") auto
  then show "interest (hist w') (po_epollfd (pollers w L)) = interest (hist w) (po_epollfd (pollers w L))"
    using same(3) by (simp add: fun_upd_idem)
qed (simp_all add: same)

lemma client_retry:
  fixes w :: "'w client_world_scheme"
  assumes os: "clock_ok os" "timers_fresh al" and k: "connectors w k = Some c" "ct_loop c = L" "ct_connect c"
    and here: "isInLoopThread L w" and none: "tq_entries L w = []" and fin: "card (dom (timers w)) \<le> 1"
  shows "\<exists>w' t p r. Connector_retry os al k f w = Inr w' \<and> timers w p = None \<and> p \<noteq> -1 \<and>
    timer_set os L (Bind_Connector_startInLoop k) p t
      (Connector_setState k Ct_kDisconnected (w\<lparr>hist := hist w @ [Close f r]\<rparr>)) w'"
proof -
  let ?p = "al_timer al (timers w)" and ?r = "os_close os (hist w) f"
  let ?w1 = "Connector_setState k Ct_kDisconnected (w\<lparr>hist := hist w @ [Close f ?r]\<rparr>)"
  have p: "timers w ?p = None" "?p \<noteq> -1" using os(2) fin by (simp_all add: timers_fresh_def)
  have "isInLoopThread L ?w1" using here by (simp add: isInLoopThread_def)
  moreover have "tq_entries L ?w1 = []" using none by (simp add: tq_entries_def Connector_setState_def upd_connector_def)
  ultimately obtain i w' t where
    "EventLoop_runAfter os L ?p 5 (Bind_Connector_startInLoop k) ?w1 = Inr (i, w')"
    "timer_set os L (Bind_Connector_startInLoop k) ?p t ?w1 w'" using runAfter_ok [OF os(1)] by blast
  moreover have "Connector_retry os al k f w = bindE (EventLoop_runAfter os L ?p 5 (Bind_Connector_startInLoop k) ?w1) (\<lambda>(_, w2). Inr w2)"
    using Connector_retry_again [OF k(1,3), of os al f] k(2) by (simp add: Let_def)
  ultimately show ?thesis using p by fastforce
qed

text \<open>A connector that does not connect: its invariant from what there is.\<close>

lemma link_wf_waiting:
  fixes w' :: "'w client_world_scheme"
  assumes ts: "timer_set os (cs_loop D) (Bind_Connector_startInLoop (cs_connector D)) p t w1 w'"
    and k: "connectors w1 (cs_connector D) = Some c" "ct_state c = Ct_kDisconnected" "ct_loop c = cs_loop D" "ct_connect c"
      "ct_newConnectionCallback c = Some (cs_client D)" "timers_known D todo w1" "p \<noteq> -1" "tq_entries (cs_loop D) w1 = []"
    and inv: "poller_inv (cs_loop D) w'"
    and chan: "\<And>q. ct_channel c = Some q \<Longrightarrow> \<exists>ch. chans w1 q = Some ch \<and> link_chan D ch \<and> ch_index ch = kNew \<and> reset_waits D todo w1"
  shows "link_wf os D todo w' c"
proof -
  note t = ts [unfolded timer_set_def]
  from t obtain tm e where tm: "timers w' = (timers w1)(p \<mapsto> tm)" "tm_callback tm = Bind_Connector_startInLoop (cs_connector D)"
    "tm_expiration tm = t" and e: "hist w' = hist w1 @ e" "\<not> list_ex is_wait e" by blast
  have "connector_rel w' (cs_connector D) c"
    unfolding connector_rel_def using t k(1-3) inv chan by (fastforce simp: link_chan_def)
  moreover have "timers_wf (cs_loop D) w'" using t k(7) tm by (simp add: timers_wf_def entry_ok_def)
  moreover have "link_chan D ch" if "ct_channel c = Some q" "chans w' q = Some ch" for q ch
    using chan [OF that(1)] that(2) t by auto
  moreover have "reset_waits D todo w'" if "ct_channel c \<noteq> None"
    using chan that t by (auto simp: reset_waits_def waits_def)
  moreover have "retry_timer D w'" unfolding retry_timer_def using t tm by auto
  moreover have "recent os D w'" unfolding recent_def using t e by (intro exI [of _ "hist w1"] exI [of _ e]) simp
  moreover have "running D todo w' = running D todo w1" using t by (simp add: running_def waits_def)
  then have "timers_known D todo w'" using k(6,8) t tm(1) by (auto simp: timers_known_def)
  ultimately show ?thesis using k unfolding link_wf_def by simp
qed

text \<open>Before the connect succeeds there are no connections: the rest of the invariant is easy.\<close>

lemma client_sysI_idle:
  fixes w' :: "'w client_world_scheme"
  assumes sys: "client_sys os D k hold todo w c cl" "ct_state c \<noteq> Ct_kConnected"
    and link: "link_wf os D todo' w' c'" "ct_state c' \<noteq> Ct_kConnected"
    and same: "conns w' = conns w" "clients w' = clients w" "current_tid w' = current_tid w"
      "lp_threadId (loops w' (cs_loop D)) = lp_threadId (loops w (cs_loop D))"
      "lp_wakeupFd (loops w' (cs_loop D)) = lp_wakeupFd (loops w (cs_loop D))"
      "lp_quit (loops w' (cs_loop D)) = lp_quit (loops w (cs_loop D))"
      "po_capacity (pollers w' (cs_loop D)) = po_capacity (pollers w (cs_loop D))"
    and fin: "finite (dom (chans w'))"
    and chans: "\<And>p ch. chans w' p = Some ch \<Longrightarrow> ct_channel c' \<noteq> Some p \<Longrightarrow> \<exists>ch0. chans w p = Some ch0 \<and> ct_channel c \<noteq> Some p \<and>
      (loop_chan D ch0 \<longrightarrow> loop_chan D ch) \<and> ch_loop ch = ch_loop ch0"
    and pending: "\<And>cb. cb \<in> set (lp_pendingFunctors (loops w' (cs_loop D))) \<Longrightarrow>
      cb \<in> set (lp_pendingFunctors (loops w (cs_loop D))) \<or> cb = Bind_Connector_resetChannel (cs_connector D)"
    and todo: "\<And>cb. cb \<in> set todo' \<Longrightarrow> cb \<in> set todo \<or> on_stack cb"
  shows "client_sys os D k hold todo' w' c' cl"
proof -
  note desk = desk_wfD [OF client_sysD(1) [OF sys(1)]] and cw = client_wfD [OF client_sysD(3) [OF sys(1)]]
  have none: "conns w = Map.empty" using cw(7) [OF sys(2)] .
  have "loop_chan D ch \<or> ct_channel c' = Some p" if "chans w' p = Some ch" "ch_loop ch = cs_loop D" for p ch
    using chans [OF that(1)] desk(6) [of p] that(2) none by auto
  then have "desk_wf D w' c'" using desk(1-5,7) desk_small_cong [OF same(7)] same fin unfolding desk_wf_def isInLoopThread_def by auto
  moreover have "client_wf D w' c' cl" using cw sys(2) same by (simp add: client_wf_def)
  moreover have wfs: "waits_wf D w' cb" if "waits_wf D w cb" for cb using that same(1,2) by (cases cb) simp_all
  have "waits_wf D w' cb" if "cb \<in> set (lp_pendingFunctors (loops w' (cs_loop D)))" for cb
    using pending [OF that] wfs [OF client_sysD(6) [OF sys(1), of cb]] by (elim disjE) simp_all
  then have "list_all (waits_wf D w') (lp_pendingFunctors (loops w' (cs_loop D)))" unfolding list_all_iff by blast
  moreover have "list_all (\<lambda>cb. waits_wf D w' cb \<or> on_stack cb) todo'"
    using client_sysD(7) [OF sys(1)] wfs todo unfolding list_all_iff by blast
  ultimately show ?thesis using link(1) none same(1) unfolding client_sys_def by simp
qed

end
