(* ===== verification/ClientDial.thy ===== *)
theory ClientDial
  imports ClientLink
begin

section \<open>ClientDial: connecting and the events of the connector's channel\<close>

text \<open>
  \<open>Connector::connect\<close> on a connector without a channel, whatever \<open>connect\<close> answers; and the two
  handlers of the channel of a connector that connects, which lead to a retry or to a connection.
\<close>

lemma client_moreD:
  fixes w w' :: "'w client_world_scheme"
  assumes "poller_world.more w' = poller_world.more w"
  shows "loops w' = loops w" "current_tid w' = current_tid w" "timers w' = timers w" "timerqueues w' = timerqueues w"
    "conns w' = conns w" "clients w' = clients w" "connectors w' = connectors w"
  using loop_frameD [OF assms] timer_frameD [OF assms] conn_frameD [OF assms] client_frameD [OF conn_frameD(3) [OF assms]]
  by simp_all

lemma connector_state_id: "ct_state c = s \<Longrightarrow> c\<lparr>ct_state := s\<rparr> = c"
  by (cases c) simp

text \<open>A disconnected client has no descriptor but those of its loop in the poller.\<close>

lemma link_unregistered:
  assumes sys: "client_sys os D k hold todo w c cl" and st: "ct_state c = Ct_kDisconnected" and f: "f \<notin> cs_fds D"
  shows "po_channels (pollers w (cs_loop D)) f = None"
proof (rule ccontr)
  note link = link_wfD [OF client_sysD(2) [OF sys]]
  assume "\<not> ?thesis"
  then obtain q where q: "po_channels (pollers w (cs_loop D)) f = Some q" by auto
  from poller_invD(1) [OF link(14) q] obtain xh where
    xh: "chans w q = Some xh" "ch_loop xh = cs_loop D" "ch_fd xh = f" by blast
  have registered: "ch_index xh \<noteq> kNew"
    using poller_invD(2) [OF link(14) xh(1,2)] q xh(3) by (cases rule: chan_ok_cases) (auto simp: kIndex_defs)
  have "conns w = Map.empty" using client_wfD(7) [OF client_sysD(3) [OF sys]] st by simp
  with desk_wfD(6) [OF client_sysD(1) [OF sys] xh(1,2)] consider "loop_chan D xh" | "ct_channel c = Some q" by auto
  then show False
  proof cases
    case 1
    then show False using f xh(3) by (simp add: loop_chan_def)
  next
    case 2
    then show False using link(1) xh(1) registered st by (auto simp: connector_rel_def)
  qed
qed

subsection \<open>Connecting\<close>

text \<open>What connecting leaves: the invariant, the old channels and timers, and only new timers in the queue.\<close>

definition dialled ::
  "os \<Rightarrow> client_site \<Rightarrow> nat \<Rightarrow> closure list \<Rightarrow> closure list \<Rightarrow> client \<Rightarrow> 'w client_world_scheme \<Rightarrow> 'w client_world_scheme result \<Rightarrow> bool" where
  "dialled os D k hold todo cl w r \<longleftrightarrow>
     (\<exists>w' c'. r = Inr w' \<and> client_sys os D k hold todo w' c' cl \<and> ct_state c' \<noteq> Ct_kConnected \<and> stays w w' \<and>
        loops w' = loops w \<and> (\<forall>q. timers w q \<noteq> None \<longrightarrow> timers w' q = timers w q) \<and> (\<forall>e \<in> set (tq_entries (cs_loop D) w'). timers w (snd e) = None))"

lemma dialledI:
  "r = Inr w' \<Longrightarrow> client_sys os D k hold todo w' c' cl \<Longrightarrow> ct_state c' \<noteq> Ct_kConnected \<Longrightarrow> stays w w' \<Longrightarrow>
    loops w' = loops w \<Longrightarrow> (\<And>q. timers w q \<noteq> None \<Longrightarrow> timers w' q = timers w q) \<Longrightarrow> (\<And>e. e \<in> set (tq_entries (cs_loop D) w') \<Longrightarrow> timers w (snd e) = None) \<Longrightarrow>
    dialled os D k hold todo cl w r"
  unfolding dialled_def by blast

text \<open>A client that is about to connect.\<close>

definition to_dial :: "client_site \<Rightarrow> closure list \<Rightarrow> 'w client_world_scheme \<Rightarrow> connector \<Rightarrow> bool" where
  "to_dial D todo w c \<longleftrightarrow> ct_state c = Ct_kDisconnected \<and> tq_entries (cs_loop D) w = [] \<and> \<not> reset_waits D todo w"

lemma to_dialD:
  assumes sys: "client_sys os D k hold todo w c cl" and dial: "to_dial D todo w c"
  shows "ct_state c = Ct_kDisconnected" "ct_state c \<noteq> Ct_kConnected" "tq_entries (cs_loop D) w = []" "\<not> reset_waits D todo w"
    "ct_channel c = None"
proof -
  show st: "ct_state c = Ct_kDisconnected" "ct_state c \<noteq> Ct_kConnected" "tq_entries (cs_loop D) w = []" "\<not> reset_waits D todo w"
    using dial by (simp_all add: to_dial_def)
  show "ct_channel c = None"
    by (rule ccontr) (use link_wfD(7) [OF client_sysD(2) [OF sys]] st in simp)
qed

lemma stays_grown:
  assumes "\<And>p ch. chans w p = Some ch \<Longrightarrow> chans w' p = Some ch"
  shows "stays w w'"
  using assms same_chan_refl unfolding stays_def by blast

lemma dial_connecting:
  fixes w :: "'w client_world_scheme"
  assumes sys: "client_sys os D k hold todo w c cl" and dial: "to_dial D todo w c" and os: "dial_ok os al D"
    and f: "f \<notin> cs_fds D" and h: "interest h = interest (hist w)"
  shows "dialled os D k hold todo cl w (Connector_connecting os al (cs_connector D) f (w\<lparr>hist := h\<rparr>))"
proof -
  let ?L = "cs_loop D" and ?K = "cs_connector D" and ?p = "al_channel al (chans w)" and ?w = "w\<lparr>hist := h\<rparr>"
  note t = to_dialD [OF sys dial] and link = link_wfD [OF client_sysD(2) [OF sys]] and desk = desk_wfD [OF client_sysD(1) [OF sys]]
  note o = kernel_okD [OF dial_okD(1) [OF os]]
  have fresh: "chans w ?p = None" using dial_okD(4) [OF os] desk(4) by (simp add: alloc_ok_def)
  let ?new = "(Channel_new ?L f)\<lparr>ch_writeCallback := Some (Bind_Connector_handleWriter ?K),
      ch_errorCallback := Some (Bind_Connector_handleError ?K)\<rparr>"
  let ?c = "c\<lparr>ct_state := Ct_kConnecting, ct_channel := Some ?p\<rparr>"
  define w3 where "w3 = upd_connector ?K (\<lambda>c. c\<lparr>ct_channel := Some ?p\<rparr>)
    ((Connector_setState ?K Ct_kConnecting ?w)\<lparr>chans := (chans w)(?p \<mapsto> ?new)\<rparr>)"
  have eq: "Connector_connecting os al ?K f ?w = Channel_update os ?p (upd_chan ?p (add_events kWriteEvent) w3)"
    using link(13) link(2) t(5)
    by (simp add: Connector_connecting_def Channel_enableWriting_def w3_def drop_channel_def Let_def)
  have w3: "chans w3 = (chans w)(?p \<mapsto> ?new)" "pollers w3 = pollers w" "hist w3 = h" "loops w3 = loops w" "conns w3 = conns w"
    "current_tid w3 = current_tid w" "timers w3 = timers w" "timerqueues w3 = timerqueues w" "clients w3 = clients w"
    "connectors w3 ?K = Some ?c"
    using link(13) by (simp_all add: w3_def upd_connector_def Connector_setState_def)
  have "poller_inv ?L (w\<lparr>chans := (chans w)(?p \<mapsto> ?new)\<rparr>)"
    using poller_inv_new_chan [OF link(14) fresh] by (simp add: kNew_def)
  then have inv3: "poller_inv ?L w3" using poller_inv_cong [of w3 "w\<lparr>chans := (chans w)(?p \<mapsto> ?new)\<rparr>" ?L] w3 h by simp
  have n: "chans w3 ?p = Some ?new" "ch_loop ?new = ?L" "ch_index ?new = kNew" "ch_events ?new = 0" "ch_fd ?new = f"
    using w3(1) by (simp_all add: kNew_def)
  have "po_channels (pollers w3 ?L) (ch_fd ?new) = None" using link_unregistered [OF sys t(1) f] w3(2) n(5) by simp
  from register_events [OF o(1) o(5) inv3 n(1-4) this kEvents_nonzero(2)] obtain w4 where
    w4: "Channel_update os ?p (upd_chan ?p (add_events kWriteEvent) w3) = Inr w4" "poller_inv ?L w4"
      "chans w4 = (chans w3)(?p \<mapsto> Channel_set_index kAdded (add_events kWriteEvent ?new))"
      "poller_world.more w4 = poller_world.more w3" by blast
  note m = client_moreD [OF w4(4)]
  have cap: "po_capacity (pollers w4 ?L) = po_capacity (pollers w ?L)"
    using Channel_update_capacity [OF w4(1)] by (simp add: upd_chan_def w3(2))
  let ?ch = "Channel_set_index kAdded (add_events kWriteEvent ?new)"
  have chans4: "chans w4 = (chans w)(?p \<mapsto> ?ch)" using w4(3) w3(1) by simp
  have rw: "reset_waits D todo w4 = reset_waits D todo w" by (simp add: reset_waits_def waits_def m w3)
  have "connector_rel w4 ?K ?c"
    using w4(2) chans4 m(7) w3(10) link(2) kEvents_nonzero(2) by (simp add: connector_rel_def isWriting_def Channel_set_index_def add_events_def)
  moreover have "link_chan D ?ch" using f by (simp add: link_chan_def Channel_set_index_def add_events_def Channel_new_def)
  moreover have "timers_wf ?L w4" "tq_entries ?L w4 = []" using t(3) m(4) w3(8) by (simp_all add: timers_wf_def tq_entries_def)
  moreover have known: "timers_known D todo w4"
    using link(8) [OF t(2)] timers_known_cong [of w4 w D todo todo] t(3) m(1,3,4) w3(4,7,8)
    by (simp add: running_def waits_def tq_entries_def)
  ultimately have l4: "link_wf os D todo w4 ?c"
    using link(2-4) t(2,4) rw chans4 known by (simp add: link_wf_def)
  have "client_sys os D k hold todo w4 ?c cl"
  proof (rule client_sysI_idle [OF sys t(2) l4])
    show "finite (dom (chans w4))" using desk(4) chans4 by simp
    show "\<exists>ch0. chans w q = Some ch0 \<and> ct_channel c \<noteq> Some q \<and> (loop_chan D ch0 \<longrightarrow> loop_chan D ch) \<and> ch_loop ch = ch_loop ch0"
      if "chans w4 q = Some ch" "ct_channel ?c \<noteq> Some q" for q ch
      using that chans4 t(5) by auto
  qed (use m w3 cap in simp_all)
  then show ?thesis
  proof (rule dialledI [OF trans [OF eq w4(1)]])
    show "stays w w4" using chans4 fresh by (intro stays_grown) auto
  qed (use m(1,3,4) w3(4,7,8) t(3) in \<open>simp_all add: tq_entries_def\<close>)
qed

lemma dial_retry:
  fixes w :: "'w client_world_scheme"
  assumes sys: "client_sys os D k hold todo w c cl" and dial: "to_dial D todo w c" and os: "dial_ok os al D"
    and f: "f \<notin> cs_fds D" and h: "interest h = interest (hist w)"
  shows "dialled os D k hold todo cl w (Connector_retry os al (cs_connector D) f (w\<lparr>hist := h\<rparr>))"
proof -
  let ?L = "cs_loop D" and ?K = "cs_connector D" and ?w = "w\<lparr>hist := h\<rparr>"
  note t = to_dialD [OF sys dial] and link = link_wfD [OF client_sysD(2) [OF sys]] and desk = desk_wfD [OF client_sysD(1) [OF sys]]
  note o = kernel_okD [OF dial_okD(1) [OF os]]
  have pre: "connectors ?w ?K = Some c" "isInLoopThread ?L ?w" "tq_entries ?L ?w = []" "card (dom (timers ?w)) \<le> 1"
    using link(13) desk(1) t(3) timers_idle [OF link(8) [OF t(2)] t(3)] by (simp_all add: isInLoopThread_def tq_entries_def)
  from client_retry [OF o(4) dial_okD(5) [OF os] pre(1) link(2,3) pre(2-4), of f] obtain w' t' p r where
    w': "Connector_retry os al ?K f ?w = Inr w'" "timers ?w p = None" "p \<noteq> -1"
      "timer_set os ?L (Bind_Connector_startInLoop ?K) p t'
        (Connector_setState ?K Ct_kDisconnected (?w\<lparr>hist := hist ?w @ [Close f r]\<rparr>)) w'" by blast
  let ?w1 = "Connector_setState ?K Ct_kDisconnected (?w\<lparr>hist := hist ?w @ [Close f r]\<rparr>)"
  have k1: "connectors ?w1 ?K = Some c" using link(13) connector_state_id [OF t(1)] by simp
  have w1: "conns ?w1 = conns w" "chans ?w1 = chans w" "pollers ?w1 = pollers w" "loops ?w1 = loops w" "clients ?w1 = clients w"
    "current_tid ?w1 = current_tid w" "timers ?w1 = timers w" "hist ?w1 = h @ [Close f r]"
    by (simp_all add: Connector_setState_def upd_connector_def)
  note s = w'(4) [unfolded timer_set_def]
  have same: "conns w' = conns w" "chans w' = chans w" "pollers w' = pollers w" "loops w' = loops w" "clients w' = clients w"
    "current_tid w' = current_tid w" "interest (hist w') = interest (h @ [Close f r])" "tq_entries ?L w' = [(t', p)]"
    using s unfolding w1 by simp_all
  from s obtain tm where tm: "timers w' = (timers w)(p \<mapsto> tm)" unfolding w1 by blast
  have i': "interest (hist w') = interest (hist w @ [Close f r])" unfolding same(7) by (simp add: fun_eq_iff h)
  have inv: "poller_inv ?L w'"
    by (rule close_poller [OF link(14) link_unregistered [OF sys t(1) f] same(3,2) i'])
  have l': "link_wf os D todo w' c"
  proof (rule link_wf_waiting [OF w'(4) k1 t(1) link(2-4) _ w'(3) _ inv])
    show none: "tq_entries ?L ?w1 = []" using t(3) by (simp add: tq_entries_def Connector_setState_def upd_connector_def)
    show "timers_known D todo ?w1"
      using link(8) [OF t(2)] timers_known_cong [of ?w1 w D todo todo] none t(3) w1(4,7) by (simp add: running_def waits_def)
  qed (use t(5) in simp)
  have "client_sys os D k hold todo w' c cl"
  proof (rule client_sysI_idle [OF sys t(2) l' t(2)])
    show "\<exists>ch0. chans w q = Some ch0 \<and> ct_channel c \<noteq> Some q \<and> (loop_chan D ch0 \<longrightarrow> loop_chan D ch) \<and> ch_loop ch = ch_loop ch0"
      if "chans w' q = Some ch" "ct_channel c \<noteq> Some q" for q ch
      using that same(2) by simp
  qed (use same desk(4) in simp_all)
  then show ?thesis
  proof (rule dialledI [OF w'(1) _ t(2)])
    show "stays w w'" using same(2) by (intro stays_grown) simp
    show "timers w' q = timers w q" if "timers w q \<noteq> None" for q using that tm w'(2) by auto
    show "timers w (snd e) = None" if "e \<in> set (tq_entries ?L w')" for e using that same(8) w'(2) by simp
  qed (fact same(4))
qed

lemma dial_close:
  fixes w :: "'w client_world_scheme"
  assumes sys: "client_sys os D k hold todo w c cl" and dial: "to_dial D todo w c"
    and f: "f \<notin> cs_fds D" and h: "interest h = interest (hist w)"
  shows "dialled os D k hold todo cl w (Inr (snd (sys_close os' f (w\<lparr>hist := h\<rparr>))))"
proof -
  let ?L = "cs_loop D" and ?w = "snd (sys_close os' f (w\<lparr>hist := h\<rparr>))"
  note t = to_dialD [OF sys dial] and link = link_wfD [OF client_sysD(2) [OF sys]] and desk = desk_wfD [OF client_sysD(1) [OF sys]]
  have same: "conns ?w = conns w" "chans ?w = chans w" "pollers ?w = pollers w" "loops ?w = loops w" "clients ?w = clients w"
    "current_tid ?w = current_tid w" "connectors ?w = connectors w" "timers ?w = timers w" "timerqueues ?w = timerqueues w"
    by (simp_all add: sys_close_def Let_def)
  have "interest (hist ?w) = interest (hist w @ [Close f (os_close os' h f)])"
    by (simp add: sys_close_def Let_def fun_eq_iff h)
  from close_poller [OF link(14) link_unregistered [OF sys t(1) f] same(3,2) this] have inv: "poller_inv ?L ?w" .
  have rw: "reset_waits D todo ?w = reset_waits D todo w" by (simp add: reset_waits_def waits_def same)
  have "connector_rel ?w (cs_connector D) c" using link(2,13) t(1,5) inv same(7) by (simp add: connector_rel_def)
  moreover have "timers_wf ?L ?w" "retry_timer D ?w" using t(3) by (simp_all add: timers_wf_def retry_timer_def tq_entries_def same)
  moreover have "timers_known D todo ?w"
    using link(8) [OF t(2)] timers_known_cong [of ?w w D todo todo] same(4,8,9) by (simp add: running_def waits_def tq_entries_def)
  ultimately have "link_wf os D todo ?w c"
    using link(2-4) t(1,2,4,5) rw by (simp add: link_wf_def)
  then have "client_sys os D k hold todo ?w c cl"
    using desk(4) t(2,5) by (intro client_sysI_idle [OF sys t(2)]) (simp_all add: same)
  then show ?thesis
  proof (rule dialledI [OF refl _ t(2)])
    show "stays w ?w" using same(2) by (intro stays_grown) simp
  qed (use t(3) in \<open>simp_all add: same tq_entries_def\<close>)
qed

lemma connect_safe:
  fixes w :: "'w client_world_scheme"
  assumes sys: "client_sys os D k hold todo w c cl" and dial: "to_dial D todo w c" and os: "dial_ok os al D"
  shows "dialled os D k hold todo cl w (Connector_connect os al (cs_connector D) w)"
proof -
  let ?K = "cs_connector D"
  note link = link_wfD [OF client_sysD(2) [OF sys]]
  obtain f where f: "os_socket os (hist w) = Inr f" "f \<notin> cs_fds D"
    using dial_okD(2) [OF os] by (auto simp: sockets_ok_def)
  let ?r = "os_connect os (hist w @ [Socket (Inr f)]) f (ct_serverAddr c)"
  let ?h = "hist w @ [Socket (Inr f), Connect f (ct_serverAddr c) ?r]"
  have h: "interest ?h = interest (hist w)" by (simp add: fun_eq_iff)
  have steps: "sys_socket os w = (Inr f, w\<lparr>hist := hist w @ [Socket (Inr f)]\<rparr>)"
    "sys_connect os f (ct_serverAddr c) (w\<lparr>hist := hist w @ [Socket (Inr f)]\<rparr>) = (?r, w\<lparr>hist := ?h\<rparr>)"
    using f(1) by (simp_all add: sys_socket_def sys_connect_def Let_def)
  have "Connector_connect os al ?K w = (case connect_action_of (case ?r of Inr _ \<Rightarrow> 0 | Inl e \<Rightarrow> e) of
       Act_connecting \<Rightarrow> Connector_connecting os al ?K f (w\<lparr>hist := ?h\<rparr>)
     | Act_retry \<Rightarrow> Connector_retry os al ?K f (w\<lparr>hist := ?h\<rparr>)
     | Act_close \<Rightarrow> Inr (snd (sys_close os f (w\<lparr>hist := ?h\<rparr>))))"
    using link(13) by (simp add: Connector_connect_def Connector_createNonblocking_def steps Let_def)
  then show ?thesis
    using dial_connecting [OF sys dial os f(2) h] dial_retry [OF sys dial os f(2) h] dial_close [OF sys dial f(2) h, of os]
    by (simp split: connect_action.split)
qed

lemma startInLoop_safe:
  fixes w :: "'w client_world_scheme"
  assumes "client_sys os D k hold todo w c cl" "to_dial D todo w c" "dial_ok os al D"
  shows "dialled os D k hold todo cl w (Connector_startInLoop os al (cs_connector D) w)"
  using connect_safe [OF assms] link_wfD(3,13) [OF client_sysD(2) [OF assms(1)]] by (simp add: Connector_startInLoop_def)

end
