(* ===== verification/ClientEvents.thy ===== *)
theory ClientEvents
  imports ClientDial
begin

section \<open>ClientEvents: the events of the connector's channel\<close>

text \<open>
  An error or the end of a connect: the channel leaves the poller and waits to be destroyed, and the
  connector retries or hands its descriptor to a new connection.
\<close>

subsection \<open>The channel is let go\<close>

definition let_go :: "client_site \<Rightarrow> chan_ptr \<Rightarrow> channel \<Rightarrow> 'w client_world_scheme \<Rightarrow> 'w client_world_scheme \<Rightarrow> bool" where
  "let_go D p ch w w1 \<longleftrightarrow>
     poller_inv (cs_loop D) w1 \<and> chans w1 = (chans w)(p \<mapsto> Channel_set_index kNew (clear_events ch)) \<and>
     po_channels (pollers w1 (cs_loop D)) (ch_fd ch) = None \<and>
     loops w1 = (loops w)(cs_loop D := (loops w (cs_loop D))\<lparr>lp_pendingFunctors :=
       lp_pendingFunctors (loops w (cs_loop D)) @ [Bind_Connector_resetChannel (cs_connector D)]\<rparr>) \<and>
     current_tid w1 = current_tid w \<and> conns w1 = conns w \<and> clients w1 = clients w \<and> connectors w1 = connectors w \<and>
     timers w1 = timers w \<and> timerqueues w1 = timerqueues w \<and>
     po_capacity (pollers w1 (cs_loop D)) = po_capacity (pollers w (cs_loop D))"

lemma let_goD:
  assumes "let_go D p ch w w1"
  shows "poller_inv (cs_loop D) w1" "chans w1 = (chans w)(p \<mapsto> Channel_set_index kNew (clear_events ch))"
    "po_channels (pollers w1 (cs_loop D)) (ch_fd ch) = None"
    "loops w1 = (loops w)(cs_loop D := (loops w (cs_loop D))\<lparr>lp_pendingFunctors :=
       lp_pendingFunctors (loops w (cs_loop D)) @ [Bind_Connector_resetChannel (cs_connector D)]\<rparr>)"
    "current_tid w1 = current_tid w" "conns w1 = conns w" "clients w1 = clients w" "connectors w1 = connectors w"
    "timers w1 = timers w" "timerqueues w1 = timerqueues w"
    "po_capacity (pollers w1 (cs_loop D)) = po_capacity (pollers w (cs_loop D))"
  using assms unfolding let_go_def by blast+

lemma let_goI:
  fixes w :: "'w client_world_scheme"
  assumes "poller_inv (cs_loop D) w1" "chans w1 = (chans w)(p \<mapsto> Channel_set_index kNew (clear_events ch))"
    "po_channels (pollers w1 (cs_loop D)) (ch_fd ch) = None"
    "loops w1 = (loops w)(cs_loop D := (loops w (cs_loop D))\<lparr>lp_pendingFunctors :=
       lp_pendingFunctors (loops w (cs_loop D)) @ [Bind_Connector_resetChannel (cs_connector D)]\<rparr>)"
    "current_tid w1 = current_tid w" "loop_world.more w1 = loop_world.more w"
    "po_capacity (pollers w1 (cs_loop D)) = po_capacity (pollers w (cs_loop D))"
  shows "let_go D p ch w w1"
proof -
  have "timers w1 = timers w" "timerqueues w1 = timerqueues w" "conns w1 = conns w" "clients w1 = clients w" "connectors w1 = connectors w"
    using assms(6) by (cases w; cases w1; simp)+
  then show ?thesis using assms(1-5,7) unfolding let_go_def by blast
qed

lemma let_go_chan [simp]:
  "link_chan D (Channel_set_index i (clear_events ch)) = link_chan D ch"
  "same_chan ch (Channel_set_index i (clear_events ch))" "ch_loop (Channel_set_index i (clear_events ch)) = ch_loop ch"
  by (simp_all add: link_chan_def same_chan_def same_dispatch_def Channel_set_index_def clear_events_def)

lemma let_go_stays:
  assumes "let_go D p ch w w1" "chans w p = Some ch"
  shows "stays w w1"
  unfolding stays_def let_goD(2) [OF assms(1)] using assms(2) by auto

text \<open>Before a connection exists, what waits can only be the reset of the channel.\<close>

lemma waits_wf_idle: "waits_wf D w cb \<Longrightarrow> conns w = Map.empty \<Longrightarrow> cb = Bind_Connector_resetChannel (cs_connector D)"
  by (cases cb) simp_all

subsection \<open>A retry\<close>

lemma let_go_retry:
  fixes w :: "'w client_world_scheme"
  assumes sys: "client_sys os D k hold todo w c cl" and st: "ct_state c = Ct_kConnecting" and os: "dial_ok os al D"
    and p: "ct_channel c = Some p" "chans w p = Some ch" and go: "let_go D p ch w w1" and h: "interest h = interest (hist w1)"
  shows "\<exists>w' c'. Connector_retry os al (cs_connector D) (ch_fd ch) (w1\<lparr>hist := h\<rparr>) = Inr w' \<and>
    client_sys os D k hold todo w' c' cl \<and> ct_state c' = Ct_kDisconnected \<and> stays w w'"
proof -
  let ?L = "cs_loop D" and ?K = "cs_connector D" and ?w = "w1\<lparr>hist := h\<rparr>" and ?f = "ch_fd ch"
    and ?c = "c\<lparr>ct_state := Ct_kDisconnected\<rparr>" and ?ch = "Channel_set_index kNew (clear_events ch)"
  have st': "ct_state c \<noteq> Ct_kConnected" using st by simp
  note link = link_wfD [OF client_sysD(2) [OF sys]] and desk = desk_wfD [OF client_sysD(1) [OF sys]] and g = let_goD [OF go]
  note o = kernel_okD [OF dial_okD(1) [OF os]]
  have none: "tq_entries ?L w = []" using link(10) st by simp
  have pre: "connectors ?w ?K = Some c" "isInLoopThread ?L ?w" "tq_entries ?L ?w = []" "card (dom (timers ?w)) \<le> 1"
    using link(13) desk(1) none timers_idle [OF link(8) [OF st'] none] by (simp_all add: isInLoopThread_def tq_entries_def g)
  from client_retry [OF o(4) dial_okD(5) [OF os] pre(1) link(2,3) pre(2-4), of ?f] obtain w' t' q r where
    w': "Connector_retry os al ?K ?f ?w = Inr w'" "q \<noteq> -1"
      "timer_set os ?L (Bind_Connector_startInLoop ?K) q t'
        (Connector_setState ?K Ct_kDisconnected (?w\<lparr>hist := hist ?w @ [Close ?f r]\<rparr>)) w'" by blast
  let ?w1 = "Connector_setState ?K Ct_kDisconnected (?w\<lparr>hist := hist ?w @ [Close ?f r]\<rparr>)"
  have k1: "connectors ?w1 ?K = Some ?c" using link(13) by (simp add: g)
  have w2: "conns ?w1 = conns w" "chans ?w1 = chans w1" "pollers ?w1 = pollers w1" "loops ?w1 = loops w1" "clients ?w1 = clients w"
    "current_tid ?w1 = current_tid w" "timers ?w1 = timers w" "hist ?w1 = h @ [Close ?f r]"
    by (simp_all add: Connector_setState_def upd_connector_def g)
  note s = w'(3) [unfolded timer_set_def]
  have same: "conns w' = conns w" "chans w' = chans w1" "pollers w' = pollers w1" "loops w' = loops w1" "clients w' = clients w"
    "current_tid w' = current_tid w" "interest (hist w') = interest (h @ [Close ?f r])"
    using s unfolding w2 by simp_all
  have i': "interest (hist w') = interest (hist w1 @ [Close ?f r])" unfolding same(7) by (simp add: fun_eq_iff h)
  have inv: "poller_inv ?L w'" by (rule close_poller [OF g(1,3) same(3,2) i'])
  have rw: "reset_waits D todo ?w1" unfolding reset_waits_def waits_def w2 g(4) by simp
  have l': "link_wf os D todo w' ?c"
  proof (rule link_wf_waiting [OF w'(3) k1 _ _ _ _ _ w'(2) _ inv])
    show none1: "tq_entries ?L ?w1 = []" using none by (simp add: tq_entries_def Connector_setState_def upd_connector_def g)
    have "running D todo ?w1 = running D todo w" unfolding running_def waits_def w2 g(4) by auto
    then show "timers_known D todo ?w1"
      using link(8) [OF st'] timers_known_cong [of ?w1 w D todo todo] none1 none w2(7) by simp
    show "\<exists>xh. chans ?w1 q = Some xh \<and> link_chan D xh \<and> ch_index xh = kNew \<and> reset_waits D todo ?w1"
      if "ct_channel ?c = Some q" for q
      using that p rw link(6) [OF p] unfolding w2 g(2) by simp
  qed (use link(2-4) in simp_all)
  have "client_sys os D k hold todo w' ?c cl"
  proof (rule client_sysI_idle [OF sys st' l'])
    show "finite (dom (chans w'))" unfolding same g(2) using desk(4) by simp
    show "\<exists>ch0. chans w x = Some ch0 \<and> ct_channel c \<noteq> Some x \<and> (loop_chan D ch0 \<longrightarrow> loop_chan D xh) \<and> ch_loop xh = ch_loop ch0"
      if "chans w' x = Some xh" "ct_channel ?c \<noteq> Some x" for x xh
      using that p(1) unfolding same g(2) by auto
    show "cb \<in> set (lp_pendingFunctors (loops w ?L)) \<or> cb = Bind_Connector_resetChannel ?K"
      if "cb \<in> set (lp_pendingFunctors (loops w' ?L))" for cb
      using that unfolding same g(4) by auto
  qed (simp_all add: same g)
  moreover have "stays w w'" using let_go_stays [OF go p(2)] by (simp add: stays_def same)
  ultimately show ?thesis using w'(1) by (intro exI [of _ w'] exI [of _ ?c]) simp
qed

subsection \<open>A connection\<close>

lemma let_go_connected:
  fixes w :: "'w client_world_scheme"
  assumes sys: "client_sys os D (Suc k) hold todo w c cl" and st: "ct_state c = Ct_kConnecting" and os: "dial_ok os al D"
    and ap: "client_app_safe os D ap" and room: "1032 + Suc k * extrabuf_size \<le> max_size"
    and p: "ct_channel c = Some p" "chans w p = Some ch" and go: "let_go D p ch w w1" and h: "interest h = interest (hist w1)"
  shows "\<exists>w' c' cl'. TcpClient_newConnection os al (env_of os al ap) (cs_client D) (ch_fd ch)
      (Connector_setState (cs_connector D) Ct_kConnected (w1\<lparr>hist := h\<rparr>)) = Inr w' \<and>
    client_sys os D k hold todo w' c' cl' \<and> stays w w'"
proof -
  let ?L = "cs_loop D" and ?K = "cs_connector D" and ?f = "ch_fd ch" and ?c = "c\<lparr>ct_state := Ct_kConnected\<rparr>"
    and ?ch = "Channel_set_index kNew (clear_events ch)" and ?env = "env_of os al ap" and ?i = "cs_client D"
  let ?w5 = "Connector_setState ?K Ct_kConnected (w1\<lparr>hist := h\<rparr>)"
  have st': "ct_state c \<noteq> Ct_kConnected" using st by simp
  note link = link_wfD [OF client_sysD(2) [OF sys]] and desk = desk_wfD [OF client_sysD(1) [OF sys]] and g = let_goD [OF go]
    and cw = client_wfD [OF client_sysD(3) [OF sys]]
  note o = kernel_okD [OF dial_okD(1) [OF os]]
  have f: "?f \<notin> cs_fds D" "link_chan D ch" using link(6) [OF p] by (simp_all add: link_chan_def)
  have none: "conns w = Map.empty" using cw(7) [OF st'] .
  have w5: "conns ?w5 = Map.empty" "chans ?w5 = (chans w)(p \<mapsto> ?ch)" "pollers ?w5 = pollers w1" "loops ?w5 = loops w1" "hist ?w5 = h"
    "clients ?w5 = clients w" "current_tid ?w5 = current_tid w" "timerqueues ?w5 = timerqueues w"
    "connectors ?w5 = (connectors w)(?K \<mapsto> ?c)"
    using link(13) none by (simp_all add: Connector_setState_def upd_connector_def g)
  let ?d = "al_conn al (conns ?w5)" and ?p = "al_channel al (chans ?w5)"
  obtain pa where pa: "os_getpeername os (hist ?w5) ?f = Inr pa"
    using dial_okD(3) [OF os] unfolding names_ok_def by blast
  obtain la where la: "os_getsockname os (hist ?w5 @ [Getpeername ?f (Inr pa)]) ?f = Inr la"
    using dial_okD(3) [OF os] unfolding names_ok_def by blast
  have "finite (dom (chans ?w5))" unfolding w5 using desk(4) by simp
  then have fresh: "chans ?w5 ?p = None" using dial_okD(4) [OF os] by (simp add: alloc_ok_def)
  have inv5: "poller_inv (cl_loop cl) ?w5" using g(1) poller_inv_cong [of ?w5 w1 ?L] w5(2,3,5) g(2) h cw(2) by simp
  have free5: "po_channels (pollers ?w5 (cl_loop cl)) ?f = None" "lp_wakeupFd (loops ?w5 (cl_loop cl)) \<noteq> ?f"
    using g(3) desk(3) f(1) unfolding w5 g(4) cw(2) by auto
  have cl5: "clients ?w5 ?i = Some cl" using cw(1) unfolding w5 .
  from client_newConnection_built [OF cl5 cw(9,10) [OF st'] pa la fresh inv5 free5, of ?env] obtain w6 cn nh nextId where
    w6: "TcpClient_newConnection os al ?env ?i ?f ?w5 = TcpConnection_connectEstablished os ?env ?d w6"
      "conn_fresh w6 ?d cn nh" "conn_added ?d cn nh ?w5 w6" "cn_loop cn = cl_loop cl" "cn_socket cn = ?f" "cn_channel cn = ?p"
      "cn_connectionCallback cn = cl_connectionCallback cl" "cn_messageCallback cn = cl_messageCallback cl"
      "cn_closeCallback cn = Some (Bind_TcpClient_removeConnection ?i)"
      "hist w6 = hist ?w5 @ [Getpeername ?f (Inr pa), Getsockname ?f (Inr la), Setsockopt ?f SO_KEEPALIVE True]"
      "clients w6 = (clients ?w5)(?i \<mapsto> cl\<lparr>cl_nextConnId := nextId, cl_connection := Some ?d\<rparr>)"
      "connectors w6 = connectors ?w5" by blast
  have same6: "conns w6 = [?d \<mapsto> cn]" "chans w6 = (chans w)(p \<mapsto> ?ch, ?p \<mapsto> nh)" "pollers w6 = pollers w1" "loops w6 = loops w1"
    "current_tid w6 = current_tid w" "timerqueues w6 = timerqueues w" "own_callbacks ?d nh"
    "length (buf_bytes (cn_inputBuffer cn)) = 1032" "unat (buf_writer (cn_outputBuffer cn)) = 8"
    using w6(3,6) unfolding conn_added_def w5(1-4,7,8) by (simp_all add: kInitialSize_def)
  from connectEstablished_step [OF o(1,5) w6(2), of ?env] obtain w7 dh where
    w7: "TcpConnection_connectEstablished os ?env ?d w6 = call_connection ?env ?d w7"
      "conn_rel w7 ?d (cn\<lparr>cn_state := kConnected\<rparr>) dh" "ch_tie dh = Some ?d" "ch_tied dh"
      "own_callbacks ?d nh \<longrightarrow> own_callbacks ?d dh" "conn_local (cn_loop cn) ?d (cn_channel cn) (cn_socket cn) w6 w7" by blast
  let ?cn = "cn\<lparr>cn_state := kConnected\<rparr>" and ?cl = "cl\<lparr>cl_nextConnId := nextId, cl_connection := Some ?d\<rparr>"
  have loc: "conn_local ?L ?d ?p ?f w6 w7" using w7(6) w6(4-6) cw(2) by simp
  have at7: "conns w7 ?d = Some ?cn" "chans w7 ?p = Some dh" "poller_inv ?L w7"
    using conn_relD(1,2,7) [OF w7(2)] w6(4,6) cw(2) by simp_all
  have conns7: "conns w7 = [?d \<mapsto> ?cn]" and chans7: "chans w7 = (chans w)(p \<mapsto> ?ch, ?p \<mapsto> dh)"
    using loc at7 same6(1,2) by (auto simp: conn_local_def fun_eq_iff)
  have m7: "conn_world.more w7 = conn_world.more w6" using loc by (simp add: conn_local_def)
  have more7: "clients w7 = (clients w)(?i \<mapsto> ?cl)" "connectors w7 ?K = Some ?c"
    using client_frameD [OF m7] unfolding w6(11,12) w5(6,9) by simp_all
  have tq7: "tq_entries ?L w7 = []" using loc same6(6) link(10) st by (simp add: conn_local_def tq_entries_def)
  from loc obtain fs where fs: "lp_pendingFunctors (loops w7 ?L) = lp_pendingFunctors (loops w6 ?L) @ fs" "list_all (report_of ?d) fs"
    and lps: "lp_threadId (loops w7 ?L) = lp_threadId (loops w6 ?L)" "current_tid w7 = current_tid w6"
      "lp_wakeupFd (loops w7 ?L) = lp_wakeupFd (loops w6 ?L)" "lp_quit (loops w7 ?L) = lp_quit (loops w6 ?L)"
    by (auto simp: conn_local_def loop_local_def)
  have pend: "lp_pendingFunctors (loops w7 ?L) = lp_pendingFunctors (loops w ?L) @ Bind_Connector_resetChannel ?K # fs"
    unfolding fs(1) same6(4) g(4) by simp
  have pp: "p \<noteq> ?p" using fresh w5(2) by auto
  have desk7: "desk_wf D w7 ?c"
  proof -
    have "loop_chan D xh \<or> ct_channel ?c = Some q \<or> (\<exists>e en. conns w7 e = Some en \<and> cn_channel en = q)"
      if q: "chans w7 q = Some xh" "ch_loop xh = ?L" for q xh
    proof (cases "q = ?p \<or> q = p")
      case True
      moreover have "\<exists>e en. conns w7 e = Some en \<and> cn_channel en = ?p"
        using at7(1) w6(6) by (intro exI [of _ ?d] exI [of _ ?cn]) simp
      ultimately show ?thesis using p(1) by auto
    next
      case False
      with q chans7 have "chans w q = Some xh" by simp
      from desk(6) [OF this q(2)] show ?thesis using False p(1) none by auto
    qed
    moreover have "desk_small D w7" using desk(7) loc same6(3) g(11) by (simp add: desk_small_def conn_local_def)
    ultimately show ?thesis
      using desk(1-4) lps chans7 unfolding desk_wf_def isInLoopThread_def conns7 same6(4,5) g(4) by simp
  qed
  have l7: "link_wf os D todo w7 ?c"
  proof -
    have "connector_rel w7 ?K ?c" using more7(2) at7(3) link(2) link(15) [OF p(1)] p pp chans7 by (simp add: connector_rel_def)
    moreover have "reset_waits D todo w7" by (simp add: reset_waits_def waits_def pend)
    moreover have "link_chan D xh" if "ct_channel ?c = Some q" "chans w7 q = Some xh" for q xh
    proof -
      have "q = p" using that(1) p(1) by simp
      then have "xh = ?ch" using that(2) pp unfolding chans7 by simp
      then show ?thesis using f(2) by simp
    qed
    ultimately show ?thesis using link(2-4) tq7 by (simp add: link_wf_def timers_wf_def)
  qed
  have c7: "client_wf D w7 ?c ?cl" using cw(2-6) more7(1) at7(1) by (simp add: client_wf_def)
  have "waits_wf D w7 cb" if "cb \<in> set (lp_pendingFunctors (loops w7 ?L))" for cb
  proof -
    from that consider "cb \<in> set (lp_pendingFunctors (loops w ?L))" | "cb = Bind_Connector_resetChannel ?K" | "report_of ?d cb"
      using fs(2) unfolding pend by (auto simp: list_all_iff)
    then show ?thesis
    proof cases
      case 1
      then show ?thesis using waits_wf_idle [OF client_sysD(6) [OF sys 1] none] by simp
    next
      case 3
      then show ?thesis using waits_wf_report [of ?d cb w7 D] at7(1) by simp
    qed simp
  qed
  then have pend7: "list_all (waits_wf D w7) (lp_pendingFunctors (loops w7 ?L))" unfolding list_all_iff by blast
  have todo7: "list_all (\<lambda>cb. waits_wf D w7 cb \<or> on_stack cb) todo"
    using client_sysD(7) [OF sys] waits_wf_idle [OF _ none] unfolding list_all_iff by (metis waits_wf.simps(5))
  have peer7: "peer_wf D (Suc k) w7 ?d ?cn dh"
    using w7(2-5) same6(7-9) w6(4,5,7-9) cw(2,5,6) f(1) room by (simp add: peer_wf_def conn_open_def)
  have held7: "peer_held H T ?cl ?d ?cn dh" for H T by (simp add: peer_held_def)
  have "\<forall>e en. conns w7 e = Some en \<longrightarrow> (\<exists>eh. peer_wf D (Suc k) w7 e en eh \<and>
      peer_held (set (waits D hold w7)) (set (waits D todo w7)) ?cl e en eh)"
    using peer7 held7 unfolding conns7 by (auto split: if_splits)
  moreover have "\<forall>d e. conns w7 d \<noteq> None \<longrightarrow> conns w7 e \<noteq> None \<longrightarrow> d = e" unfolding conns7 by simp
  ultimately have sys7: "client_sys os D (Suc k) hold todo w7 ?c ?cl"
    using desk7 l7 c7 pend7 todo7 unfolding client_sys_def by blast
  have st7: "stays w w7" using chans7 fresh w5(2) p(2) by (auto simp: stays_def)
  from client_call_connection [OF sys7 at7(1) ap, of os al] obtain w8 cl8 where
    w8: "call_connection ?env ?d w7 = Inr w8" "client_sys os D k hold todo w8 ?c cl8" "keeps w7 w8"
    by (auto simp: client_safe_def)
  show ?thesis
    using w6(1) w7(1) w8(1,2) stays_trans [OF st7 keeps_stays [OF w8(3)]]
    by (intro exI [of _ w8] exI [of _ ?c] exI [of _ cl8]) simp
qed

subsection \<open>The handlers\<close>

definition linked ::
  "os \<Rightarrow> client_site \<Rightarrow> nat \<Rightarrow> closure list \<Rightarrow> closure list \<Rightarrow> 'w client_world_scheme \<Rightarrow> 'w client_world_scheme result \<Rightarrow> bool" where
  "linked os D k hold todo w r \<longleftrightarrow> (\<exists>w' c' cl'. r = Inr w' \<and> client_sys os D k hold todo w' c' cl' \<and> stays w w')"

lemma linkedI: "r = Inr w' \<Longrightarrow> client_sys os D k hold todo w' c' cl' \<Longrightarrow> stays w w' \<Longrightarrow> linked os D k hold todo w r"
  unfolding linked_def by blast

lemma client_safe_linked: "client_safe os D k hold todo c w r \<Longrightarrow> linked os D k hold todo w r"
  unfolding client_safe_def linked_def using keeps_stays by blast

lemma linked_after: "stays w w1 \<Longrightarrow> linked os D k hold todo w1 r \<Longrightarrow> linked os D k hold todo w r"
  unfolding linked_def using stays_trans by blast

text \<open>What a connector that connects holds.\<close>

lemma connecting_channel:
  assumes sys: "client_sys os D k hold todo w c cl" and st: "ct_state c = Ct_kConnecting"
  obtains p ch where "ct_channel c = Some p" "chans w p = Some ch" "ch_loop ch = ct_loop c" "ch_index ch = kAdded"
    "connectors w (cs_connector D) = Some c" "poller_inv (ct_loop c) w"
  using connector_relD [OF link_wfD(1) [OF client_sysD(2) [OF sys]] st] by blast

lemma connector_handleError_safe:
  fixes w :: "'w client_world_scheme"
  assumes sys: "client_sys os D k hold todo w c cl" and os: "dial_ok os al D"
  shows "\<exists>w' c'. Connector_handleError os al (cs_connector D) w = Inr w' \<and> client_sys os D k hold todo w' c' cl \<and> stays w w' \<and>
    (ct_state c \<noteq> Ct_kConnected \<longrightarrow> ct_state c' \<noteq> Ct_kConnected)"
proof (cases "ct_state c = Ct_kConnecting")
  case False
  then show ?thesis
    using sys link_wfD(13) [OF client_sysD(2) [OF sys]]
    by (intro exI [of _ w] exI [of _ c]) (simp add: Connector_handleError_def)
next
  case True
  from connecting_channel [OF sys True] obtain p ch where
    p: "ct_channel c = Some p" "chans w p = Some ch" "ch_loop ch = ct_loop c" "ch_index ch = kAdded"
      "connectors w (cs_connector D) = Some c" "poller_inv (ct_loop c) w" .
  note L = link_wfD(2) [OF client_sysD(2) [OF sys]]
  from removeAndResetChannel_ok [OF kernel_okD(1) [OF dial_okD(1) [OF os]] p(5,6,1-4)] obtain w1 where
    w1: "Connector_removeAndResetChannel os (cs_connector D) w = Inr (ch_fd ch, w1)" "poller_inv (ct_loop c) w1"
      "chans w1 = (chans w)(p \<mapsto> Channel_set_index kNew (clear_events ch))"
      "po_channels (pollers w1 (ct_loop c)) (ch_fd ch) = None"
      "loops w1 = (loops w)(ct_loop c := (loops w (ct_loop c))\<lparr>lp_pendingFunctors :=
        lp_pendingFunctors (loops w (ct_loop c)) @ [Bind_Connector_resetChannel (cs_connector D)]\<rparr>)"
      "loop_world.more w1 = loop_world.more w" "current_tid w1 = current_tid w"
      "po_capacity (pollers w1 (ct_loop c)) = po_capacity (pollers w (ct_loop c))" by blast
  have go: "let_go D p ch w w1" using w1(2-8) unfolding L by (intro let_goI)
  let ?h = "hist w1 @ [Getsockopt_error (ch_fd ch) (os_getsockopt_error os (hist w1) (ch_fd ch))]"
  have eq: "Connector_handleError os al (cs_connector D) w = Connector_retry os al (cs_connector D) (ch_fd ch) (w1\<lparr>hist := ?h\<rparr>)"
    using p(5) True w1(1) by (simp add: Connector_handleError_def sys_getsockopt_error_def Let_def)
  have "interest ?h = interest (hist w1)" by (simp add: fun_eq_iff)
  from let_go_retry [OF sys True os p(1,2) go this] obtain w' c' where
    "Connector_retry os al (cs_connector D) (ch_fd ch) (w1\<lparr>hist := ?h\<rparr>) = Inr w'"
    "client_sys os D k hold todo w' c' cl" "ct_state c' = Ct_kDisconnected" "stays w w'" by blast
  then show ?thesis using eq by (intro exI [of _ w'] exI [of _ c']) simp
qed

lemma connector_handleWriter_safe:
  fixes w :: "'w client_world_scheme"
  assumes sys: "client_sys os D (Suc k) hold todo w c cl" and st: "ct_state c \<noteq> Ct_kConnected" and os: "dial_ok os al D"
    and ap: "client_app_safe os D ap" and room: "1032 + Suc k * extrabuf_size \<le> max_size"
  shows "linked os D k hold todo w
    (Connector_handleWriter os al (TcpClient_newConnection os al (env_of os al ap)) (cs_connector D) w)"
proof (cases "ct_state c = Ct_kConnecting")
  case False
  with st have "ct_state c = Ct_kDisconnected" by (cases "ct_state c") simp_all
  moreover have "client_sys os D k hold todo w c cl" using client_sys_mono [OF sys] by simp
  ultimately show ?thesis
    using link_wfD(13) [OF client_sysD(2) [OF sys]] by (intro linkedI [of _ w]) (simp_all add: Connector_handleWriter_def)
next
  case True
  let ?nc = "TcpClient_newConnection os al (env_of os al ap)" and ?K = "cs_connector D"
  note link = link_wfD [OF client_sysD(2) [OF sys]]
  from connecting_channel [OF sys True] obtain p ch where
    p: "ct_channel c = Some p" "chans w p = Some ch" by blast
  have err: "\<forall>h f. os_getsockopt_error os h f \<noteq> Inl 0" using dial_okD(3) [OF os] by (simp add: names_ok_def)
  have sys': "client_sys os D k hold todo w c cl" using client_sys_mono [OF sys] by simp
  from handleWriter_ok [OF kernel_okD(1) [OF dial_okD(1) [OF os]] link(1) True err p refl, of al ?nc] obtain w1 w2 w4 ch1 where
    w: "chans w1 = (chans w)(p \<mapsto> ch1)" "po_channels (pollers w1 (ct_loop c)) (ch_fd ch) = None" "poller_inv (ct_loop c) w1"
      "loops w1 = (loops w)(ct_loop c := (loops w (ct_loop c))\<lparr>lp_pendingFunctors :=
        lp_pendingFunctors (loops w (ct_loop c)) @ [Bind_Connector_resetChannel ?K]\<rparr>)"
      "loop_world.more w1 = loop_world.more w"
      "w2 = w1\<lparr>hist := hist w1 @ [Getsockopt_error (ch_fd ch) (os_getsockopt_error os (hist w1) (ch_fd ch))]\<rparr>"
      "w4 = w2\<lparr>hist := hist w4\<rparr>" "interest (hist w4) = interest (hist w1)"
      "Connector_handleWriter os al ?nc ?K w =
      (if os_getsockopt_error os (hist w1) (ch_fd ch) \<noteq> Inr 0 then Connector_retry os al ?K (ch_fd ch) w2
       else if self_connected os (hist w2) (ch_fd ch) then Connector_retry os al ?K (ch_fd ch) w4
       else let w5 = Connector_setState ?K Ct_kConnected w4 in
         if ct_connect c
         then (case ct_newConnectionCallback c of None \<Rightarrow> Inl Bad_Function_Call
               | Some cl \<Rightarrow> ?nc cl (ch_fd ch) w5)
         else Inr (snd (sys_close os (ch_fd ch) w5)))"
      "ch1 = Channel_set_index kNew (clear_events ch)" "current_tid w1 = current_tid w"
      "po_capacity (pollers w1 (ct_loop c)) = po_capacity (pollers w (ct_loop c))" by blast
  have go: "let_go D p ch w w1" using w(1-5,10-12) link(2) by (intro let_goI) simp_all
  have w2: "w2 = w1\<lparr>hist := hist w2\<rparr>" "interest (hist w2) = interest (hist w1)" using w(6) by (simp_all add: fun_eq_iff)
  have w4: "w4 = w1\<lparr>hist := hist w4\<rparr>" using w(6,7) by simp
  have retry: "linked os D k hold todo w (Connector_retry os al ?K (ch_fd ch) (w1\<lparr>hist := h\<rparr>))"
    if "interest h = interest (hist w1)" for h
    using let_go_retry [OF sys' True os p go that] unfolding linked_def by blast
  have new: "linked os D k hold todo w (?nc (cs_client D) (ch_fd ch) (Connector_setState ?K Ct_kConnected (w1\<lparr>hist := h\<rparr>)))"
    if "interest h = interest (hist w1)" for h
    using let_go_connected [OF sys True os ap room p go that] unfolding linked_def by blast
  have "linked os D k hold todo w (Connector_retry os al ?K (ch_fd ch) w2)"
    using retry [OF w2(2)] w2(1) by simp
  moreover have "linked os D k hold todo w (Connector_retry os al ?K (ch_fd ch) w4)"
    "linked os D k hold todo w (?nc (cs_client D) (ch_fd ch) (Connector_setState ?K Ct_kConnected w4))"
    using retry [OF w(8)] new [OF w(8)] w4 by simp_all
  ultimately show ?thesis unfolding w(9) Let_def using link(3,4) by simp
qed

subsection \<open>An event\<close>

lemma dispatch_if_none: "chans w p = Some ch \<Longrightarrow> callback ch = None \<Longrightarrow> dispatch_if run cond callback p w = Inr w"
  by (simp add: dispatch_if_def)

lemma link_event_safe:
  fixes w :: "'w client_world_scheme"
  assumes sys: "client_sys os D (Suc k) hold todo w c cl" and st: "ct_state c \<noteq> Ct_kConnected" and os: "dial_ok os al D"
    and ap: "client_app_safe os D ap" and room: "1032 + Suc k * extrabuf_size \<le> max_size"
    and p: "ct_channel c = Some p"
  shows "linked os D k hold todo w (Channel_handleEvent (invoke os al ap) conn_alive p t w)"
proof -
  let ?run = "\<lambda>cb. invoke os al ap cb t"
  from link_wfD(15) [OF client_sysD(2) [OF sys] p] obtain ch where ch: "chans w p = Some ch" by blast
  note lc = link_wfD(6) [OF client_sysD(2) [OF sys] p ch, unfolded link_chan_def]
  from connector_handleError_safe [OF sys os] obtain w' c' where
    e: "Connector_handleError os al (cs_connector D) w = Inr w'" "client_sys os D (Suc k) hold todo w' c' cl" "stays w w'"
      "ct_state c' \<noteq> Ct_kConnected" using st by blast
  have "\<exists>w1 c1. dispatch_if ?run wants_error ch_errorCallback p w = Inr w1 \<and> client_sys os D (Suc k) hold todo w1 c1 cl \<and>
      stays w w1 \<and> ct_state c1 \<noteq> Ct_kConnected"
  proof (cases "wants_error (ch_revents ch)")
    case True
    then have "dispatch_if ?run wants_error ch_errorCallback p w = Inr w'"
      using ch lc e(1) by (simp add: dispatch_if_def invoke_def invoke_with_def Let_def)
    with e show ?thesis by blast
  next
    case False
    then have "dispatch_if ?run wants_error ch_errorCallback p w = Inr w" using ch by (simp add: dispatch_if_def)
    with sys st show ?thesis by (intro exI [of _ w] exI [of _ c]) simp
  qed
  then obtain w1 c1 where w1: "dispatch_if ?run wants_error ch_errorCallback p w = Inr w1"
    "client_sys os D (Suc k) hold todo w1 c1 cl" "stays w w1" "ct_state c1 \<noteq> Ct_kConnected" by blast
  from w1(3) ch obtain ch1 where ch1: "chans w1 p = Some ch1" "same_chan ch ch1" unfolding stays_def by blast
  have cb: "ch_readCallback ch1 = None" "ch_writeCallback ch1 = Some (Bind_Connector_handleWriter (cs_connector D))"
    using ch1(2) lc by (simp_all add: same_chan_def same_dispatch_def)
  have eq: "Channel_handleEvent (invoke os al ap) conn_alive p t w = dispatch_if ?run wants_write ch_writeCallback p w1"
    using ch lc w1(1) dispatch_if_none [of w p ch ch_closeCallback ?run wants_close]
      dispatch_if_none [OF ch1(1), of ch_readCallback ?run wants_read] cb(1)
    by (simp add: Channel_handleEvent_def Channel_handleEventWithGuard_def Let_def)
  have "linked os D k hold todo w1 (dispatch_if ?run wants_write ch_writeCallback p w1)"
  proof (cases "wants_write (ch_revents ch1)")
    case True
    then show ?thesis
      using connector_handleWriter_safe [OF w1(2,4) os ap room] ch1(1) cb(2)
      by (simp add: dispatch_if_def invoke_def invoke_with_def Let_def)
  next
    case False
    have "client_sys os D k hold todo w1 c1 cl" using client_sys_mono [OF w1(2)] by simp
    with False ch1(1) show ?thesis by (intro linkedI [of _ w1]) (simp_all add: dispatch_if_def)
  qed
  then show ?thesis unfolding eq by (rule linked_after [OF w1(3)])
qed

end
