(* ===== verification/ClientTimer.thy ===== *)
theory ClientTimer
  imports ClientEvents
begin

section \<open>ClientTimer: the events of the loop's own channels\<close>

text \<open>
  The wake-up descriptor, and the timer descriptor: the retry timer of the connector, when it is due,
  starts the next connect and is deleted.  A timer that was set in this round is not due, so the connect
  finds the old channel destroyed.
\<close>

subsection \<open>The end of the read of the timer descriptor\<close>

text \<open>What \<open>reset\<close> changes: the timers that have run are deleted, and the descriptor is armed again.\<close>

definition timers_cut :: "entry list \<Rightarrow> 'w client_world_scheme \<Rightarrow> 'w client_world_scheme \<Rightarrow> bool" where
  "timers_cut es w w' \<longleftrightarrow> (\<exists>e. w' = w\<lparr>timers := timers w |` (- snd ` set es), hist := hist w @ e\<rparr> \<and>
     \<not> list_ex is_wait e \<and> interest (hist w') = interest (hist w))"

lemma reset_cut:
  fixes w :: "'w client_world_scheme"
  assumes clock: "clock_ok os" and wf: "timers_wf L w"
    and es: "es = [] \<or> (\<exists>t p. es = [(t, p)] \<and> timers w p \<noteq> None \<and> p \<notin> snd ` set (tq_entries L w))"
  shows "\<exists>w'. TimerQueue_reset os L es now w = Inr w' \<and> timers_cut es w w'"
proof -
  let ?T = "timers w |` (- snd ` set es)"
  have T: "foldE (\<lambda>it. Timer_delete (snd it)) es w = Inr (w\<lparr>timers := ?T\<rparr>)"
    using es
  proof
    assume "es = []"
    then show ?thesis by (simp add: restrict_map_def)
  next
    assume "\<exists>t p. es = [(t, p)] \<and> timers w p \<noteq> None \<and> p \<notin> snd ` set (tq_entries L w)"
    then obtain t p where p: "es = [(t, p)]" "timers w p \<noteq> None" by blast
    then have "?T = (timers w)(p := None)" by (auto simp: restrict_map_def)
    with p show ?thesis by (auto simp: Timer_delete_def deref_def)
  qed
  let ?w1 = "w\<lparr>timers := ?T\<rparr>"
  show ?thesis
  proof (cases "tq_entries L w")
    case Nil
    then have "TimerQueue_reset os L es now w = Inr ?w1"
      using T by (simp add: TimerQueue_reset_def tq_entries_def set_begin_def)
    then show ?thesis by (intro exI [of _ ?w1]) (auto simp: timers_cut_def intro!: exI [of _ "[]"])
  next
    case (Cons e es')
    then have "entry_ok w e" using wf by (simp add: timers_wf_def)
    then obtain tm where tm: "timers w (snd e) = Some tm" "tm_expiration tm = fst e" "sane_time (fst e)"
      by (auto simp: entry_ok_def)
    have "snd e \<notin> snd ` set es" using es Cons by auto
    then have tm1: "?T (snd e) = Some tm" using tm(1) by simp
    from resetTimerfd_ok [OF clock tm(3), of "tq_timerfd (timerqueues ?w1 L)" ?w1] obtain w2 where
      w2: "resetTimerfd os (tq_timerfd (timerqueues ?w1 L)) (fst e) ?w1 = Inr w2" "w2 = ?w1\<lparr>hist := hist w2\<rparr>"
        "interest (hist w2) = interest (hist ?w1)" by blast
    from resetTimerfd_events [OF w2(1)] obtain s u s' n f where
      h2: "hist w2 = hist w @ [Gettimeofday s u, Timerfd_settime f s' n]" by auto
    have "0 < micros (fst e)" using tm(3) by (simp add: sane_time_def)
    then have "TimerQueue_reset os L es now w = Inr w2"
      using T Cons tm1 tm(2) w2(1) by (simp add: TimerQueue_reset_def tq_entries_def set_begin_def deref_def)
    moreover have "w2 = w\<lparr>timers := ?T, hist := hist w @ [Gettimeofday s u, Timerfd_settime f s' n]\<rparr>"
      using w2(2) h2 by simp
    then have "timers_cut es w w2"
      using w2(3) unfolding timers_cut_def
      by (intro exI [of _ "[Gettimeofday s u, Timerfd_settime f s' n]"]) simp
    ultimately show ?thesis by blast
  qed
qed

lemma timers_cut_simps:
  fixes w :: "'w client_world_scheme"
  assumes "timers_cut es w w'"
  shows "chans w' = chans w" "conns w' = conns w" "loops w' = loops w" "pollers w' = pollers w" "clients w' = clients w"
    "connectors w' = connectors w" "current_tid w' = current_tid w" "interest (hist w') = interest (hist w)"
    "\<exists>e. hist w' = hist w @ e \<and> \<not> list_ex is_wait e" "tq_entries L w' = tq_entries L w"
    "timers w' = timers w |` (- snd ` set es)"
proof -
  from assms obtain e where w': "w' = w\<lparr>timers := timers w |` (- snd ` set es), hist := hist w @ e\<rparr>" "\<not> list_ex is_wait e"
    and i: "interest (hist w') = interest (hist w)" unfolding timers_cut_def by blast
  show "interest (hist w') = interest (hist w)" by (rule i)
  show "\<exists>e. hist w' = hist w @ e \<and> \<not> list_ex is_wait e" using w' by (intro exI [of _ e]) simp
  show "chans w' = chans w" "conns w' = conns w" "loops w' = loops w" "pollers w' = pollers w" "clients w' = clients w"
    "connectors w' = connectors w" "current_tid w' = current_tid w" "tq_entries L w' = tq_entries L w"
    "timers w' = timers w |` (- snd ` set es)" unfolding w'(1) by (simp_all add: tq_entries_def)
qed

text \<open>Nothing was due, or the timer that has run is gone.\<close>

lemma timers_cut_none:
  fixes w :: "'w client_world_scheme"
  assumes sys: "client_sys os D k hold todo w c cl" and cut: "timers_cut [] w w'"
  shows "client_sys os D k hold todo w' c cl" "keeps w w'"
proof -
  note s = timers_cut_simps [OF cut]
  show "client_sys os D k hold todo w' c cl"
  proof (rule apart_sys [OF sys, of Map.empty])
    show "apart_step D Map.empty w w'" by (simp add: apart_step_def Let_def s restrict_map_def)
    show "recent os D w'" if "recent os D w"
    proof -
      from s(9) obtain e where "hist w' = hist w @ e" "\<not> list_ex is_wait e" by blast
      from recent_hist [OF that this s(10)] show ?thesis .
    qed
  qed (use client_sysD(6,7) [OF sys] in \<open>simp_all add: waits_def s list_all_iff\<close>)
  show "keeps w w'" by (simp add: keeps_def s)
qed

lemma running_none:
  assumes "client_sys os D k hold todo w c cl"
  shows "running D [] w = {}"
  using client_sysD(6) [OF assms] by (fastforce simp: running_def waits_def)

lemma timers_cut_run:
  fixes w :: "'w client_world_scheme"
  assumes sys: "client_sys os D k hold [Bind_TimerQueue_addTimerInLoop (cs_loop D) p] w c cl"
    and cut: "timers_cut [(t, p)] w w'" and st: "ct_state c \<noteq> Ct_kConnected"
    and p: "p \<notin> snd ` set (tq_entries (cs_loop D) w)"
  shows "client_sys os D k hold [] w' c cl" "keeps w w'"
proof -
  let ?L = "cs_loop D" and ?b = "Bind_TimerQueue_addTimerInLoop (cs_loop D) p"
  note s = timers_cut_simps [OF cut]
  note link = link_wfD [OF client_sysD(2) [OF sys]] and desk = desk_wfD [OF client_sysD(1) [OF sys]]
  have T: "timers w' = (timers w)(p := None)" unfolding s(11) by (auto simp: restrict_map_def)
  have same: "timers w' (snd x) = timers w (snd x)" if "x \<in> set (tq_entries ?L w)" for x
    using that p unfolding T by (auto simp: image_iff)
  have w: "waits D qs w' = waits D qs w" for qs by (simp add: waits_def s(3))
  have rw: "reset_waits D [] w' = reset_waits D [?b] w" unfolding reset_waits_def w by (simp add: waits_def)
  have "running D [] w' = {}" using running_none [OF sys] by (simp add: running_def w)
  moreover have "running D [?b] w = insert p (running D [] w)" by (auto simp: running_def waits_def)
  ultimately have known: "timers_known D [] w'"
    using link(8) [OF st] running_none [OF sys] p unfolding timers_known_def T s(10) by auto
  have "poller_inv ?L w'" using link(14) poller_inv_cong [of w' w ?L] s by simp
  then have "connector_rel w' (cs_connector D) c" using link(1,2) by (simp add: connector_rel_def s)
  moreover have "timers_wf ?L w'" using link(5) same by (auto simp: timers_wf_def entry_ok_def s(10))
  moreover have "retry_timer D w'" if "retry_timer D w" using that same by (auto simp: retry_timer_def s(10))
  moreover have "recent os D w'" if "recent os D w"
  proof -
    from s(9) obtain e where "hist w' = hist w @ e" "\<not> list_ex is_wait e" by blast
    from recent_hist [OF that this s(10)] show ?thesis .
  qed
  ultimately have "link_wf os D [] w' c"
    using client_sysD(2) [OF sys] known unfolding link_wf_def rw s(1,10) by (simp split: States.splits)
  then show "client_sys os D k hold [] w' c cl"
    using desk(4) by (intro client_sysI_idle [OF sys st _ st]) (auto simp: s)
  show "keeps w w'" by (simp add: keeps_def s)
qed

subsection \<open>The timer\<close>

lemma timestamp_le: "a \<le> b \<longleftrightarrow> micros a \<le> micros b"
  by (auto simp: less_eq_timestamp_def Timestamp_less_def Timestamp_eq_def sint_eq_iff)

text \<open>A timer that is due was set in an earlier round, so nothing waits to reset the channel.\<close>

lemma due_not_recent:
  assumes tm: "timely os" and e: "e \<in> set (tq_entries (cs_loop D) w)" "micros (fst e) \<le> clock os (hist w)"
  shows "\<not> recent os D w"
proof
  assume "recent os D w"
  then obtain h x where h: "hist w = h @ x" "\<not> list_ex is_wait x" "clock os h + 5000000 \<le> micros (fst e)"
    using e(1) unfolding recent_def by blast
  from tm h(2) have "clock os (h @ x) < clock os h + 5000000" unfolding timely_def by blast
  with h e(2) show False by simp
qed

lemma expiring_simps:
  fixes w :: "'w client_world_scheme"
  shows "chans (expiring os L now w) = chans w" "conns (expiring os L now w) = conns w" "loops (expiring os L now w) = loops w"
    "pollers (expiring os L now w) = pollers w" "clients (expiring os L now w) = clients w"
    "connectors (expiring os L now w) = connectors w" "current_tid (expiring os L now w) = current_tid w"
    "interest (hist (expiring os L now w)) = interest (hist w)"
    "\<exists>e. hist (expiring os L now w) = hist w @ e \<and> \<not> list_ex is_wait e"
  by (simp_all add: expiring_def readTimerfd_def sys_read_def sys_gettimeofday_def upd_tq_def Let_def fun_eq_iff)

lemma upd_tq_flag:
  fixes w :: "'w client_world_scheme"
  assumes sys: "client_sys os D k hold todo w c cl" and g: "\<And>q. tq_timers (g q) = tq_timers q"
  shows "client_sys os D k hold todo (upd_tq (cs_loop D) g w) c cl" "keeps w (upd_tq (cs_loop D) g w)"
proof -
  let ?w = "upd_tq (cs_loop D) g w"
  have tq: "tq_entries (cs_loop D) ?w = tq_entries (cs_loop D) w" using g by (simp add: tq_entries_def)
  have more: "conns ?w = conns w" "clients ?w = clients w" "connectors ?w = connectors w" by (simp_all add: upd_tq_def)
  show "client_sys os D k hold todo ?w c cl"
  proof (rule apart_sys [OF sys, of Map.empty])
    show "apart_step D Map.empty w ?w" using tq more by (simp add: apart_step_def Let_def)
    show "recent os D ?w" if "recent os D w" using that tq by (simp add: recent_def)
  qed (use client_sysD(6,7) [OF sys] in \<open>simp_all add: waits_def list_all_iff\<close>)
  show "keeps w ?w" using more by (simp add: keeps_def)
qed

text \<open>The timers that are not due stay, and so does the rest.\<close>

lemma expiring_none:
  fixes w :: "'w client_world_scheme"
  assumes sys: "client_sys os D k hold todo w c cl" and none: "filter (\<lambda>e. fst e \<le> now) (tq_entries (cs_loop D) w) = []"
  shows "client_sys os D k hold todo (expiring os' (cs_loop D) now w) c cl" "keeps w (expiring os' (cs_loop D) now w)"
proof -
  let ?w = "expiring os' (cs_loop D) now w"
  note s = expiring_simps [of os' "cs_loop D" now w]
  have "filter (\<lambda>e. now < fst e) (tq_entries (cs_loop D) w) = tq_entries (cs_loop D) w"
    using none by (auto simp: filter_empty_conv intro!: filter_True)
  then have tq: "tq_entries (cs_loop D) ?w = tq_entries (cs_loop D) w" by (simp add: tq_entries_expiring)
  show "client_sys os D k hold todo ?w c cl"
  proof (rule apart_sys [OF sys, of Map.empty])
    show "apart_step D Map.empty w ?w" using tq by (simp add: apart_step_def Let_def s tq_entries_expiring)
    show "recent os D ?w" if "recent os D w"
    proof -
      from s(9) obtain e where "hist ?w = hist w @ e" "\<not> list_ex is_wait e" by blast
      from recent_hist [OF that this tq] show ?thesis .
    qed
  qed (use client_sysD(6,7) [OF sys] in \<open>simp_all add: waits_def s list_all_iff\<close>)
  show "keeps w ?w" by (simp add: keeps_def s)
qed

text \<open>The retry timer is taken out: it runs, and the client is about to connect.\<close>

lemma expiring_retry:
  fixes w :: "'w client_world_scheme"
  assumes sys: "client_sys os D k hold [] w c cl" and e: "tq_entries (cs_loop D) w = [e]" "fst e \<le> now"
    and st: "ct_state c = Ct_kDisconnected" and rw: "\<not> reset_waits D [] w"
  defines "todo \<equiv> [Bind_TimerQueue_addTimerInLoop (cs_loop D) (snd e)]"
  shows "client_sys os D k hold todo (expiring os' (cs_loop D) now w) c cl" "to_dial D todo (expiring os' (cs_loop D) now w) c"
proof -
  let ?w = "expiring os' (cs_loop D) now w" and ?L = "cs_loop D"
  note s = expiring_simps [of os' ?L now w] and link = link_wfD [OF client_sysD(2) [OF sys]]
    and desk = desk_wfD [OF client_sysD(1) [OF sys]]
  have st': "ct_state c \<noteq> Ct_kConnected" using st by simp
  have tq: "tq_entries ?L ?w = []" using e by (simp add: tq_entries_expiring)
  have rw': "\<not> reset_waits D todo ?w" using rw by (simp add: reset_waits_def waits_def s todo_def)
  have none: "ct_channel c = None" by (rule ccontr) (use link(7) rw st in simp)
  have "poller_inv ?L ?w" using link(14) poller_inv_cong [of ?w w ?L] s by simp
  then have "connector_rel ?w (cs_connector D) c" using link(2,13) none st s(6) by (simp add: connector_rel_def)
  moreover have "running D todo ?w = insert (snd e) (running D [] w)" by (auto simp: running_def waits_def s todo_def)
  then have "timers_known D todo ?w"
    using link(8) [OF st'] running_none [OF sys] unfolding timers_known_def by (simp add: e(1) tq tq_entries_expiring(2))
  ultimately have "link_wf os D todo ?w c"
    using link(2-4) st rw' tq none by (simp add: link_wf_def timers_wf_def retry_timer_def)
  then show "client_sys os D k hold todo ?w c cl"
    using desk(4) none by (intro client_sysI_idle [OF sys st' _ st']) (simp_all add: s todo_def)
  show "to_dial D todo ?w c" using st tq rw' by (simp add: to_dial_def)
qed

text \<open>
  The read of the timer descriptor: either nothing is due, or the connector, which has no channel, dials.
\<close>

lemma client_timer_read:
  fixes w :: "'w client_world_scheme"
  assumes sys: "client_sys os D k hold [] w c cl" and os: "dial_ok os al D" and tm: "timely os"
  shows "\<exists>w' c'. timer_read os al ap (cs_loop D) w = Inr w' \<and> client_sys os D k hold [] w' c' cl \<and> stays w w' \<and>
    (keeps w w' \<and> c' = c \<or> ct_state c = Ct_kDisconnected \<and> ct_channel c = None \<and> ct_state c' \<noteq> Ct_kConnected)"
proof -
  let ?L = "cs_loop D" and ?run = "\<lambda>cb. invoke_with (\<lambda>_ _. Inl Undefined_Behaviour) os al ap cb Timestamp_zero"
  note link = link_wfD [OF client_sysD(2) [OF sys]] and o = kernel_okD [OF dial_okD(1) [OF os]]
  from clock_now [OF o(4), of w] obtain now where
    now: "Timestamp_now os w = Inr (now, snd (sys_gettimeofday os w))" "micros now = clock os (hist w)" by blast
  let ?es = "filter (\<lambda>e. fst e \<le> now) (tq_entries ?L w)" and ?w4 = "expiring os ?L now w"
    and ?flag = "upd_tq ?L (\<lambda>q. q\<lparr>tq_callingExpiredTimers := False\<rparr>) :: 'w client_world_scheme \<Rightarrow> _"
  have eq: "timer_read os al ap ?L w = bindE (foldE (\<lambda>it. Timer_run ?run (snd it)) ?es ?w4)
      (\<lambda>w5. TimerQueue_reset os ?L ?es now (?flag w5))"
    unfolding timer_read_def by (rule handleRead_unfold [OF o(4) link(5) now(1)])
  have flag: "client_sys os D k hold todo' (?flag v) c' cl" "keeps v (?flag v)" if "client_sys os D k hold todo' v c' cl" for todo' v c'
    using upd_tq_flag [OF that, of "\<lambda>q. q\<lparr>tq_callingExpiredTimers := False\<rparr>"] by simp_all
  show ?thesis
  proof (cases "?es = []")
    case True
    note e = expiring_none [OF sys True, of os]
    note f = flag [OF e(1)]
    have "timers_wf ?L (?flag ?w4)" using link_wfD(5) [OF client_sysD(2) [OF f(1)]] .
    from reset_cut [OF o(4) this, of "[]" now] obtain w' where
      w': "TimerQueue_reset os ?L [] now (?flag ?w4) = Inr w'" "timers_cut [] (?flag ?w4) w'" by blast
    note g = timers_cut_none [OF f(1) w'(2)]
    have "keeps w w'" using keeps_trans [OF keeps_trans [OF e(2) f(2)] g(2)] .
    moreover have "timer_read os al ap ?L w = Inr w'" using w'(1) unfolding eq True by simp
    ultimately show ?thesis using g(1) keeps_stays by (intro exI [of _ w'] exI [of _ c]) simp
  next
    case False
    have st: "ct_state c = Ct_kDisconnected" using link(10) False by (cases "ct_state c = Ct_kDisconnected") simp_all
    have "tq_entries ?L w \<noteq> []" using False by auto
    with link(11) [OF st] obtain t p tm' where
      p: "tq_entries ?L w = [(t, p)]" "timers w p = Some tm'" "tm_callback tm' = Bind_Connector_startInLoop (cs_connector D)"
      unfolding retry_timer_def by blast
    have t: "t \<le> now" and es: "?es = [(t, p)]" using False by (auto simp: p(1) split: if_splits)
    have "\<not> recent os D w"
      by (rule due_not_recent [OF tm, of "(t, p)"]) (use t p(1) now(2) in \<open>simp_all add: timestamp_le\<close>)
    then have rw: "\<not> reset_waits D [] w" using link(12) [OF st] by blast
    have none: "ct_channel c = None" by (rule ccontr) (use link(7) rw st in simp)
    let ?todo = "[Bind_TimerQueue_addTimerInLoop ?L p]"
    have "client_sys os D k hold ?todo ?w4 c cl" "to_dial D ?todo ?w4 c"
      using expiring_retry [OF sys p(1) _ st rw, of now os] t by simp_all
    from startInLoop_safe [OF this os] obtain w5 c5 where
      w5: "Connector_startInLoop os al (cs_connector D) ?w4 = Inr w5" "client_sys os D k hold ?todo w5 c5 cl"
        "ct_state c5 \<noteq> Ct_kConnected" "stays ?w4 w5" "\<And>q. timers ?w4 q \<noteq> None \<Longrightarrow> timers w5 q = timers ?w4 q"
        "\<And>x. x \<in> set (tq_entries ?L w5) \<Longrightarrow> timers ?w4 (snd x) = None"
      unfolding dialled_def by blast
    have p4: "timers ?w4 p = Some tm'" using p(2) by (simp add: tq_entries_expiring)
    have fold: "foldE (\<lambda>it. Timer_run ?run (snd it)) [(t, p)] ?w4 = Inr w5"
      using w5(1) p4 p(3) by (simp add: Timer_run_def invoke_with_def Let_def)
    note f = flag [OF w5(2)]
    have wf6: "timers_wf ?L (?flag w5)" using link_wfD(5) [OF client_sysD(2) [OF f(1)]] .
    have "timers (?flag w5) p \<noteq> None" using w5(5) [of p] p4 by simp
    moreover have new: "p \<notin> snd ` set (tq_entries ?L (?flag w5))"
    proof
      assume "p \<in> snd ` set (tq_entries ?L (?flag w5))"
      then obtain x where x: "x \<in> set (tq_entries ?L w5)" "snd x = p" by (auto simp: tq_entries_def)
      from w5(6) [OF x(1)] x(2) p4 show False by simp
    qed
    ultimately have "[(t, p)] = [] \<or> (\<exists>t' p'. [(t, p)] = [(t', p')] \<and> timers (?flag w5) p' \<noteq> None \<and>
        p' \<notin> snd ` set (tq_entries ?L (?flag w5)))" by blast
    from reset_cut [OF o(4) wf6 this, of now] obtain w' where
      w': "TimerQueue_reset os ?L [(t, p)] now (?flag w5) = Inr w'" "timers_cut [(t, p)] (?flag w5) w'" by blast
    note g = timers_cut_run [OF f(1) w'(2) w5(3) new]
    have "stays w ?w4" by (simp add: stays_def expiring_simps)
    then have "stays w w'"
      using stays_trans [OF stays_trans [OF _ w5(4)] keeps_stays [OF keeps_trans [OF f(2) g(2)]]] by blast
    moreover have "timer_read os al ap ?L w = Inr w'" using fold w'(1) unfolding eq es by simp
    ultimately show ?thesis using g(1) st none w5(3) by (intro exI [of _ w'] exI [of _ c5]) simp
  qed
qed

end
