(* ===== verification/ClientTurn.thy ===== *)
theory ClientTurn
  imports ClientTimer
begin

section \<open>ClientTurn: a whole round of a client's loop\<close>

text \<open>
  The poll, the events, the functors and the destruction of what they held: each part succeeds and keeps
  the invariant, so a round does, and so do many.
\<close>

subsection \<open>The active channels\<close>

text \<open>
  What an active channel can be: one of the loop itself, the channel of a connector that is not yet
  connected, or the channel of the connection.
\<close>

definition active_ok :: "client_site \<Rightarrow> connector \<Rightarrow> 'w client_world_scheme \<Rightarrow> chan_ptr \<Rightarrow> bool" where
  "active_ok D c w p \<longleftrightarrow> (\<exists>ch. chans w p = Some ch \<and> ch_loop ch = cs_loop D \<and>
     (loop_chan D ch \<or> ct_channel c = Some p \<and> ct_state c \<noteq> Ct_kConnected \<or> (\<exists>d. conn_event (cs_loop D) p d w)))"

lemma loop_chan_same: "loop_chan D ch \<Longrightarrow> same_chan ch ch' \<Longrightarrow> loop_chan D ch'"
  by (auto simp: loop_chan_def same_chan_def same_dispatch_def)

lemma active_ok_keeps:
  assumes q: "active_ok D c w q" and k: "keeps w w'"
  shows "active_ok D c w' q"
proof -
  from q obtain ch where ch: "chans w q = Some ch" "ch_loop ch = cs_loop D"
    "loop_chan D ch \<or> ct_channel c = Some q \<and> ct_state c \<noteq> Ct_kConnected \<or> (\<exists>d. conn_event (cs_loop D) q d w)"
    unfolding active_ok_def by blast
  from keeps_stays [OF k] ch(1) obtain ch' where ch': "chans w' q = Some ch'" "same_chan ch ch'" unfolding stays_def by blast
  have "ch_loop ch' = cs_loop D" using ch(2) ch'(2) by (simp add: same_chan_def)
  moreover have "loop_chan D ch' \<or> ct_channel c = Some q \<and> ct_state c \<noteq> Ct_kConnected \<or> (\<exists>d. conn_event (cs_loop D) q d w')"
    using ch(3) loop_chan_same [OF _ ch'(2)] conn_event_keeps [OF _ k] by blast
  ultimately show ?thesis using ch'(1) unfolding active_ok_def by blast
qed

lemma active_ok_stays:
  assumes q: "active_ok D c w q" and s: "stays w w'" and none: "conns w = Map.empty" "ct_channel c \<noteq> Some q"
  shows "active_ok D c' w' q"
proof -
  from q none obtain ch where ch: "chans w q = Some ch" "ch_loop ch = cs_loop D" "loop_chan D ch"
    unfolding active_ok_def conn_event_def by auto
  from s ch(1) obtain ch' where ch': "chans w' q = Some ch'" "same_chan ch ch'" unfolding stays_def by blast
  then show ?thesis
    using ch(2) loop_chan_same [OF ch(3) ch'(2)] unfolding active_ok_def by (auto simp: same_chan_def)
qed

subsection \<open>The events\<close>

text \<open>What an event does to the other active channels: they stay active.\<close>

definition event_done ::
  "os \<Rightarrow> client_site \<Rightarrow> nat \<Rightarrow> closure list \<Rightarrow> closure list \<Rightarrow> connector \<Rightarrow> chan_ptr \<Rightarrow> 'w client_world_scheme
     \<Rightarrow> 'w client_world_scheme result \<Rightarrow> bool" where
  "event_done os D k hold todo c p w r \<longleftrightarrow> (\<exists>w' c' cl'. r = Inr w' \<and> client_sys os D k hold todo w' c' cl' \<and>
     (\<forall>q. q \<noteq> p \<longrightarrow> active_ok D c w q \<longrightarrow> active_ok D c' w' q))"

lemma client_safe_event: "client_safe os D k hold todo c w r \<Longrightarrow> event_done os D k hold todo c p w r"
  unfolding client_safe_def event_done_def using active_ok_keeps by blast

lemma linked_event:
  assumes r: "linked os D k hold todo w r" and none: "conns w = Map.empty" and c: "\<And>q. q \<noteq> p \<Longrightarrow> ct_channel c \<noteq> Some q"
  shows "event_done os D k hold todo c p w r"
proof -
  from r obtain w' c' cl' where w': "r = Inr w'" "client_sys os D k hold todo w' c' cl'" "stays w w'"
    unfolding linked_def by blast
  have "active_ok D c' w' q" if "q \<noteq> p" "active_ok D c w q" for q
    by (rule active_ok_stays [OF that(2) w'(3) none c [OF that(1)]])
  with w'(1,2) show ?thesis unfolding event_done_def by blast
qed

lemma loop_event:
  fixes w :: "'w client_world_scheme"
  assumes sys: "client_sys os D k hold [] w c cl" and p: "chans w p = Some ch" "loop_chan D ch"
    and os: "dial_ok os al D" and tm: "timely os"
  shows "event_done os D k hold [] c p w (Channel_handleEvent (invoke os al ap) conn_alive p t w)"
proof -
  let ?run = "\<lambda>cb. invoke os al ap cb t"
  note lc = p(2) [unfolded loop_chan_def]
  have none: "\<not> ch_tied ch" "ch_closeCallback ch = None" "ch_errorCallback ch = None" "ch_writeCallback ch = None" using lc by simp_all
  have "\<exists>w' c'. dispatch_if ?run wants_read ch_readCallback p w = Inr w' \<and> client_sys os D k hold [] w' c' cl \<and> stays w w' \<and>
      (keeps w w' \<and> c' = c \<or> ct_state c = Ct_kDisconnected \<and> ct_channel c = None \<and> ct_state c' \<noteq> Ct_kConnected)"
  proof (cases "wants_read (ch_revents ch)")
    case False
    then show ?thesis using sys p(1) by (intro exI [of _ w] exI [of _ c]) (simp add: dispatch_if_def)
  next
    case True
    from lc consider "ch_readCallback ch = Some (Bind_EventLoop_handleRead (cs_loop D))"
      | "ch_readCallback ch = Some (Bind_TimerQueue_handleRead (cs_loop D))" by blast
    then show ?thesis
    proof cases
      case 1
      let ?w = "EventLoop_handleRead os (cs_loop D) w"
      have "only_hist w ?w" by (simp add: only_hist_def EventLoop_handleRead_def sys_read_def Let_def fun_eq_iff)
      note h = only_hist_sys [OF sys this]
      have "dispatch_if ?run wants_read ch_readCallback p w = Inr ?w"
        using True p(1) 1 by (simp add: dispatch_if_def invoke_def invoke_with_def Let_def)
      then show ?thesis using h keeps_stays [OF h(2)] by (intro exI [of _ ?w] exI [of _ c]) simp
    next
      case 2
      have "dispatch_if ?run wants_read ch_readCallback p w = timer_read os al ap (cs_loop D) w"
        using True p(1) 2 by (simp add: dispatch_if_def invoke_def invoke_with_def Let_def)
      then show ?thesis using client_timer_read [OF sys os tm, of ap] by simp
    qed
  qed
  then obtain w' c' where w': "dispatch_if ?run wants_read ch_readCallback p w = Inr w'" "client_sys os D k hold [] w' c' cl"
    "stays w w'" "keeps w w' \<and> c' = c \<or> ct_state c = Ct_kDisconnected \<and> ct_channel c = None \<and> ct_state c' \<noteq> Ct_kConnected" by blast
  from w'(3) p(1) obtain ch' where ch': "chans w' p = Some ch'" "same_chan ch ch'" unfolding stays_def by blast
  have "ch_writeCallback ch' = None" using ch'(2) none(4) by (simp add: same_chan_def same_dispatch_def)
  then have eq: "Channel_handleEvent (invoke os al ap) conn_alive p t w = Inr w'"
    using p(1) none dispatch_if_none [OF p(1), of ch_closeCallback ?run wants_close]
      dispatch_if_none [OF p(1), of ch_errorCallback ?run wants_error]
      dispatch_if_none [OF ch'(1), of ch_writeCallback ?run wants_write] w'(1)
    by (simp add: Channel_handleEvent_def Channel_handleEventWithGuard_def Let_def)
  from w'(4) show ?thesis
  proof
    assume k: "keeps w w' \<and> c' = c"
    then have "client_safe os D k hold [] c w (Inr w')" using w'(2) by (auto intro: client_safeI [OF refl])
    then show ?thesis unfolding eq by (rule client_safe_event)
  next
    assume st: "ct_state c = Ct_kDisconnected \<and> ct_channel c = None \<and> ct_state c' \<noteq> Ct_kConnected"
    have "linked os D k hold [] w (Inr w')" using w'(2,3) by (intro linkedI [OF refl])
    then show ?thesis
      unfolding eq using st client_wfD(7) [OF client_sysD(3) [OF sys]] by (intro linked_event) simp_all
  qed
qed

lemma client_event:
  fixes w :: "'w client_world_scheme"
  assumes sys: "client_sys os D (Suc (Suc (Suc k))) hold [] w c cl" and p: "active_ok D c w p"
    and os: "dial_ok os al D" and tm: "timely os" and ap: "client_app_safe os D ap" and room: "1032 + Suc k * extrabuf_size \<le> max_size"
  shows "event_done os D k hold [] c p w (Channel_handleEvent (invoke os al ap) conn_alive p t w)"
proof -
  have sys0: "client_sys os D k hold [] w c cl" and sys1: "client_sys os D (Suc k) hold [] w c cl"
    using client_sys_mono [OF sys] by simp_all
  from p obtain ch where ch: "chans w p = Some ch" unfolding active_ok_def by blast
  from p ch consider "loop_chan D ch" | "ct_channel c = Some p" "ct_state c \<noteq> Ct_kConnected"
    | d where "conn_event (cs_loop D) p d w" unfolding active_ok_def by auto
  then show ?thesis
  proof cases
    case 1
    from loop_event [OF sys0 ch 1 os tm] show ?thesis .
  next
    case 2
    show ?thesis
      by (rule linked_event [OF link_event_safe [OF sys1 2(2) os ap room 2(1)]])
        (use 2 client_wfD(7) [OF client_sysD(3) [OF sys]] in simp_all)
  next
    case 3
    then obtain dn where d: "conns w d = Some dn" "cn_channel dn = p" "ch_index ch \<noteq> kNew"
      using ch unfolding conn_event_def active_in_def by auto
    have pw: "peer_wf D k w d dn ch" using client_conn_at(1) [OF sys0 d(1)] d(2) ch by simp
    have "Channel_handleEvent (invoke os al ap) conn_alive p t w = Channel_handleEventWithGuard (invoke os al ap) p t w"
      using ch peer_wfD(4,5) [OF pw] d(1) by (simp add: Channel_handleEvent_def conn_alive_def)
    with client_conn_event [OF sys 3 dial_okD(1) [OF os] ap, of al t] show ?thesis
      using client_safe_event by simp
  qed
qed

lemma client_events:
  fixes w :: "'w client_world_scheme"
  assumes os: "dial_ok os al D" "timely os" and ap: "client_app_safe os D ap"
  shows "client_sys os D (k + 3 * length ps) hold [] w c cl \<Longrightarrow> distinct ps \<Longrightarrow> \<forall>p \<in> set ps. active_ok D c w p \<Longrightarrow>
    1032 + (k + 3 * length ps) * extrabuf_size \<le> max_size \<Longrightarrow>
    \<exists>w' c' cl'. foldE (\<lambda>p w. Channel_handleEvent (invoke os al ap) conn_alive p (t w) w) ps w = Inr w' \<and>
      client_sys os D k hold [] w' c' cl'"
proof (induction ps arbitrary: w c cl)
  case Nil
  then show ?case by auto
next
  case (Cons p ps)
  let ?m = "k + 3 * length ps"
  have n: "k + 3 * length (p # ps) = Suc (Suc (Suc ?m))" by simp
  have "client_sys os D (Suc (Suc (Suc ?m))) hold [] w c cl" "active_ok D c w p"
    using Cons.prems(1,3) unfolding n by simp_all
  moreover have "Suc ?m * extrabuf_size \<le> (k + 3 * length (p # ps)) * extrabuf_size" by (intro mult_le_mono1) simp
  then have room: "1032 + Suc ?m * extrabuf_size \<le> max_size" using Cons.prems(4) by linarith
  ultimately have "event_done os D ?m hold [] c p w (Channel_handleEvent (invoke os al ap) conn_alive p (t w) w)"
    by (rule client_event [OF _ _ os ap])
  then obtain w1 c1 cl1 where
    w1: "Channel_handleEvent (invoke os al ap) conn_alive p (t w) w = Inr w1" "client_sys os D ?m hold [] w1 c1 cl1"
      "\<forall>q. q \<noteq> p \<longrightarrow> active_ok D c w q \<longrightarrow> active_ok D c1 w1 q" unfolding event_done_def by blast
  have "\<forall>q \<in> set ps. active_ok D c1 w1 q" using w1(3) Cons.prems(2,3) by auto
  moreover have "1032 + ?m * extrabuf_size \<le> max_size" using room by simp
  ultimately show ?case using Cons.IH [OF w1(2)] Cons.prems(2) w1(1) by simp
qed

subsection \<open>The poll\<close>

text \<open>Between two rounds nothing waits unless there is a connection.\<close>

definition settled :: "client_site \<Rightarrow> 'w client_world_scheme \<Rightarrow> connector \<Rightarrow> bool" where
  "settled D w c \<longleftrightarrow> (ct_state c \<noteq> Ct_kConnected \<longrightarrow> lp_pendingFunctors (loops w (cs_loop D)) = [])"

text \<open>The loop's two descriptors, the connector's and the connection's: no more events can be reported.\<close>

lemma few_active:
  fixes w :: "'w client_world_scheme"
  assumes sys: "client_sys os D k hold todo w c cl" and d: "distinct active"
    and reg: "\<forall>p \<in> set active. \<exists>ch. chans w p = Some ch \<and> ch_loop ch = cs_loop D \<and> ch_index ch = kAdded \<and>
      po_channels (pollers w (cs_loop D)) (ch_fd ch) = Some p"
  shows "length active \<le> 4"
proof -
  let ?fd = "\<lambda>p. ch_fd (the (chans w p))" and ?A = "{p \<in> set active. ch_fd (the (chans w p)) \<in> cs_fds D}"
  have small: "finite (cs_fds D)" "card (cs_fds D) \<le> 2" using desk_wfD(7) [OF client_sysD(1) [OF sys]] by (simp_all add: desk_small_def)
  have inj: "inj_on ?fd ?A"
  proof (rule inj_onI)
    fix p q assume pq: "p \<in> ?A" "q \<in> ?A" "?fd p = ?fd q"
    have at: "po_channels (pollers w (cs_loop D)) (?fd r) = Some r" if "r \<in> ?A" for r
    proof -
      from that reg obtain ch where "chans w r = Some ch" "po_channels (pollers w (cs_loop D)) (ch_fd ch) = Some r" by blast
      then show ?thesis by simp
    qed
    have "Some p = po_channels (pollers w (cs_loop D)) (?fd p)" using at [OF pq(1)] by (rule sym)
    also have "\<dots> = po_channels (pollers w (cs_loop D)) (?fd q)" by (rule arg_cong [OF pq(3)])
    also have "\<dots> = Some q" by (rule at [OF pq(2)])
    finally show "p = q" by (rule option.inject [THEN iffD1])
  qed
  have A: "card ?A \<le> 2" by (rule order_trans [OF card_inj_on_le [OF inj _ small(1)] small(2)]) auto
  obtain q where q: "\<And>e en. conns w e = Some en \<Longrightarrow> cn_channel en = q"
  proof (cases "\<exists>d dn. conns w d = Some dn")
    case True
    then obtain d dn where dn: "conns w d = Some dn" by blast
    have "cn_channel en = cn_channel dn" if e: "conns w e = Some en" for e en
    proof -
      have "d = e" using client_sysD(5) [OF sys dn e] .
      then show ?thesis using dn e by simp
    qed
    then show ?thesis by (rule that)
  next
    case False
    then show ?thesis by (intro that) blast
  qed
  let ?B = "set_option (ct_channel c) \<union> {q}"
  have B: "finite ?B" "card ?B \<le> 2" by (cases "ct_channel c"; simp add: card_insert_if)+
  have sub: "set active \<subseteq> ?A \<union> ?B"
  proof
    fix p assume p: "p \<in> set active"
    with reg obtain ch where ch: "chans w p = Some ch" "ch_loop ch = cs_loop D" by blast
    from desk_wfD(6) [OF client_sysD(1) [OF sys] ch] consider "loop_chan D ch" | "ct_channel c = Some p"
      | e en where "conns w e = Some en" "cn_channel en = p" by blast
    then show "p \<in> ?A \<union> ?B"
    proof cases
      case 1
      then show ?thesis using p ch(1) by (simp add: loop_chan_def)
    next
      case 3
      then show ?thesis using q [OF 3(1)] by simp
    qed simp
  qed
  have "card (set active) \<le> card (?A \<union> ?B)" by (rule card_mono [OF _ sub]) (use B(1) in simp)
  also have "\<dots> \<le> card ?A + card ?B" by (rule card_Un_le)
  finally show ?thesis using A B(2) distinct_card [OF d] by linarith
qed

lemma client_poll:
  fixes w :: "'w client_world_scheme"
  assumes sys: "client_sys os D k [] [] w c cl" and set: "settled D w c" and os: "kernel_ok os"
  shows "\<exists>now active w'. EPollPoller_poll os (cs_loop D) [] w = Inr (now, active, w') \<and> client_sys os D k [] [] w' c cl \<and>
    distinct active \<and> length active \<le> 4 \<and> (\<forall>p \<in> set active. active_ok D c w' p)"
proof -
  let ?L = "cs_loop D"
  note link = link_wfD [OF client_sysD(2) [OF sys]]
  from poll_no_fault [OF kernel_okD(1,4) [OF os] link(14)] obtain now active w' evs where
    p: "EPollPoller_poll os ?L [] w = Inr (now, active, w')" "active = map fst evs" "distinct active"
      "length evs \<le> po_capacity (pollers w ?L)"
      "\<forall>p \<in> set active. \<exists>ch. chans w p = Some ch \<and> ch_loop ch = ?L \<and> ch_index ch = kAdded \<and>
        po_channels (pollers w ?L) (ch_fd ch) = Some p"
      "\<forall>c. chans w' c = map_option (\<lambda>ch. case map_of (rev evs) c of
         Some ev \<Rightarrow> Channel_set_revents ev ch | None \<Rightarrow> ch) (chans w c)"
      "poller_world.more w' = poller_world.more w" "po_channels (pollers w' ?L) = po_channels (pollers w ?L)"
      "po_epollfd (pollers w' ?L) = po_epollfd (pollers w ?L)" "interest (hist w') = interest (hist w)"
      "po_capacity (pollers w' ?L) = (if evs \<noteq> [] \<and> length evs = po_capacity (pollers w ?L)
        then 2 * po_capacity (pollers w ?L) else po_capacity (pollers w ?L))" by blast
  have few: "length active \<le> 4" using few_active [OF sys p(3,5)] .
  then have cap: "po_capacity (pollers w' ?L) = po_capacity (pollers w ?L)"
    using p(2,11) desk_wfD(7) [OF client_sysD(1) [OF sys]] by (simp add: desk_small_def kInitEventListSize_def)
  note m = client_moreD [OF p(7)]
  have chans: "chans w' c = map_option (set_revents_by (map_of (rev evs)) c) (chans w c)" for c
    using p(6) by (simp add: set_revents_by_def [abs_def])
  have tq: "tq_entries ?L w' = tq_entries ?L w" by (simp add: tq_entries_def m)
  have "client_sys os D k [] [] w' c cl"
  proof (rule apart_sys [OF sys])
    show "apart_step D (map_of (rev evs)) w w'"
      using p(8-10) cap chans tq by (simp add: apart_step_def Let_def m)
    show "recent os D w'" if "ct_state c = Ct_kDisconnected" "reset_waits D [] w"
      using that set by (simp add: settled_def reset_waits_def waits_def)
  qed (use client_sysD(6) [OF sys] in \<open>simp_all add: waits_def m list_all_iff\<close>)
  moreover have "active_ok D c w' q" if q: "q \<in> set active" for q
  proof -
    from p(5) q obtain ch where ch: "chans w q = Some ch" "ch_loop ch = ?L" "ch_index ch = kAdded" by blast
    let ?ch = "set_revents_by (map_of (rev evs)) q ch"
    have ch': "chans w' q = Some ?ch" "ch_loop ?ch = ?L" "ch_index ?ch \<noteq> kNew"
      using ch by (simp_all add: chans kIndex_defs)
    from desk_wfD(6) [OF client_sysD(1) [OF sys] ch(1,2)] consider "loop_chan D ch" | "ct_channel c = Some q"
      | d dn where "conns w d = Some dn" "cn_channel dn = q" by blast
    then show ?thesis
    proof cases
      case 1
      then show ?thesis using ch' unfolding active_ok_def by simp
    next
      case 2
      have "ct_state c \<noteq> Ct_kConnected"
      proof
        assume "ct_state c = Ct_kConnected"
        with link(1) 2 ch(1) have "ch_index ch = kNew" by (auto simp: connector_rel_def)
        with ch(3) show False by (simp add: kIndex_defs)
      qed
      then show ?thesis using 2 ch' unfolding active_ok_def by blast
    next
      case 3
      then have "conn_event ?L q d w'" using ch' m(5) by (simp add: conn_event_def active_in_def)
      then show ?thesis using ch' unfolding active_ok_def by blast
    qed
  qed
  ultimately show ?thesis using p(1,3) few by blast
qed

lemma client_turn_events:
  fixes w :: "'w client_world_scheme"
  assumes sys: "client_sys os D (k + 12) [] [] w c cl" and set: "settled D w c"
    and os: "dial_ok os al D" "timely os" and ap: "client_app_safe os D ap"
    and room: "1032 + (k + 12) * extrabuf_size \<le> max_size"
  shows "\<exists>w' c' cl'. EventLoop_events os (invoke os al ap) conn_alive (cs_loop D) w = Inr w' \<and> client_sys os D k [] [] w' c' cl'"
proof -
  let ?L = "cs_loop D"
  let ?w1 = "upd_loop ?L (\<lambda>l. l\<lparr>lp_activeChannels := []\<rparr>) w"
  have sys1: "client_sys os D (k + 12) [] [] ?w1 c cl" by (rule flag_sys [OF sys]) simp_all
  have set1: "settled D ?w1 c" using set by (simp add: settled_def)
  from client_poll [OF sys1 set1 dial_okD(1) [OF os(1)]] obtain now active w2 where
    p: "EPollPoller_poll os ?L [] ?w1 = Inr (now, active, w2)" "client_sys os D (k + 12) [] [] w2 c cl" "distinct active"
      "length active \<le> 4" "\<forall>p \<in> set active. active_ok D c w2 p" by auto
  let ?w3 = "upd_loop ?L (\<lambda>l. l\<lparr>lp_pollReturnTime := now, lp_activeChannels := active\<rparr>) w2"
  have "client_sys os D (k + 12) [] [] ?w3 c cl" by (rule flag_sys [OF p(2)]) simp_all
  then have sys3: "client_sys os D (k + 3 * length active) [] [] ?w3 c cl" by (rule client_sys_mono) (use p(4) in simp)
  have act: "\<forall>p \<in> set active. active_ok D c ?w3 p"
  proof
    fix q assume q: "q \<in> set active"
    have "keeps w2 ?w3" by (simp add: keeps_def upd_loop_def)
    then show "active_ok D c ?w3 q" using active_ok_keeps p(5) q by blast
  qed
  have "(k + 3 * length active) * extrabuf_size \<le> (k + 12) * extrabuf_size"
    using p(4) by (intro mult_le_mono1) simp
  then have "1032 + (k + 3 * length active) * extrabuf_size \<le> max_size" using room by linarith
  from client_events [OF os ap sys3 p(3) act this, of "\<lambda>w. lp_pollReturnTime (loops w ?L)"] obtain w' c' cl' where
    "foldE (\<lambda>p w. Channel_handleEvent (invoke os al ap) conn_alive p (lp_pollReturnTime (loops w ?L)) w) active ?w3 = Inr w'"
    "client_sys os D k [] [] w' c' cl'" by blast
  then show ?thesis using p(1) by (auto simp: EventLoop_events_def)
qed

end
