(* ===== verification/ClientRounds.thy ===== *)
theory ClientRounds
  imports ClientTurn
begin

section \<open>ClientRounds: the functors, the destruction of what they held, and many rounds\<close>

text \<open>
  A functor runs at most one close, because a forced close of a connection that is closed does nothing;
  so the functors of a round need room for one more event, however many they are.
\<close>

subsection \<open>The channel of the connector is destroyed\<close>

lemma client_reset_functor:
  fixes w :: "'w client_world_scheme"
  assumes sys: "client_sys os D k hold (Bind_Connector_resetChannel (cs_connector D) # todo) w c cl"
  shows "\<exists>w' c'. Connector_resetChannel (cs_connector D) w = Inr w' \<and> client_sys os D k hold todo w' c' cl \<and>
    ct_state c' = ct_state c \<and> conns w' = conns w \<and> loops w' = loops w"
proof -
  let ?L = "cs_loop D" and ?K = "cs_connector D" and ?cb = "Bind_Connector_resetChannel (cs_connector D)"
    and ?c = "c\<lparr>ct_channel := None\<rparr>"
  note link = link_wfD [OF client_sysD(2) [OF sys]] and desk = desk_wfD [OF client_sysD(1) [OF sys]]
    and cw = client_wfD [OF client_sysD(3) [OF sys]]
  have "reset_waits D (?cb # todo) w" by (simp add: reset_waits_def waits_def)
  then have st: "ct_state c \<noteq> Ct_kConnecting" using link(9) by blast
  let ?v = "upd_connector ?K (\<lambda>c. c\<lparr>ct_channel := None\<rparr>) w"
  let ?w = "drop_channel (ct_channel c) ?v"
  have eq: "Connector_resetChannel ?K w = Inr ?w" using link(13) by (simp add: Connector_resetChannel_def)
  have same: "conns ?w = conns w" "clients ?w = clients w" "timers ?w = timers w" "timerqueues ?w = timerqueues w"
    "loops ?w = loops w" "pollers ?w = pollers w" "hist ?w = hist w" "current_tid ?w = current_tid w"
    "connectors ?w ?K = Some ?c" "\<And>p. chans ?w p = (if ct_channel c = Some p then None else chans w p)"
    using link(13) by (simp_all add: drop_channel_def upd_connector_def split: option.split)
  have tq: "tq_entries ?L ?w = tq_entries ?L w" by (simp add: tq_entries_def same)
  have "poller_inv ?L ?v" using link(14) poller_inv_cong [of ?v w ?L] by (simp add: upd_connector_def)
  moreover have "\<forall>q. ct_channel c = Some q \<longrightarrow> (\<exists>ch. chans ?v q = Some ch \<and> ch_loop ch = ?L \<and> ch_index ch = kNew)"
    using link(1,2) st by (auto simp: connector_rel_def upd_connector_def)
  ultimately have inv: "poller_inv ?L ?w" by (rule poller_inv_drop)
  have w: "waits D qs ?w = waits D qs w" for qs by (simp add: waits_def same)
  have rw: "reset_waits D qs ?w = reset_waits D qs w" for qs by (simp add: reset_waits_def w)
  have "desk_wf D ?w ?c"
  proof -
    have "dom (chans ?w) \<subseteq> dom (chans w)" by (auto simp: same(10) split: if_splits)
    then have "finite (dom (chans ?w))" using desk(4) finite_subset by blast
    moreover have "loop_chan D ch \<or> (\<exists>d dn. conns w d = Some dn \<and> cn_channel dn = p)"
      if "chans ?w p = Some ch" "ch_loop ch = ?L" for p ch
      using desk(6) [of p ch] that by (auto simp: same(10) split: if_splits)
    moreover have "po_capacity (pollers ?w ?L) = po_capacity (pollers w ?L)" unfolding same(6) ..
    from desk_small_cong [OF this] desk(7) have "desk_small D ?w" by simp
    ultimately show ?thesis using desk(1-3,5) by (simp add: desk_wf_def isInLoopThread_def same(1,5,8))
  qed
  moreover have "link_wf os D (?cb # todo) ?w ?c"
  proof -
    have "connector_rel ?w ?K ?c" using same(9) inv link(2) st by (simp add: connector_rel_def)
    moreover have "timers_wf ?L ?w" using link(5) by (simp add: timers_wf_def entry_ok_def tq same)
    moreover have "timers_known D (?cb # todo) ?w = timers_known D (?cb # todo) w"
      by (rule timers_known_cong) (simp_all add: tq same(3) running_def w)
    moreover have "retry_timer D ?w = retry_timer D w" "recent os D ?w = recent os D w"
      unfolding retry_timer_def recent_def tq same(3,7) by (rule refl)+
    ultimately show ?thesis
      using client_sysD(2) [OF sys] unfolding link_wf_def rw tq same(3) by (simp split: States.splits)
  qed
  moreover have "client_wf D ?w ?c cl" using client_sysD(3) [OF sys] by (simp add: client_wf_def same)
  moreover have "\<exists>dh. peer_wf D k ?w d dn dh \<and> peer_held (set (waits D hold w)) (set (waits D (?cb # todo) w)) cl d dn dh"
    if d: "conns w d = Some dn" for d dn
  proof -
    from client_connE [OF sys d] obtain dh where
      dh: "peer_wf D k w d dn dh" "peer_held (set (waits D hold w)) (set (waits D (?cb # todo) w)) cl d dn dh" .
    have "conn_rel ?w d dn dh"
      using peer_wfD(1,2) [OF dh(1)] inv link_not_peer [OF sys d] by (simp add: conn_rel_def same)
    then have "peer_wf D k ?w d dn dh" using dh(1) by (simp add: peer_wf_def)
    with dh(2) show ?thesis by blast
  qed
  moreover have "waits_wf D ?w cb = waits_wf D w cb" for cb by (cases cb) (simp_all add: same)
  then have "list_all (waits_wf D ?w) (lp_pendingFunctors (loops w ?L))"
    "list_all (\<lambda>cb. waits_wf D ?w cb \<or> on_stack cb) (?cb # todo)"
    using client_sysD(6,7) [OF sys] by (simp_all add: list_all_iff)
  moreover have "\<forall>d e. conns w d \<noteq> None \<longrightarrow> conns w e \<noteq> None \<longrightarrow> d = e" using client_sysD(5) [OF sys] by auto
  ultimately have "client_sys os D k hold (?cb # todo) ?w ?c cl"
    unfolding client_sys_def w same(1,5) by blast
  then have "client_sys os D k hold todo ?w ?c cl" by (rule client_drop_todo) simp_all
  then show ?thesis using eq same(1,5) by (intro exI [of _ ?w] exI [of _ ?c]) simp
qed

subsection \<open>The functors\<close>

definition all_closed :: "'w conn_world_scheme \<Rightarrow> bool" where
  "all_closed w \<longleftrightarrow> (\<forall>d dn. conns w d = Some dn \<longrightarrow> cn_state dn = kDisconnected)"

text \<open>The invariant with room for one close, as long as there is something to close.\<close>

definition close_room ::
  "os \<Rightarrow> client_site \<Rightarrow> nat \<Rightarrow> closure list \<Rightarrow> closure list \<Rightarrow> 'w client_world_scheme \<Rightarrow> connector \<Rightarrow> client \<Rightarrow> bool" where
  "close_room os D k hold todo w c cl \<longleftrightarrow> client_sys os D (Suc k) hold todo w c cl \<or> client_sys os D k hold todo w c cl \<and> all_closed w"

lemma close_room_sys: "close_room os D k hold todo w c cl \<Longrightarrow> client_sys os D k hold todo w c cl"
  unfolding close_room_def using client_sys_mono [of os D "Suc k" hold todo w c cl k] by auto

definition functor_done ::
  "os \<Rightarrow> client_site \<Rightarrow> nat \<Rightarrow> closure list \<Rightarrow> closure list \<Rightarrow> connector \<Rightarrow> 'w client_world_scheme \<Rightarrow> 'w client_world_scheme result \<Rightarrow> bool" where
  "functor_done os D k hold rest c w r \<longleftrightarrow> (\<exists>w' c' cl'. r = Inr w' \<and> close_room os D k hold rest w' c' cl' \<and> ct_state c' = ct_state c \<and>
     (ct_state c \<noteq> Ct_kConnected \<longrightarrow> lp_pendingFunctors (loops w' (cs_loop D)) = lp_pendingFunctors (loops w (cs_loop D))))"

lemma closed_at:
  assumes sys: "client_sys os D k hold todo w c cl" and d: "conns w d = Some dn" "cn_state dn = kDisconnected"
  shows "all_closed w"
  unfolding all_closed_def
proof (intro allI impI)
  fix e en assume e: "conns w e = Some en"
  from client_sysD(5) [OF sys e d(1)] have "e = d" .
  with e d show "cn_state en = kDisconnected" by simp
qed

lemma keeps_closed:
  assumes "keeps w w'" "conns w d = Some dn" "cn_state dn = kDisconnected" "client_sys os D k hold todo w' c cl"
  shows "all_closed w'"
proof -
  from keeps_connD [OF assms(1,2)] assms(3) obtain dn' where "conns w' d = Some dn'" "cn_state dn' = kDisconnected" by auto
  then show ?thesis using closed_at [OF assms(4)] by blast
qed

text \<open>A callback of the application, and whatever else leaves the connector alone.\<close>

lemma functor_kept:
  fixes w :: "'w client_world_scheme"
  assumes run: "\<And>m. client_sys os D m hold (cb # rest) w c cl \<Longrightarrow> client_safe os D m hold (cb # rest) c w r"
    and room: "close_room os D k hold (cb # rest) w c cl" and d: "conns w d \<noteq> None"
    and cb: "\<not> on_stack cb" "\<And>e. cb \<noteq> Bind_TcpConnection_connectDestroyed e" "cb \<noteq> Bind_Connector_resetChannel (cs_connector D)"
  shows "functor_done os D k hold rest c w r"
proof -
  note sys = close_room_sys [OF room]
  from d obtain dn where dn: "conns w d = Some dn" by blast
  have st: "ct_state c = Ct_kConnected" using connected_of_conn [OF sys dn] .
  have drop: "client_sys os D m hold rest w' c cl'" if "client_sys os D m hold (cb # rest) w' c cl'" for m w' cl'
    by (rule client_drop_todo [OF that cb(1)]) (use cb(2,3) in blast)+
  from room show ?thesis
    unfolding close_room_def
  proof
    assume "client_sys os D (Suc k) hold (cb # rest) w c cl"
    from run [OF this] obtain w' cl' where "r = Inr w'" "client_sys os D (Suc k) hold (cb # rest) w' c cl'"
      unfolding client_safe_def by blast
    with drop st show ?thesis unfolding functor_done_def close_room_def by blast
  next
    assume a: "client_sys os D k hold (cb # rest) w c cl \<and> all_closed w"
    then obtain w' cl' where w': "r = Inr w'" "client_sys os D k hold (cb # rest) w' c cl'" "keeps w w'"
      using run unfolding client_safe_def by blast
    have "cn_state dn = kDisconnected" using a dn unfolding all_closed_def by blast
    from keeps_closed [OF w'(3) dn this w'(2)] have "all_closed w'" .
    with w'(1,2) drop st show ?thesis unfolding functor_done_def close_room_def by blast
  qed
qed

lemma functor_force_close:
  fixes w :: "'w client_world_scheme"
  assumes room: "close_room os D k hold (cb # rest) w c cl" and cb: "cb = Bind_TcpConnection_forceCloseInLoop d"
    and d: "conns w d = Some dn" and os: "kernel_ok os" and ap: "client_app_safe os D ap"
  shows "functor_done os D k hold rest c w (TcpConnection_forceCloseInLoop os (env_of os al ap) d w)"
proof (cases "conn_open dn")
  case False
  then have "TcpConnection_forceCloseInLoop os (env_of os al ap) d w = Inr w" using forceCloseInLoop_closed [OF d] by blast
  then show ?thesis
    using client_safe_Inr by (intro functor_kept [OF _ room, of _ d]) (simp_all add: cb d)
next
  case True
  note sys = close_room_sys [OF room]
  have st: "ct_state c = Ct_kConnected" using connected_of_conn [OF sys d] .
  have "cn_state dn \<noteq> kDisconnected" using True by (auto simp: conn_open_def)
  then have "\<not> all_closed w" using d unfolding all_closed_def by blast
  with room have sys1: "client_sys os D (Suc k) hold (cb # rest) w c cl" unfolding close_room_def by blast
  from client_connE [OF sys d] obtain dh where dh: "peer_wf D k w d dn dh" "chans w (cn_channel dn) = Some dh" .
  have idx: "ch_index dh \<noteq> kNew" using conn_relD(11) [OF peer_wfD(1) [OF dh(1)] True] by (simp add: kIndex_defs)
  have eq: "TcpConnection_forceCloseInLoop os (env_of os al ap) d w = TcpConnection_handleClose os (env_of os al ap) d w"
    using True d by (auto simp: TcpConnection_forceCloseInLoop_def conn_open_def)
  from client_handleClose_closed [OF sys1 d dh(2) idx os ap, of al] obtain w' cl' dn' where
    w': "TcpConnection_handleClose os (env_of os al ap) d w = Inr w'" "client_sys os D k hold (cb # rest) w' c cl'"
      "conns w' d = Some dn'" "cn_state dn' = kDisconnected" by blast
  have "client_sys os D k hold rest w' c cl'"
    by (rule client_drop_todo [OF w'(2)]) (simp_all add: cb)
  moreover have "all_closed w'" using closed_at [OF w'(2-4)] .
  ultimately show ?thesis using eq w'(1) st unfolding functor_done_def close_room_def by auto
qed

lemma client_functor:
  fixes w :: "'w client_world_scheme"
  assumes room: "close_room os D k hold (cb # rest) w c cl" and stack: "\<not> on_stack cb"
    and os: "kernel_ok os" and ap: "client_app_safe os D ap"
  shows "functor_done os D k hold rest c w (invoke os al ap cb t w)"
proof -
  note sys = close_room_sys [OF room]
  have wf: "waits_wf D w cb" using client_sysD(7) [OF sys, of cb] stack by simp
  show ?thesis
  proof (cases cb)
    case (Bind_Connector_resetChannel k')
    with wf have cb: "cb = Bind_Connector_resetChannel (cs_connector D)" by simp
    have "\<exists>w' c'. Connector_resetChannel (cs_connector D) w = Inr w' \<and> client_sys os D m hold rest w' c' cl \<and>
        ct_state c' = ct_state c \<and> conns w' = conns w \<and> loops w' = loops w"
      if "client_sys os D m hold (cb # rest) w c cl" for m
      using client_reset_functor that unfolding cb by blast
    with room have "\<exists>w' c'. Connector_resetChannel (cs_connector D) w = Inr w' \<and> close_room os D k hold rest w' c' cl \<and>
        ct_state c' = ct_state c \<and> loops w' = loops w"
      unfolding close_room_def all_closed_def by metis
    then obtain w' c' where "Connector_resetChannel (cs_connector D) w = Inr w'" "close_room os D k hold rest w' c' cl"
      "ct_state c' = ct_state c" "loops w' = loops w" by blast
    then show ?thesis
      unfolding functor_done_def cb by (intro exI [of _ w'] exI [of _ c'] exI [of _ cl]) (simp add: invoke_def invoke_with_def)
  next
    case (Bind_TcpConnection_connectDestroyed d)
    then obtain dn where d: "conns w d = Some dn" "cn_state dn = kDisconnected" using wf by (auto split: option.splits)
    have st: "ct_state c = Ct_kConnected" using connected_of_conn [OF sys d(1)] .
    from client_destroy [OF sys [unfolded Bind_TcpConnection_connectDestroyed] os, of "env_of os al ap"] obtain w' where
      w': "TcpConnection_connectDestroyed os (env_of os al ap) d w = Inr w'" "client_sys os D k hold rest w' c cl" "conns w' d = conns w d" by blast
    have "all_closed w'" using closed_at [OF w'(2)] w'(3) d by simp
    with w'(1,2) st show ?thesis
      by (auto simp: functor_done_def close_room_def Bind_TcpConnection_connectDestroyed invoke_def invoke_with_def)
  next
    case (Bind_TcpConnection_forceCloseInLoop d)
    then obtain dn where d: "conns w d = Some dn" using wf by auto
    from functor_force_close [OF room Bind_TcpConnection_forceCloseInLoop d os ap, of al] show ?thesis
      by (simp add: Bind_TcpConnection_forceCloseInLoop invoke_def invoke_with_def Let_def)
  next
    case (Bind_writeComplete u d)
    then have d: "conns w d \<noteq> None" using wf by simp
    have "functor_done os D k hold rest c w (app_writeComplete ap u d w)"
      by (rule functor_kept [OF client_app_safeD(1) [OF ap d] room d]) (simp_all add: Bind_writeComplete)
    then show ?thesis by (simp add: Bind_writeComplete invoke_def invoke_with_def Let_def)
  next
    case (Bind_highWaterMark u d n)
    then have d: "conns w d \<noteq> None" using wf by simp
    have "functor_done os D k hold rest c w (app_highWaterMark ap u d n w)"
      by (rule functor_kept [OF client_app_safeD(2) [OF ap d] room d]) (simp_all add: Bind_highWaterMark)
    then show ?thesis by (simp add: Bind_highWaterMark invoke_def invoke_with_def Let_def)
  qed (use wf in simp_all)
qed

lemma client_functors:
  fixes w :: "'w client_world_scheme"
  assumes os: "kernel_ok os" and ap: "client_app_safe os D ap"
  shows "close_room os D k hold fs w c cl \<Longrightarrow> \<forall>cb \<in> set fs. \<not> on_stack cb \<Longrightarrow> settled D w c \<Longrightarrow>
    \<exists>w' c' cl'. foldE (\<lambda>cb. invoke os al ap cb t) fs w = Inr w' \<and> client_sys os D k hold [] w' c' cl' \<and> settled D w' c'"
proof (induction fs arbitrary: w c cl)
  case Nil
  then show ?case
    using close_room_sys [OF Nil(1)] by (intro exI [of _ w] exI [of _ c] exI [of _ cl]) simp
next
  case (Cons cb fs)
  have "functor_done os D k hold fs c w (invoke os al ap cb t w)"
    using client_functor [OF Cons.prems(1) _ os ap] Cons.prems(2) by simp
  then obtain w1 c1 cl1 where w1: "invoke os al ap cb t w = Inr w1" "close_room os D k hold fs w1 c1 cl1" "ct_state c1 = ct_state c"
    "ct_state c \<noteq> Ct_kConnected \<longrightarrow> lp_pendingFunctors (loops w1 (cs_loop D)) = lp_pendingFunctors (loops w (cs_loop D))"
    unfolding functor_done_def by blast
  have "settled D w1 c1" using Cons.prems(3) w1(3,4) by (simp add: settled_def)
  from Cons.IH [OF w1(2) _ this] Cons.prems(2) w1(1) show ?case by simp
qed

text \<open>\<open>doPendingFunctors\<close> takes the queue.\<close>

lemma client_take:
  fixes w :: "'w client_world_scheme"
  assumes sys: "client_sys os D k [] [] w c cl"
  defines "fs \<equiv> lp_pendingFunctors (loops w (cs_loop D))"
  shows "client_sys os D k fs fs (take_functors (cs_loop D) w) c cl"
proof (rule apart_sys [OF sys, of Map.empty])
  show "apart_step D Map.empty w (take_functors (cs_loop D) w)"
    by (simp add: apart_step_def Let_def take_functors_def upd_loop_def tq_entries_def)
  show "recent os D (take_functors (cs_loop D) w)" if "recent os D w"
    using that by (simp add: recent_def take_functors_def upd_loop_def tq_entries_def)
qed (use client_sysD(6) [OF sys] in \<open>simp_all add: waits_def fs_def take_functors_def upd_loop_def list_all_iff\<close>)

lemma client_pending:
  fixes w :: "'w client_world_scheme"
  assumes sys: "client_sys os D (Suc k) [] [] w c cl" and os: "kernel_ok os" and ap: "client_app_safe os D ap"
  shows "\<exists>w' c' cl'. EventLoop_doPendingFunctors (invoke os al ap) (cs_loop D) w = Inr w' \<and>
    client_sys os D k (lp_pendingFunctors (loops w (cs_loop D))) [] w' c' cl' \<and> settled D w' c'"
proof -
  let ?L = "cs_loop D"
  let ?fs = "lp_pendingFunctors (loops w ?L)"
  have "close_room os D k ?fs ?fs (take_functors ?L w) c cl" using client_take [OF sys] unfolding close_room_def by blast
  moreover have "\<forall>cb \<in> set ?fs. \<not> on_stack cb"
  proof
    fix cb assume "cb \<in> set ?fs"
    from client_sysD(6) [OF sys this] show "\<not> on_stack cb" by (cases cb) simp_all
  qed
  moreover have "settled D (take_functors ?L w) c" by (simp add: settled_def take_functors_def)
  ultimately obtain w3 c3 cl3 where
    w3: "foldE (\<lambda>cb. invoke os al ap cb Timestamp_zero) ?fs (take_functors ?L w) = Inr w3"
      "client_sys os D k ?fs [] w3 c3 cl3" "settled D w3 c3" using client_functors [OF os ap] by blast
  let ?w4 = "upd_loop ?L (\<lambda>l. l\<lparr>lp_callingPendingFunctors := False\<rparr>) w3"
  have "client_sys os D k ?fs [] ?w4 c3 cl3" by (rule flag_sys [OF w3(2)]) simp_all
  moreover have "settled D ?w4 c3" using w3(3) by (simp add: settled_def)
  moreover have "EventLoop_doPendingFunctors (invoke os al ap) ?L w = Inr ?w4"
    using w3(1) by (simp add: EventLoop_doPendingFunctors_def take_functors_def Let_def)
  ultimately show ?thesis by blast
qed

subsection \<open>The last reference to the connection\<close>

lemma client_drop_hold:
  assumes sys: "client_sys os D k (cb # hold) todo w c cl"
    and ref: "\<And>d. owner cb = Some d \<Longrightarrow> conns w d \<noteq> None \<Longrightarrow> client_referenced D hold d w"
  shows "client_sys os D k hold todo w c cl"
proof -
  have sub: "set (waits D (cb # hold) w) \<subseteq> insert cb (set (waits D hold w))" by (auto simp: waits_simps)
  have "peer_held (set (waits D hold w)) T cl d dn dh"
    if d: "conns w d = Some dn" "peer_held (set (waits D (cb # hold) w)) T cl d dn dh" for d dn dh T
  proof (cases "owner cb = Some d")
    case True
    then have "client_referenced D hold d w" using ref d(1) by simp
    then have "cl_connection cl = Some d \<or> (\<exists>f \<in> set (waits D hold w). owner f = Some d)"
      using client_wfD(1) [OF client_sysD(3) [OF sys]] by (auto simp: client_referenced_def waits_def list_ex_iff)
    with d(2) show ?thesis unfolding peer_held_def by (auto split: if_splits)
  next
    case False
    with d(2) sub show ?thesis unfolding peer_held_def by (auto split: if_splits)
  qed
  then show ?thesis using sys unfolding client_sys_def by blast
qed

text \<open>
  The destructor of a connection that nobody refers to: its channel is out of the poller, and no other
  channel has its descriptor.
\<close>

lemma client_dtor:
  fixes w :: "'w client_world_scheme"
  assumes sys: "client_sys os D k (cb # hold) [] w c cl" and d: "owner cb = Some d" "conns w d = Some dn"
    and ref: "\<not> client_referenced D hold d w"
  shows "\<exists>w'. TcpConnection_dtor os' d w = Inr w' \<and> client_sys os D k hold [] w' c cl \<and> ct_state c = Ct_kConnected"
proof -
  let ?L = "cs_loop D" and ?p = "cn_channel dn" and ?f = "cn_socket dn"
  have connected: "ct_state c = Ct_kConnected" using connected_of_conn [OF sys d(2)] .
  note desk = desk_wfD [OF client_sysD(1) [OF sys]] and link = link_wfD [OF client_sysD(2) [OF sys]]
    and cw = client_wfD [OF client_sysD(3) [OF sys]]
  from client_connE [OF sys d(2)] obtain dh where dh: "peer_wf D k w d dn dh" "chans w ?p = Some dh"
    "peer_held (set (waits D (cb # hold) w)) (set (waits D [] w)) cl d dn dh" .
  have noref: "cl_connection cl \<noteq> Some d" "\<And>f. f \<in> set (lp_pendingFunctors (loops w ?L)) \<Longrightarrow> owner f \<noteq> Some d"
    using ref cw(1) by (auto simp: client_referenced_def list_ex_iff)
  have "Bind_TcpConnection_connectDestroyed d \<notin> set (waits D [] w)"
    using noref(2) [of "Bind_TcpConnection_connectDestroyed d"] by (auto simp: waits_def)
  then have new: "ch_index dh = kNew" using dh(3) noref(1) by (simp add: peer_held_def)
  have free: "po_channels (pollers w ?L) ?f = None" using client_unregistered [OF sys d(2) dh(2) new] .
  let ?w1 = "w\<lparr>chans := (chans w)(?p := None), conns := (conns w)(d := None)\<rparr>"
  define w' where "w' = snd (sys_close os' ?f ?w1)"
  have dtor: "TcpConnection_dtor os' d w = Inr w'"
    using d(2) dh(2) by (simp add: TcpConnection_dtor_def Socket_dtor_def w'_def)
  have eqs: "chans w' = (chans w)(?p := None)" "conns w' = (conns w)(d := None)" "loops w' = loops w"
    "pollers w' = pollers w" "current_tid w' = current_tid w" "timerqueues w' = timerqueues w" "clients w' = clients w"
    "connectors w' = connectors w" "hist w' = hist w @ [Close ?f (os_close os' (hist w) ?f)]"
    by (simp_all add: w'_def sys_close_def Let_def)
  have none: "conns w' = Map.empty"
  proof
    fix e show "conns w' e = None"
      using client_sysD(5) [OF sys d(2), of e] unfolding eqs(2) by (cases "conns w e") auto
  qed
  have inv: "poller_inv ?L w'"
  proof -
    have "po_channels (pollers w ?L) g \<noteq> Some ?p" for g
    proof
      assume g: "po_channels (pollers w ?L) g = Some ?p"
      have "ch_fd dh = ?f" using conn_relD(3) [OF peer_wfD(1) [OF dh(1)]] .
      with poller_invD(1) [OF link(14) g] dh(2) free g show False by auto
    qed
    then have "poller_inv ?L (w\<lparr>chans := (chans w)(?p := None)\<rparr>)" by (rule poller_inv_delete_chan [OF link(14)])
    moreover have "interest (hist w') (po_epollfd (pollers w ?L)) = interest (hist w) (po_epollfd (pollers w ?L))"
      using unregistered_unwatched [OF link(14) free] by (simp add: eqs(9) fun_upd_idem)
    ultimately show ?thesis using poller_inv_cong [of w' "w\<lparr>chans := (chans w)(?p := None)\<rparr>" ?L] eqs(1,4) by simp
  qed
  have "desk_wf D w' c"
  proof -
    have "loop_chan D qh \<or> ct_channel c = Some q" if "chans w' q = Some qh" "ch_loop qh = ?L" for q qh
    proof -
      have q: "q \<noteq> ?p" "chans w q = Some qh" using that(1) unfolding eqs(1) by (auto split: if_splits)
      from desk(6) [OF q(2) that(2)] show ?thesis
        using q(1) client_sysD(5) [OF sys d(2)] d(2) by (metis option.inject)
    qed
    then show ?thesis using desk(1-4,7) unfolding desk_wf_def desk_small_def isInLoopThread_def none eqs(1,3-5) by simp
  qed
  moreover have "link_wf os D [] w' c"
    by (rule link_wf_connected [OF client_sysD(2) [OF sys] connected])
      (use inv link_not_peer [OF sys d(2)] in \<open>auto simp: eqs tq_entries_def reset_waits_def waits_def\<close>)
  moreover have "cl_connection cl = None"
    using cw(11) client_sysD(5) [OF sys d(2)] noref(1) by (cases "cl_connection cl") auto
  then have "client_wf D w' c cl" using client_sysD(3) [OF sys] connected by (simp add: client_wf_def eqs(7))
  moreover have "waits_wf D w' f" if f: "f \<in> set (lp_pendingFunctors (loops w ?L))" for f
  proof -
    have "conns w e = None" if "owner f = Some e" for e
      using client_sysD(5) [OF sys d(2), of e] noref(2) [OF f] that by (cases "conns w e") auto
    then show ?thesis using client_sysD(6) [OF sys f] by (cases f) auto
  qed
  then have "list_all (waits_wf D w') (lp_pendingFunctors (loops w' ?L))" unfolding eqs(3) list_all_iff by blast
  ultimately have "client_sys os D k hold [] w' c cl" unfolding client_sys_def none by simp
  with dtor connected show ?thesis by blast
qed

lemma client_release_safe:
  fixes w :: "'w client_world_scheme"
  assumes sys: "client_sys os D k (cb # hold) [] w c cl" and set: "settled D w c"
  shows "\<exists>w'. client_release os' D hold cb w = Inr w' \<and> client_sys os D k hold [] w' c cl \<and> settled D w' c"
proof (cases "\<exists>d dn. owner cb = Some d \<and> conns w d = Some dn \<and> \<not> client_referenced D hold d w")
  case True
  then obtain d dn where d: "owner cb = Some d" "conns w d = Some dn" "\<not> client_referenced D hold d w" by blast
  from client_dtor [OF sys d, of os'] d show ?thesis by (auto simp: client_release_def settled_def)
next
  case False
  then have "client_sys os D k hold [] w c cl" by (intro client_drop_hold [OF sys]) blast
  moreover have "client_release os' D hold cb w = Inr w" using False by (auto simp: client_release_def split: option.split)
  ultimately show ?thesis using set by auto
qed

lemma client_releases_safe:
  fixes w :: "'w client_world_scheme"
  shows "client_sys os D k fs [] w c cl \<Longrightarrow> settled D w c \<Longrightarrow>
    \<exists>w'. client_releases os' D fs w = Inr w' \<and> client_sys os D k [] [] w' c cl \<and> settled D w' c"
proof (induction fs arbitrary: w)
  case (Cons cb fs)
  from client_release_safe [OF Cons.prems, of os'] obtain w1 where
    "client_release os' D fs cb w = Inr w1" "client_sys os D k fs [] w1 c cl" "settled D w1 c" by blast
  with Cons.IH show ?case by fastforce
qed simp

subsection \<open>Rounds\<close>

text \<open>What a round uses up: three units for each of at most four events, and one for the functors.\<close>

definition turn_room :: nat where
  "turn_room = 13"

text \<open>
  Between two rounds, with room for \<open>k\<close> more events in the buffers of the connection, or in those it will have.
\<close>

definition client_well :: "os \<Rightarrow> client_site \<Rightarrow> nat \<Rightarrow> 'w client_world_scheme \<Rightarrow> bool" where
  "client_well os D k w \<longleftrightarrow> 1032 + k * extrabuf_size \<le> max_size \<and>
     (\<exists>c cl. client_sys os D k [] [] w c cl \<and> settled D w c)"

lemma client_well_turn:
  fixes w :: "'w client_world_scheme"
  assumes well: "client_well os D (turn_room + k) w"
    and os: "dial_ok os al D" "timely os" and ap: "client_app_safe os D ap"
  shows "\<exists>w'. client_turn os al ap D w = Inr w' \<and> client_well os D k w'"
proof -
  from well obtain c cl where sys: "client_sys os D (Suc k + 12) [] [] w c cl" and set: "settled D w c"
    and room: "1032 + (Suc k + 12) * extrabuf_size \<le> max_size" by (auto simp: client_well_def turn_room_def)
  from client_turn_events [OF sys set os ap room] obtain w1 c1 cl1 where
    w1: "EventLoop_events os (invoke os al ap) conn_alive (cs_loop D) w = Inr w1" "client_sys os D (Suc k) [] [] w1 c1 cl1" by blast
  from client_pending [OF w1(2) dial_okD(1) [OF os(1)] ap, of al] obtain w2 c2 cl2 where
    w2: "EventLoop_doPendingFunctors (invoke os al ap) (cs_loop D) w1 = Inr w2"
      "client_sys os D k (lp_pendingFunctors (loops w1 (cs_loop D))) [] w2 c2 cl2" "settled D w2 c2" by blast
  from client_releases_safe [OF w2(2,3), of os] obtain w3 where
    w3: "client_releases os D (lp_pendingFunctors (loops w1 (cs_loop D))) w2 = Inr w3" "client_sys os D k [] [] w3 c2 cl2"
      "settled D w3 c2" by blast
  have "1032 + k * extrabuf_size \<le> max_size" using room by (simp add: algebra_simps)
  then show ?thesis using w1(1) w2(1) w3 unfolding client_well_def by (intro exI [of _ w3]) (auto simp: client_turn_def)
qed

lemma client_well_quit: "client_well os D k w \<Longrightarrow> \<not> lp_quit (loops w (cs_loop D))"
  unfolding client_well_def using desk_wfD(2) client_sysD(1) by blast

lemma client_turns_ok:
  fixes w :: "'w client_world_scheme"
  assumes os: "dial_ok os al D" "timely os" and ap: "client_app_safe os D ap"
  shows "client_well os D (n * turn_room + k) w \<Longrightarrow> \<exists>w'. client_turns os al ap D n w = Inr w' \<and> client_well os D k w'"
proof (induction n arbitrary: w)
  case (Suc n)
  have "client_well os D (turn_room + (n * turn_room + k)) w" using Suc.prems by (simp add: add.assoc)
  from client_well_turn [OF this os ap] obtain w1 where
    w1: "client_turn os al ap D w = Inr w1" "client_well os D (n * turn_room + k) w1" by blast
  from Suc.IH [OF w1(2)] show ?case using w1(1) client_well_quit [OF Suc.prems] by simp
qed simp

end
