(* ===== verification/ServerStart.thy ===== *)
theory ServerStart
  imports ServerTurn
begin

section \<open>ServerStart: a server and its threads come up into the invariant\<close>

text \<open>
  From the constructor of the base loop, over the constructor of the server and its callbacks, to
  \<open>start()\<close>, which constructs one loop per thread and then listens: the system that results satisfies
  \<open>server_sys\<close>, for every number of events and connections that the counters of the program allow.
\<close>

subsection \<open>Loops without connections\<close>

text \<open>The loops of a site with their own channels, and no connection; the thread of the base loop runs.\<close>

definition loops_ready :: "site \<Rightarrow> 'w conn_world_scheme \<Rightarrow> bool" where
  "loops_ready S w \<longleftrightarrow>
     st_base S \<in> set (st_loops S) \<and> isInLoopThread (st_base S) w \<and> finite (dom (chans w)) \<and>
     conns w = Map.empty \<and> open_conns (hist w) = {} \<and>
     (\<forall>M \<in> set (st_loops S). loop_wf S M w \<and> lp_pendingFunctors (loops w M) = []) \<and> loops_apart S w \<and>
     (\<forall>p ch. chans w p = Some ch \<longrightarrow> ch_loop ch \<in> set (st_loops S) \<longrightarrow> base_chan S ch) \<and>
     (\<forall>p q ch dh. chans w p = Some ch \<longrightarrow> chans w q = Some dh \<longrightarrow>
        ch_loop ch \<in> set (st_loops S) \<longrightarrow> ch_loop dh \<in> set (st_loops S) \<longrightarrow> ch_fd ch = ch_fd dh \<longrightarrow> p = q)"

lemma loops_readyD:
  assumes "loops_ready S w"
  shows "st_base S \<in> set (st_loops S)" "isInLoopThread (st_base S) w" "finite (dom (chans w))"
    "conns w = Map.empty" "open_conns (hist w) = {}"
    "M \<in> set (st_loops S) \<Longrightarrow> loop_wf S M w" "M \<in> set (st_loops S) \<Longrightarrow> lp_pendingFunctors (loops w M) = []"
    "loops_apart S w" "chans w p = Some ch \<Longrightarrow> ch_loop ch \<in> set (st_loops S) \<Longrightarrow> base_chan S ch"
    "chans w p = Some ch \<Longrightarrow> chans w q = Some dh \<Longrightarrow> ch_loop ch \<in> set (st_loops S) \<Longrightarrow>
       ch_loop dh \<in> set (st_loops S) \<Longrightarrow> ch_fd ch = ch_fd dh \<Longrightarrow> p = q"
  using assms unfolding loops_ready_def by blast+

lemma loops_readyI:
  assumes "st_base S \<in> set (st_loops S)" "isInLoopThread (st_base S) w" "finite (dom (chans w))"
    "conns w = Map.empty" "open_conns (hist w) = {}"
    "\<And>M. M \<in> set (st_loops S) \<Longrightarrow> loop_wf S M w" "\<And>M. M \<in> set (st_loops S) \<Longrightarrow> lp_pendingFunctors (loops w M) = []"
    "loops_apart S w" "\<And>p ch. chans w p = Some ch \<Longrightarrow> ch_loop ch \<in> set (st_loops S) \<Longrightarrow> base_chan S ch"
    "\<And>p q ch dh. chans w p = Some ch \<Longrightarrow> chans w q = Some dh \<Longrightarrow> ch_loop ch \<in> set (st_loops S) \<Longrightarrow>
       ch_loop dh \<in> set (st_loops S) \<Longrightarrow> ch_fd ch = ch_fd dh \<Longrightarrow> p = q"
  shows "loops_ready S w"
  unfolding loops_ready_def using assms by (intro conjI ballI allI impI; blast)

lemma loops_ready_frame:
  fixes w w' :: "'w conn_world_scheme"
  assumes ready: "loops_ready S w" and same: "chans w' = chans w" "conns w' = conns w" "pollers w' = pollers w"
    "interest (hist w') = interest (hist w)" "open_conns (hist w') = open_conns (hist w)" "loops w' = loops w"
    "current_tid w' = current_tid w" "timerqueues w' = timerqueues w"
  shows "loops_ready S w'"
proof -
  have "poller_inv M w' = poller_inv M w" for M using same by (intro poller_inv_cong) simp_all
  then have "loop_wf S M w' = loop_wf S M w" for M using same by (simp add: loop_wf_def)
  then show ?thesis using ready same unfolding loops_ready_def isInLoopThread_def loops_apart_def by simp
qed

text \<open>Where no connection is, the invariant of the system comes down to that of the loops and the server.\<close>

lemma ready_sys:
  fixes w :: "'w client_world_scheme"
  assumes up: "loops_ready S w"
    and a: "acceptors w (st_server S) = Some a" "ac_newConnectionCallback a = Some (st_server S)"
    and sv: "servers w (st_server S) = Some sv" "sv_loop sv = st_base S" "pool_inv (sv_pool sv)"
      "set (pl_loops (sv_pool sv)) \<subseteq> set (st_loops S)"
      "pl_baseLoop (sv_pool sv) = st_base S" "sv_ipPort sv = toIpPort addr" "sint (sv_nextConnId sv) + int k < 2 ^ 31"
      "0 < sint (sv_nextConnId sv)" "sv_connections sv = Map.empty"
      "sv_connectionCallback sv \<noteq> None" "sv_messageCallback sv \<noteq> None"
  shows "server_sys S (st_base S) k no_functors no_functors w"
proof -
  note r = loops_readyD [OF up]
  have "\<exists>a. sv_ipPort sv = toIpPort a" using sv(6) by blast
  then have "server_wf S k w sv" using sv r(4) by (simp add: server_wf_def server_inv_def)
  moreover have "sys_conns S k no_functors no_functors sv w" using r(4) by (simp add: sys_conns_def)
  moreover have "sys_base S (st_base S) w"
    using r(1-6,8) a by (simp add: sys_base_def)
  moreover have "sys_chans S w" using r(9,10) unfolding sys_chans_def by blast
  moreover have "sys_queues S no_functors w" using r(7) by (simp add: sys_queues_def waiting_def)
  ultimately show ?thesis unfolding server_sys_def by blast
qed

subsection \<open>The constructor of the base loop\<close>

lemma reading_channel_base:
  "ch_loop (reading_channel L f cb) = L" "ch_fd (reading_channel L f cb) = f"
  "f \<in> st_fds S \<Longrightarrow> base_chan S (reading_channel L f (Bind_TimerQueue_handleRead L))"
  "f \<in> st_fds S \<Longrightarrow> base_chan S (reading_channel L f (Bind_EventLoop_handleRead L))"
  by (simp_all add: base_chan_def reading_channel_def Channel_set_index_def add_events_def Channel_new_def)

lemma loop_comes_up:
  fixes w :: "'w conn_world_scheme"
  assumes os: "kernel_ok os" and first: "t_loopInThisThread w (current_tid w) = None"
    and new: "\<And>c ch. chans w c = Some ch \<Longrightarrow> ch_loop ch \<noteq> L" "interest (hist w) ep = Map.empty"
      "finite (dom (chans w))" "conns w = Map.empty" "open_conns (hist w) = {}"
    and ptr: "chans w cw = None" "chans w ct = None" "cw \<noteq> ct" and fds: "timerfd \<noteq> wakeupFd"
  shows "\<exists>w'. EventLoop_ctor os L False (Inr ep) (Inr wakeupFd) timerfd cw ct w = Inr w' \<and>
    loops_ready \<lparr>st_fds = {wakeupFd, timerfd}, st_server = s, st_base = L, st_loops = [L]\<rparr> w' \<and>
    loop_added L ep w w' \<and> dom (chans w') = dom (chans w) \<union> {cw, ct} \<and>
    (\<forall>p ch. chans w' p = Some ch \<longrightarrow> chans w p = Some ch \<or> ch_loop ch = L)"
proof -
  let ?S = "\<lparr>st_fds = {wakeupFd, timerfd}, st_server = s, st_base = L, st_loops = [L]\<rparr>"
  let ?t = "reading_channel L timerfd (Bind_TimerQueue_handleRead L)"
    and ?w = "reading_channel L wakeupFd (Bind_EventLoop_handleRead L)"
  have add: "epoll_adds os ep f" for f using kernel_okD(5) [OF os] .
  from EventLoop_ctor_ok [OF kernel_okD(1) [OF os] _ first _ new(2) ptr fds, of L] add new(1) obtain w' where
    w': "EventLoop_ctor os L False (Inr ep) (Inr wakeupFd) timerfd cw ct w = Inr w'" "poller_inv L w'"
      "tq_entries L w' = []" "lp_pendingFunctors (loops w' L) = []" "\<not> lp_quit (loops w' L)" "isInLoopThread L w'"
      "chans w' = (chans w)(ct \<mapsto> ?t, cw \<mapsto> ?w)"
      "lp_wakeupFd (loops w' L) = wakeupFd" "timer_world.more w' = timer_world.more w" "loop_added L ep w w'" by blast
  have cases: "p = ct \<and> ch = ?t \<or> p = cw \<and> ch = ?w" if "chans w' p = Some ch" "ch_loop ch = L" for p ch
    using that new(1) [of p ch] unfolding w'(7) by (auto split: if_splits)
  have "conns w' = conns w" using w'(9) by (cases w; cases w'; simp)
  moreover have "tq_timers (timerqueues w' L) = []" using w'(3) by (simp add: tq_entries_def)
  moreover have "finite (dom (chans w'))" using new(3) by (simp add: w'(7))
  moreover have "base_chan ?S ch" if "chans w' p = Some ch" "ch_loop ch = L" for p ch
    using cases [OF that] reading_channel_base(3,4) [of _ ?S] by auto
  moreover have "p = q" if "chans w' p = Some ch" "chans w' q = Some dh" "ch_loop ch = L" "ch_loop dh = L" "ch_fd ch = ch_fd dh"
    for p q ch dh
    using cases [OF that(1,3)] cases [OF that(2,4)] that(5) fds by (auto simp: reading_channel_base(2))
  moreover have "open_conns (hist w') = {}" using w'(10) new(5) by (auto simp: loop_added_def)
  ultimately have "loops_ready ?S w'"
    using w'(2,4-6,8) new(4) unfolding loops_ready_def loop_wf_def loops_apart_def by simp
  moreover have "dom (chans w') = dom (chans w) \<union> {cw, ct}" by (auto simp: w'(7))
  moreover have "chans w p = Some ch \<or> ch_loop ch = L" if "chans w' p = Some ch" for p ch
    using that by (auto simp: w'(7) reading_channel_base(1) split: if_splits)
  ultimately show ?thesis using w'(1,10) by blast
qed

subsection \<open>The threads of the pool\<close>

text \<open>
  What the system and the allocator give to a new thread and the loop it constructs: the id of the thread,
  the address of the loop on its stack, three descriptors, two channels.
\<close>

record new_thread =
  nt_tid :: tid
  nt_loop :: loop_ptr
  nt_epollfd :: fd
  nt_wakeupFd :: fd
  nt_timerfd :: fd
  nt_wakeupChannel :: chan_ptr
  nt_timerChannel :: chan_ptr

text \<open>
  \<open>EventLoopThread::startLoop\<close>, seen from the thread that calls it: while it waits, the new thread
  constructs its loop and runs the initialization callback, and then publishes the loop.  How the two
  threads meet is in the theory of the loop thread.
\<close>

definition EventLoopThread_startLoop ::
  "os \<Rightarrow> (loop_ptr \<Rightarrow> 'w timer_world_scheme \<Rightarrow> 'w timer_world_scheme result) option \<Rightarrow> (string \<Rightarrow> new_thread)
     \<Rightarrow> string \<Rightarrow> 'w timer_world_scheme \<Rightarrow> (loop_ptr \<times> 'w timer_world_scheme) result" where
  "EventLoopThread_startLoop os callback threads name w =
     (let t = threads name; L = nt_loop t in
      bindE (EventLoop_ctor os L False (Inr (nt_epollfd t)) (Inr (nt_wakeupFd t)) (nt_timerfd t)
               (nt_wakeupChannel t) (nt_timerChannel t) (w\<lparr>current_tid := nt_tid t\<rparr>)) (\<lambda>w1.
      bindE (case callback of None \<Rightarrow> Inr w1 | Some cb \<Rightarrow> cb L w1) (\<lambda>w2.
      Inr (L, w2\<lparr>current_tid := current_tid w\<rparr>))))"

text \<open>The thread is new: what it is given is not in use, by the site or by another new thread.\<close>

definition thread_fds :: "new_thread \<Rightarrow> fd set" where
  "thread_fds t = {nt_wakeupFd t, nt_timerfd t}"

definition thread_fresh :: "site \<Rightarrow> 'w loop_world_scheme \<Rightarrow> new_thread \<Rightarrow> bool" where
  "thread_fresh S w t \<longleftrightarrow>
     nt_loop t \<notin> set (st_loops S) \<and> t_loopInThisThread w (nt_tid t) = None \<and>
     (\<forall>M \<in> set (st_loops S). lp_threadId (loops w M) \<noteq> nt_tid t \<and> po_epollfd (pollers w M) \<noteq> nt_epollfd t) \<and>
     interest (hist w) (nt_epollfd t) = Map.empty \<and> thread_fds t \<inter> st_fds S = {} \<and> nt_timerfd t \<noteq> nt_wakeupFd t \<and>
     chans w (nt_wakeupChannel t) = None \<and> chans w (nt_timerChannel t) = None \<and> nt_wakeupChannel t \<noteq> nt_timerChannel t \<and>
     (\<forall>p ch. chans w p = Some ch \<longrightarrow> ch_loop ch \<noteq> nt_loop t)"

definition threads_apart :: "new_thread \<Rightarrow> new_thread \<Rightarrow> bool" where
  "threads_apart t u \<longleftrightarrow>
     nt_tid t \<noteq> nt_tid u \<and> nt_loop t \<noteq> nt_loop u \<and> nt_epollfd t \<noteq> nt_epollfd u \<and> thread_fds t \<inter> thread_fds u = {} \<and>
     {nt_wakeupChannel t, nt_timerChannel t} \<inter> {nt_wakeupChannel u, nt_timerChannel u} = {}"

definition add_thread :: "new_thread \<Rightarrow> site \<Rightarrow> site" where
  "add_thread t S = S\<lparr>st_fds := thread_fds t \<union> st_fds S, st_loops := st_loops S @ [nt_loop t]\<rparr>"

lemma add_thread_simps [simp]:
  "st_fds (add_thread t S) = thread_fds t \<union> st_fds S" "st_loops (add_thread t S) = st_loops S @ [nt_loop t]"
  "st_server (add_thread t S) = st_server S" "st_base (add_thread t S) = st_base S"
  by (simp_all add: add_thread_def)

lemma base_chan_mono: "base_chan S ch \<Longrightarrow> st_fds S \<subseteq> st_fds S' \<Longrightarrow> st_server S' = st_server S \<Longrightarrow> st_base S' = st_base S \<Longrightarrow>
    base_chan S' ch"
  by (auto simp: base_chan_def)

lemma loop_wf_mono: "loop_wf S M w \<Longrightarrow> st_fds S \<subseteq> st_fds S' \<Longrightarrow> loop_wf S' M w"
  by (auto simp: loop_wf_def)

lemma EventLoopThread_startLoop_ok:
  fixes w :: "'w conn_world_scheme"
  assumes os: "kernel_ok os" and fresh: "thread_fresh S w t" and t: "threads name = t"
  shows "\<exists>w'. EventLoopThread_startLoop os None threads name w = Inr (nt_loop t, w') \<and>
    poller_inv (nt_loop t) w' \<and> lp_pendingFunctors (loops w' (nt_loop t)) = [] \<and> \<not> lp_quit (loops w' (nt_loop t)) \<and>
    tq_timers (timerqueues w' (nt_loop t)) = [] \<and> lp_wakeupFd (loops w' (nt_loop t)) = nt_wakeupFd t \<and>
    chans w' = (chans w)
      (nt_timerChannel t \<mapsto> reading_channel (nt_loop t) (nt_timerfd t) (Bind_TimerQueue_handleRead (nt_loop t)),
       nt_wakeupChannel t \<mapsto> reading_channel (nt_loop t) (nt_wakeupFd t) (Bind_EventLoop_handleRead (nt_loop t))) \<and>
    (\<forall>M. M \<noteq> nt_loop t \<longrightarrow> pollers w' M = pollers w M \<and> loops w' M = loops w M \<and> timerqueues w' M = timerqueues w M) \<and>
    po_epollfd (pollers w' (nt_loop t)) = nt_epollfd t \<and> lp_threadId (loops w' (nt_loop t)) = nt_tid t \<and>
    current_tid w' = current_tid w \<and> t_loopInThisThread w' = (t_loopInThisThread w)(nt_tid t \<mapsto> nt_loop t) \<and>
    (\<forall>e. e \<noteq> nt_epollfd t \<longrightarrow> interest (hist w') e = interest (hist w) e) \<and>
    open_conns (hist w') = open_conns (hist w) \<and> timer_world.more w' = timer_world.more w"
proof -
  let ?w = "w\<lparr>current_tid := nt_tid t\<rparr>" and ?L = "nt_loop t"
  note f = fresh [unfolded thread_fresh_def]
  have add: "epoll_adds os ep g" for ep g using kernel_okD(5) [OF os] .
  have "t_loopInThisThread ?w (current_tid ?w) = None" "interest (hist ?w) (nt_epollfd t) = Map.empty"
    "chans ?w (nt_wakeupChannel t) = None" "chans ?w (nt_timerChannel t) = None" using f by simp_all
  from EventLoop_ctor_ok [OF kernel_okD(1) [OF os] _ this(1) _ this(2-4), of ?L "nt_timerfd t" "nt_wakeupFd t"] add f
  obtain w1 where
    w1: "EventLoop_ctor os ?L False (Inr (nt_epollfd t)) (Inr (nt_wakeupFd t)) (nt_timerfd t) (nt_wakeupChannel t)
        (nt_timerChannel t) ?w = Inr w1" "poller_inv ?L w1"
      "tq_entries ?L w1 = []" "lp_pendingFunctors (loops w1 ?L) = []" "\<not> lp_quit (loops w1 ?L)"
      "chans w1 = (chans ?w)(nt_timerChannel t \<mapsto> reading_channel ?L (nt_timerfd t) (Bind_TimerQueue_handleRead ?L),
         nt_wakeupChannel t \<mapsto> reading_channel ?L (nt_wakeupFd t) (Bind_EventLoop_handleRead ?L))"
      "lp_wakeupFd (loops w1 ?L) = nt_wakeupFd t" "timer_world.more w1 = timer_world.more ?w"
      "loop_added ?L (nt_epollfd t) ?w w1" by (simp; blast)
  let ?w' = "w1\<lparr>current_tid := current_tid w\<rparr>"
  have "EventLoopThread_startLoop os None threads name w = Inr (?L, ?w')"
    using w1(1) by (simp add: EventLoopThread_startLoop_def t)
  moreover have "poller_inv ?L ?w'" using w1(2) poller_inv_cong [of ?w' w1 ?L] by simp
  moreover have "tq_timers (timerqueues ?w' ?L) = []" using w1(3) by (simp add: tq_entries_def)
  moreover have "timer_world.more ?w' = timer_world.more w" using w1(8) by (cases w; cases w1; simp)
  moreover from w1(9) obtain op g ev p r op' g' ev' p' r' where
    h: "hist w1 = hist w @ [Epoll_ctl (nt_epollfd t) op g ev p r, Epoll_ctl (nt_epollfd t) op' g' ev' p' r']"
    by (auto simp: loop_added_def)
  have "interest (hist w1) e = interest (hist w) e" if "e \<noteq> nt_epollfd t" for e
    using that by (cases r; cases r'; simp add: h)
  moreover have "open_conns (hist w1) = open_conns (hist w)" by (simp add: h)
  ultimately show ?thesis
    using w1(4-7,9) by (intro exI [of _ ?w']) (simp add: loop_added_def)
qed

lemma new_loop_ready:
  fixes w :: "'w conn_world_scheme"
  assumes os: "kernel_ok os" and ready: "loops_ready S w" and fresh: "thread_fresh S w t" and t: "threads name = t"
  shows "\<exists>w'. EventLoopThread_startLoop os None threads name w = Inr (nt_loop t, w') \<and> loops_ready (add_thread t S) w' \<and>
    conn_world.more w' = conn_world.more w \<and> (\<forall>u. thread_fresh S w u \<longrightarrow> threads_apart t u \<longrightarrow> thread_fresh (add_thread t S) w' u) \<and>
    (\<forall>q. q \<noteq> nt_wakeupChannel t \<longrightarrow> q \<noteq> nt_timerChannel t \<longrightarrow> chans w' q = chans w q)"
proof -
  let ?S = "add_thread t S" and ?L = "nt_loop t"
  let ?ct = "reading_channel ?L (nt_timerfd t) (Bind_TimerQueue_handleRead ?L)"
    and ?cw = "reading_channel ?L (nt_wakeupFd t) (Bind_EventLoop_handleRead ?L)"
  note r = loops_readyD [OF ready] and f = fresh [unfolded thread_fresh_def]
  from EventLoopThread_startLoop_ok [where threads = threads, OF os fresh t] obtain w' where
    w': "EventLoopThread_startLoop os None threads name w = Inr (?L, w')"
      "poller_inv ?L w'" "lp_pendingFunctors (loops w' ?L) = []" "\<not> lp_quit (loops w' ?L)"
      "tq_timers (timerqueues w' ?L) = []" "lp_wakeupFd (loops w' ?L) = nt_wakeupFd t"
      "chans w' = (chans w)(nt_timerChannel t \<mapsto> ?ct, nt_wakeupChannel t \<mapsto> ?cw)"
      "\<forall>M. M \<noteq> ?L \<longrightarrow> pollers w' M = pollers w M \<and> loops w' M = loops w M \<and> timerqueues w' M = timerqueues w M"
      "po_epollfd (pollers w' ?L) = nt_epollfd t" "lp_threadId (loops w' ?L) = nt_tid t"
      "current_tid w' = current_tid w" "t_loopInThisThread w' = (t_loopInThisThread w)(nt_tid t \<mapsto> ?L)"
      "\<forall>e. e \<noteq> nt_epollfd t \<longrightarrow> interest (hist w') e = interest (hist w) e"
      "open_conns (hist w') = open_conns (hist w)" "timer_world.more w' = timer_world.more w" by blast
  have ne: "M \<noteq> ?L" if "M \<in> set (st_loops S)" for M using f that by blast
  have old: "chans w q = Some ch \<and> ch_loop ch \<noteq> ?L \<or> q = nt_timerChannel t \<and> ch = ?ct \<or> q = nt_wakeupChannel t \<and> ch = ?cw"
    if "chans w' q = Some ch" for q ch
    using that f by (auto simp: w'(7) split: if_splits)
  have "poller_inv M w'" if M: "M \<in> set (st_loops S)" for M
  proof (rule poller_inv_other [OF loop_wfD(1) [OF r(6) [OF M]]])
    show "pollers w' M = pollers w M" using w'(8) ne [OF M] by blast
    show "interest (hist w') (po_epollfd (pollers w M)) = interest (hist w) (po_epollfd (pollers w M))"
      using w'(13) f M by blast
    show "(chans w' q = Some ch) = (chans w q = Some ch)" if "ch_loop ch = M" for q ch
      using that ne [OF M] f by (auto simp: w'(7) reading_channel_base(1))
  qed
  then have old_wf: "loop_wf ?S M w'" if "M \<in> set (st_loops S)" for M
    using loop_wfD [OF r(6) [OF that]] w'(8) ne [OF that] that by (simp add: loop_wf_def)
  have new_wf: "loop_wf ?S ?L w'" using w'(2-6) by (simp add: loop_wf_def thread_fds_def)
  have base: "base_chan ?S ?ct" "base_chan ?S ?cw"
    by (auto intro: reading_channel_base(3,4) simp: thread_fds_def)
  have fds: "base_chan S ch" "ch_fd ch \<in> st_fds S" if "chans w q = Some ch" "ch_loop ch \<in> set (st_loops S)" for q ch
    using r(9) [OF that] by (simp_all add: base_chan_def)
  have "base_chan ?S ch" if "chans w' q = Some ch" "ch_loop ch \<in> set (st_loops ?S)" for q ch
    using old [OF that(1)] that(2) base fds(1) base_chan_mono [of S ch ?S] by auto
  moreover have "p = q" if p: "chans w' p = Some ch" "chans w' q = Some dh" "ch_loop ch \<in> set (st_loops ?S)"
      "ch_loop dh \<in> set (st_loops ?S)" "ch_fd ch = ch_fd dh" for p q ch dh
  proof -
    have "nt_timerfd t \<notin> st_fds S" "nt_wakeupFd t \<notin> st_fds S" "nt_timerfd t \<noteq> nt_wakeupFd t"
      using f by (auto simp: thread_fds_def)
    then show ?thesis
      using old [OF p(1)] old [OF p(2)] p(3-5) fds(2) [of p ch] fds(2) [of q dh] r(10) [of p ch q dh]
      by (auto simp: reading_channel_base(1,2))
  qed
  moreover have "loops_apart ?S w'"
    using r(8) w'(8-10) f ne unfolding loops_apart_def by auto
  moreover have "conns w' = conns w" "conn_world.more w' = conn_world.more w" using w'(15) by (cases w; cases w'; simp)+
  moreover have "isInLoopThread (st_base S) w'" using r(2) w'(8,11) ne [OF r(1)] by (simp add: isInLoopThread_def)
  moreover have "lp_pendingFunctors (loops w' M) = []" if "M \<in> set (st_loops ?S)" for M
    using that r(7) w'(3,8) by (cases "M = ?L") auto
  moreover have "finite (dom (chans w'))" using r(3) by (simp add: w'(7))
  ultimately have "loops_ready ?S w'"
    using r(1,4,5) w'(14) old_wf new_wf unfolding loops_ready_def by simp
  moreover have "thread_fresh ?S w' u" if u: "thread_fresh S w u" "threads_apart t u" for u
    unfolding thread_fresh_def
  proof (intro conjI)
    note f' = u(1) [unfolded thread_fresh_def] and a = u(2) [unfolded threads_apart_def]
    show "nt_loop u \<notin> set (st_loops ?S)" "t_loopInThisThread w' (nt_tid u) = None" "thread_fds u \<inter> st_fds ?S = {}"
      "nt_timerfd u \<noteq> nt_wakeupFd u" "nt_wakeupChannel u \<noteq> nt_timerChannel u" "interest (hist w') (nt_epollfd u) = Map.empty"
      "chans w' (nt_wakeupChannel u) = None" "chans w' (nt_timerChannel u) = None"
      using f' a w'(7,12,13) by auto
    show "\<forall>M \<in> set (st_loops ?S). lp_threadId (loops w' M) \<noteq> nt_tid u \<and> po_epollfd (pollers w' M) \<noteq> nt_epollfd u"
      using f' a w'(8-10) ne by auto
    show "\<forall>p ch. chans w' p = Some ch \<longrightarrow> ch_loop ch \<noteq> nt_loop u"
      using f' a w'(7) by (auto simp: reading_channel_base(1) split: if_splits)
  qed
  ultimately show ?thesis
    using w'(1,7) \<open>conn_world.more w' = conn_world.more w\<close> by (intro exI [of _ w']) auto
qed

text \<open>All threads of a pool, one after the other.\<close>

lemma start_threads_ready:
  fixes w :: "'w conn_world_scheme"
  assumes os: "kernel_ok os"
  shows "loops_ready S w \<Longrightarrow> ts = map (\<lambda>i. threads (thread_name pl i)) xs \<Longrightarrow> sorted_wrt threads_apart ts \<Longrightarrow>
      \<forall>t \<in> set ts. thread_fresh S w t \<Longrightarrow>
    \<exists>w'. foldE (start_thread (EventLoopThread_startLoop os None threads)) xs (pl, w) =
        Inr (pl\<lparr>pl_threads := pl_threads pl @ map (thread_name pl) xs, pl_loops := pl_loops pl @ map nt_loop ts\<rparr>, w') \<and>
      loops_ready (fold add_thread ts S) w' \<and> conn_world.more w' = conn_world.more w \<and>
      (\<forall>q. chans w q \<noteq> None \<longrightarrow> chans w' q = chans w q)"
proof (induction xs arbitrary: ts S pl w)
  case (Cons i xs)
  let ?t = "threads (thread_name pl i)" and ?ts = "map (\<lambda>i. threads (thread_name pl i)) xs"
  have ts: "ts = ?t # ?ts" using Cons.prems(2) by simp
  have t: "thread_fresh S w ?t" "\<forall>u \<in> set ?ts. thread_fresh S w u" "\<forall>u \<in> set ?ts. threads_apart ?t u"
    "sorted_wrt threads_apart ?ts" using Cons.prems(3,4) unfolding ts by simp_all
  from new_loop_ready [where threads = threads, OF os Cons.prems(1) t(1) refl] obtain w1 where
    w1: "EventLoopThread_startLoop os None threads (thread_name pl i) w = Inr (nt_loop ?t, w1)"
      "loops_ready (add_thread ?t S) w1" "conn_world.more w1 = conn_world.more w"
      "\<forall>u. thread_fresh S w u \<longrightarrow> threads_apart ?t u \<longrightarrow> thread_fresh (add_thread ?t S) w1 u"
      "\<forall>q. q \<noteq> nt_wakeupChannel ?t \<longrightarrow> q \<noteq> nt_timerChannel ?t \<longrightarrow> chans w1 q = chans w q" by blast
  let ?pl = "pl\<lparr>pl_threads := pl_threads pl @ [thread_name pl i], pl_loops := pl_loops pl @ [nt_loop ?t]\<rparr>"
  have same: "thread_name ?pl = thread_name pl" by (simp add: thread_name_def fun_eq_iff)
  have "\<forall>u \<in> set ?ts. thread_fresh (add_thread ?t S) w1 u" using t(2,3) w1(4) by blast
  from Cons.IH [OF w1(2) _ t(4) this, of ?pl, unfolded same] obtain w' where
    w': "foldE (start_thread (EventLoopThread_startLoop os None threads)) xs (?pl, w1) =
        Inr (?pl\<lparr>pl_threads := pl_threads ?pl @ map (thread_name pl) xs, pl_loops := pl_loops ?pl @ map nt_loop ?ts\<rparr>, w')"
      "loops_ready (fold add_thread ?ts (add_thread ?t S)) w'" "conn_world.more w' = conn_world.more w1"
      "\<forall>q. chans w1 q \<noteq> None \<longrightarrow> chans w' q = chans w1 q" by blast
  have "chans w' q = chans w q" if "chans w q \<noteq> None" for q
  proof -
    have "q \<noteq> nt_wakeupChannel ?t" "q \<noteq> nt_timerChannel ?t" using t(1) that by (auto simp: thread_fresh_def)
    then have "chans w1 q = chans w q" using w1(5) by blast
    then show ?thesis using w'(4) that by simp
  qed
  then have "\<forall>q. chans w q \<noteq> None \<longrightarrow> chans w' q = chans w q" by blast
  moreover have "start_thread (EventLoopThread_startLoop os None threads) i (pl, w) = Inr (?pl, w1)"
    using w1(1) by (simp add: start_thread_def)
  ultimately show ?case
    using w1(3) w'(1-3) unfolding ts by (intro exI [of _ w'] conjI) simp_all
qed simp

lemma fold_add_thread:
  "fold add_thread ts S = S\<lparr>st_fds := st_fds S \<union> (\<Union>t \<in> set ts. thread_fds t), st_loops := st_loops S @ map nt_loop ts\<rparr>"
  by (induction ts arbitrary: S) (simp_all add: add_thread_def Un_ac)

lemma thread_fresh_frame:
  assumes "thread_fresh S w t" "loops w' = loops w" "pollers w' = pollers w" "chans w' = chans w"
    "interest (hist w') = interest (hist w)" "t_loopInThisThread w' = t_loopInThisThread w"
  shows "thread_fresh S w' t"
  using assms by (simp add: thread_fresh_def)

subsection \<open>The listening socket\<close>

abbreviation (input) listening_channel :: "loop_ptr \<Rightarrow> fd \<Rightarrow> server_ptr \<Rightarrow> channel" where
  "listening_channel L f s \<equiv> (Channel_new L f)\<lparr>ch_readCallback := Some (Bind_Acceptor_handleRead s)\<rparr>"

abbreviation (input) with_fd :: "fd \<Rightarrow> site \<Rightarrow> site" where
  "with_fd f S \<equiv> S\<lparr>st_fds := insert f (st_fds S)\<rparr>"

text \<open>The acceptor adds its channel to the base loop.\<close>

lemma listening_added:
  fixes w :: "'w conn_world_scheme"
  assumes ready: "loops_ready S w" and p: "chans w p = None" and f: "f \<notin> st_fds S"
  shows "loops_ready (with_fd f S) (w\<lparr>chans := (chans w)(p \<mapsto> listening_channel (st_base S) f (st_server S))\<rparr>)"
proof -
  let ?ch = "listening_channel (st_base S) f (st_server S)" and ?S = "with_fd f S"
  let ?w = "w\<lparr>chans := (chans w)(p \<mapsto> ?ch)\<rparr>"
  note r = loops_readyD [OF ready]
  have ch: "ch_loop ?ch = st_base S" "ch_fd ?ch = f" "ch_index ?ch = kNew" by (simp_all add: kNew_def)
  have base: "base_chan ?S ?ch" by (simp add: base_chan_def Channel_new_def)
  have fds: "ch_fd ch \<noteq> f" if "chans w q = Some ch" "ch_loop ch \<in> set (st_loops S)" for q ch
    using r(9) [OF that] f by (auto simp: base_chan_def)
  show ?thesis
  proof (rule loops_readyI)
    fix M assume "M \<in> set (st_loops ?S)"
    then have M: "M \<in> set (st_loops S)" by simp
    have "poller_inv M ?w" by (rule poller_inv_new_chan [OF loop_wfD(1) [OF r(6) [OF M]] p ch(3)])
    then show "loop_wf ?S M ?w" using loop_wfD [OF r(6) [OF M]] by (simp add: loop_wf_def)
    show "lp_pendingFunctors (loops ?w M) = []" using r(7) [OF M] by simp
  next
    fix q ch assume "chans ?w q = Some ch" "ch_loop ch \<in> set (st_loops ?S)"
    then show "base_chan ?S ch"
      using base r(9) [of q ch] base_chan_mono [of S ch ?S] by (auto split: if_splits)
  next
    fix x y ch dh assume xy: "chans ?w x = Some ch" "chans ?w y = Some dh" "ch_loop ch \<in> set (st_loops ?S)"
      "ch_loop dh \<in> set (st_loops ?S)" "ch_fd ch = ch_fd dh"
    then have lp: "ch_loop ch \<in> set (st_loops S)" "ch_loop dh \<in> set (st_loops S)" by simp_all
    consider "x = p" "y = p" | "x = p" "y \<noteq> p" "ch = ?ch" "chans w y = Some dh"
      | "x \<noteq> p" "y = p" "dh = ?ch" "chans w x = Some ch" | "x \<noteq> p" "y \<noteq> p" "chans w x = Some ch" "chans w y = Some dh"
      using xy(1,2) by (auto split: if_splits)
    then show "x = y"
    proof cases
      case 2
      then show ?thesis using fds [OF 2(4) lp(2)] xy(5) ch(2) by simp
    next
      case 3
      then show ?thesis using fds [OF 3(4) lp(1)] xy(5) ch(2) by simp
    next
      case 4
      from r(10) [OF 4(3,4) lp xy(5)] show ?thesis .
    qed simp
  qed (use r(1-5,8) in \<open>simp_all add: isInLoopThread_def loops_apart_def\<close>)
qed

text \<open>\<open>Acceptor::listen\<close> enables it.\<close>

lemma listening_enabled:
  fixes w :: "'w conn_world_scheme"
  assumes os: "kernel_ok os" and ready: "loops_ready S w"
    and ch: "chans w p = Some (listening_channel (st_base S) f (st_server S))" "f \<in> st_fds S"
  shows "\<exists>w'. Channel_enableReading os p w = Inr w' \<and> loops_ready S w' \<and> conn_world.more w' = conn_world.more w \<and>
    interest (hist w') (po_epollfd (pollers w' (st_base S))) f = Some (kReadEvent, p)"
proof -
  let ?ch = "listening_channel (st_base S) f (st_server S)" and ?B = "st_base S"
  note r = loops_readyD [OF ready]
  have new: "ch_loop ?ch = ?B" "ch_index ?ch = kNew" "ch_events ?ch = 0" "ch_fd ?ch = f" by (simp_all add: kNew_def)
  note inv = loop_wfD(1) [OF r(6) [OF r(1)]]
  have free: "po_channels (pollers w ?B) (ch_fd ?ch) = None"
  proof (rule ccontr)
    assume "\<not> ?thesis"
    then obtain q where q: "po_channels (pollers w ?B) f = Some q" using new(4) by auto
    from poller_invD(1) [OF inv q] obtain qh where qh: "chans w q = Some qh" "ch_loop qh = ?B" "ch_fd qh = f" by blast
    from r(10) [OF qh(1) ch(1)] qh(2,3) r(1) have "q = p" by simp
    with q poller_invD(2) [OF inv ch(1) new(1)] show False by (simp add: chan_ok_def kIndex_defs)
  qed
  from register_ok [OF kernel_okD(1,5) [OF os] inv ch(1) new(1-3) free] obtain w' where
    w': "Channel_enableReading os p w = Inr w'" "poller_inv ?B w'"
      "chans w' = (chans w)(p \<mapsto> Channel_set_index kAdded (add_events kReadEvent ?ch))"
      "poller_world.more w' = poller_world.more w" "interest (hist w') (po_epollfd (pollers w ?B)) f = Some (kReadEvent, p)"
    unfolding new(4) by auto
  note fr = loop_frameD [OF w'(4)] conn_frameD [OF w'(4)] timer_frameD [OF w'(4)]
  have u: "Channel_update os p (upd_chan p (add_events kReadEvent) w) = Inr w'"
    using w'(1) by (simp add: Channel_enableReading_def)
  have loc: "conn_local ?B c p f w w'" for c
    by (rule conn_local_Channel_update(1) [OF u ch(1)]) (simp_all add: add_events_def)
  have pin: "poller_inv M w'" if M: "M \<in> set (st_loops S)" for M
  proof (cases "M = ?B")
    case False
    show ?thesis
      by (rule conn_local_poller_other [OF loc loop_wfD(1) [OF r(6) [OF M]] False])
        (use r(1,8) M False ch(1) w'(3) in \<open>auto simp: loops_apart_def Channel_set_index_def add_events_def\<close>)
  qed (use w'(2) in simp)
  have ep: "po_epollfd (pollers w' M) = po_epollfd (pollers w M)" for M
    using loc by (cases "M = ?B") (simp_all add: conn_local_def)
  have old: "\<exists>dh. chans w q = Some dh \<and> ch_loop dh = ch_loop qh \<and> ch_fd dh = ch_fd qh \<and> base_chan S qh = base_chan S dh"
    if "chans w' q = Some qh" for q qh
    using that ch(1) by (auto simp: w'(3) Channel_set_index_def add_events_def base_chan_def split: if_splits)
  have "loops_ready S w'"
  proof (rule loops_readyI)
    fix M assume M: "M \<in> set (st_loops S)"
    show "loop_wf S M w'" using loop_wfD [OF r(6) [OF M]] pin [OF M] fr by (simp add: loop_wf_def)
    show "lp_pendingFunctors (loops w' M) = []" using r(7) [OF M] fr by simp
  next
    fix q qh assume q: "chans w' q = Some qh" "ch_loop qh \<in> set (st_loops S)"
    from old [OF q(1)] obtain dh where "chans w q = Some dh" "ch_loop dh = ch_loop qh" "base_chan S qh = base_chan S dh" by blast
    then show "base_chan S qh" using r(9) [of q dh] q(2) by simp
  next
    fix x y xh yh assume xy: "chans w' x = Some xh" "chans w' y = Some yh" "ch_loop xh \<in> set (st_loops S)"
      "ch_loop yh \<in> set (st_loops S)" "ch_fd xh = ch_fd yh"
    from old [OF xy(1)] obtain dh where x: "chans w x = Some dh" "ch_loop dh = ch_loop xh" "ch_fd dh = ch_fd xh" by blast
    from old [OF xy(2)] obtain eh where y: "chans w y = Some eh" "ch_loop eh = ch_loop yh" "ch_fd eh = ch_fd yh" by blast
    show "x = y" by (rule r(10) [OF x(1) y(1)]) (use x(2,3) y(2,3) xy(3-5) in simp_all)
  next
    show "isInLoopThread (st_base S) w'" "loops_apart S w'" "conns w' = Map.empty" "finite (dom (chans w'))"
      using r(2-4,8) fr ep by (simp_all add: isInLoopThread_def loops_apart_def w'(3))
    show "open_conns (hist w') = {}" using r(5) loc by (simp add: conn_local_def)
  qed (rule r(1))
  then show ?thesis using w'(1,5) fr(7) ep by auto
qed

subsection \<open>The server\<close>

text \<open>What is asked of \<open>socket\<close>, \<open>bind\<close> and \<open>listen\<close>, which end the program when they fail.\<close>

definition listens :: "os \<Rightarrow> fd set \<Rightarrow> sockaddr \<Rightarrow> bool" where
  "listens os B addr \<longleftrightarrow> (\<forall>h. \<exists>f. os_socket os h = Inr f \<and> f \<notin> B) \<and>
     (\<forall>h f. os_bind os h f addr = Inr ()) \<and> (\<forall>h f. os_listen os h f = Inr ())"

text \<open>A server as its constructor leaves it, with \<open>n\<close> threads and its callbacks set.\<close>

definition server_set_up :: "site \<Rightarrow> sockaddr \<Rightarrow> string \<Rightarrow> nat \<Rightarrow> fd \<Rightarrow> chan_ptr \<Rightarrow> 'w server_world_scheme \<Rightarrow> bool" where
  "server_set_up S addr name n f p w \<longleftrightarrow>
     (\<exists>sv. servers w (st_server S) = Some sv \<and> sv_loop sv = st_base S \<and> sv_ipPort sv = toIpPort addr \<and>
        sv_pool sv = EventLoopThreadPool_setThreadNum (of_nat n) (EventLoopThreadPool_new (st_base S) name) \<and>
        sv_connectionCallback sv \<noteq> None \<and> sv_messageCallback sv \<noteq> None \<and> sv_threadInitCallback sv = None \<and>
        sv_started sv = 0 \<and> sv_nextConnId sv = 1 \<and> sv_connections sv = Map.empty) \<and>
     acceptors w (st_server S) = Some \<lparr>ac_loop = st_base S, ac_socket = f, ac_channel = p,
       ac_newConnectionCallback = Some (st_server S), ac_listenning = False\<rparr> \<and>
     chans w p = Some (listening_channel (st_base S) f (st_server S)) \<and> f \<in> st_fds S"

lemma server_constructed:
  fixes w :: "'w server_world_scheme"
  assumes os: "kernel_ok os" "listens os B addr" "os_socket os (hist w) = Inr f" "f \<notin> st_fds S"
    and ready: "loops_ready S w" and p: "chans w p = None" and s: "s = st_server S"
  shows "\<exists>w'. TcpServer_ctor os s p (Some (st_base S)) addr name opt w = Inr w' \<and>
    (\<forall>n cc mc w''. w'' = TcpServer_setThreadNum s (of_nat n)
        (TcpServer_setMessageCallback s mc (TcpServer_setConnectionCallback s cc w')) \<longrightarrow>
      loops_ready (with_fd f S) w'' \<and> server_set_up (with_fd f S) addr name n f p w'' \<and>
      (\<forall>t. thread_fresh S w t \<longrightarrow> f \<notin> thread_fds t \<longrightarrow> p \<notin> {nt_wakeupChannel t, nt_timerChannel t} \<longrightarrow>
         thread_fresh (with_fd f S) w'' t))"
proof -
  let ?L = "st_base S"
  let ?ch = "listening_channel ?L f s"
  let ?a = "\<lparr>ac_loop = ?L, ac_socket = f, ac_channel = p, ac_newConnectionCallback = Some s, ac_listenning = False\<rparr>"
  let ?sv = "\<lparr>sv_loop = ?L, sv_ipPort = toIpPort addr, sv_name = name, sv_pool = EventLoopThreadPool_new ?L name,
    sv_connectionCallback = None, sv_messageCallback = None, sv_writeCompleteCallback = None,
    sv_threadInitCallback = None, sv_started = 0, sv_nextConnId = 1, sv_connections = Map.empty\<rparr>"
  let ?es = "[Socket (Inr f), Setsockopt f SO_REUSEADDR True, Setsockopt f SO_REUSEPORT True, Bind f addr (Inr ())]"
  let ?w1 = "w\<lparr>hist := hist w @ ?es, chans := (chans w)(p \<mapsto> ?ch), acceptors := (acceptors w)(s \<mapsto> ?a),
    servers := (servers w)(s \<mapsto> ?sv)\<rparr>"
  have ctor: "TcpServer_ctor os s p (Some ?L) addr name opt w = Inr ?w1"
    using os(2,3)
    by (simp add: TcpServer_ctor_def CheckLoopNotNull_def Acceptor_ctor_def Acceptor_createNonblocking_def
        Socket_bindAddress_def Socket_setReuseAddr_def Socket_setReusePort_def sys_socket_def sys_bind_def
        sys_setsockopt_def listens_def Acceptor_setNewConnectionCallback_def upd_acceptor_def Let_def)
  have rest: "loops_ready (with_fd f S) w2 \<and> server_set_up (with_fd f S) addr name n f p w2 \<and>
      (\<forall>t. thread_fresh S w t \<longrightarrow> f \<notin> thread_fds t \<longrightarrow> p \<notin> {nt_wakeupChannel t, nt_timerChannel t} \<longrightarrow>
         thread_fresh (with_fd f S) w2 t)"
    if w2: "w2 = TcpServer_setThreadNum s (of_nat n)
        (TcpServer_setMessageCallback s mc (TcpServer_setConnectionCallback s cc ?w1))" for n cc mc w2
  proof (intro conjI allI impI)
    let ?w0 = "w\<lparr>chans := (chans w)(p \<mapsto> ?ch)\<rparr>"
    have eqs: "chans w2 = chans ?w0" "conns w2 = conns ?w0" "pollers w2 = pollers ?w0" "loops w2 = loops ?w0"
      "interest (hist w2) = interest (hist ?w0)" "open_conns (hist w2) = open_conns (hist ?w0)"
      "current_tid w2 = current_tid ?w0" "timerqueues w2 = timerqueues ?w0" "t_loopInThisThread w2 = t_loopInThisThread ?w0"
      by (simp_all add: w2 TcpServer_setThreadNum_def TcpServer_setMessageCallback_def TcpServer_setConnectionCallback_def
          upd_server_def fun_eq_iff)
    show "loops_ready (with_fd f S) w2"
      by (rule loops_ready_frame [OF listening_added [OF ready p os(4)]]) (simp_all add: eqs(1-8) s)
    show "server_set_up (with_fd f S) addr name n f p w2"
      by (simp add: server_set_up_def w2 s TcpServer_setThreadNum_def TcpServer_setMessageCallback_def
          TcpServer_setConnectionCallback_def upd_server_def EventLoopThreadPool_setThreadNum_def EventLoopThreadPool_new_def)
    show "thread_fresh (with_fd f S) w2 t"
      if "thread_fresh S w t" "f \<notin> thread_fds t" "p \<notin> {nt_wakeupChannel t, nt_timerChannel t}" for t
      using that loops_readyD(1) [OF ready] eqs unfolding thread_fresh_def by auto
  qed
  show ?thesis by (intro exI [of _ ?w1] conjI ctor allI impI rest)
qed

lemma sint_of_nat_small: "n < 2 ^ 31 \<Longrightarrow> sint (of_nat n :: int32) = int n"
  by (simp add: signed_of_nat signed_take_bit_int_eq_self)

text \<open>\<open>start()\<close>: the threads, then the listening socket.\<close>

lemma server_started:
  fixes w :: "'w client_world_scheme"
  assumes os: "kernel_ok os" "listens os B addr" and ready: "loops_ready S w" and n: "n < 2 ^ 31"
    and up: "server_set_up S addr name n f p w" and k: "k < 2 ^ 31 - 1"
    and ts: "ts = map (\<lambda>i. threads (thread_name (EventLoopThreadPool_new L name) i)) [0 ..< n]"
      "sorted_wrt threads_apart ts" "\<forall>t \<in> set ts. thread_fresh S w t"
  shows "\<exists>w'. TcpServer_start os env (EventLoopThread_startLoop os None threads) (st_server S) w = Inr w' \<and>
    server_sys (fold add_thread ts S) (st_base S) k no_functors no_functors w' \<and>
    interest (hist w') (po_epollfd (pollers w' (st_base S))) f = Some (kReadEvent, p)"
proof -
  let ?s = "st_server S" and ?S = "fold add_thread ts S"
  let ?a = "\<lparr>ac_loop = st_base S, ac_socket = f, ac_channel = p, ac_newConnectionCallback = Some ?s, ac_listenning = False\<rparr>"
  from up obtain sv where sv: "servers w ?s = Some sv" "sv_loop sv = st_base S" "sv_ipPort sv = toIpPort addr"
      "sv_pool sv = EventLoopThreadPool_setThreadNum (of_nat n) (EventLoopThreadPool_new (st_base S) name)"
      "sv_connectionCallback sv \<noteq> None" "sv_messageCallback sv \<noteq> None" "sv_threadInitCallback sv = None"
      "sv_started sv = 0" "sv_nextConnId sv = 1" "sv_connections sv = Map.empty"
    and ac: "acceptors w ?s = Some ?a" "chans w p = Some (listening_channel (st_base S) f ?s)" "f \<in> st_fds S"
    unfolding server_set_up_def by blast
  let ?w1 = "upd_server ?s (\<lambda>sv. sv\<lparr>sv_started := sv_started sv + 1\<rparr>) w"
  let ?pl = "(sv_pool sv)\<lparr>pl_started := True\<rparr>"
  have r1: "loops_ready S ?w1" by (rule loops_ready_frame [OF ready]) (simp_all add: upd_server_def)
  have ts1: "ts = map (\<lambda>i. threads (thread_name ?pl i)) [0 ..< n]"
    by (simp add: ts(1) sv(4) thread_name_def EventLoopThreadPool_setThreadNum_def EventLoopThreadPool_new_def)
  have fresh1: "\<forall>t \<in> set ts. thread_fresh S ?w1 t"
    using ts(3) thread_fresh_frame [of S w _ ?w1] by (simp add: upd_server_def)
  from start_threads_ready [OF os(1) r1 ts1 ts(2) fresh1] obtain w2 where
    w2: "foldE (start_thread (EventLoopThread_startLoop os None threads)) [0 ..< n] (?pl, ?w1) =
        Inr (?pl\<lparr>pl_threads := pl_threads ?pl @ map (thread_name ?pl) [0 ..< n], pl_loops := pl_loops ?pl @ map nt_loop ts\<rparr>, w2)"
      "loops_ready ?S w2" "conn_world.more w2 = conn_world.more ?w1" "\<forall>q. chans ?w1 q \<noteq> None \<longrightarrow> chans w2 q = chans ?w1 q"
    by blast
  let ?pl2 = "?pl\<lparr>pl_threads := pl_threads ?pl @ map (thread_name ?pl) [0 ..< n], pl_loops := pl_loops ?pl @ map nt_loop ts\<rparr>"
  have num: "nat (sint (pl_numThreads (sv_pool sv))) = n"
    using n by (simp add: sv(4) EventLoopThreadPool_setThreadNum_def sint_of_nat_small)
  have pool: "EventLoopThreadPool_start (EventLoopThread_startLoop os None threads) None (sv_pool sv) ?w1 = Inr (?pl2, w2)"
    using w2(1) by (simp add: EventLoopThreadPool_start_def num)
  let ?w3 = "upd_server ?s (\<lambda>sv. sv\<lparr>sv_pool := ?pl2\<rparr>) w2"
  have srv2: "servers w2 = servers ?w1" "acceptors w2 = acceptors ?w1" using server_frameD [OF w2(3)] by simp_all
  let ?w4 = "?w3\<lparr>acceptors := (acceptors w2)(?s \<mapsto> ?a\<lparr>ac_listenning := True\<rparr>), hist := hist w2 @ [Listen f (Inr ())]\<rparr>"
  have chan: "chans w2 p = Some (listening_channel (st_base ?S) f (st_server ?S))" "f \<in> st_fds ?S"
    using w2(4) ac(2,3) by (simp_all add: fold_add_thread upd_server_def)
  have r4: "loops_ready ?S ?w4" by (rule loops_ready_frame [OF w2(2)]) (simp_all add: upd_server_def fun_eq_iff)
  have "chans ?w4 p = Some (listening_channel (st_base ?S) f (st_server ?S))" using chan(1) by (simp add: upd_server_def)
  from listening_enabled [OF os(1) r4 this chan(2)] obtain w5 where
    w5: "Channel_enableReading os p ?w4 = Inr w5" "loops_ready ?S w5" "conn_world.more w5 = conn_world.more ?w4"
      "interest (hist w5) (po_epollfd (pollers w5 (st_base ?S))) f = Some (kReadEvent, p)" by blast
  have here: "isInLoopThread (st_base S) ?w3"
    using loops_readyD(2) [OF w2(2)] by (simp add: fold_add_thread isInLoopThread_def upd_server_def)
  have listen: "Acceptor_listen os ?s ?w3 = Inr w5"
    using w5(1) os(2) ac(1) srv2
    by (simp add: Acceptor_listen_def Socket_listen_def sys_listen_def listens_def upd_acceptor_def upd_server_def Let_def)
  have "TcpServer_start os env (EventLoopThread_startLoop os None threads) ?s w = Inr w5"
    using pool listen here by (simp add: TcpServer_start_def sv(1,2,7,8) EventLoop_runInLoop_def Let_def)
  moreover have "server_sys ?S (st_base ?S) k no_functors no_functors w5"
  proof (rule ready_sys [OF w5(2)])
    let ?sv5 = "sv\<lparr>sv_started := 1, sv_pool := ?pl2\<rparr>"
    show "servers w5 (st_server ?S) = Some ?sv5"
      using server_frameD [OF w5(3)] srv2 sv(1,8) by (simp add: fold_add_thread upd_server_def)
    show "acceptors w5 (st_server ?S) = Some (?a\<lparr>ac_listenning := True\<rparr>)"
      using server_frameD [OF w5(3)] by (simp add: fold_add_thread upd_server_def)
    have len: "length ts = n" by (simp add: ts(1))
    show "pool_inv (sv_pool ?sv5)"
      using n len by (auto simp: pool_inv_def sv(4) EventLoopThreadPool_setThreadNum_def EventLoopThreadPool_new_def)
    show "set (pl_loops (sv_pool ?sv5)) \<subseteq> set (st_loops ?S)" "pl_baseLoop (sv_pool ?sv5) = st_base ?S"
      by (simp_all add: sv(4) fold_add_thread EventLoopThreadPool_setThreadNum_def EventLoopThreadPool_new_def)
    show "sint (sv_nextConnId ?sv5) + int k < 2 ^ 31" using k by (simp add: sv(9))
  qed (simp_all add: sv fold_add_thread)
  ultimately show ?thesis using w5(4) by (simp add: fold_add_thread)
qed

subsection \<open>From nothing to a listening server\<close>

text \<open>A process that has made neither loops nor channels, and waits for nothing.\<close>

definition blank_process :: "'w conn_world_scheme \<Rightarrow> bool" where
  "blank_process w \<longleftrightarrow> chans w = Map.empty \<and> conns w = Map.empty \<and> t_loopInThisThread w = Map.empty \<and>
     (\<forall>e. interest (hist w) e = Map.empty) \<and> open_conns (hist w) = {}"

text \<open>What the threads of a server are given is all different; \<open>b\<close> is the thread of the base loop.\<close>

definition threads_ok :: "new_thread list \<Rightarrow> chan_ptr \<Rightarrow> bool" where
  "threads_ok ts p \<longleftrightarrow> sorted_wrt threads_apart ts \<and>
     list_all (\<lambda>t. nt_timerfd t \<noteq> nt_wakeupFd t \<and> nt_wakeupChannel t \<noteq> nt_timerChannel t \<and>
       p \<notin> {nt_wakeupChannel t, nt_timerChannel t}) ts"

definition pool_threads :: "(string \<Rightarrow> new_thread) \<Rightarrow> string \<Rightarrow> nat \<Rightarrow> new_thread list" where
  "pool_threads threads name n = map (\<lambda>i. threads (thread_name (EventLoopThreadPool_new 0 name) i)) [0 ..< n]"

definition threads_fds :: "new_thread list \<Rightarrow> fd set" where
  "threads_fds ts = (\<Union>t \<in> set ts. thread_fds t)"

definition server_site :: "server_ptr \<Rightarrow> fd \<Rightarrow> new_thread list \<Rightarrow> site" where
  "server_site s f ts = \<lparr>st_fds = insert f (threads_fds ts), st_server = s, st_base = nt_loop (hd ts), st_loops = map nt_loop ts\<rparr>"

lemma server_up:
  fixes w :: "'w client_world_scheme"
  assumes os: "kernel_ok os" "listens os (threads_fds (b # ts)) addr" and new: "blank_process w" "nt_tid b = current_tid w"
    and ts: "ts = pool_threads threads name n" "threads_ok (b # ts) p" and n: "n < 2 ^ 31" and k: "k < 2 ^ 31 - 1"
  shows "\<exists>w1 w2 w3 f. EventLoop_ctor os (nt_loop b) False (Inr (nt_epollfd b)) (Inr (nt_wakeupFd b)) (nt_timerfd b)
      (nt_wakeupChannel b) (nt_timerChannel b) w = Inr w1 \<and>
    TcpServer_ctor os s p (Some (nt_loop b)) addr name opt w1 = Inr w2 \<and>
    TcpServer_start os env (EventLoopThread_startLoop os None threads) s (TcpServer_setThreadNum s (of_nat n)
      (TcpServer_setMessageCallback s mc (TcpServer_setConnectionCallback s cc w2))) = Inr w3 \<and>
    os_socket os (hist w1) = Inr f \<and> server_sys (server_site s f (b # ts)) (nt_loop b) k no_functors no_functors w3 \<and>
    interest (hist w3) (po_epollfd (pollers w3 (nt_loop b))) f = Some (kReadEvent, p)"
proof -
  let ?L = "nt_loop b"
  let ?S = "\<lparr>st_fds = {nt_wakeupFd b, nt_timerfd b}, st_server = s, st_base = ?L, st_loops = [?L]\<rparr>"
  note nw = new(1) [unfolded blank_process_def]
  note tb = ts(2) [unfolded threads_ok_def]
  have b: "t_loopInThisThread w (current_tid w) = None" "interest (hist w) (nt_epollfd b) = Map.empty" "finite (dom (chans w))"
    "conns w = Map.empty" "open_conns (hist w) = {}" "chans w (nt_wakeupChannel b) = None" "chans w (nt_timerChannel b) = None"
    "nt_wakeupChannel b \<noteq> nt_timerChannel b" "nt_timerfd b \<noteq> nt_wakeupFd b"
    "p \<noteq> nt_wakeupChannel b" "p \<noteq> nt_timerChannel b" using nw tb by simp_all
  have none: "ch_loop ch \<noteq> ?L" if "chans w c = Some ch" for c ch using that nw by simp
  from loop_comes_up [where s = s, OF os(1) b(1) _ b(2-9)] none obtain w1 where
    w1: "EventLoop_ctor os ?L False (Inr (nt_epollfd b)) (Inr (nt_wakeupFd b)) (nt_timerfd b)
        (nt_wakeupChannel b) (nt_timerChannel b) w = Inr w1" "loops_ready ?S w1"
      "loop_added ?L (nt_epollfd b) w w1" "dom (chans w1) = dom (chans w) \<union> {nt_wakeupChannel b, nt_timerChannel b}"
      "\<forall>q ch. chans w1 q = Some ch \<longrightarrow> chans w q = Some ch \<or> ch_loop ch = ?L" by blast
  from os(2) obtain f where f: "os_socket os (hist w1) = Inr f" "f \<notin> threads_fds (b # ts)"
    unfolding listens_def by blast
  have dom1: "chans w1 q = None" if "q \<noteq> nt_wakeupChannel b" "q \<noteq> nt_timerChannel b" for q
  proof -
    have "dom (chans w) = {}" using nw by simp
    then have "q \<notin> dom (chans w1)" unfolding w1(4) using that by blast
    then show ?thesis by (simp add: domIff)
  qed
  have fresh: "thread_fresh ?S w1 t" if t: "t \<in> set ts" for t
  proof -
    from t tb have a: "threads_apart b t" "nt_timerfd t \<noteq> nt_wakeupFd t" "nt_wakeupChannel t \<noteq> nt_timerChannel t"
      by (auto simp: list_all_iff)
    note a' = a(1) [unfolded threads_apart_def thread_fds_def]
    note ad = w1(3) [unfolded loop_added_def]
    from ad obtain op g ev q r op' g' ev' q' r' where
      h: "hist w1 = hist w @ [Epoll_ctl (nt_epollfd b) op g ev q r, Epoll_ctl (nt_epollfd b) op' g' ev' q' r']" by blast
    have "interest (hist w1) (nt_epollfd t) = Map.empty"
      using a' nw by (cases r; cases r'; simp add: h)
    moreover have "t_loopInThisThread w1 (nt_tid t) = None" using ad a' nw new(2) by auto
    moreover have "chans w1 (nt_wakeupChannel t) = None" "chans w1 (nt_timerChannel t) = None"
      using a' by (intro dom1; blast)+
    moreover have "ch_loop ch \<noteq> nt_loop t" if "chans w1 q = Some ch" for q ch
      using w1(5) that nw a' by auto
    ultimately show ?thesis
      using a' a(2,3) ad new(2) unfolding thread_fresh_def by (auto simp: thread_fds_def)
  qed
  have "f \<notin> st_fds ?S" using f(2) by (simp add: threads_fds_def thread_fds_def)
  from server_constructed [where s = s and name = name and opt = opt, OF os f(1) this w1(2) dom1 [OF b(10,11)]] obtain w2 where
    w2: "TcpServer_ctor os s p (Some ?L) addr name opt w1 = Inr w2"
      "\<forall>n cc mc w''. w'' = TcpServer_setThreadNum s (of_nat n)
          (TcpServer_setMessageCallback s mc (TcpServer_setConnectionCallback s cc w2)) \<longrightarrow>
        loops_ready (with_fd f ?S) w'' \<and> server_set_up (with_fd f ?S) addr name n f p w'' \<and>
        (\<forall>t. thread_fresh ?S w1 t \<longrightarrow> f \<notin> thread_fds t \<longrightarrow> p \<notin> {nt_wakeupChannel t, nt_timerChannel t} \<longrightarrow>
          thread_fresh (with_fd f ?S) w'' t)" by auto
  let ?w2 = "TcpServer_setThreadNum s (of_nat n)
      (TcpServer_setMessageCallback s mc (TcpServer_setConnectionCallback s cc w2))"
  have up: "loops_ready (with_fd f ?S) ?w2" "server_set_up (with_fd f ?S) addr name n f p ?w2" using w2(2) by blast+
  have fresh2: "\<forall>t \<in> set ts. thread_fresh (with_fd f ?S) ?w2 t"
  proof
    fix t assume t: "t \<in> set ts"
    have "f \<notin> thread_fds t" "p \<notin> {nt_wakeupChannel t, nt_timerChannel t}"
      using t f(2) tb by (auto simp: threads_fds_def list_all_iff)
    then show "thread_fresh (with_fd f ?S) ?w2 t" using w2(2) fresh [OF t] by blast
  qed
  have "sorted_wrt threads_apart ts" using tb by simp
  from server_started [OF os up(1) n up(2) k _ this fresh2, where threads = threads and L = 0 and env = env] obtain w3 where
    "TcpServer_start os env (EventLoopThread_startLoop os None threads) s ?w2 = Inr w3"
    "server_sys (fold add_thread ts (with_fd f ?S)) ?L k no_functors no_functors w3"
    "interest (hist w3) (po_epollfd (pollers w3 ?L)) f = Some (kReadEvent, p)"
    using ts(1) by (auto simp: pool_threads_def)
  moreover have "fold add_thread ts (with_fd f ?S) = server_site s f (b # ts)"
    by (auto simp: fold_add_thread server_site_def threads_fds_def thread_fds_def)
  ultimately show ?thesis using w1(1) w2(1) f(1) by auto
qed

end
