(* ===== verification/ServerLoops.thy ===== *)
theory ServerLoops
  imports ServerStart
begin

section \<open>ServerLoops: the threads of a server, interleaved\<close>

text \<open>
  Every loop of a server runs in its own thread, and the threads take turns in any order: between two
  steps of one loop any number of steps of the others may happen.  A step is the poll, one callback of a
  channel, taking the queue of functors, one functor, the destruction of one functor; what a callback
  shares with another thread, the queue of a loop, is taken under a mutex, so within the steps nothing of
  another thread can be seen half done, apart from the fields of a connection that \<open>send\<close> and
  \<open>shutdown\<close> may read in a foreign thread, which no callback here does.
  \<open>server_turn\<close> is a round of one loop without interruption.
\<close>

subsection \<open>Where a loop stands\<close>

text \<open>
  In \<open>EventLoop::loop\<close>: before it sets its flags; before the condition of \<open>while\<close>; with the active channels
  it has still to handle; in \<open>doPendingFunctors\<close>, with the vector it took and the part of it that has not
  run; at its end, with the part of the vector that has not been destroyed; after the loop.
\<close>

datatype phase =
    Entering
  | Polling
  | Dispatching "chan_ptr list"
  | Running "closure list" "closure list"
  | Releasing "closure list"
  | Stopped

fun phase_holds :: "phase \<Rightarrow> closure list" where
  "phase_holds (Running hold todo) = hold"
| "phase_holds (Releasing hold) = hold"
| "phase_holds _ = []"

fun phase_runs :: "phase \<Rightarrow> closure list" where
  "phase_runs (Running hold todo) = todo"
| "phase_runs _ = []"

type_synonym phases = "loop_ptr \<Rightarrow> phase"

definition held_in :: "phases \<Rightarrow> queues" where
  "held_in ph M = phase_holds (ph M)"

definition todo_in :: "phases \<Rightarrow> queues" where
  "todo_in ph M = phase_runs (ph M)"

lemma phases_upd [simp]:
  "held_in (ph(L := x)) = (held_in ph)(L := phase_holds x)" "todo_in (ph(L := x)) = (todo_in ph)(L := phase_runs x)"
  by (simp_all add: held_in_def todo_in_def fun_eq_iff)

subsection \<open>A step of a loop\<close>

definition loop_step ::
  "os \<Rightarrow> alloc \<Rightarrow> ('w client_world_scheme) app \<Rightarrow> site \<Rightarrow> loop_ptr \<Rightarrow> phases \<times> 'w client_world_scheme
     \<Rightarrow> (phases \<times> 'w client_world_scheme) result" where
  "loop_step os al ap S L = (\<lambda>(ph, w0).
     let w = w0\<lparr>current_tid := lp_threadId (loops w0 L)\<rparr> in
     case ph L of
       Entering \<Rightarrow> Inr (ph(L := Polling), upd_loop L (\<lambda>l. l\<lparr>lp_looping := True, lp_quit := False\<rparr>) w)
     | Polling \<Rightarrow>
         if lp_quit (loops w L) then Inr (ph(L := Stopped), upd_loop L (\<lambda>l. l\<lparr>lp_looping := False\<rparr>) w)
         else bindE (EPollPoller_poll os L [] (upd_loop L (\<lambda>l. l\<lparr>lp_activeChannels := []\<rparr>) w)) (\<lambda>(now, active, w1).
              Inr (ph(L := Dispatching active),
                   upd_loop L (\<lambda>l. l\<lparr>lp_pollReturnTime := now, lp_activeChannels := active\<rparr>) w1))
     | Dispatching (p # ps) \<Rightarrow>
         bindE (Channel_handleEvent (invoke os al ap) conn_alive p (lp_pollReturnTime (loops w L)) w) (\<lambda>w1.
         Inr (ph(L := Dispatching ps), w1))
     | Dispatching [] \<Rightarrow>
         Inr (ph(L := Running (lp_pendingFunctors (loops w L)) (lp_pendingFunctors (loops w L))), take_functors L w)
     | Running hold (cb # todo) \<Rightarrow>
         bindE (invoke os al ap cb Timestamp_zero w) (\<lambda>w1. Inr (ph(L := Running hold todo), w1))
     | Running hold [] \<Rightarrow>
         Inr (ph(L := Releasing hold), upd_loop L (\<lambda>l. l\<lparr>lp_callingPendingFunctors := False\<rparr>) w)
     | Releasing (cb # fs) \<Rightarrow>
         bindE (release_functor os S ((held_in ph)(L := fs)) cb w) (\<lambda>w1. Inr (ph(L := Releasing fs), w1))
     | Releasing [] \<Rightarrow> Inr (ph(L := Polling), w)
     | Stopped \<Rightarrow> Inr (ph, w))"

text \<open>A schedule says which loop takes the next step.\<close>

definition run_schedule ::
  "os \<Rightarrow> alloc \<Rightarrow> ('w client_world_scheme) app \<Rightarrow> site \<Rightarrow> loop_ptr list \<Rightarrow> phases \<times> 'w client_world_scheme
     \<Rightarrow> (phases \<times> 'w client_world_scheme) result" where
  "run_schedule os al ap S = foldE (loop_step os al ap S)"

subsection \<open>The invariant\<close>

fun phase_wf :: "loop_ptr \<Rightarrow> 'w chan_world_scheme \<Rightarrow> phase \<Rightarrow> bool" where
  "phase_wf M w (Dispatching ps) = list_all (active_in M w) ps"
| "phase_wf M w (Running hold todo) = (set todo \<subseteq> set hold)"
| "phase_wf M w _ = True"

definition loops_inv :: "site \<Rightarrow> nat \<Rightarrow> phases \<times> 'w client_world_scheme \<Rightarrow> bool" where
  "loops_inv S k = (\<lambda>(ph, w). (\<exists>L. server_sys S L k (held_in ph) (todo_in ph) w) \<and> (\<forall>M. phase_wf M w (ph M)))"

lemma phase_wf_mono: "phase_wf M w x \<Longrightarrow> (\<And>p. active_in M w p \<Longrightarrow> active_in M w' p) \<Longrightarrow> phase_wf M w' x"
  by (cases x) (auto simp: list_all_iff)

text \<open>Another thread takes over.\<close>

lemma switch_sys:
  fixes w :: "'w client_world_scheme"
  assumes sys: "server_sys S L k hold todo w" and M: "M \<in> set (st_loops S)"
  shows "server_sys S M k hold todo (w\<lparr>current_tid := lp_threadId (loops w M)\<rparr>)"
proof -
  let ?w = "w\<lparr>current_tid := lp_threadId (loops w M)\<rparr>"
  from server_sys_serverE [OF sys] obtain sv where sv: "server_wf S k w sv" "sys_conns S k hold todo sv w" .
  have inv: "poller_inv N ?w = poller_inv N w" for N by (rule poller_inv_cong) simp_all
  have "sys_base S M ?w"
    using server_sysD(1) [OF sys] M by (simp add: sys_base_def isInLoopThread_def loop_wf_def loops_apart_def inv)
  moreover have "server_wf S k ?w sv" by (rule server_wf_frame [OF sv(1)]) simp_all
  moreover have "sys_conns S k hold todo sv ?w"
    using sv(2) by (simp add: sys_conns_def conn_wf_def conn_rel_def inv all_waiting_def waiting_def [abs_def])
  moreover have "sys_chans S ?w" using server_sysD(2) [OF sys] by (simp add: sys_chans_def)
  moreover have "sys_queues S todo ?w"
    using server_sysD(3) [OF sys] functor_wf_frame [of ?w w S] by (simp add: sys_queues_def waiting_def)
  ultimately show ?thesis unfolding server_sys_def by blast
qed

lemma loops_invI:
  assumes "server_sys S L k (held_in ph) (todo_in ph) w" "\<And>M. phase_wf M w (ph M)"
  shows "loops_inv S k (ph, w)"
  using assms unfolding loops_inv_def by blast

text \<open>After a step of \<open>L\<close>: the phases of the other loops are as good as before.\<close>

lemma loops_inv_step:
  assumes "server_sys S L k ((held_in ph)(L := phase_holds x)) ((todo_in ph)(L := phase_runs x)) w'" "phase_wf L w' x"
    and "\<And>M. phase_wf M w (ph M)" "\<And>M p. M \<noteq> L \<Longrightarrow> active_in M w p \<Longrightarrow> active_in M w' p"
  shows "loops_inv S k (ph(L := x), w')"
proof (rule loops_invI)
  show "phase_wf M w' ((ph(L := x)) M)" for M
    using assms(2-4) by (cases "M = L") (auto intro: phase_wf_mono)
qed (use assms(1) in simp)

lemma active_same: "chans w' = chans w \<Longrightarrow> active_in M w' p = active_in M w p"
  by (simp add: active_in_def)

subsection \<open>Every step is safe\<close>

text \<open>A step that changes nothing but flags of a loop and the phase.\<close>

lemma flag_step:
  fixes w :: "'w client_world_scheme"
  assumes sys: "server_sys S L k (held_in ph) (todo_in ph) w" and wf: "\<And>M. phase_wf M w (ph M)"
    and same: "phase_holds x = phase_holds (ph L)" "phase_runs x = phase_runs (ph L)" "phase_wf L w x"
    and g: "\<And>l. lp_wakeupFd (g l) = lp_wakeupFd l" "\<And>l. lp_threadId (g l) = lp_threadId l"
      "lp_quit (g (loops w L)) = lp_quit (loops w L)" "\<And>l. lp_pendingFunctors (g l) = lp_pendingFunctors l"
  shows "loops_inv S k (ph(L := x), upd_loop L g w)"
proof -
  let ?w = "upd_loop L g w"
  have "quiet w ?w" using g by (simp add: quiet_def conn_frame_def upd_loop_def)
  from sys_quiet [OF sys this] have sys': "server_sys S L k (held_in ph) (todo_in ph) ?w" using g(4) by simp
  have "(held_in ph)(L := phase_holds x) = held_in ph" "(todo_in ph)(L := phase_runs x) = todo_in ph"
    by (simp_all add: same held_in_def todo_in_def fun_eq_iff)
  then show ?thesis
    using sys' wf same(3) phase_wf_mono [OF same(3), of ?w]
    by (intro loops_inv_step [where w = w]) (simp_all add: active_in_def)
qed

lemma poll_step:
  fixes w :: "'w client_world_scheme"
  assumes sys: "server_sys S L k (held_in ph) (todo_in ph) w" and wf: "\<And>M. phase_wf M w (ph M)"
    and none: "phase_holds (ph L) = []" "phase_runs (ph L) = []" and os: "kernel_ok os"
  shows "\<exists>now active w1. EPollPoller_poll os L [] (upd_loop L (\<lambda>l. l\<lparr>lp_activeChannels := []\<rparr>) w) = Inr (now, active, w1) \<and>
    loops_inv S k (ph(L := Dispatching active), upd_loop L (\<lambda>l. l\<lparr>lp_pollReturnTime := now, lp_activeChannels := active\<rparr>) w1)"
proof -
  let ?w1 = "upd_loop L (\<lambda>l. l\<lparr>lp_activeChannels := []\<rparr>) w"
  have "quiet w ?w1" by (rule quiet_loop) simp_all
  then have "server_sys S L k (held_in ph) (todo_in ph) ?w1" by (rule sys_quiet [OF sys]) simp
  from poll_safe [OF this os] obtain now active w2 where
    p: "EPollPoller_poll os L [] ?w1 = Inr (now, active, w2)" "server_sys S L k (held_in ph) (todo_in ph) w2"
      "\<forall>p \<in> set active. active_in L w2 p" "\<forall>M p. active_in M ?w1 p \<longrightarrow> active_in M w2 p" by blast
  let ?w3 = "upd_loop L (\<lambda>l. l\<lparr>lp_pollReturnTime := now, lp_activeChannels := active\<rparr>) w2"
  have "quiet w2 ?w3" by (rule quiet_loop) simp_all
  then have "server_sys S L k (held_in ph) (todo_in ph) ?w3" by (rule sys_quiet [OF p(2)]) simp
  moreover have "(held_in ph)(L := []) = held_in ph" "(todo_in ph)(L := []) = todo_in ph"
    using none by (simp_all add: held_in_def todo_in_def fun_eq_iff)
  ultimately have "loops_inv S k (ph(L := Dispatching active), ?w3)"
    using p(3,4) wf by (intro loops_inv_step [where w = w]) (simp_all add: list_all_iff active_in_def)
  then show ?thesis using p(1) by blast
qed

lemma loop_step_safe:
  fixes w :: "'w client_world_scheme"
  assumes inv: "loops_inv S (Suc (Suc k)) (ph, w)" and L: "L \<in> set (st_loops S)"
    and os: "kernel_ok os" "accept_fresh os (st_fds S)" and al: "alloc_ok al" and ap: "app_safe S ap"
  shows "\<exists>st. loop_step os al ap S L (ph, w) = Inr st \<and> loops_inv S k st"
proof -
  let ?w = "w\<lparr>current_tid := lp_threadId (loops w L)\<rparr>"
  from inv obtain M where "server_sys S M (Suc (Suc k)) (held_in ph) (todo_in ph) w" unfolding loops_inv_def by blast
  from switch_sys [OF this L] have sys2: "server_sys S L (Suc (Suc k)) (held_in ph) (todo_in ph) ?w" .
  then have sys: "server_sys S L k (held_in ph) (todo_in ph) ?w" by (rule server_sys_mono) simp
  have wf: "phase_wf M ?w (ph M)" for M
  proof (rule phase_wf_mono)
    show "phase_wf M w (ph M)" using inv unfolding loops_inv_def by blast
  qed (simp add: active_in_def)
  have quit: "\<not> lp_quit (loops ?w L)" using sys_loop(4) [OF sys L] .
  show ?thesis
  proof (cases "ph L")
    case Entering
    have "loops_inv S k (ph(L := Polling), upd_loop L (\<lambda>l. l\<lparr>lp_looping := True, lp_quit := False\<rparr>) ?w)"
      by (rule flag_step [OF sys wf]) (use quit in \<open>simp_all add: Entering\<close>)
    then show ?thesis by (simp add: loop_step_def Let_def Entering)
  next
    case Polling
    from poll_step [OF sys wf _ _ os(1)] Polling quit show ?thesis by (fastforce simp: loop_step_def Let_def)
  next
    case (Dispatching ps)
    note D = Dispatching
    show ?thesis
    proof (cases ps)
      case Nil
      let ?fs = "lp_pendingFunctors (loops w L)"
      have none: "held_in ph L = []" "todo_in ph L = []" by (simp_all add: held_in_def todo_in_def D)
      have fs: "?fs = lp_pendingFunctors (loops ?w L)" by simp
      have "loops_inv S k (ph(L := Running ?fs ?fs), take_functors L ?w)"
        using take_sys [OF sys none fs] wf
        by (intro loops_inv_step [where w = ?w]) (auto intro: active_keeps)
      then show ?thesis by (simp add: loop_step_def Let_def D Nil)
    next
      case (Cons p qs)
      have p: "active_in L ?w p" "\<forall>q \<in> set qs. active_in L ?w q" using wf [of L] by (simp_all add: D Cons list_all_iff)
      from event_safe [OF sys2 p(1) os al ap] obtain w1 where
        w1: "Channel_handleEvent (invoke os al ap) conn_alive p (lp_pollReturnTime (loops ?w L)) ?w = Inr w1"
          "server_sys S L k (held_in ph) (todo_in ph) w1" "keeps ?w w1" unfolding safe_def by blast
      have "(held_in ph)(L := []) = held_in ph" "(todo_in ph)(L := []) = todo_in ph"
        by (simp_all add: D held_in_def todo_in_def fun_eq_iff)
      then have "loops_inv S k (ph(L := Dispatching qs), w1)"
        using w1(2) p(2) wf active_keeps [OF _ w1(3)]
        by (intro loops_inv_step [where w = ?w]) (simp_all add: list_all_iff)
      then show ?thesis using w1(1) by (simp add: loop_step_def Let_def D Cons)
    qed
  next
    case (Running hold todo)
    note R = Running
    show ?thesis
    proof (cases todo)
      case Nil
      have "loops_inv S k (ph(L := Releasing hold), upd_loop L (\<lambda>l. l\<lparr>lp_callingPendingFunctors := False\<rparr>) ?w)"
        by (rule flag_step [OF sys wf]) (simp_all add: R Nil)
      then show ?thesis by (simp add: loop_step_def Let_def R Nil)
    next
      case (Cons cb rest)
      have "todo_in ph L = cb # rest" by (simp add: todo_in_def R Cons)
      from functor_safe [OF sys this os(1) ap, of al Timestamp_zero] obtain w1 where
        w1: "invoke os al ap cb Timestamp_zero ?w = Inr w1" "server_sys S L k (held_in ph) ((todo_in ph)(L := rest)) w1"
          "\<forall>M p. M \<noteq> L \<longrightarrow> active_in M ?w p \<longrightarrow> active_in M w1 p" unfolding functor_runs_def by blast
      have "(held_in ph)(L := hold) = held_in ph" by (simp add: R held_in_def fun_eq_iff)
      moreover have "set rest \<subseteq> set hold" using wf [of L] by (simp add: R Cons)
      ultimately have "loops_inv S k (ph(L := Running hold rest), w1)"
        using w1(2,3) wf by (intro loops_inv_step [where w = ?w]) simp_all
      then show ?thesis using w1(1) by (simp add: loop_step_def Let_def R Cons)
    qed
  next
    case (Releasing fs)
    note R = Releasing
    show ?thesis
    proof (cases fs)
      case Nil
      have "loops_inv S k (ph(L := Polling), upd_loop L (\<lambda>l. l) ?w)"
        by (rule flag_step [OF sys wf]) (simp_all add: R Nil)
      moreover have "upd_loop L (\<lambda>l. l) ?w = ?w" by (simp add: upd_loop_def)
      ultimately show ?thesis by (simp add: loop_step_def Let_def R Nil)
    next
      case (Cons cb rest)
      have hold: "held_in ph L = cb # rest" by (simp add: held_in_def R Cons)
      have "set (todo_in ph M) \<subseteq> set (((held_in ph)(L := rest)) M)" for M
        using wf [of M] by (cases "ph M") (auto simp: todo_in_def held_in_def R)
      from release_safe [where hold = "held_in ph", OF sys hold this, of os] obtain w1 where
        w1: "release_functor os S ((held_in ph)(L := rest)) cb ?w = Inr w1"
          "server_sys S L k ((held_in ph)(L := rest)) (todo_in ph) w1" "\<forall>M p. active_in M ?w p \<longrightarrow> active_in M w1 p" by blast
      have "(todo_in ph)(L := []) = todo_in ph" by (simp add: R todo_in_def fun_eq_iff)
      then have "loops_inv S k (ph(L := Releasing rest), w1)"
        using w1(2,3) wf by (intro loops_inv_step [where w = ?w]) simp_all
      then show ?thesis using w1(1) by (simp add: loop_step_def Let_def R Cons)
    qed
  next
    case Stopped
    have "loops_inv S k (ph, w)"
      using inv server_sys_mono [of S _ "Suc (Suc k)" _ _ w k] unfolding loops_inv_def by auto
    moreover have "loop_step os al ap S L (ph, w) = Inr (ph, ?w)" by (simp add: loop_step_def Let_def Stopped)
    ultimately show ?thesis using loops_invI [OF sys wf] by blast
  qed
qed

subsection \<open>Any schedule\<close>

lemma loops_inv_room:
  assumes "loops_inv S 0 (ph, w)" "server_room S k w"
  shows "loops_inv S k (ph, w)"
  using assms room_sys [of S _ "held_in ph" "todo_in ph" w k] unfolding loops_inv_def by blast

lemma run_schedule_Cons:
  "loop_step os al ap S L st = Inr st1 \<Longrightarrow> run_schedule os al ap S (L # Ls) st = run_schedule os al ap S Ls st1"
  by (simp add: run_schedule_def)

text \<open>
  As long as no counter and no buffer can run out within one callback, every step of every schedule
  succeeds and keeps the invariant.
\<close>

lemma run_schedule_safe:
  fixes st :: "phases \<times> 'w client_world_scheme"
  assumes os: "kernel_ok os" "accept_fresh os (st_fds S)" and al: "alloc_ok al" and ap: "app_safe S ap"
  shows "set Ls \<subseteq> set (st_loops S) \<Longrightarrow> loops_inv S 0 st \<Longrightarrow>
    (\<exists>st'. run_schedule os al ap S Ls st = Inr st' \<and> loops_inv S 0 st') \<or>
    (\<exists>m < length Ls. \<exists>st'. run_schedule os al ap S (take m Ls) st = Inr st' \<and> \<not> server_room S 2 (snd st'))"
proof (induction Ls arbitrary: st)
  case (Cons L Ls)
  obtain ph w where st: "st = (ph, w)" by (cases st)
  show ?case
  proof (cases "server_room S 2 w")
    case False
    then show ?thesis by (intro disjI2 exI [of _ 0]) (simp add: st run_schedule_def)
  next
    case True
    have "loops_inv S (Suc (Suc 0)) (ph, w)" using loops_inv_room [OF Cons.prems(2) [unfolded st] True] by (simp add: numeral_2_eq_2)
    from loop_step_safe [OF this _ os al ap, of L] Cons.prems(1) obtain st1 where
      st1: "loop_step os al ap S L st = Inr st1" "loops_inv S 0 st1" unfolding st by auto
    from Cons.IH [OF _ st1(2)] Cons.prems(1)
    consider st' where "run_schedule os al ap S Ls st1 = Inr st'" "loops_inv S 0 st'"
      | m st' where "m < length Ls" "run_schedule os al ap S (take m Ls) st1 = Inr st'" "\<not> server_room S 2 (snd st')" by auto
    then show ?thesis
    proof cases
      case 1
      then show ?thesis using run_schedule_Cons [OF st1(1)] by auto
    next
      case 2
      then show ?thesis
        using run_schedule_Cons [OF st1(1)] by (intro disjI2 exI [of _ "Suc m"]) auto
    qed
  qed
qed (simp add: run_schedule_def)

text \<open>What the invariant promises.\<close>

lemma loops_inv_no_leak:
  assumes inv: "loops_inv S k (ph, w)"
  shows "conns w c = Some cn \<Longrightarrow> referenced S (held_in ph) c cn w"
    and "bij_betw (\<lambda>c. cn_socket (the (conns w c))) (dom (conns w)) (open_conns (hist w))"
proof -
  from inv obtain L where L: "server_sys S L k (held_in ph) (todo_in ph) w" unfolding loops_inv_def by blast
  show "conns w c = Some cn \<Longrightarrow> referenced S (held_in ph) c cn w" using server_sys_no_leak [OF L] .
  show "bij_betw (\<lambda>c. cn_socket (the (conns w c))) (dom (conns w)) (open_conns (hist w))" using server_sys_descriptors [OF L] .
qed

text \<open>At the start every loop is about to be entered.\<close>

lemma loops_inv_start:
  assumes "server_sys S L k no_functors no_functors w"
  shows "loops_inv S k (\<lambda>_. Entering, w)"
proof (rule loops_invI)
  have "held_in (\<lambda>_. Entering) = no_functors" "todo_in (\<lambda>_. Entering) = no_functors"
    by (simp_all add: held_in_def todo_in_def no_functors_def fun_eq_iff)
  then show "server_sys S L k (held_in (\<lambda>_. Entering)) (todo_in (\<lambda>_. Entering)) w" using assms by simp
qed simp

subsection \<open>At rest\<close>

text \<open>No functor waits, runs or is to be destroyed.\<close>

definition at_rest :: "site \<Rightarrow> phases \<times> 'w client_world_scheme \<Rightarrow> bool" where
  "at_rest S = (\<lambda>(ph, w). list_all (\<lambda>M. lp_pendingFunctors (loops w M) = [] \<and> held_in ph M = [] \<and> todo_in ph M = [])
     (st_loops S))"

text \<open>
  Then what is closed is gone: the connections that exist are those in the map of the server, each is
  open, and the kernel watches its socket for the loop it was given to.
\<close>

lemma at_rest_clean:
  assumes inv: "loops_inv S k (ph, w)" and rest: "at_rest S (ph, w)" and sv: "servers w (st_server S) = Some sv"
  shows "ran (sv_connections sv) = dom (conns w)"
    and "conns w c = Some cn \<Longrightarrow> conn_open cn \<and> cn_loop cn \<in> set (st_loops S) \<and>
      (\<exists>ev. interest (hist w) (po_epollfd (pollers w (cn_loop cn))) (cn_socket cn) = Some (ev, cn_channel cn))"
proof -
  from inv obtain L where sys: "server_sys S L k (held_in ph) (todo_in ph) w" unfolding loops_inv_def by blast
  from server_sys_serverE [OF sys] obtain sv' where sv': "server_wf S k w sv'" "sys_conns S k (held_in ph) (todo_in ph) sv' w" .
  have eq: "sv' = sv" using server_wfD(2) [OF sv'(1)] sv by simp
  have empty: "waiting w (held_in ph) M = []" "waiting w (todo_in ph) M = []" if "M \<in> set (st_loops S)" for M
    using rest that by (simp_all add: at_rest_def list_all_iff waiting_def)
  have none: "all_waiting S w (held_in ph) = []" using empty(1) by (simp add: all_waiting_def)
  have conn: "sv_connections sv (cn_name cn) = Some c \<and> conn_open cn \<and> cn_loop cn \<in> set (st_loops S) \<and>
      (\<exists>ev. interest (hist w) (po_epollfd (pollers w (cn_loop cn))) (cn_socket cn) = Some (ev, cn_channel cn))"
    if "conns w c = Some cn" for c cn
  proof -
    from sys_connsD [OF sv'(2) that] obtain ch where ch: "conn_wf S k w c cn ch"
      "conn_held sv (set (all_waiting S w (held_in ph))) (set (waiting w (todo_in ph) (cn_loop cn)))
        (set (waiting w (todo_in ph) (st_base S))) c cn ch" unfolding eq by blast
    note wf = conn_wfD [OF ch(1)] and r = conn_relD [OF conn_wfD(1) [OF ch(1)]]
    have "waiting w (todo_in ph) (cn_loop cn) = []" "waiting w (todo_in ph) (st_base S) = []"
      using empty(2) wf(2) sys_baseD(2) [OF server_sysD(1) [OF sys]] by blast+
    with ch(2) none have held: "sv_connections sv (cn_name cn) = Some c" "cn_state cn \<noteq> kConnecting" "cn_state cn \<noteq> kDisconnected"
      by (auto simp: conn_held_def leaving_def)
    then have op: "conn_open cn" by (cases "cn_state cn") (simp_all add: conn_open_def)
    with r(11) have "ch_index ch = kAdded" by blast
    moreover have "chan_ok (cn_loop cn) w (cn_channel cn) ch"
      using poller_invD(2) [OF sys_loop(1) [OF sys wf(2)] r(2,4)] .
    ultimately show ?thesis using held(1) op wf(2) r(3) by (auto simp: chan_ok_def kIndex_defs Let_def)
  qed
  show "conns w c = Some cn \<Longrightarrow> conn_open cn \<and> cn_loop cn \<in> set (st_loops S) \<and>
      (\<exists>ev. interest (hist w) (po_epollfd (pollers w (cn_loop cn))) (cn_socket cn) = Some (ev, cn_channel cn))"
    using conn by blast
  have "c \<in> dom (conns w)" if "sv_connections sv nm = Some c" for nm c
    using server_invD(5) [OF server_wfD(1) [OF sv'(1)], unfolded eq, OF that] by blast
  then show "ran (sv_connections sv) = dom (conns w)"
    using conn by (auto simp: ran_def) blast
qed

subsection \<open>A round of one loop\<close>

text \<open>
  Left alone, a loop goes through a whole round: the steps of the machine, one after the other, are the
  turn of \<open>EventLoop::loop\<close>.
\<close>

definition runs_alone ::
  "os \<Rightarrow> alloc \<Rightarrow> ('w client_world_scheme) app \<Rightarrow> site \<Rightarrow> loop_ptr \<Rightarrow> phases \<times> 'w client_world_scheme
     \<Rightarrow> phases \<times> 'w client_world_scheme \<Rightarrow> bool" where
  "runs_alone os al ap S L st st' \<longleftrightarrow> (\<exists>n. run_schedule os al ap S (replicate n L) st = Inr st')"

lemma runs_alone_refl [simp]: "runs_alone os al ap S L st st"
  unfolding runs_alone_def by (rule exI [of _ 0]) (simp add: run_schedule_def)

lemma runs_alone_step:
  assumes "loop_step os al ap S L st = Inr st1" "runs_alone os al ap S L st1 st2"
  shows "runs_alone os al ap S L st st2"
proof -
  from assms(2) obtain n where "run_schedule os al ap S (replicate n L) st1 = Inr st2" unfolding runs_alone_def by blast
  then have "run_schedule os al ap S (replicate (Suc n) L) st = Inr st2"
    using run_schedule_Cons [OF assms(1), of "replicate n L"] by simp
  then show ?thesis unfolding runs_alone_def by blast
qed

lemma own_thread: "isInLoopThread L w \<Longrightarrow> w\<lparr>current_tid := lp_threadId (loops w L)\<rparr> = w"
  by (simp add: isInLoopThread_def)

lemma events_alone:
  fixes w :: "'w client_world_scheme"
  assumes os: "kernel_ok os" "accept_fresh os (st_fds S)" and al: "alloc_ok al" and ap: "app_safe S ap"
  shows "server_sys S L (k + 2 * length ps) hold todo w \<Longrightarrow> \<forall>p \<in> set ps. active_in L w p \<Longrightarrow> ph L = Dispatching ps \<Longrightarrow>
    foldE (\<lambda>p w. Channel_handleEvent (invoke os al ap) conn_alive p (lp_pollReturnTime (loops w L)) w) ps w = Inr w' \<Longrightarrow>
    runs_alone os al ap S L (ph, w) (ph(L := Dispatching []), w')"
proof (induction ps arbitrary: ph w)
  case Nil
  then have "ph(L := Dispatching []) = ph" by (simp add: fun_upd_idem)
  then show ?case using Nil by simp
next
  case (Cons p ps)
  have "server_sys S L (Suc (Suc (k + 2 * length ps))) hold todo w" "active_in L w p" using Cons.prems by simp_all
  from event_safe [OF this os al ap] obtain w1 where
    w1: "Channel_handleEvent (invoke os al ap) conn_alive p (lp_pollReturnTime (loops w L)) w = Inr w1"
      "server_sys S L (k + 2 * length ps) hold todo w1" "keeps w w1" unfolding safe_def by blast
  have step: "loop_step os al ap S L (ph, w) = Inr (ph(L := Dispatching ps), w1)"
    using w1(1) own_thread [OF sys_here(2) [OF Cons.prems(1)]] Cons.prems(3) by (simp add: loop_step_def Let_def)
  have act: "\<forall>q \<in> set ps. active_in L w1 q" using Cons.prems(2) active_keeps [OF _ w1(3)] by simp
  have "foldE (\<lambda>p w. Channel_handleEvent (invoke os al ap) conn_alive p (lp_pollReturnTime (loops w L)) w) ps w1 = Inr w'"
    using Cons.prems(4) w1(1) by simp
  from runs_alone_step [OF step Cons.IH [OF w1(2) act fun_upd_same this]] show ?case unfolding fun_upd_upd .
qed

lemma functors_alone:
  fixes w :: "'w client_world_scheme"
  assumes os: "kernel_ok os" and ap: "app_safe S ap"
  shows "server_sys S L k hold (todo(L := fs)) w \<Longrightarrow> ph L = Running held fs \<Longrightarrow>
    foldE (\<lambda>cb. invoke os al ap cb Timestamp_zero) fs w = Inr w' \<Longrightarrow>
    runs_alone os al ap S L (ph, w) (ph(L := Running held []), w')"
proof (induction fs arbitrary: ph w)
  case Nil
  then have "ph(L := Running held []) = ph" by (simp add: fun_upd_idem)
  then show ?case using Nil by simp
next
  case (Cons cb fs)
  have "functor_runs S L k hold (todo(L := cb # fs)) fs w (invoke os al ap cb Timestamp_zero w)"
    by (rule functor_safe [OF Cons.prems(1) _ os ap]) simp
  then obtain w1 where
    w1: "invoke os al ap cb Timestamp_zero w = Inr w1" "server_sys S L k hold (todo(L := fs)) w1" by (auto simp: functor_runs_def)
  have step: "loop_step os al ap S L (ph, w) = Inr (ph(L := Running held fs), w1)"
    using w1(1) own_thread [OF sys_here(2) [OF Cons.prems(1)]] Cons.prems(2) by (simp add: loop_step_def Let_def)
  have "foldE (\<lambda>cb. invoke os al ap cb Timestamp_zero) fs w1 = Inr w'" using Cons.prems(3) w1(1) by simp
  from runs_alone_step [OF step Cons.IH [OF w1(2) fun_upd_same this]] show ?case unfolding fun_upd_upd .
qed

lemma releases_alone:
  fixes w :: "'w client_world_scheme"
  assumes sub: "\<And>M. M \<noteq> L \<Longrightarrow> set (todo M) \<subseteq> set (hold M)" "todo L = []"
  shows "server_sys S L k (hold(L := fs)) todo w \<Longrightarrow> ph L = Releasing fs \<Longrightarrow> \<forall>gs. (held_in ph)(L := gs) = hold(L := gs) \<Longrightarrow>
    release_functors os S L hold fs w = Inr w' \<Longrightarrow> runs_alone os al ap S L (ph, w) (ph(L := Polling), w')"
proof (induction fs arbitrary: ph w)
  case Nil
  have "loop_step os al ap S L (ph, w) = Inr (ph(L := Polling), w)"
    using own_thread [OF sys_here(2) [OF Nil.prems(1)]] Nil.prems(2) by (simp add: loop_step_def Let_def)
  moreover have "w = w'" using Nil.prems(4) by simp
  ultimately show ?case using runs_alone_step [OF _ runs_alone_refl] by blast
next
  case (Cons cb fs)
  have "set (todo M) \<subseteq> set ((hold(L := cb # fs, L := fs)) M)" for M using sub by (cases "M = L") auto
  from release_safe [where hold = "hold(L := cb # fs)" and cb = cb, OF Cons.prems(1) _ this, of os] obtain w1 where
    w1: "release_functor os S (hold(L := fs)) cb w = Inr w1" "server_sys S L k (hold(L := fs)) todo w1"
    by (simp only: fun_upd_upd fun_upd_same) blast
  have eq: "(held_in ph)(L := fs) = hold(L := fs)" using Cons.prems(3) by blast
  have step: "loop_step os al ap S L (ph, w) = Inr (ph(L := Releasing fs), w1)"
    using w1(1) [folded eq] own_thread [OF sys_here(2) [OF Cons.prems(1)]] Cons.prems(2) by (simp add: loop_step_def Let_def)
  have "\<forall>gs. (held_in (ph(L := Releasing fs)))(L := gs) = hold(L := gs)" using Cons.prems(3) by (simp only: phases_upd fun_upd_upd) blast
  moreover have "release_functors os S L hold fs w1 = Inr w'" using Cons.prems(4) w1(1) by simp
  ultimately have "runs_alone os al ap S L (ph(L := Releasing fs), w1) (ph(L := Releasing fs, L := Polling), w')"
    by (intro Cons.IH [OF w1(2) fun_upd_same])
  from runs_alone_step [OF step this] show ?case unfolding fun_upd_upd .
qed

lemma turn_alone:
  fixes w :: "'w client_world_scheme"
  assumes sys: "server_sys S L (2 * po_capacity (pollers w L)) no_functors no_functors w"
    and os: "kernel_ok os" "accept_fresh os (st_fds S)" and al: "alloc_ok al" and ap: "app_safe S ap"
    and ph: "ph L = Polling" "held_in ph = no_functors" "todo_in ph = no_functors"
  shows "\<exists>w'. server_turn os al ap S L w = Inr w' \<and> runs_alone os al ap S L (ph, w) (ph, w')"
proof -
  let ?w1 = "upd_loop L (\<lambda>l. l\<lparr>lp_activeChannels := []\<rparr>) w"
  let ?ev = "\<lambda>p w. Channel_handleEvent (invoke os al ap) conn_alive p (lp_pollReturnTime (loops w L)) w"
  note here = own_thread [OF sys_here(2) [OF sys]] and quit = sys_loop(4) [OF sys sys_here(1) [OF sys]]
  have "quiet w ?w1" by (rule quiet_loop) simp_all
  then have "server_sys S L (2 * po_capacity (pollers w L)) no_functors no_functors ?w1" by (rule sys_quiet [OF sys]) simp
  from poll_safe [OF this os(1)] obtain now active w2 where
    p: "EPollPoller_poll os L [] ?w1 = Inr (now, active, w2)"
      "server_sys S L (2 * po_capacity (pollers w L)) no_functors no_functors w2"
      "length active \<le> po_capacity (pollers w L)" "\<forall>p \<in> set active. active_in L w2 p" by auto
  let ?w3 = "upd_loop L (\<lambda>l. l\<lparr>lp_pollReturnTime := now, lp_activeChannels := active\<rparr>) w2"
  have "quiet w2 ?w3" by (rule quiet_loop) simp_all
  then have "server_sys S L (2 * po_capacity (pollers w L)) no_functors no_functors ?w3" by (rule sys_quiet [OF p(2)]) simp
  then have s3: "server_sys S L (0 + 2 * length active) no_functors no_functors ?w3" by (rule server_sys_mono) (use p(3) in simp)
  have a3: "\<forall>p \<in> set active. active_in L ?w3 p" using p(4) by (simp add: active_in_def)
  have step1: "loop_step os al ap S L (ph, w) = Inr (ph(L := Dispatching active), ?w3)"
    using p(1) here quit ph(1) by (simp add: loop_step_def Let_def)
  from events_safe [OF os al ap s3 a3, of "\<lambda>w. lp_pollReturnTime (loops w L)"] obtain w4 where
    w4: "foldE ?ev active ?w3 = Inr w4" "server_sys S L 0 no_functors no_functors w4" unfolding safe_def by blast
  have ev: "EventLoop_events os (invoke os al ap) conn_alive L w = Inr w4" using p(1) w4(1) by (simp add: EventLoop_events_def)
  from events_alone [OF os al ap s3 a3 _ w4(1), of "ph(L := Dispatching active)"]
  have run1: "runs_alone os al ap S L (ph(L := Dispatching active), ?w3) (ph(L := Dispatching []), w4)" by simp
  let ?fs = "lp_pendingFunctors (loops w4 L)"
  have step2: "loop_step os al ap S L (ph(L := Dispatching []), w4) = Inr (ph(L := Running ?fs ?fs), take_functors L w4)"
    using own_thread [OF sys_here(2) [OF w4(2)]] by (simp add: loop_step_def Let_def)
  have t4: "server_sys S L 0 (no_functors(L := ?fs)) (no_functors(L := ?fs)) (take_functors L w4)"
    by (rule take_sys(1) [OF w4(2)]) simp_all
  from functors_safe [OF os(1) ap t4, of al Timestamp_zero] obtain w5 where
    w5: "foldE (\<lambda>cb. invoke os al ap cb Timestamp_zero) ?fs (take_functors L w4) = Inr w5"
      "server_sys S L 0 (no_functors(L := ?fs)) (no_functors(L := [])) w5" by blast
  from functors_alone [OF os(1) ap t4 _ w5(1), of "ph(L := Running ?fs ?fs)" ?fs]
  have run2: "runs_alone os al ap S L (ph(L := Running ?fs ?fs), take_functors L w4) (ph(L := Running ?fs []), w5)" by simp
  let ?w6 = "upd_loop L (\<lambda>l. l\<lparr>lp_callingPendingFunctors := False\<rparr>) w5"
  have step3: "loop_step os al ap S L (ph(L := Running ?fs []), w5) = Inr (ph(L := Releasing ?fs), ?w6)"
    using own_thread [OF sys_here(2) [OF w5(2)]] by (simp add: loop_step_def Let_def)
  have "quiet w5 ?w6" by (rule quiet_loop) simp_all
  from sys_quiet [OF w5(2) this] have s6: "server_sys S L 0 (no_functors(L := ?fs)) no_functors ?w6" by simp
  have pend: "EventLoop_doPendingFunctors (invoke os al ap) L w4 = Inr ?w6"
    using w5(1) by (simp add: EventLoop_doPendingFunctors_def take_functors_def Let_def)
  from release_all_safe [OF _ _ s6, of os] obtain w7 where
    w7: "release_functors os S L no_functors ?fs ?w6 = Inr w7" by auto
  have "runs_alone os al ap S L (ph(L := Releasing ?fs), ?w6) (ph(L := Releasing ?fs, L := Polling), w7)"
    by (rule releases_alone [OF _ _ s6 _ _ w7]) (simp_all add: ph(2))
  moreover have "ph(L := Releasing ?fs, L := Polling) = ph" using ph(1) by (simp add: fun_upd_idem)
  ultimately have "runs_alone os al ap S L (ph(L := Releasing ?fs), ?w6) (ph, w7)" by simp
  note run3 = runs_alone_step [OF step3 this]
  have trans: "runs_alone os al ap S L a c" if "runs_alone os al ap S L a b" "runs_alone os al ap S L b c"
    for a b c :: "phases \<times> 'w client_world_scheme"
    using that unfolding runs_alone_def run_schedule_def
    by (metis foldE_append bindE_Inr replicate_add)
  have "runs_alone os al ap S L (ph, w) (ph, w7)"
    using runs_alone_step [OF step1 trans [OF run1 runs_alone_step [OF step2 trans [OF run2 run3]]]] .
  moreover have "server_turn os al ap S L w = Inr w7"
    using ev pend w7 by (simp add: server_turn_def)
  ultimately show ?thesis by blast
qed

end
