(* ===== verification/Logging.thy ===== *)
theory Logging
  imports InetAddr Timestamps
begin

section \<open>Logging: the logger and the text of a timestamp\<close>

text \<open>
  \<open>src/src/Logger.h\<close>, \<open>src/src/Logger.cc\<close> and \<open>Timestamp::toString\<close>.  The macros \<open>LOG_INFO\<close>,
  \<open>LOG_ERROR\<close>, \<open>LOG_FATAL\<close> set the level of the one logger and then log: two separate accesses,
  which other threads can come between.  \<open>localtime\<close> is an argument.
\<close>

subsection \<open>Timestamp::toString\<close>

record tm =
  tm_year :: int
  tm_mon :: int
  tm_mday :: int
  tm_hour :: int
  tm_min :: int
  tm_sec :: int

text \<open>\<open>%4d\<close> pads with spaces on the left, \<open>%02d\<close> with zeroes after the sign.\<close>

definition pad_left :: "char \<Rightarrow> nat \<Rightarrow> string \<Rightarrow> string" where
  "pad_left c n s = replicate (n - length s) c @ s"

definition fmt_d :: "nat \<Rightarrow> int \<Rightarrow> string" where
  "fmt_d n i = pad_left (CHR '' '') n (dec_int i)"

definition fmt_0d :: "nat \<Rightarrow> int \<Rightarrow> string" where
  "fmt_0d n i = (if i < 0 then CHR ''-'' # pad_left (CHR ''0'') (n - 1) (dec (nat (- i)))
                 else pad_left (CHR ''0'') n (dec (nat i)))"

definition Timestamp_toString :: "(int \<Rightarrow> tm) \<Rightarrow> timestamp \<Rightarrow> string" where
  "Timestamp_toString localtime t =
     (let us = sint (microSecondsSinceEpoch t);
          nowsecond = sgn us * (\<bar>us\<bar> div sint kMicroSecondsPerSecond);
          tm = localtime nowsecond
      in snprintf_buf 128
           (fmt_d 4 (tm_year tm + 1900) @ ''/'' @ fmt_0d 2 (tm_mon tm + 1) @ ''/'' @
            fmt_0d 2 (tm_mday tm) @ '' '' @ fmt_0d 2 (tm_hour tm) @ '':'' @
            fmt_0d 2 (tm_min tm) @ '':'' @ fmt_0d 2 (tm_sec tm)))"

definition tm_ok :: "tm \<Rightarrow> bool" where
  "tm_ok tm \<longleftrightarrow> 0 \<le> tm_year tm + 1900 \<and> tm_year tm + 1900 < 10000 \<and> 0 \<le> tm_mon tm \<and> tm_mon tm < 12 \<and>
     0 < tm_mday tm \<and> tm_mday tm \<le> 31 \<and> 0 \<le> tm_hour tm \<and> tm_hour tm < 24 \<and>
     0 \<le> tm_min tm \<and> tm_min tm < 60 \<and> 0 \<le> tm_sec tm \<and> tm_sec tm \<le> 60"

lemma length_pad_left: "length s \<le> n \<Longrightarrow> length (pad_left c n s) = n"
  by (simp add: pad_left_def)

lemma length_fmt_0d: "0 \<le> i \<Longrightarrow> i < 100 \<Longrightarrow> length (fmt_0d 2 i) = 2"
  using dec_length [of 2 "nat i"] by (simp add: fmt_0d_def length_pad_left)

lemma length_fmt_d: "0 \<le> i \<Longrightarrow> i < 10000 \<Longrightarrow> length (fmt_d 4 i) = 4"
  using dec_length [of 4 "nat i"] by (simp add: fmt_d_def dec_int_def length_pad_left)

lemma length_toString:
  assumes "\<forall>s. tm_ok (localtime s)"
  shows "length (Timestamp_toString localtime t) = 19"
proof -
  have ok: "tm_ok (localtime s)" for s using assms by blast
  show ?thesis
    using ok [of "sgn (sint (microSecondsSinceEpoch t)) *
        (\<bar>sint (microSecondsSinceEpoch t)\<bar> div sint kMicroSecondsPerSecond)"]
    by (simp add: Timestamp_toString_def Let_def tm_ok_def snprintf_buf_def length_fmt_0d length_fmt_d)
qed

subsection \<open>The logger\<close>

datatype LogLevel = INFO | ERROR | FATAL | DEBUG

record logger =
  lg_logLevel :: "LogLevel option"   \<comment> \<open>\<open>None\<close>: a value that is none of the levels\<close>
  lg_lines :: "string list"

definition Logger_setLogLevel :: "LogLevel \<Rightarrow> logger \<Rightarrow> logger" where
  "Logger_setLogLevel level l = l\<lparr>lg_logLevel := Some level\<rparr>"

fun level_tag :: "LogLevel option \<Rightarrow> string" where
  "level_tag (Some INFO) = ''[INFO]''"
| "level_tag (Some ERROR) = ''[ERROR]''"
| "level_tag (Some FATAL) = ''[FATAL]''"
| "level_tag (Some DEBUG) = ''[DEBUG]''"
| "level_tag None = ''''"

definition Logger_log :: "string \<Rightarrow> string \<Rightarrow> logger \<Rightarrow> logger" where
  "Logger_log now msg l =
     l\<lparr>lg_lines := lg_lines l @ [level_tag (lg_logLevel l) @ now @ '' : '' @ msg]\<rparr>"

text \<open>A macro is two accesses to the logger; the message is formatted into 1024 bytes.\<close>

datatype log_action = Set_level LogLevel | Log_line string

fun log_exec :: "string \<Rightarrow> log_action \<Rightarrow> logger \<Rightarrow> logger" where
  "log_exec now (Set_level level) l = Logger_setLogLevel level l"
| "log_exec now (Log_line msg) l = Logger_log now msg l"

definition log_macro :: "LogLevel \<Rightarrow> string \<Rightarrow> log_action list" where
  "log_macro level msg = [Set_level level, Log_line (snprintf_buf 1024 msg)]"

text \<open>Macros that run one after the other, in one thread or under a lock, print their own level.\<close>

lemma log_macros_sequential:
  "lg_lines (fold (log_exec now) (concat (map (\<lambda>(level, msg). log_macro level msg) ms)) l)
     = lg_lines l @ map (\<lambda>(level, msg). level_tag (Some level) @ now @ '' : '' @ snprintf_buf 1024 msg) ms"
proof (induction ms arbitrary: l)
  case (Cons m ms)
  obtain level msg where m: "m = (level, msg)" by force
  have "lg_lines (fold (log_exec now) (log_macro level msg) l)
      = lg_lines l @ [level_tag (Some level) @ now @ '' : '' @ snprintf_buf 1024 msg]"
    by (simp add: log_macro_def Logger_setLogLevel_def Logger_log_def)
  with Cons m show ?case by simp
qed simp

subsection \<open>Properties\<close>

text \<open>The logger is not atomic: when another thread logs an error between the two accesses of
  \<open>LOG_INFO\<close>, the informational message is printed as an error.\<close>

lemma log_levels_race:
  "\<exists>sched \<in> shuffles (log_macro INFO ''a'') (log_macro ERROR ''b'').
     ''[ERROR]'' @ now @ '' : '' @ ''a'' \<in> set (lg_lines (fold (log_exec now) sched \<lparr>lg_logLevel = None, lg_lines = []\<rparr>))"
proof -
  let ?s = "[Set_level INFO, Set_level ERROR, Log_line ''a'', Log_line ''b'']"
  have "?s \<in> shuffles (log_macro INFO ''a'') (log_macro ERROR ''b'')"
    by (simp add: log_macro_def snprintf_buf_def shuffles.simps)
  then show ?thesis
    by (intro bexI [of _ ?s]) (simp_all add: Logger_setLogLevel_def Logger_log_def)
qed

end
