(* ===== verification/Echo.thy ===== *)
theory Echo
  imports ClientLife InetAddr Logging
begin

section \<open>Echo: the programs of the examples\<close>

text \<open>
  \<open>src/examples/echoserver.cc\<close>, \<open>src/examples/echoMoreClient.cc\<close>: the callbacks the two programs give to
  the library, and the setting up of the server.  Both answer a message with the text of the time it
  was received, so two of them together never stop talking.  \<open>lt\<close> is \<open>localtime\<close>; \<open>tmp\<close> chooses the
  address of a temporary \<open>std::string\<close>.  Output to the log and to \<open>std::cout\<close>, and \<open>sleep\<close>, are left out.
\<close>

subsection \<open>The callbacks\<close>

definition char_bytes :: "string \<Rightarrow> byte list" where
  "char_bytes s = map of_char s"

text \<open>\<open>conn->send(\<close> a temporary string \<open>)\<close>: the string lives until the call returns.\<close>

definition send_temporary ::
  "os \<Rightarrow> ((mem_ptr \<rightharpoonup> byte list) \<Rightarrow> mem_ptr) \<Rightarrow> conn_ptr \<Rightarrow> string
     \<Rightarrow> 'w conn_world_scheme \<Rightarrow> 'w conn_world_scheme result" where
  "send_temporary os tmp c s w =
     (let p = tmp (memory w) in
      bindE (TcpConnection_send os c p (w\<lparr>memory := (memory w)(p \<mapsto> char_bytes s)\<rparr>)) (\<lambda>w1.
      Inr (w1\<lparr>memory := (memory w1)(p := None)\<rparr>)))"

definition EchoServer_onConnection :: "conn_ptr \<Rightarrow> 'w conn_world_scheme \<Rightarrow> 'w conn_world_scheme result" where
  "EchoServer_onConnection c w = bindE (deref (conns w) c) (\<lambda>cn. Inr w)"

definition EchoServer_onMessage ::
  "os \<Rightarrow> (int \<Rightarrow> tm) \<Rightarrow> ((mem_ptr \<rightharpoonup> byte list) \<Rightarrow> mem_ptr) \<Rightarrow> conn_ptr \<Rightarrow> timestamp
     \<Rightarrow> 'w conn_world_scheme \<Rightarrow> 'w conn_world_scheme result" where
  "EchoServer_onMessage os lt tmp c time w =
     bindE (deref (conns w) c) (\<lambda>cn.
     bindE (retrieveAllAsString (cn_inputBuffer cn)) (\<lambda>(msg, buf).
     send_temporary os tmp c (Timestamp_toString lt time)
       (upd_conn c (\<lambda>cn. cn\<lparr>cn_inputBuffer := buf\<rparr>) w)))"

definition moreClient_onConnection ::
  "os \<Rightarrow> ((mem_ptr \<rightharpoonup> byte list) \<Rightarrow> mem_ptr) \<Rightarrow> conn_ptr
     \<Rightarrow> 'w conn_world_scheme \<Rightarrow> 'w conn_world_scheme result" where
  "moreClient_onConnection os tmp c w =
     bindE (deref (conns w) c) (\<lambda>cn.
     if cn_state cn = kConnected then send_temporary os tmp c ''hello i am yielde'' w else Inr w)"

definition moreClient_onMessage ::
  "os \<Rightarrow> (int \<Rightarrow> tm) \<Rightarrow> ((mem_ptr \<rightharpoonup> byte list) \<Rightarrow> mem_ptr) \<Rightarrow> conn_ptr \<Rightarrow> timestamp
     \<Rightarrow> 'w conn_world_scheme \<Rightarrow> 'w conn_world_scheme result" where
  "moreClient_onMessage os lt tmp c time w =
     bindE (deref (conns w) c) (\<lambda>cn.
     bindE (retrieveAllAsString (cn_inputBuffer cn)) (\<lambda>(msg, buf).
     send_temporary os tmp c (Timestamp_toString lt time)
       (upd_conn c (\<lambda>cn. cn\<lparr>cn_inputBuffer := buf\<rparr>) w)))"

text \<open>Function \<open>0\<close> of the application is the server's, every other the client's.\<close>

definition echo_app ::
  "os \<Rightarrow> (int \<Rightarrow> tm) \<Rightarrow> ((mem_ptr \<rightharpoonup> byte list) \<Rightarrow> mem_ptr) \<Rightarrow> ('w conn_world_scheme) app" where
  "echo_app os lt tmp =
     \<lparr>app_functor = (\<lambda>_. Inr), app_threadInit = (\<lambda>_ _. Inr),
      app_connection = (\<lambda>u. if u = 0 then EchoServer_onConnection else moreClient_onConnection os tmp),
      app_message = (\<lambda>u. if u = 0 then EchoServer_onMessage os lt tmp else moreClient_onMessage os lt tmp),
      app_writeComplete = (\<lambda>_ _. Inr), app_highWaterMark = (\<lambda>_ _ _. Inr)\<rparr>"

subsection \<open>The server\<close>

definition EchoServer_ctor ::
  "os \<Rightarrow> server_ptr \<Rightarrow> chan_ptr \<Rightarrow> loop_ptr option \<Rightarrow> sockaddr \<Rightarrow> string
     \<Rightarrow> 'w server_world_scheme \<Rightarrow> 'w server_world_scheme result" where
  "EchoServer_ctor os s p loop addr name w =
     bindE (TcpServer_ctor os s p loop addr name kNoReusePort w) (\<lambda>w1.
     Inr (TcpServer_setThreadNum s 4 (TcpServer_setMessageCallback s (App_message 0)
            (TcpServer_setConnectionCallback s (App_connection 0) w1))))"

definition EchoServer_start ::
  "os \<Rightarrow> ('w server_world_scheme) conn_env
     \<Rightarrow> (string \<Rightarrow> 'w server_world_scheme \<Rightarrow> (loop_ptr \<times> 'w server_world_scheme) result)
     \<Rightarrow> server_ptr \<Rightarrow> 'w server_world_scheme \<Rightarrow> 'w server_world_scheme result" where
  "EchoServer_start os env startLoop s w = TcpServer_start os env startLoop s w"

text \<open>
  The client's \<open>main\<close>: it connects before it sets the callbacks, which is in time because the
  connection is made later, in the loop.  The loop has been made; \<open>loop.loop()\<close> is \<open>run_loop\<close>.
\<close>

definition moreClient_start ::
  "os \<Rightarrow> alloc \<Rightarrow> loop_ptr \<Rightarrow> client_ptr \<Rightarrow> connector_ptr \<Rightarrow> 'w client_world_scheme \<Rightarrow> 'w client_world_scheme result" where
  "moreClient_start os al L i k w =
     (let serverAddr = InetAddress_new 9999 ''10.211.55.3'';
          w1 = TcpClient_ctor i k L serverAddr ''yieldeClient'' w
      in bindE (TcpClient_connect os al i w1) (\<lambda>w2.
         Inr (TcpClient_setMessageCallback i (App_message 1)
                (TcpClient_setConnectionCallback i (App_connection 1) w2))))"

definition moreClient_main ::
  "os \<Rightarrow> alloc \<Rightarrow> ('w client_world_scheme) app \<Rightarrow> loop_ptr \<Rightarrow> client_ptr \<Rightarrow> connector_ptr
     \<Rightarrow> 'w client_world_scheme \<Rightarrow> 'w client_world_scheme result option" where
  "moreClient_main os al ap L i k w =
     (case moreClient_start os al L i k w of
        Inl e \<Rightarrow> Some (Inl e)
      | Inr w1 \<Rightarrow>
          (case run_loop os al ap L w1 of
             None \<Rightarrow> None
           | Some r \<Rightarrow> Some (bindE r (TcpClient_disconnect os i))))"

subsection \<open>A message is answered\<close>

lemma retrieveAllAsString_ok:
  assumes "wf_buffer b"
  shows "retrieveAllAsString b = Inr (content b, retrieveAll b)"
proof -
  have "unat (readableBytes b) \<le> max_size"
    using unat_readableBytes [OF assms] length_content [OF assms] assms
    by (auto simp: wf_buffer_def)
  then show ?thesis
    using peek_all [OF assms] by (simp add: retrieveAllAsString_def retrieveAsString_def retrieve_def)
qed

lemma stream_inv_memory [simp]: "stream_inv (w\<lparr>memory := m\<rparr>) c cn ch = stream_inv w c cn ch"
proof -
  have "poller_inv L (w\<lparr>memory := m\<rparr>) = poller_inv L w" for L by (rule poller_inv_cong) simp_all
  then show ?thesis by (simp add: stream_inv_def conn_rel_def isInLoopThread_def)
qed

lemma send_temporary_ok:
  assumes os: "epoll_ok os" "write_ok os" "no_reset os" and inv: "stream_inv w c cn ch"
    and fresh: "memory w (tmp (memory w)) = None"
    and room: "unat (buf_writer (cn_outputBuffer cn)) + length s \<le> max_size"
  shows "\<exists>w' b ch'. send_temporary os tmp c s w = Inr w' \<and>
    stream_inv w' c (cn\<lparr>cn_outputBuffer := b\<rparr>) ch' \<and> memory w' = memory w \<and>
    unat (buf_writer b) \<le> unat (buf_writer (cn_outputBuffer cn)) + length s \<and>
    out_stream w' (cn\<lparr>cn_outputBuffer := b\<rparr>)
      = out_stream w cn @ (if cn_state cn = kConnected then char_bytes s else [])"
proof -
  let ?p = "tmp (memory w)" and ?w = "w\<lparr>memory := (memory w)(tmp (memory w) \<mapsto> char_bytes s)\<rparr>"
  have inv': "stream_inv ?w c cn ch" and d: "memory ?w ?p = Some (char_bytes s)" using inv by simp_all
  have len: "length (char_bytes s) = length s" by (simp add: char_bytes_def)
  from send_op_ok [OF os inv' d] room obtain w' b ch' where
    s: "TcpConnection_send os c ?p ?w = Inr w'" "stream_inv w' c (cn\<lparr>cn_outputBuffer := b\<rparr>) ch'"
      "memory w' = memory ?w" "unat (buf_writer b) \<le> unat (buf_writer (cn_outputBuffer cn)) + length s"
      "out_stream w' (cn\<lparr>cn_outputBuffer := b\<rparr>)
        = out_stream ?w cn @ (if cn_state cn = kConnected then char_bytes s else [])"
    unfolding len by blast
  have "(memory w')(?p := None) = memory w" using s(3) fresh by (simp add: fun_upd_idem)
  then show ?thesis using s
    by (intro exI [of _ "w'\<lparr>memory := memory w\<rparr>"] exI [of _ b] exI [of _ ch'])
       (simp add: send_temporary_def Let_def out_stream_def)
qed

text \<open>What either program does with a message.\<close>

lemma stream_inv_input:
  assumes "stream_inv w c cn ch" "wf_buffer b"
  shows "stream_inv (upd_conn c (\<lambda>cn. cn\<lparr>cn_inputBuffer := b\<rparr>) w) c (cn\<lparr>cn_inputBuffer := b\<rparr>) ch"
  using assms by (auto simp: stream_inv_def conn_rel_def conn_open_def isInLoopThread_def)

lemma onMessage_ok:
  assumes os: "epoll_ok os" "write_ok os" "no_reset os" and inv: "stream_inv w c cn ch"
    and fresh: "memory w (tmp (memory w)) = None"
    and room: "unat (buf_writer (cn_outputBuffer cn)) + length (Timestamp_toString lt t) \<le> max_size"
  shows "\<exists>w' b ch'. EchoServer_onMessage os lt tmp c t w = Inr w' \<and>
    stream_inv w' c (cn\<lparr>cn_inputBuffer := retrieveAll (cn_inputBuffer cn), cn_outputBuffer := b\<rparr>) ch' \<and>
    memory w' = memory w \<and>
    unat (buf_writer b) \<le> unat (buf_writer (cn_outputBuffer cn)) + length (Timestamp_toString lt t) \<and>
    out_stream w' (cn\<lparr>cn_inputBuffer := retrieveAll (cn_inputBuffer cn), cn_outputBuffer := b\<rparr>)
      = out_stream w cn @ (if cn_state cn = kConnected then char_bytes (Timestamp_toString lt t) else [])"
proof -
  note r = conn_relD [OF stream_invD(1) [OF inv]]
  let ?cn = "cn\<lparr>cn_inputBuffer := retrieveAll (cn_inputBuffer cn)\<rparr>"
  let ?w = "upd_conn c (\<lambda>cn'. cn'\<lparr>cn_inputBuffer := retrieveAll (cn_inputBuffer cn)\<rparr>) w"
  have inv': "stream_inv ?w c ?cn ch" using stream_inv_input [OF inv wf_retrieveAll [OF r(5)]] .
  have eq: "EchoServer_onMessage os lt tmp c t w = send_temporary os tmp c (Timestamp_toString lt t) ?w"
    using r(1) retrieveAllAsString_ok [OF r(5)] by (simp add: EchoServer_onMessage_def)
  show ?thesis
    using send_temporary_ok [OF os inv', of tmp "Timestamp_toString lt t"] fresh room
    unfolding eq by (simp add: out_stream_def)
qed

subsection \<open>A conversation\<close>

lemma echo_read_ok:
  fixes w :: "'w client_world_scheme"
  assumes os: "epoll_ok os" "write_ok os" "no_reset os" "readv_ok os" and inv: "stream_inv w c cn ch"
    and cn: "cn_state cn = kConnected" "cn_messageCallback cn = Some (App_message 0)"
    and data: "os_readv os (hist w) (cn_socket cn) (readv_iov (cn_inputBuffer cn)) = Inr d" "d \<noteq> []"
    and fresh: "memory w (tmp (memory w)) = None"
    and room: "buffer_room extrabuf_size (cn_inputBuffer cn)"
      "unat (buf_writer (cn_outputBuffer cn)) + length (Timestamp_toString lt t) \<le> max_size"
  shows "\<exists>w' inp b ch'. TcpConnection_handleRead os (env_of os al (echo_app os lt tmp)) c t w = Inr w' \<and>
    stream_inv w' c (cn\<lparr>cn_inputBuffer := inp, cn_outputBuffer := b\<rparr>) ch' \<and>
    content inp = [] \<and> memory w' = memory w \<and>
    length (buf_bytes inp) \<le> length (buf_bytes (cn_inputBuffer cn)) + extrabuf_size \<and>
    unat (buf_writer b) \<le> unat (buf_writer (cn_outputBuffer cn)) + length (Timestamp_toString lt t) \<and>
    out_stream w' (cn\<lparr>cn_inputBuffer := inp, cn_outputBuffer := b\<rparr>)
      = out_stream w cn @ char_bytes (Timestamp_toString lt t)"
proof -
  let ?env = "env_of os al (echo_app os lt tmp)"
  from conn_handleRead_ok [OF os(4) stream_invD(1) [OF inv] room(1) data(1), of ?env t] obtain inp w1 where
    r: "conn_rel w1 c (cn\<lparr>cn_inputBuffer := inp\<rparr>) ch"
      "length (buf_bytes inp) \<le> length (buf_bytes (cn_inputBuffer cn)) + extrabuf_size"
      "w1 = upd_conn c (\<lambda>cn. cn\<lparr>cn_inputBuffer := inp\<rparr>)
        (w\<lparr>hist := hist w @ [Readv (cn_socket cn) (readv_iov (cn_inputBuffer cn)) (Inr d)]\<rparr>)"
      "TcpConnection_handleRead os ?env c t w = call_message ?env c t w1"
    using data(2) by auto
  have inv1: "stream_inv w1 c (cn\<lparr>cn_inputBuffer := inp\<rparr>) ch"
    and out1: "out_stream w1 (cn\<lparr>cn_inputBuffer := inp\<rparr>) = out_stream w cn"
    by (rule stream_inv_read [OF inv r(1,3)])+
  have "TcpConnection_handleRead os ?env c t w = EchoServer_onMessage os lt tmp c t w1"
    using r(4) conn_relD(1) [OF r(1)] cn(2) by (simp add: call_message_def env_of_def echo_app_def)
  moreover have "memory w1 = memory w" using r(3) by simp
  moreover have "length (buf_bytes (retrieveAll inp)) = length (buf_bytes inp)" by (simp add: retrieveAll_def)
  moreover obtain w' b ch' where "EchoServer_onMessage os lt tmp c t w1 = Inr w'"
    "stream_inv w' c (cn\<lparr>cn_inputBuffer := retrieveAll inp, cn_outputBuffer := b\<rparr>) ch'" "memory w' = memory w"
    "unat (buf_writer b) \<le> unat (buf_writer (cn_outputBuffer cn)) + length (Timestamp_toString lt t)"
    "out_stream w' (cn\<lparr>cn_inputBuffer := retrieveAll inp, cn_outputBuffer := b\<rparr>)
      = out_stream w cn @ char_bytes (Timestamp_toString lt t)"
    using onMessage_ok [OF os(1-3) inv1, of tmp lt t] fresh room(2) out1 cn(1) \<open>memory w1 = memory w\<close> by auto
  ultimately show ?thesis
    using r(2) by (intro exI [of _ w'] exI [of _ "retrieveAll inp"] exI [of _ b] exI [of _ ch']) simp
qed

lemma readv_iov_pos: "0 < sum_list (readv_iov b)"
  by (simp add: readv_iov_def Let_def extrabuf_size_def)

lemma echo_session_ok:
  fixes w :: "'w client_world_scheme"
  assumes os: "epoll_ok os" "write_ok os" "no_reset os" "readv_ok os"
    and data: "\<And>h lens. 0 < sum_list lens \<Longrightarrow> \<exists>d. os_readv os h f lens = Inr d \<and> d \<noteq> []"
  shows "stream_inv w c cn ch \<Longrightarrow> cn_socket cn = f \<Longrightarrow> cn_state cn = kConnected \<Longrightarrow>
    cn_messageCallback cn = Some (App_message 0) \<Longrightarrow> memory w (tmp (memory w)) = None \<Longrightarrow>
    length (buf_bytes (cn_inputBuffer cn)) + length ts * extrabuf_size \<le> max_size \<Longrightarrow>
    unat (buf_writer (cn_outputBuffer cn)) + length (concat (map (Timestamp_toString lt) ts)) \<le> max_size \<Longrightarrow>
    \<exists>w' cn' ch'. foldE (TcpConnection_handleRead os (env_of os al (echo_app os lt tmp)) c) ts w = Inr w' \<and>
      stream_inv w' c cn' ch' \<and> cn_state cn' = kConnected \<and>
      out_stream w' cn' = out_stream w cn @ char_bytes (concat (map (Timestamp_toString lt) ts)) \<and>
      content (cn_inputBuffer cn') = (if ts = [] then content (cn_inputBuffer cn) else [])"
proof (induction ts arbitrary: w cn ch)
  case Nil
  then show ?case by (intro exI [of _ w] exI [of _ cn] exI [of _ ch]) (simp add: char_bytes_def)
next
  case (Cons t ts)
  let ?s = "Timestamp_toString lt t"
  from data obtain d where d: "os_readv os (hist w) (cn_socket cn) (readv_iov (cn_inputBuffer cn)) = Inr d" "d \<noteq> []"
    using Cons.prems(2) readv_iov_pos by blast
  have room: "buffer_room extrabuf_size (cn_inputBuffer cn)"
      "unat (buf_writer (cn_outputBuffer cn)) + length ?s \<le> max_size"
    using Cons.prems(6,7) by (simp_all add: buffer_room_def)
  from echo_read_ok [where al = al and tmp = tmp, OF os Cons.prems(1,3,4) d Cons.prems(5) room] obtain w1 inp b ch1 where
    w1: "TcpConnection_handleRead os (env_of os al (echo_app os lt tmp)) c t w = Inr w1"
      "stream_inv w1 c (cn\<lparr>cn_inputBuffer := inp, cn_outputBuffer := b\<rparr>) ch1" "content inp = []"
      "memory w1 = memory w"
      "length (buf_bytes inp) \<le> length (buf_bytes (cn_inputBuffer cn)) + extrabuf_size"
      "unat (buf_writer b) \<le> unat (buf_writer (cn_outputBuffer cn)) + length ?s"
      "out_stream w1 (cn\<lparr>cn_inputBuffer := inp, cn_outputBuffer := b\<rparr>) = out_stream w cn @ char_bytes ?s"
    by blast
  from Cons.IH [OF w1(2)] Cons.prems(2-7) w1(4-6) obtain w' cn' ch' where
    "foldE (TcpConnection_handleRead os (env_of os al (echo_app os lt tmp)) c) ts w1 = Inr w'"
    "stream_inv w' c cn' ch'" "cn_state cn' = kConnected"
    "out_stream w' cn' = out_stream w cn @ char_bytes ?s @ char_bytes (concat (map (Timestamp_toString lt) ts))"
    "content (cn_inputBuffer cn') = []"
    using w1(3,7) by (auto split: if_splits)
  then show ?case
    using w1(1,3,7) by (intro exI [of _ w'] exI [of _ cn'] exI [of _ ch']) (auto simp: char_bytes_def)
qed

end
