(* ===== verification/EchoSafe.thy ===== *)
theory EchoSafe
  imports ServerLoops Echo
begin

section \<open>EchoSafe: an application of the library that is safe\<close>

text \<open>
  The callbacks of \<open>src/examples/echoserver.cc\<close> keep the invariant of the server they run in: what
  the application of a safe server has to show, shown for the example.
\<close>

subsection \<open>The echo server\<close>

lemma conn_step_memory:
  assumes "conn_step c (w\<lparr>memory := m\<rparr>) cn w' cn' ch'"
  shows "conn_step c w cn (w'\<lparr>memory := m'\<rparr>) cn' ch'"
proof -
  have "poller_inv L (w'\<lparr>memory := m'\<rparr>) = poller_inv L w'" for L by (rule poller_inv_cong) simp_all
  then show ?thesis
    using assms by (simp add: conn_step_def conn_rel_def conn_local_def loop_local_def same_at_def)
qed

lemma conn_rel_memory: "conn_rel (w\<lparr>memory := m\<rparr>) c cn ch = conn_rel w c cn ch"
proof -
  have "poller_inv L (w\<lparr>memory := m\<rparr>) = poller_inv L w" for L by (rule poller_inv_cong) simp_all
  then show ?thesis by (simp add: conn_rel_def)
qed

lemma send_temporary_step:
  assumes os: "epoll_ok os" "write_ok os" and rel: "conn_rel w c cn ch" and here: "isInLoopThread (cn_loop cn) w"
    and room: "unat (buf_writer (cn_outputBuffer cn)) + length s \<le> max_size"
  shows "\<exists>w' b ch'. send_temporary os tmp c s w = Inr w' \<and> conn_step c w cn w' (cn\<lparr>cn_outputBuffer := b\<rparr>) ch' \<and>
    unat (buf_writer b) \<le> unat (buf_writer (cn_outputBuffer cn)) + length s \<and>
    (cn_state cn \<noteq> kConnected \<longrightarrow> ch' = ch)"
proof -
  let ?p = "tmp (memory w)"
  let ?w = "w\<lparr>memory := (memory w)(?p \<mapsto> char_bytes s)\<rparr>"
  have len: "length (char_bytes s) = length s" by (simp add: char_bytes_def)
  have rel': "conn_rel ?w c cn ch" using rel by (simp add: conn_rel_memory)
  have here': "isInLoopThread (cn_loop cn) ?w" using here by (simp add: isInLoopThread_def)
  have mem: "memory ?w ?p = Some (char_bytes s)" by simp
  from send_step [OF os rel' here' mem] room obtain w' b ch' where
    w': "TcpConnection_send os c ?p ?w = Inr w'" "conn_step c ?w cn w' (cn\<lparr>cn_outputBuffer := b\<rparr>) ch'"
      "unat (buf_writer b) \<le> unat (buf_writer (cn_outputBuffer cn)) + length s"
      "cn_state cn \<noteq> kConnected \<longrightarrow> ch' = ch" unfolding len by blast
  show ?thesis
    using w'(1,3,4) conn_step_memory [OF w'(2)]
    by (intro exI [of _ "w'\<lparr>memory := (memory w')(?p := None)\<rparr>"] exI [of _ b] exI [of _ ch'])
      (simp add: send_temporary_def Let_def)
qed

lemma onMessage_safe:
  fixes w :: "'w client_world_scheme"
  assumes sys: "server_sys S L (Suc k) hold todo w" and up: "conn_up L c w"
    and os: "kernel_ok os" and len: "length (Timestamp_toString lt t) \<le> extrabuf_size"
  shows "safe S L k hold todo w (EchoServer_onMessage os lt tmp c t w)"
proof -
  from up obtain cn where c: "conns w c = Some cn" "cn_loop cn = L" "cn_state cn \<noteq> kConnecting"
    by (auto simp: conn_up_def split: option.splits)
  from sys_connE [OF sys c(1)] obtain ch where
    ch: "chans w (cn_channel cn) = Some ch" "conn_wf S (Suc k) w c cn ch" .
  note wf = conn_wfD [OF ch(2)]
  note r = conn_relD [OF wf(1)]
  let ?s = "Timestamp_toString lt t"
  let ?cn = "cn\<lparr>cn_inputBuffer := retrieveAll (cn_inputBuffer cn)\<rparr>"
  let ?w = "upd_conn c (\<lambda>cn. cn\<lparr>cn_inputBuffer := retrieveAll (cn_inputBuffer cn)\<rparr>) w"
  have eq: "EchoServer_onMessage os lt tmp c t w = send_temporary os tmp c ?s ?w"
    using c(1) retrieveAllAsString_ok [OF r(5)] by (simp add: EchoServer_onMessage_def upd_conn_def)
  have step1: "conn_step c w cn ?w ?cn ch" using retrieveAll_step [OF wf(1)] .
  then have rel1: "conn_rel ?w c ?cn ch" by (simp add: conn_step_def)
  have here: "isInLoopThread (cn_loop ?cn) ?w"
    using sys_here(2) [OF sys] c(2) by (simp add: isInLoopThread_def)
  have room: "unat (buf_writer (cn_outputBuffer ?cn)) + length ?s \<le> max_size"
    using wf(14) len by simp
  from send_temporary_step [OF kernel_okD(1,2) [OF os] rel1 here room, of tmp] obtain w2 b ch2 where
    w2: "send_temporary os tmp c ?s ?w = Inr w2" "conn_step c ?w ?cn w2 (?cn\<lparr>cn_outputBuffer := b\<rparr>) ch2"
      "unat (buf_writer b) \<le> unat (buf_writer (cn_outputBuffer cn)) + length ?s"
      "cn_state cn \<noteq> kConnected \<longrightarrow> ch2 = ch" by auto
  let ?cn2 = "?cn\<lparr>cn_outputBuffer := b\<rparr>"
  note step = conn_step_trans [OF step1 w2(2)]
  have sys': "server_sys S L k hold todo w" using server_sys_mono [OF sys] by simp
  have idx: "ch_index ch2 = kNew \<longleftrightarrow> ch_index ch = kNew"
  proof (cases "cn_state cn = kConnected")
    case True
    then show ?thesis
      using r(11) conn_relD(11) [of w2 c ?cn2 ch2] w2(2) by (simp add: conn_step_def conn_open_def kIndex_defs)
  qed (use w2(4) in simp)
  have none: "isNoneEvent ch2" if "\<not> conn_open cn" using that w2(4) wf(15) by (simp add: conn_open_def)
  have "server_sys S L k hold todo w2"
    using wf(3,13,14) w2(3) len none idx c(3)
    by (intro sys_step [OF sys' c(1) ch(1) step]) (simp_all add: conn_open_def retrieveAll_def)
  moreover have "keeps w w2" by (rule step_keeps [OF c(1) ch(1) step]) (simp_all add: idx)
  ultimately show ?thesis using eq w2(1) by (intro safeI) simp_all
qed

text \<open>The program of \<open>echoserver.cc\<close>: whatever number a callback has, it is the server's.\<close>

definition echo_server_app ::
  "os \<Rightarrow> (int \<Rightarrow> tm) \<Rightarrow> ((mem_ptr \<rightharpoonup> byte list) \<Rightarrow> mem_ptr) \<Rightarrow> ('w conn_world_scheme) app" where
  "echo_server_app os lt tmp = (echo_app os lt tmp)
     \<lparr>app_connection := (\<lambda>_. EchoServer_onConnection), app_message := (\<lambda>_. EchoServer_onMessage os lt tmp)\<rparr>"

lemma snprintf_buf_le: "length (snprintf_buf n s) \<le> n - 1"
  by (simp add: snprintf_buf_def)

lemma echo_server_app_safe:
  assumes "kernel_ok os"
  shows "app_safe S (echo_server_app os lt tmp)"
proof -
  have len: "length (Timestamp_toString lt t) \<le> extrabuf_size" for t
    unfolding Timestamp_toString_def Let_def
    by (rule order_trans [OF snprintf_buf_le]) (simp add: extrabuf_size_def)
  show ?thesis
    unfolding app_safe_def
  proof (intro conjI allI impI)
    fix L k hold todo c u n and w :: "'a client_world_scheme" assume sys: "server_sys S L k hold todo w" "conn_up L c w"
    then show "safe S L k hold todo w (app_connection (echo_server_app os lt tmp) u c w)"
      "safe S L k hold todo w (app_writeComplete (echo_server_app os lt tmp) u c w)"
      "safe S L k hold todo w (app_highWaterMark (echo_server_app os lt tmp) u c n w)"
      using safe_Inr by (auto simp: echo_server_app_def echo_app_def EchoServer_onConnection_def conn_up_def split: option.splits)
  next
    fix L k hold todo c u t and w :: "'a client_world_scheme" assume sys: "server_sys S L (Suc k) hold todo w" "conn_up L c w"
    then show "safe S L k hold todo w (app_message (echo_server_app os lt tmp) u c t w)"
      using onMessage_safe [OF sys assms len] by (auto simp: echo_server_app_def)
  qed
qed

end
