(* ===== verification/ClientUp.thy ===== *)
theory ClientUp
  imports ClientRounds EchoSafe
begin

section \<open>ClientUp: a client comes up, and the application of the example\<close>

text \<open>
  The constructor of a loop, of a client in it, \<open>TcpClient::connect\<close> and the setting of callbacks lead to
  the invariant of the client (\<open>ClientInv\<close>); and the callbacks of \<open>src/examples/echoMoreClient.cc\<close> keep it.
\<close>

subsection \<open>Coming up\<close>

text \<open>Callbacks may be set at any time between two rounds.\<close>

lemma client_callbacks_sys:
  fixes w :: "'w client_world_scheme"
  assumes sys: "client_sys os D k hold todo w c cl"
    and g: "cl_loop (g cl) = cl_loop cl" "cl_connector (g cl) = cl_connector cl" "cl_retry (g cl) = cl_retry cl"
      "cl_nextConnId (g cl) = cl_nextConnId cl" "cl_connection (g cl) = cl_connection cl"
      "cl_connectionCallback (g cl) \<noteq> None" "cl_messageCallback (g cl) \<noteq> None"
  shows "client_sys os D k hold todo (upd_client (cs_client D) g w) c (g cl)"
proof -
  let ?w = "upd_client (cs_client D) g w"
  have at: "clients w (cs_client D) = Some cl" using client_wfD(1) [OF client_sysD(3) [OF sys]] .
  have same: "conns ?w = conns w" "chans ?w = chans w" "pollers ?w = pollers w" "loops ?w = loops w" "hist ?w = hist w"
    "current_tid ?w = current_tid w" "connectors ?w = connectors w" "timers ?w = timers w" "timerqueues ?w = timerqueues w"
    "clients ?w (cs_client D) = Some (g cl)" using at by (simp_all add: upd_client_def)
  have tq: "tq_entries (cs_loop D) ?w = tq_entries (cs_loop D) w" by (simp add: tq_entries_def same)
  have w: "waits D qs ?w = waits D qs w" for qs by (simp add: waits_def same)
  have "desk_wf D ?w c" using client_sysD(1) [OF sys] by (simp add: desk_wf_def desk_small_def isInLoopThread_def same)
  moreover have "link_wf os D todo ?w c"
  proof -
    have "connector_rel ?w (cs_connector D) c = connector_rel w (cs_connector D) c" by (simp add: connector_rel_def same)
    moreover have "timers_wf (cs_loop D) ?w = timers_wf (cs_loop D) w" by (simp add: timers_wf_def entry_ok_def tq same)
    moreover have "timers_known D todo ?w = timers_known D todo w" by (rule timers_known_cong) (simp_all add: tq same running_def w)
    moreover have "retry_timer D ?w = retry_timer D w" "recent os D ?w = recent os D w" "reset_waits D todo ?w = reset_waits D todo w"
      unfolding retry_timer_def recent_def reset_waits_def tq same w by (rule refl)+
    ultimately show ?thesis using client_sysD(2) [OF sys] by (simp only: link_wf_def tq same simp_thms) blast
  qed
  moreover have "client_wf D ?w c (g cl)" using client_sysD(3) [OF sys] g by (simp add: client_wf_def same)
  moreover have "peer_wf D k ?w d dn dh = peer_wf D k w d dn dh" for d dn dh by (simp add: peer_wf_def conn_rel_def same)
  moreover have "peer_held H T (g cl) d dn dh = peer_held H T cl d dn dh" for H T d dn dh by (simp add: peer_held_def g)
  moreover have "waits_wf D ?w cb = waits_wf D w cb" for cb by (cases cb) (simp_all add: same at g)
  ultimately show ?thesis using sys unfolding client_sys_def w same(1,4) by presburger
qed

text \<open>A client that was just constructed in a loop that was just constructed.\<close>

lemma client_born:
  fixes w :: "'w client_world_scheme"
  assumes L: "poller_inv L w" "tq_entries L w = []" "lp_pendingFunctors (loops w L) = []" "\<not> lp_quit (loops w L)"
      "isInLoopThread L w" "lp_wakeupFd (loops w L) \<in> fds"
    and D: "D = \<lparr>cs_loop = L, cs_client = i, cs_connector = x, cs_fds = fds\<rparr>"
    and small: "finite fds" "card fds \<le> 2" "po_capacity (pollers w L) = kInitEventListSize"
    and chans: "finite (dom (chans w))" "\<And>p ch. chans w p = Some ch \<Longrightarrow> ch_loop ch = L \<Longrightarrow> loop_chan D ch"
    and none: "conns w = Map.empty" "timers w = Map.empty"
    and c: "connectors w x = Some c" "ct_loop c = L" "ct_connect c" "ct_state c = Ct_kDisconnected" "ct_channel c = None"
      "ct_newConnectionCallback c = Some i"
    and cl: "clients w i = Some cl" "cl_loop cl = L" "cl_connector cl = x" "\<not> cl_retry cl" "cl_connectionCallback cl \<noteq> None"
      "cl_messageCallback cl \<noteq> None" "cl_connection cl = None" "cl_nextConnId cl = 1"
  shows "client_sys os D k [] [] w c cl" "to_dial D [] w c"
proof -
  have "desk_wf D w c" using L chans none small by (simp add: desk_wf_def desk_small_def D)
  moreover have "link_wf os D [] w c"
    using L c none
    by (simp add: link_wf_def D connector_rel_def timers_wf_def timers_known_def running_def waits_def reset_waits_def retry_timer_def)
  moreover have "client_wf D w c cl" using cl none by (simp add: client_wf_def D)
  ultimately show "client_sys os D k [] [] w c cl" using none L(3) by (simp add: client_sys_def D)
  show "to_dial D [] w c" using L(2,3) c(4) by (simp add: to_dial_def D reset_waits_def waits_def)
qed

text \<open>From the constructor of the loop to the end of \<open>connect\<close>.\<close>

lemma client_up:
  fixes w :: "'w client_world_scheme"
  assumes os: "dial_ok os al D" and new: "blank_process w" "timers w = Map.empty"
    and ptr: "cw \<noteq> ct" "timerfd \<noteq> wakeupFd"
    and D: "D = \<lparr>cs_loop = L, cs_client = i, cs_connector = x, cs_fds = {wakeupFd, timerfd}\<rparr>"
  shows "\<exists>w1 w2 c cl. EventLoop_ctor os L False (Inr ep) (Inr wakeupFd) timerfd cw ct w = Inr w1 \<and>
    TcpClient_connect os al i (TcpClient_ctor i x L addr name w1) = Inr w2 \<and>
    client_sys os D k [] [] w2 c cl \<and> settled D w2 c"
proof -
  note o = kernel_okD [OF dial_okD(1) [OF os]]
  note nw = new(1) [unfolded blank_process_def]
  let ?t = "reading_channel L timerfd (Bind_TimerQueue_handleRead L)"
    and ?wk = "reading_channel L wakeupFd (Bind_EventLoop_handleRead L)"
  have b: "t_loopInThisThread w (current_tid w) = None" "\<And>p ch. chans w p = Some ch \<Longrightarrow> ch_loop ch \<noteq> L"
    "interest (hist w) ep = Map.empty" "chans w cw = None" "chans w ct = None" using nw by simp_all
  from EventLoop_ctor_ok [where L = L, OF o(1) o(5) b(1) _ b(3-5) ptr] b(2) obtain w1 where
    w1: "EventLoop_ctor os L False (Inr ep) (Inr wakeupFd) timerfd cw ct w = Inr w1" "poller_inv L w1"
      "tq_entries L w1 = []" "lp_pendingFunctors (loops w1 L) = []" "\<not> lp_quit (loops w1 L)" "isInLoopThread L w1"
      "chans w1 = (chans w)(ct \<mapsto> ?t, cw \<mapsto> ?wk)" "lp_wakeupFd (loops w1 L) = wakeupFd"
      "timer_world.more w1 = timer_world.more w" "loop_added L ep w w1" by blast
  have "conns w1 = conns w" using w1(9) by (cases w; cases w1; simp)
  then have same1: "conns w1 = Map.empty" "timers w1 = Map.empty" using w1(10) nw new(2) by (simp_all add: loop_added_def)
  let ?c = "\<lparr>ct_loop = L, ct_serverAddr = addr, ct_connect = True, ct_state = Ct_kDisconnected, ct_channel = None,
    ct_newConnectionCallback = Some i, ct_retryDelayMs = kInitRetryDelayMs\<rparr>"
  let ?cl = "\<lparr>cl_loop = L, cl_connector = x, cl_name = name, cl_connectionCallback = Some Default_connection,
    cl_messageCallback = Some Default_message, cl_writeCompleteCallback = None, cl_retry = False, cl_connect = True,
    cl_nextConnId = 1, cl_connection = None\<rparr>"
  let ?w2 = "upd_connector x (\<lambda>c. c\<lparr>ct_connect := True\<rparr>)
    (upd_client i (\<lambda>cl. cl\<lparr>cl_connect := True\<rparr>) (TcpClient_ctor i x L addr name w1))"
  have w2: "hist ?w2 = hist w1" "chans ?w2 = chans w1" "pollers ?w2 = pollers w1" "loops ?w2 = loops w1" "conns ?w2 = conns w1"
    "timers ?w2 = timers w1" "timerqueues ?w2 = timerqueues w1" "current_tid ?w2 = current_tid w1"
    "connectors ?w2 x = Some ?c" "clients ?w2 i = Some ?cl"
    by (simp_all add: TcpClient_ctor_def Connector_ctor_def Connector_setNewConnectionCallback_def upd_connector_def upd_client_def)
  have inv: "poller_inv L ?w2" using w1(2) poller_inv_cong [of ?w2 w1 L] w2 by simp
  have at: "isInLoopThread L ?w2" "tq_entries L ?w2 = []" using w1(3,6) w2 by (simp_all add: isInLoopThread_def tq_entries_def)
  have "loop_chan D ?t" "loop_chan D ?wk"
    by (simp_all add: D loop_chan_def reading_channel_def Channel_set_index_def add_events_def Channel_new_def)
  then have ch: "loop_chan D ch" if "chans ?w2 p = Some ch" "ch_loop ch = L" for p ch
    using that b(2) [of p ch] unfolding w2(2) w1(7) by (auto split: if_splits)
  have small: "finite {wakeupFd, timerfd}" "card {wakeupFd, timerfd} \<le> 2" "po_capacity (pollers ?w2 L) = kInitEventListSize"
    using EventLoop_ctor_capacity [OF w1(1)] w2(3) ptr(2) by simp_all
  have fin: "finite (dom (chans ?w2))" using nw unfolding w2(2) w1(7) by simp
  note up = client_born [where w = ?w2 and c = ?c and cl = ?cl, OF inv at(2) _ _ at(1) _ D small fin ch]
  have sys: "client_sys os D k [] [] ?w2 ?c ?cl" and dial: "to_dial D [] ?w2 ?c"
    by (rule up; simp add: w1(4,5,8) w2 same1)+
  from startInLoop_safe [OF sys dial os] obtain w3 c3 where
    w3: "Connector_startInLoop os al x ?w2 = Inr w3" "client_sys os D k [] [] w3 c3 ?cl" "loops w3 = loops ?w2"
    by (auto simp: dialled_def D)
  have "clients (TcpClient_ctor i x L addr name w1) i = Some ?cl"
    by (simp add: TcpClient_ctor_def Connector_setNewConnectionCallback_def upd_connector_def)
  moreover have "connectors (upd_client i (\<lambda>cl. cl\<lparr>cl_connect := True\<rparr>) (TcpClient_ctor i x L addr name w1)) x = Some (?c\<lparr>ct_connect := False\<rparr>)"
    by (simp add: TcpClient_ctor_def Connector_ctor_def Connector_setNewConnectionCallback_def upd_connector_def upd_client_def)
  ultimately have "TcpClient_connect os al i (TcpClient_ctor i x L addr name w1) = Inr w3"
    using w3(1) at(1) by (simp add: TcpClient_connect_def Connector_start_def EventLoop_runInLoop_def)
  moreover have "settled D w3 c3" using w3(3) w2(4) w1(4) by (simp add: settled_def D)
  ultimately show ?thesis using w1(1) w3(2) by blast
qed

subsection \<open>The application of the example\<close>

lemma client_send_temporary:
  fixes w :: "'w client_world_scheme"
  assumes sys: "client_sys os D (Suc k) hold todo w c cl" and d: "conns w d = Some dn" and os: "kernel_ok os'"
    and len: "length s \<le> extrabuf_size"
  shows "client_safe os D k hold todo c w (send_temporary os' tmp d s w)"
proof -
  from client_connE [OF sys d] obtain dh where dh: "peer_wf D (Suc k) w d dn dh" "chans w (cn_channel dn) = Some dh" .
  note pw = peer_wfD [OF dh(1)]
  have here: "isInLoopThread (cn_loop dn) w" using desk_wfD(1) [OF client_sysD(1) [OF sys]] pw(2) by simp
  have room: "unat (buf_writer (cn_outputBuffer dn)) + length s \<le> max_size" using pw(11) len by simp
  from send_temporary_step [OF kernel_okD(1,2) [OF os] pw(1) here room, of tmp] obtain w1 b dh1 where
    w1: "send_temporary os' tmp d s w = Inr w1" "conn_step d w dn w1 (dn\<lparr>cn_outputBuffer := b\<rparr>) dh1"
      "unat (buf_writer b) \<le> unat (buf_writer (cn_outputBuffer dn)) + length s"
      "cn_state dn \<noteq> kConnected \<longrightarrow> dh1 = dh" by blast
  have sys': "client_sys os D k hold todo w c cl" using client_sys_mono [OF sys] by simp
  have new: "ch_index dh1 = kNew \<longleftrightarrow> ch_index dh = kNew"
  proof (cases "cn_state dn = kConnected")
    case True
    then show ?thesis
      using conn_relD(11) [OF pw(1)] conn_relD(11) [of w1 d "dn\<lparr>cn_outputBuffer := b\<rparr>" dh1] w1(2)
      by (simp add: conn_step_def conn_open_def kIndex_defs)
  qed (use w1(4) in simp)
  have "client_sys os D k hold todo w1 c cl"
    using pw w1(3,4) len new by (intro client_step [OF sys' d dh(2) w1(2)]) (auto simp: conn_open_def)
  then show ?thesis by (rule client_safeI [OF w1(1)]) (rule step_keeps [OF d dh(2) w1(2)], use new in simp_all)
qed

lemma client_reply:
  fixes w :: "'w client_world_scheme"
  assumes sys: "client_sys os D (Suc k) hold todo w c cl" and d: "conns w d \<noteq> None" and os: "kernel_ok os'"
  shows "client_safe os D k hold todo c w (moreClient_onMessage os' lt tmp d t w)"
proof -
  from d obtain dn where dn: "conns w d = Some dn" by blast
  from client_connE [OF sys dn] obtain dh where dh: "peer_wf D (Suc k) w d dn dh" "chans w (cn_channel dn) = Some dh" .
  note pw = peer_wfD [OF dh(1)]
  let ?g = "\<lambda>dn. dn\<lparr>cn_inputBuffer := retrieveAll (cn_inputBuffer dn)\<rparr>"
  let ?w = "upd_conn d ?g w"
  have len: "length (Timestamp_toString lt t) \<le> extrabuf_size"
    unfolding Timestamp_toString_def Let_def by (rule order_trans [OF snprintf_buf_le]) (simp add: extrabuf_size_def)
  note step = retrieveAll_step [OF pw(1)]
  have sys1: "client_sys os D (Suc k) hold todo ?w c cl"
    using pw by (intro client_step [OF sys dn dh(2) step]) (simp_all add: retrieveAll_def conn_open_def)
  have eq: "moreClient_onMessage os' lt tmp d t w = send_temporary os' tmp d (Timestamp_toString lt t) ?w"
    using dn retrieveAllAsString_ok [OF conn_relD(5) [OF pw(1)]] by (simp add: moreClient_onMessage_def upd_conn_def)
  have d1: "conns ?w d = Some (?g dn)" using dn by simp
  have "keeps w ?w" by (rule step_keeps [OF dn dh(2) step]) simp_all
  from client_safe_after [OF this client_send_temporary [OF sys1 d1 os len]] show ?thesis unfolding eq .
qed

lemma client_hello:
  fixes w :: "'w client_world_scheme"
  assumes sys: "client_sys os D (Suc k) hold todo w c cl" and d: "conns w d \<noteq> None" and os: "kernel_ok os'"
  shows "client_safe os D k hold todo c w (moreClient_onConnection os' tmp d w)"
proof -
  from d obtain dn where dn: "conns w d = Some dn" by blast
  have "client_sys os D k hold todo w c cl" using client_sys_mono [OF sys] by simp
  from client_safe_Inr [OF this] show ?thesis
    using dn client_send_temporary [OF sys dn os, of "''hello i am yielde''" tmp]
    by (simp add: moreClient_onConnection_def extrabuf_size_def)
qed

text \<open>The callbacks of \<open>echoMoreClient.cc\<close>; whatever number a callback has, it is the client's.\<close>

definition more_client_app ::
  "os \<Rightarrow> (int \<Rightarrow> tm) \<Rightarrow> ((mem_ptr \<rightharpoonup> byte list) \<Rightarrow> mem_ptr) \<Rightarrow> ('w conn_world_scheme) app" where
  "more_client_app os lt tmp = (echo_app os lt tmp)
     \<lparr>app_connection := (\<lambda>_. moreClient_onConnection os tmp), app_message := (\<lambda>_. moreClient_onMessage os lt tmp)\<rparr>"

lemma more_client_app_safe:
  assumes "kernel_ok os"
  shows "client_app_safe os D (more_client_app os lt tmp)"
  unfolding client_app_safe_def
proof (intro conjI allI impI)
  fix k hold todo c cl d u n and w :: "'a client_world_scheme"
  assume "client_sys os D k hold todo w c cl"
  from client_safe_Inr [OF this] show
    "client_safe os D k hold todo c w (app_writeComplete (more_client_app os lt tmp) u d w)"
    "client_safe os D k hold todo c w (app_highWaterMark (more_client_app os lt tmp) u d n w)"
    by (simp_all add: more_client_app_def echo_app_def)
next
  fix k hold todo c cl d u t and w :: "'a client_world_scheme"
  assume a: "client_sys os D (Suc k) hold todo w c cl" "conns w d \<noteq> None"
  from client_hello [OF a assms] show "client_safe os D k hold todo c w (app_connection (more_client_app os lt tmp) u d w)"
    by (simp add: more_client_app_def)
  from client_reply [OF a assms] show "client_safe os D k hold todo c w (app_message (more_client_app os lt tmp) u d t w)"
    by (simp add: more_client_app_def)
qed

end
