(* ===== verification/RunningServer.thy ===== *)
theory RunningServer
  imports EchoSafe SimOS
begin

section \<open>RunningServer: a server from its constructor through any interleaving of its threads\<close>

text \<open>
  The properties of a whole server with any number of loops: it comes up into its invariant, every step
  of every thread keeps it, in any order, and for the program of \<open>src/examples/echoserver.cc\<close> nothing
  remains to be assumed but the kernel, the allocator, and room for another callback.
\<close>

subsection \<open>The program\<close>

text \<open>
  \<open>main\<close>, up to \<open>loop.loop()\<close>: the threads of all loops are about to enter their loops, this one last.
  The main thread and its loop are \<open>b\<close>, the others \<open>threads\<close>, by name.
\<close>

definition EchoServer_main ::
  "os \<Rightarrow> alloc \<Rightarrow> ('w client_world_scheme) app \<Rightarrow> (string \<Rightarrow> new_thread) \<Rightarrow> new_thread \<Rightarrow> server_ptr \<Rightarrow> chan_ptr
     \<Rightarrow> 'w client_world_scheme \<Rightarrow> (phases \<times> 'w client_world_scheme) result" where
  "EchoServer_main os al ap threads b s p w =
     bindE (EventLoop_ctor os (nt_loop b) False (Inr (nt_epollfd b)) (Inr (nt_wakeupFd b)) (nt_timerfd b)
              (nt_wakeupChannel b) (nt_timerChannel b) w) (\<lambda>w1.
     let addr = InetAddress_new 9999 ''0.0.0.0'' in
     bindE (EchoServer_ctor os s p (Some (nt_loop b)) addr ''EchoServer-01'' w1) (\<lambda>w2.
     bindE (EchoServer_start os (env_of os al ap) (EventLoopThread_startLoop os None threads) s w2) (\<lambda>w3.
     Inr (\<lambda>_. Entering, w3))))"

subsection \<open>What is promised\<close>

text \<open>
  Nothing is leaked: every connection is referred to; the descriptors that \<open>accept\<close> returned and that are
  open are the sockets of the connections, one each; and when no functor waits, the connections are those
  in the server's map, all of them open and watched.
\<close>

definition nothing_leaked :: "site \<Rightarrow> phases \<times> 'w client_world_scheme \<Rightarrow> bool" where
  "nothing_leaked S = (\<lambda>(ph, w).
     (\<forall>c cn. conns w c = Some cn \<longrightarrow> referenced S (held_in ph) c cn w) \<and>
     bij_betw (\<lambda>c. cn_socket (the (conns w c))) (dom (conns w)) (open_conns (hist w)) \<and>
     (at_rest S (ph, w) \<longrightarrow>
        (\<forall>sv. servers w (st_server S) = Some sv \<longrightarrow> ran (sv_connections sv) = dom (conns w) \<and>
          (\<forall>c cn. conns w c = Some cn \<longrightarrow> conn_open cn \<and>
             (\<exists>ev. interest (hist w) (po_epollfd (pollers w (cn_loop cn))) (cn_socket cn) = Some (ev, cn_channel cn))))))"

lemma loops_inv_nothing_leaked:
  assumes "loops_inv S k st"
  shows "nothing_leaked S st"
proof -
  obtain ph w where st: "st = (ph, w)" by (cases st)
  note inv = assms [unfolded st]
  show ?thesis
    unfolding nothing_leaked_def st prod.case
  proof (intro conjI allI impI)
    show "referenced S (held_in ph) c cn w" if "conns w c = Some cn" for c cn using loops_inv_no_leak(1) [OF inv that] .
    show "bij_betw (\<lambda>c. cn_socket (the (conns w c))) (dom (conns w)) (open_conns (hist w))" using loops_inv_no_leak(2) [OF inv] .
    fix sv assume r: "at_rest S (ph, w)" "servers w (st_server S) = Some sv"
    note clean = at_rest_clean [OF inv r]
    show "ran (sv_connections sv) = dom (conns w)" by (rule clean(1))
    show "conn_open cn" "\<exists>ev. interest (hist w) (po_epollfd (pollers w (cn_loop cn))) (cn_socket cn) = Some (ev, cn_channel cn)"
      if "conns w c = Some cn" for c cn using clean(2) [OF that] by blast+
  qed
qed

subsection \<open>A kernel in which clients keep connecting\<close>

text \<open>
  The descriptor that \<open>accept\<close> returns is larger than all it returned before; the listening socket \<open>10\<close> is
  always ready once it is watched.
\<close>

fun accepted_fd :: "sysevent \<Rightarrow> int" where
  "accepted_fd (Accept l (Inr (f, a))) = \<bar>f\<bar>"
| "accepted_fd _ = 0"

text \<open>Descriptor \<open>10\<close> is always ready, for whatever it is watched.\<close>

definition ready_wait :: "uint32 \<Rightarrow> sysevent list \<Rightarrow> fd \<Rightarrow> nat \<Rightarrow> errno + (chan_ptr \<times> uint32) list" where
  "ready_wait what h ep n = (case interest h ep 10 of
     Some (ev, p) \<Rightarrow> if n = 0 then Inr [] else Inr [(p, what)] | None \<Rightarrow> Inr [])"

definition busy_os :: os where
  "busy_os = sim_os\<lparr>os_socket := (\<lambda>h. Inr 10),
     os_accept := (\<lambda>h l. Inr (100 + sum_list (map accepted_fd h), (1, 1))),
     os_epoll_wait := ready_wait EPOLLIN\<rparr>"

definition first_alloc :: alloc where
  "first_alloc = \<lparr>al_channel = (\<lambda>m. LEAST p. m p = None), al_conn = (\<lambda>m. LEAST c. m c = None),
     al_timer = (\<lambda>m. LEAST t. m t = None)\<rparr>"

lemma accepted_fd_nonneg: "0 \<le> accepted_fd e"
  by (cases e rule: accepted_fd.cases) auto

lemma open_step_bound: "f \<in> open_step e S \<Longrightarrow> f \<in> S \<or> f \<le> accepted_fd e"
  by (cases "(e, S)" rule: open_step.cases) (auto split: if_splits)

lemma open_conns_bound: "f \<in> open_conns h \<Longrightarrow> f \<le> sum_list (map accepted_fd h)"
proof (induction h rule: rev_induct)
  case (snoc e h)
  from snoc.prems have "f \<in> open_step e (open_conns h)" by simp
  then have "f \<in> open_conns h \<or> f \<le> accepted_fd e" by (rule open_step_bound)
  moreover have "0 \<le> sum_list (map accepted_fd h)" by (rule sum_list_nonneg) (auto simp: accepted_fd_nonneg)
  ultimately show ?case using snoc.IH accepted_fd_nonneg [of e] by auto
qed (simp add: open_conns_def)

lemma epoll_ok_ready:
  assumes "os_epoll_ctl os = sim_epoll_ctl" "os_epoll_wait os = ready_wait what"
  shows "epoll_ok os"
proof -
  have wait: "length evs \<le> n \<and> (\<exists>fds. distinct fds \<and> length fds = length evs \<and>
      (\<forall>i < length evs. \<exists>ev. interest h ep (fds ! i) = Some (ev, fst (evs ! i))))"
    if "os_epoll_wait os h ep n = Inr evs" for h ep n evs
  proof (cases "interest h ep 10")
    case None
    with that show ?thesis by (simp add: assms(2) ready_wait_def)
  next
    case (Some x)
    with that show ?thesis
      by (cases x; cases n) (auto simp: assms(2) ready_wait_def intro!: exI [of _ "[10]"])
  qed
  then show ?thesis using epoll_ok_sim [of sim_os] unfolding epoll_ok_def by (auto simp: assms(1))
qed

lemma busy_os_ok:
  "kernel_ok busy_os" "\<forall>f \<in> B. f < 100 \<Longrightarrow> accept_fresh busy_os B" "10 \<notin> B \<Longrightarrow> listens busy_os B addr"
proof -
  have "epoll_ok busy_os" by (rule epoll_ok_ready [of _ EPOLLIN]) (simp_all add: busy_os_def)
  then show "kernel_ok busy_os"
    by (simp add: kernel_ok_def write_ok_sim readv_ok_sim clock_ok_sim epoll_adds_sim busy_os_def)
  show "accept_fresh busy_os B" if B: "\<forall>f \<in> B. f < 100"
    unfolding accept_fresh_def
  proof (intro allI impI)
    fix h l f a assume "os_accept busy_os h l = Inr (f, a)"
    then have f: "f = 100 + sum_list (map accepted_fd h)" by (simp add: busy_os_def)
    moreover have "0 \<le> sum_list (map accepted_fd h)" by (rule sum_list_nonneg) (auto simp: accepted_fd_nonneg)
    moreover have "f \<notin> open_conns h" using open_conns_bound [of f h] f by auto
    ultimately show "f \<notin> B \<and> f \<notin> open_conns h" using B by auto
  qed
  show "listens busy_os B addr" if "10 \<notin> B" using that by (simp add: listens_def busy_os_def)
qed

lemma least_fresh: "finite (dom m) \<Longrightarrow> m (LEAST p. m p = None) = None" for m :: "nat \<rightharpoonup> 'a"
proof -
  assume "finite (dom m)"
  then obtain p where "p \<notin> dom m" using infinite_UNIV_nat ex_new_if_finite by blast
  then show ?thesis by (intro LeastI [of "\<lambda>p. m p = None" p]) auto
qed

lemma first_alloc_ok: "alloc_ok first_alloc"
  by (simp add: alloc_ok_def first_alloc_def least_fresh)

text \<open>A process that has not done anything yet.\<close>

definition new_process :: client_world where
  "new_process = \<lparr>hist = [], chans = Map.empty,
     pollers = (\<lambda>_. \<lparr>po_epollfd = 0, po_channels = Map.empty, po_capacity = 0\<rparr>),
     loops = (\<lambda>_. \<lparr>lp_looping = False, lp_quit = False, lp_threadId = 0, lp_pollReturnTime = Timestamp_zero,
       lp_wakeupFd = 0, lp_wakeupChannel = 0, lp_activeChannels = [], lp_callingPendingFunctors = False,
       lp_pendingFunctors = []\<rparr>),
     current_tid = 1, t_loopInThisThread = Map.empty, timers = Map.empty, s_numCreated = 0,
     timerqueues = (\<lambda>_. \<lparr>tq_timerfd = 0, tq_timerfdChannel = 0, tq_timers = [], tq_callingExpiredTimers = False\<rparr>),
     conns = Map.empty, memory = Map.empty, acceptors = Map.empty, connectors = Map.empty,
     servers = Map.empty, clients = Map.empty\<rparr>"

lemma new_process_blank: "blank_process new_process" "current_tid new_process = 1"
  by (simp_all add: new_process_def blank_process_def open_conns_def)

text \<open>The \<open>i\<close>-th thread; the main thread is number \<open>0\<close>.\<close>

definition ex_thread :: "nat \<Rightarrow> new_thread" where
  "ex_thread i = \<lparr>nt_tid = int i + 1, nt_loop = i, nt_epollfd = 20 + int i, nt_wakeupFd = 30 + int i, nt_timerfd = 40 + int i,
     nt_wakeupChannel = 2 * i + 1, nt_timerChannel = 2 * i + 2\<rparr>"

text \<open>The last digit of the name of a thread is its number in the pool.\<close>

definition ex_threads :: "string \<Rightarrow> new_thread" where
  "ex_threads name = ex_thread (of_char (last name) - 47)"

lemma ex_threads_digit: "d < 10 \<Longrightarrow> ex_threads (thread_name (EventLoopThreadPool_new 0 ''EchoServer-01'') d) = ex_thread (d + 1)"
proof -
  assume d: "d < 10"
  then have "dec d = [digit_char d]" by (subst dec.simps) simp
  then have "thread_name (EventLoopThreadPool_new 0 ''EchoServer-01'') d = ''EchoServer-01'' @ [digit_char d]"
    by (simp add: thread_name_def EventLoopThreadPool_new_def snprintf_buf_def dec_int_def)
  then show ?thesis using of_digit_char [OF d] by (simp add: ex_threads_def)
qed

lemma ex_pool_threads: "pool_threads ex_threads ''EchoServer-01'' 4 = map ex_thread [1, 2, 3, 4]"
proof -
  have "[0 ..< 4] = [0, 1, 2, 3 :: nat]" by (simp add: upt_rec)
  then show ?thesis by (simp add: pool_threads_def ex_threads_digit numeral_eq_Suc)
qed

abbreviation (input) ex_pool :: "new_thread list" where
  "ex_pool \<equiv> ex_thread 0 # map ex_thread [1, 2, 3, 4]"

lemma ex_main_thread: "nt_tid (ex_thread 0) = current_tid new_process"
  by (simp add: ex_thread_def new_process_blank(2))

lemma ex_threads_ok: "threads_ok ex_pool 0"
  by (simp add: threads_ok_def threads_apart_def ex_thread_def thread_fds_def)

lemma ex_threads_fds: "f \<in> threads_fds ex_pool \<Longrightarrow> 30 \<le> f \<and> f < 50"
  by (auto simp: threads_fds_def thread_fds_def ex_thread_def)

lemma ex_listens: "listens busy_os (threads_fds ex_pool) addr"
  using ex_threads_fds [of 10] by (intro busy_os_ok(3)) auto

lemma ex_accept_fresh: "os_socket busy_os h = Inr f \<Longrightarrow> accept_fresh busy_os (insert f (threads_fds ex_pool))"
  using ex_threads_fds by (intro busy_os_ok(2)) (fastforce simp: busy_os_def)

definition ex_localtime :: "int \<Rightarrow> tm" where
  "ex_localtime s = \<lparr>tm_year = 70, tm_mon = 0, tm_mday = 1, tm_hour = 0, tm_min = 0, tm_sec = s\<rparr>"

definition ex_echo_app :: "client_world app" where
  "ex_echo_app = echo_server_app busy_os ex_localtime (\<lambda>_. 0)"

definition ex_echo_env :: "client_world conn_env" where
  "ex_echo_env = env_of busy_os first_alloc ex_echo_app"

subsection \<open>Properties\<close>

text \<open>C1: A server with any number of loops never fails.  From a state in its invariant, every schedule of
  the threads of its loops, callback by callback, runs through, whatever the kernel reports and whatever
  order the events have: no dangling pointer is followed, no empty function called, no integer overflows,
  in accepting, handing connections to the loops, reading, writing, closing and destroying.  At every
  moment the invariant holds and nothing is leaked.  The only way to stop is a state in which the
  connection numbers or a buffer could run out within one callback.\<close>

theorem server_keeps_running:
  fixes st :: "phases \<times> 'w client_world_scheme"
  assumes "loops_inv S 0 st" "set Ls \<subseteq> set (st_loops S)"
    and "kernel_ok os" "accept_fresh os (st_fds S)" "alloc_ok al" "app_safe S ap"
  shows "(\<exists>st'. run_schedule os al ap S Ls st = Inr st' \<and> loops_inv S 0 st' \<and> nothing_leaked S st') \<or>
    (\<exists>m < length Ls. \<exists>st'. run_schedule os al ap S (take m Ls) st = Inr st' \<and> \<not> server_room S 2 (snd st'))"
  using run_schedule_safe [OF assms(3-6,2,1)] loops_inv_nothing_leaked by blast

text \<open>C7: A server comes up: the constructor of the base loop, the constructor of the server, setting its two
  callbacks and its number of threads, and \<open>start()\<close>, which starts a thread with a loop of its own for
  each, succeed and lead to the invariant of the running server, in which the base loop watches the
  listening socket, with room for every number of events below \<open>2 ^ 31 - 1\<close>.\<close>

theorem server_comes_up:
  fixes w :: "'w client_world_scheme"
  assumes "kernel_ok os" "listens os (threads_fds (b # ts)) addr" "blank_process w" "nt_tid b = current_tid w"
    and "ts = pool_threads threads name n" "threads_ok (b # ts) p" "n < 2 ^ 31" "k < 2 ^ 31 - 1"
  shows "\<exists>w1 w2 w3 f. EventLoop_ctor os (nt_loop b) False (Inr (nt_epollfd b)) (Inr (nt_wakeupFd b)) (nt_timerfd b)
      (nt_wakeupChannel b) (nt_timerChannel b) w = Inr w1 \<and>
    TcpServer_ctor os s p (Some (nt_loop b)) addr name opt w1 = Inr w2 \<and>
    TcpServer_start os env (EventLoopThread_startLoop os None threads) s (TcpServer_setThreadNum s (of_nat n)
      (TcpServer_setMessageCallback s mc (TcpServer_setConnectionCallback s cc w2))) = Inr w3 \<and>
    os_socket os (hist w1) = Inr f \<and> loops_inv (server_site s f (b # ts)) k (\<lambda>_. Entering, w3) \<and>
    interest (hist w3) (po_epollfd (pollers w3 (nt_loop b))) f = Some (kReadEvent, p)"
proof -
  from server_up [OF assms, of s opt env mc cc] obtain w1 w2 w3 f where
    "EventLoop_ctor os (nt_loop b) False (Inr (nt_epollfd b)) (Inr (nt_wakeupFd b)) (nt_timerfd b)
      (nt_wakeupChannel b) (nt_timerChannel b) w = Inr w1"
    "TcpServer_ctor os s p (Some (nt_loop b)) addr name opt w1 = Inr w2"
    "TcpServer_start os env (EventLoopThread_startLoop os None threads) s (TcpServer_setThreadNum s (of_nat n)
      (TcpServer_setMessageCallback s mc (TcpServer_setConnectionCallback s cc w2))) = Inr w3"
    "os_socket os (hist w1) = Inr f" "server_sys (server_site s f (b # ts)) (nt_loop b) k no_functors no_functors w3"
    "interest (hist w3) (po_epollfd (pollers w3 (nt_loop b))) f = Some (kReadEvent, p)" by blast
  then show ?thesis using loops_inv_start by blast
qed

lemma server_comes_up_witness:
  "\<exists>w1 w2 w3 f. EventLoop_ctor busy_os (nt_loop (ex_thread 0)) False (Inr (nt_epollfd (ex_thread 0)))
      (Inr (nt_wakeupFd (ex_thread 0))) (nt_timerfd (ex_thread 0)) (nt_wakeupChannel (ex_thread 0))
      (nt_timerChannel (ex_thread 0)) new_process = Inr w1 \<and>
    TcpServer_ctor busy_os 0 0 (Some (nt_loop (ex_thread 0))) (1, 1) ''EchoServer-01'' kNoReusePort w1 = Inr w2 \<and>
    TcpServer_start busy_os ex_echo_env (EventLoopThread_startLoop busy_os None ex_threads) 0 (TcpServer_setThreadNum 0 (of_nat 4)
      (TcpServer_setMessageCallback 0 (App_message 0) (TcpServer_setConnectionCallback 0 (App_connection 0) w2))) = Inr w3 \<and>
    os_socket busy_os (hist w1) = Inr f \<and>
    loops_inv (server_site 0 f (ex_thread 0 # map ex_thread [1, 2, 3, 4])) 1000000 (\<lambda>_. Entering, w3) \<and>
    interest (hist w3) (po_epollfd (pollers w3 (nt_loop (ex_thread 0)))) f = Some (kReadEvent, 0)"
  by (rule server_comes_up [OF busy_os_ok(1) ex_listens new_process_blank(1) ex_main_thread ex_pool_threads [symmetric]
      ex_threads_ok]) simp_all

text \<open>C5: The program of \<open>src/examples/echoserver.cc\<close>, with its main loop and its four threads, from
  \<open>main\<close> on: it comes up, and then every schedule of the five loops runs through without a fault and
  without a leak, unless a state is reached in which the connection numbers or a buffer could run out
  within one callback.\<close>

theorem echo_server_runs:
  fixes w :: "'w client_world_scheme"
  assumes "kernel_ok os" "listens os (threads_fds (b # ts)) (InetAddress_new 9999 ''0.0.0.0'')" "alloc_ok al"
    and "\<And>h f. os_socket os h = Inr f \<Longrightarrow> accept_fresh os (insert f (threads_fds (b # ts)))"
    and "blank_process w" "nt_tid b = current_tid w" "ts = pool_threads threads ''EchoServer-01'' 4" "threads_ok (b # ts) p"
  shows "\<exists>st S. EchoServer_main os al (echo_server_app os lt tmp) threads b s p w = Inr st \<and>
    st_loops S = map nt_loop (b # ts) \<and> server_room S (2 ^ 31 - 2) (snd st) \<and>
    (\<forall>Ls. set Ls \<subseteq> set (st_loops S) \<longrightarrow>
      (\<exists>st'. run_schedule os al (echo_server_app os lt tmp) S Ls st = Inr st' \<and> nothing_leaked S st') \<or>
      (\<exists>m < length Ls. \<exists>st'. run_schedule os al (echo_server_app os lt tmp) S (take m Ls) st = Inr st' \<and>
        \<not> server_room S 2 (snd st')))"
proof -
  let ?ap = "echo_server_app os lt tmp"
  from server_up [OF assms(1,2,5-8), of "2 ^ 31 - 2" s kNoReusePort "env_of os al ?ap" "App_message 0" "App_connection 0"]
  obtain w1 w2 w3 f where up: "EventLoop_ctor os (nt_loop b) False (Inr (nt_epollfd b)) (Inr (nt_wakeupFd b)) (nt_timerfd b)
      (nt_wakeupChannel b) (nt_timerChannel b) w = Inr w1"
    "TcpServer_ctor os s p (Some (nt_loop b)) (InetAddress_new 9999 ''0.0.0.0'') ''EchoServer-01'' kNoReusePort w1 = Inr w2"
    "TcpServer_start os (env_of os al ?ap) (EventLoopThread_startLoop os None threads) s (TcpServer_setThreadNum s 4
      (TcpServer_setMessageCallback s (App_message 0) (TcpServer_setConnectionCallback s (App_connection 0) w2))) = Inr w3"
    "os_socket os (hist w1) = Inr f"
    "server_sys (server_site s f (b # ts)) (nt_loop b) (2 ^ 31 - 2) no_functors no_functors w3" by auto
  let ?S = "server_site s f (b # ts)"
  have main: "EchoServer_main os al ?ap threads b s p w = Inr (\<lambda>_. Entering, w3)"
    using up(1-3) by (simp add: EchoServer_main_def EchoServer_ctor_def EchoServer_start_def Let_def)
  have fresh: "accept_fresh os (st_fds ?S)" using assms(4) [OF up(4)] by (simp add: server_site_def)
  have "server_sys ?S (nt_loop b) 0 no_functors no_functors w3" by (rule server_sys_mono [OF up(5)]) simp
  note inv = loops_inv_start [OF this]
  have loops: "st_loops ?S = map nt_loop (b # ts)" by (simp add: server_site_def)
  have run: "(\<exists>st'. run_schedule os al ?ap ?S Ls (\<lambda>_. Entering, w3) = Inr st' \<and> nothing_leaked ?S st') \<or>
      (\<exists>m < length Ls. \<exists>st'. run_schedule os al ?ap ?S (take m Ls) (\<lambda>_. Entering, w3) = Inr st' \<and> \<not> server_room ?S 2 (snd st'))"
    if "set Ls \<subseteq> set (st_loops ?S)" for Ls
    using run_schedule_safe [OF assms(1) fresh assms(3) echo_server_app_safe [OF assms(1)] that inv] loops_inv_nothing_leaked
    by blast
  have "server_room ?S (2 ^ 31 - 2) (snd (\<lambda>_::nat. Entering, w3))" using sys_room [OF up(5)] by (simp only: snd_conv)
  then show ?thesis using main loops run by blast
qed

lemma echo_server_runs_witness:
  "\<exists>st S. EchoServer_main busy_os first_alloc ex_echo_app ex_threads (ex_thread 0) 0 0 new_process = Inr st \<and>
    st_loops S = map nt_loop ex_pool \<and> server_room S (2 ^ 31 - 2) (snd st) \<and>
    (\<forall>Ls. set Ls \<subseteq> set (st_loops S) \<longrightarrow>
      (\<exists>st'. run_schedule busy_os first_alloc ex_echo_app S Ls st = Inr st' \<and> nothing_leaked S st') \<or>
      (\<exists>m < length Ls. \<exists>st'. run_schedule busy_os first_alloc ex_echo_app S (take m Ls) st = Inr st' \<and>
        \<not> server_room S 2 (snd st')))"
  unfolding ex_echo_app_def
  by (rule echo_server_runs [OF busy_os_ok(1) ex_listens first_alloc_ok ex_accept_fresh new_process_blank(1) ex_main_thread
      ex_pool_threads [symmetric] ex_threads_ok])

text \<open>C8: The step machine is faithful to \<open>EventLoop::loop\<close>: while no other loop is amid its functors, the
  steps of a loop that is left alone go through exactly one turn of the loop, from the poll over the
  events and the functors to the destruction of the vector of functors, and the turn succeeds.\<close>

theorem turn_refined_by_steps:
  fixes w :: "'w client_world_scheme"
  assumes "server_sys S L (2 * po_capacity (pollers w L)) no_functors no_functors w"
    and "kernel_ok os" "accept_fresh os (st_fds S)" "alloc_ok al" "app_safe S ap"
    and "ph L = Polling" "held_in ph = no_functors" "todo_in ph = no_functors"
  shows "\<exists>w' n. server_turn os al ap S L w = Inr w' \<and> run_schedule os al ap S (replicate n L) (ph, w) = Inr (ph, w')"
  using turn_alone [OF assms] unfolding runs_alone_def by blast

text \<open>The server of the example, up and running, with its five loops.\<close>

definition ex_site :: site where
  "ex_site = server_site 0 10 ex_pool"

lemma ex_bounds: "4 < (2 :: nat) ^ 31" "0 < (2 :: nat) ^ 31" "1000000 < (2 :: nat) ^ 31 - 1"
  by simp_all

lemma ex_server_up: "\<exists>w :: client_world. server_sys ex_site 0 1000000 no_functors no_functors w"
proof -
  from server_up [where s = 0 and opt = kNoReusePort and env = ex_echo_env and mc = "App_message 0" and cc = "App_connection 0"
      and addr = "(1, 1)" and k = 1000000, OF busy_os_ok(1) ex_listens new_process_blank(1) ex_main_thread
      ex_pool_threads [symmetric] ex_threads_ok ex_bounds(1,3)]
  obtain w1 w :: client_world and f where f: "os_socket busy_os (hist w1) = Inr f"
    "server_sys (server_site 0 f ex_pool) (nt_loop (ex_thread 0)) 1000000 no_functors no_functors w"
    by blast
  have "f = 10" "nt_loop (ex_thread 0) = 0" using f(1) by (simp_all add: busy_os_def ex_thread_def)
  then show ?thesis using f(2) unfolding ex_site_def by auto
qed

lemma ex_site_ok: "accept_fresh busy_os (st_fds ex_site)" "app_safe ex_site ex_echo_app" "st_loops ex_site = [0, 1, 2, 3, 4]"
proof -
  show "accept_fresh busy_os (st_fds ex_site)"
    using ex_accept_fresh [of "[]" 10] by (simp add: ex_site_def server_site_def busy_os_def)
  show "app_safe ex_site ex_echo_app" unfolding ex_echo_app_def by (rule echo_server_app_safe [OF busy_os_ok(1)])
  show "st_loops ex_site = [0, 1, 2, 3, 4]" by (simp add: ex_site_def server_site_def ex_thread_def)
qed

lemma server_keeps_running_witness:
  "\<exists>st :: phases \<times> client_world. loops_inv ex_site 0 st \<and>
    ((\<exists>st'. run_schedule busy_os first_alloc ex_echo_app ex_site [0, 3, 0, 0, 1] st = Inr st' \<and> loops_inv ex_site 0 st' \<and>
        nothing_leaked ex_site st') \<or>
    (\<exists>m < length [0, 3, 0, 0, 1 :: nat]. \<exists>st'. run_schedule busy_os first_alloc ex_echo_app ex_site
        (take m [0, 3, 0, 0, 1]) st = Inr st' \<and> \<not> server_room ex_site 2 (snd st')))"
proof -
  from ex_server_up obtain w :: client_world where "server_sys ex_site 0 1000000 no_functors no_functors w" by blast
  then have "server_sys ex_site 0 0 no_functors no_functors w" by (rule server_sys_mono) simp
  note inv = loops_inv_start [OF this]
  have "set [0, 3, 0, 0, 1] \<subseteq> set (st_loops ex_site)" by (simp add: ex_site_ok(3))
  from server_keeps_running [OF inv this busy_os_ok(1) ex_site_ok(1) first_alloc_ok ex_site_ok(2)] inv
  show ?thesis by blast
qed

text \<open>A server without threads of its own, right before its loop.\<close>

lemma ex_single_up:
  "\<exists>w :: client_world. server_sys (server_site 0 10 [ex_thread 0]) 0 1000000 no_functors no_functors w \<and>
    po_capacity (pollers w 0) = kInitEventListSize"
proof -
  let ?b = "ex_thread 0"
  have t: "threads_ok [?b] 0" "listens busy_os (threads_fds [?b]) (1, 1)" "[] = pool_threads ex_threads ''s'' 0"
    by (auto simp: threads_ok_def ex_thread_def threads_fds_def thread_fds_def pool_threads_def intro: busy_os_ok(3))
  from server_up [where s = 0 and opt = kNoReusePort and env = ex_echo_env and mc = "App_message 0" and cc = "App_connection 0"
      and k = 1000000, OF busy_os_ok(1) t(2) new_process_blank(1) ex_main_thread t(3,1) ex_bounds(2,3)]
  obtain w1 w2 w :: client_world and f where
    w: "EventLoop_ctor busy_os (nt_loop ?b) False (Inr (nt_epollfd ?b)) (Inr (nt_wakeupFd ?b)) (nt_timerfd ?b)
      (nt_wakeupChannel ?b) (nt_timerChannel ?b) new_process = Inr w1"
    "TcpServer_ctor busy_os 0 0 (Some (nt_loop ?b)) (1, 1) ''s'' kNoReusePort w1 = Inr w2"
    "TcpServer_start busy_os ex_echo_env (EventLoopThread_startLoop busy_os None ex_threads) 0 (TcpServer_setThreadNum 0 (of_nat 0)
      (TcpServer_setMessageCallback 0 (App_message 0) (TcpServer_setConnectionCallback 0 (App_connection 0) w2))) = Inr w"
    "os_socket busy_os (hist w1) = Inr f" "server_sys (server_site 0 f [?b]) (nt_loop ?b) 1000000 no_functors no_functors w"
    by blast
  have "f = 10" "nt_loop ?b = 0" using w(4) by (simp_all add: busy_os_def ex_thread_def)
  moreover have "pollers w2 = pollers w1"
    using w(2) by (auto simp: TcpServer_ctor_def CheckLoopNotNull_def Acceptor_ctor_def Acceptor_createNonblocking_def
        Socket_bindAddress_def Socket_setReuseAddr_def Socket_setReusePort_def sys_socket_def sys_bind_def
        sys_setsockopt_def Acceptor_setNewConnectionCallback_def upd_acceptor_def Let_def res_simps split: sum.splits)
  moreover have "po_capacity (pollers w M) = po_capacity (pollers w2 M)" for M
    using w(2,3)
    by (auto simp: TcpServer_start_def TcpServer_setThreadNum_def TcpServer_setMessageCallback_def
        TcpServer_setConnectionCallback_def EventLoopThreadPool_start_def EventLoopThreadPool_setThreadNum_def
        EventLoop_runInLoop_def Acceptor_listen_def Socket_listen_def sys_listen_def upd_server_def upd_acceptor_def
        Let_def res_simps deref_def ex_echo_env_def env_of_def ex_echo_app_def echo_server_app_def echo_app_def
        split: option.splits if_splits sum.splits dest!: enableReading_capacity)
  ultimately show ?thesis using EventLoop_ctor_capacity [OF w(1)] w(5) by auto
qed

lemma turn_refined_by_steps_witness:
  "\<exists>w w' :: client_world. \<exists>n. let S = server_site 0 10 [ex_thread 0] in
    server_turn busy_os first_alloc ex_echo_app S 0 w = Inr w' \<and>
    run_schedule busy_os first_alloc ex_echo_app S (replicate n 0) (\<lambda>_. Polling, w) = Inr (\<lambda>_. Polling, w')"
proof -
  let ?S = "server_site 0 10 [ex_thread 0]"
  from ex_single_up obtain w :: client_world where w: "server_sys ?S 0 1000000 no_functors no_functors w"
    "po_capacity (pollers w 0) = kInitEventListSize" by blast
  have "server_sys ?S 0 (2 * po_capacity (pollers w 0)) no_functors no_functors w"
    by (rule server_sys_mono [OF w(1)]) (simp add: w(2) kInitEventListSize_def)
  moreover have "accept_fresh busy_os (st_fds ?S)"
    by (intro busy_os_ok(2)) (simp add: server_site_def threads_fds_def thread_fds_def ex_thread_def)
  moreover have "app_safe ?S ex_echo_app" unfolding ex_echo_app_def by (rule echo_server_app_safe [OF busy_os_ok(1)])
  moreover have "held_in (\<lambda>_. Polling) = no_functors" "todo_in (\<lambda>_. Polling) = no_functors"
    by (simp_all add: held_in_def todo_in_def no_functors_def fun_eq_iff)
  ultimately obtain w' n where "server_turn busy_os first_alloc ex_echo_app ?S 0 w = Inr w'"
    "run_schedule busy_os first_alloc ex_echo_app ?S (replicate n 0) (\<lambda>_. Polling, w) = Inr (\<lambda>_. Polling, w')"
    using turn_refined_by_steps [OF _ busy_os_ok(1) _ first_alloc_ok, of ?S 0 w ex_echo_app "\<lambda>_. Polling"] by blast
  then show ?thesis unfolding Let_def by blast
qed

end
