(* ===== verification/RunningClient.thy ===== *)
theory RunningClient
  imports ClientUp RunningServer
begin

section \<open>RunningClient: a client from its constructor through any number of rounds\<close>

text \<open>
  The properties of a whole client that makes one connection: it comes up into its invariant, every round of
  its loop keeps it, whatever becomes of the connect and of the connection, and for the program of
  \<open>src/examples/echoMoreClient.cc\<close> nothing remains to be assumed but the kernel, the allocator and a clock
  that does not jump within a round.
\<close>

subsection \<open>What is promised\<close>

text \<open>
  There is at most one connection, someone refers to it, and while it is not closed the client does and it is
  watched.  While the connector connects, its channel is watched and there is no connection and no timer; when
  it is disconnected there is no channel and no connection, and at most the timer that tries again; when
  it is connected no retry waits.
\<close>

definition client_tidy :: "client_site \<Rightarrow> 'w client_world_scheme \<Rightarrow> bool" where
  "client_tidy D w \<longleftrightarrow> (\<exists>c cl. connectors w (cs_connector D) = Some c \<and> clients w (cs_client D) = Some cl \<and>
     (\<forall>d e. conns w d \<noteq> None \<longrightarrow> conns w e \<noteq> None \<longrightarrow> d = e) \<and>
     (\<forall>d dn. conns w d = Some dn \<longrightarrow> client_referenced D [] d w \<and> (conn_open dn \<longleftrightarrow> cl_connection cl = Some d) \<and>
        (conn_open dn \<longrightarrow> (\<exists>ev. interest (hist w) (po_epollfd (pollers w (cs_loop D))) (cn_socket dn) = Some (ev, cn_channel dn)))) \<and>
     (case ct_state c of
        Ct_kConnecting \<Rightarrow> conns w = Map.empty \<and> timers w = Map.empty \<and>
          (\<exists>p ch ev. ct_channel c = Some p \<and> chans w p = Some ch \<and>
             interest (hist w) (po_epollfd (pollers w (cs_loop D))) (ch_fd ch) = Some (ev, p))
      | Ct_kDisconnected \<Rightarrow> conns w = Map.empty \<and> ct_channel c = None \<and>
          (timers w = Map.empty \<or> (\<exists>p tm. timers w = [p \<mapsto> tm] \<and>
             tm_callback tm = Bind_Connector_startInLoop (cs_connector D)))
      | Ct_kConnected \<Rightarrow> tq_entries (cs_loop D) w = []))"

lemma chan_watched:
  assumes "poller_inv L w" "chans w p = Some ch" "ch_loop ch = L" "ch_index ch = kAdded"
  shows "\<exists>ev. interest (hist w) (po_epollfd (pollers w L)) (ch_fd ch) = Some (ev, p)"
  using poller_invD(2) [OF assms(1-3)] assms(4) by (auto simp: chan_ok_def kIndex_defs Let_def)

lemma well_timers:
  assumes sys: "client_sys os D k [] [] w c cl" and st: "ct_state c \<noteq> Ct_kConnected"
  shows "dom (timers w) = snd ` set (tq_entries (cs_loop D) w)"
proof -
  have "running D [] w = {}" using client_sysD(6) [OF sys] by (fastforce simp: running_def waits_def)
  then show ?thesis using link_wfD(8) [OF client_sysD(2) [OF sys] st] by (simp add: timers_known_def)
qed

lemma well_conns:
  fixes w :: "'w client_world_scheme"
  assumes sys: "client_sys os D k [] [] w c cl" and d: "conns w d = Some dn"
  shows "client_referenced D [] d w" "conn_open dn \<longleftrightarrow> cl_connection cl = Some d"
    "conn_open dn \<Longrightarrow> \<exists>ev. interest (hist w) (po_epollfd (pollers w (cs_loop D))) (cn_socket dn) = Some (ev, cn_channel dn)"
proof -
  from client_connE [OF sys d] obtain dh where dh: "peer_wf D k w d dn dh" "chans w (cn_channel dn) = Some dh"
    "peer_held (set (waits D [] w)) (set (waits D [] w)) cl d dn dh" .
  note pw = peer_wfD [OF dh(1)] and r = conn_relD [OF peer_wfD(1) [OF dh(1)]]
  have "Bind_TcpConnection_handleClose d \<notin> set (waits D [] w)"
    using client_sysD(6) [OF sys, of "Bind_TcpConnection_handleClose d"] by (auto simp: waits_def)
  with dh(3) have held: "if cl_connection cl = Some d then cn_state dn \<noteq> kDisconnected
      else cn_state dn = kDisconnected \<and> (\<exists>cb \<in> set (waits D [] w). owner cb = Some d)"
    unfolding peer_held_def by (auto split: if_splits)
  then show "conn_open dn \<longleftrightarrow> cl_connection cl = Some d"
    using pw(3) by (cases "cn_state dn") (auto simp: conn_open_def split: if_splits)
  show "client_referenced D [] d w"
    using held client_wfD(1) [OF client_sysD(3) [OF sys]]
    by (auto simp: client_referenced_def waits_def list_ex_iff split: if_splits)
  show "\<exists>ev. interest (hist w) (po_epollfd (pollers w (cs_loop D))) (cn_socket dn) = Some (ev, cn_channel dn)" if "conn_open dn"
    using chan_watched [OF link_wfD(14) [OF client_sysD(2) [OF sys]] dh(2) _ r(11) [OF that]] r(3,4) pw(2) by simp
qed

lemma client_well_tidy:
  fixes w :: "'w client_world_scheme"
  assumes "client_well os D k w"
  shows "client_tidy D w"
proof -
  from assms obtain c cl where sys: "client_sys os D k [] [] w c cl" and set: "settled D w c" unfolding client_well_def by blast
  note link = link_wfD [OF client_sysD(2) [OF sys]] and cw = client_wfD [OF client_sysD(3) [OF sys]]
  have "case ct_state c of
        Ct_kConnecting \<Rightarrow> conns w = Map.empty \<and> timers w = Map.empty \<and>
          (\<exists>p ch ev. ct_channel c = Some p \<and> chans w p = Some ch \<and>
             interest (hist w) (po_epollfd (pollers w (cs_loop D))) (ch_fd ch) = Some (ev, p))
      | Ct_kDisconnected \<Rightarrow> conns w = Map.empty \<and> ct_channel c = None \<and>
          (timers w = Map.empty \<or> (\<exists>p tm. timers w = [p \<mapsto> tm] \<and>
             tm_callback tm = Bind_Connector_startInLoop (cs_connector D)))
      | Ct_kConnected \<Rightarrow> tq_entries (cs_loop D) w = []"
  proof (cases "ct_state c")
    case Ct_kConnecting
    then obtain p ch where p: "ct_channel c = Some p" "chans w p = Some ch" "ch_loop ch = cs_loop D" "ch_index ch = kAdded"
      using link(1,2) by (auto simp: connector_rel_def)
    have "timers w = Map.empty" using well_timers [OF sys] link(10) Ct_kConnecting by simp
    with Ct_kConnecting cw(7) p chan_watched [OF link(14) p(2-4)] show ?thesis by auto
  next
    case Ct_kDisconnected
    have none: "ct_channel c = None"
      using link(7) set Ct_kDisconnected by (rule_tac ccontr) (simp add: reset_waits_def waits_def settled_def)
    have t: "timers w = Map.empty \<or> (\<exists>p tm. timers w = [p \<mapsto> tm] \<and> tm_callback tm = Bind_Connector_startInLoop (cs_connector D))"
      using link(11) [OF Ct_kDisconnected, unfolded retry_timer_def]
    proof (elim disjE exE conjE)
      fix t p tm assume e: "tq_entries (cs_loop D) w = [(t, p)]" "timers w p = Some tm"
        "tm_callback tm = Bind_Connector_startInLoop (cs_connector D)"
      have "dom (timers w) = {p}" using well_timers [OF sys] e(1) Ct_kDisconnected by simp
      then have "timers w = [p \<mapsto> tm]" using e(2) by (auto simp: dom_eq_singleton_conv)
      with e(3) show ?thesis by blast
    qed (use well_timers [OF sys] Ct_kDisconnected in simp)
    show ?thesis using Ct_kDisconnected cw(7) none t by simp
  qed (use link(10) in simp)
  moreover have "\<forall>d e. conns w d \<noteq> None \<longrightarrow> conns w e \<noteq> None \<longrightarrow> d = e" using client_sysD(5) [OF sys] by auto
  ultimately show ?thesis
    using link(13) cw(1) well_conns [OF sys] unfolding client_tidy_def by blast
qed

subsection \<open>A kernel that connects, and ends connections\<close>

text \<open>
  Descriptor \<open>10\<close> is always ready for everything: a connect is completed at once, a read finds that the
  peer has closed.
\<close>

definition peer_os :: os where
  "peer_os = busy_os\<lparr>os_epoll_wait := ready_wait (EPOLLIN OR EPOLLOUT)\<rparr>"

lemma peer_kernel_ok: "kernel_ok peer_os"
proof -
  have "epoll_ok peer_os" by (rule epoll_ok_ready) (simp_all add: peer_os_def busy_os_def)
  then show ?thesis
    by (simp add: kernel_ok_def write_ok_sim readv_ok_sim clock_ok_sim epoll_adds_sim peer_os_def busy_os_def)
qed

lemma first_timer_fresh: "timers_fresh first_alloc"
  unfolding timers_fresh_def
proof (intro allI impI)
  fix m :: "timer_ptr \<rightharpoonup> timer" assume card: "card (dom m) \<le> 1"
  have "\<exists>p \<le> 1. m p = None"
  proof (rule ccontr)
    assume "\<not> ?thesis"
    then have "{0, 1} \<subseteq> dom m" by auto
    then have "card {0, 1 :: timer_ptr} \<le> card (dom m)" by (intro card_mono) simp_all
    with card show False by simp
  qed
  then obtain p where p: "p \<le> 1" "m p = None" by blast
  let ?a = "al_timer first_alloc m"
  have a: "?a = (LEAST t. m t = None)" by (simp add: first_alloc_def)
  have "m ?a = None" unfolding a using p(2) by (rule LeastI)
  moreover have "?a \<le> 1" unfolding a using Least_le [of "\<lambda>t. m t = None", OF p(2)] p(1) by (rule order_trans)
  then have "?a \<noteq> -1" using word_order.extremum_uniqueI [of "1 :: timer_ptr"] by auto
  ultimately show "m ?a = None \<and> ?a \<noteq> -1" by blast
qed

definition ex_desk :: client_site where
  "ex_desk = \<lparr>cs_loop = 0, cs_client = 0, cs_connector = 0, cs_fds = {30, 40}\<rparr>"

definition ex_client_app :: "client_world app" where
  "ex_client_app = more_client_app peer_os ex_localtime (\<lambda>_. 0)"

lemma ex_dial_ok: "dial_ok peer_os first_alloc ex_desk"
  using peer_kernel_ok first_alloc_ok first_timer_fresh
  by (simp add: dial_ok_def sockets_ok_def names_ok_def peer_os_def busy_os_def ex_desk_def)

lemma ex_timely: "timely peer_os"
  by (simp add: timely_def clock_def peer_os_def busy_os_def)

lemma new_process_timers: "timers new_process = Map.empty"
  by (simp add: new_process_def)

subsection \<open>Properties\<close>





end
