(* ===== verification/Spec2Isabelle.thy ===== *)
theory Spec2Isabelle
  imports Guarantees BufferQueue LoopThread Threads RunningClient
begin

text \<open>
  The repository is a reimplementation of the core of the muduo C++ network library: one event loop
  per thread, channels over epoll, timers, buffered TCP connections, servers with a pool of loops,
  clients with a connector.  The implementation is the directory \<open>src/src\<close>.

  \<^bold>\<open>How the program is modelled.\<close>  State is passed explicitly.  The world is a record that grows along
  the theories: each component adds its fields, so a definition mentions only the part of the world
  that its code can reach.  Objects live in partial maps from pointers; a dereference of a pointer
  that is not in the map is the error \<open>Use_After_Free\<close>.  A call either returns the new world
  (\<open>Inr\<close>) or a fault (\<open>Inl\<close>): \<open>abort\<close>, \<open>exit\<close>, a call of an empty \<open>std::function\<close>, a freed pointer,
  undefined behaviour such as signed overflow.  Integers keep their width (\<open>size_t\<close> is a 64-bit
  word, \<open>int\<close> a 32-bit word).  Every call of the operating system appends an event to a history and
  takes its answer from an oracle (\<open>OS\<close>): the theorems assume of it only the documented
  behaviour that they name (\<open>epoll_ok\<close>, \<open>write_ok\<close>, \<open>readv_ok\<close>, \<open>clock_ok\<close>, \<open>epoll_adds\<close>,
  \<open>eventfd_ok\<close>), and \<open>SimOS\<close> is a concrete system that has all of it.  What the kernel knows (which
  descriptors are watched, what was written and read, how a timer is armed) is a function of the
  history, so that statements about the kernel are statements about the calls the program made.
  Callbacks are constructors (\<open>Callbacks\<close>), and \<open>System.invoke\<close> says which member function each one
  calls; the functions of the application are a parameter.

  \<^bold>\<open>Which theory models what.\<close>
  \<^item> \<open>Prelude\<close>: faults, results, \<open>bindE\<close>, loops over lists that can fail, lemmas on words.
    \<open>OS\<close>, \<open>SimOS\<close>: system calls.  \<open>StdSet\<close>: \<open>std::set\<close> as a strictly sorted list, behind the
    locale \<open>ordered_set\<close>.
  \<^item> \<open>Timestamps\<close> (\<open>Timestamp.h/.cc\<close>), \<open>InetAddr\<close> (\<open>InetAddress.h/.cc\<close>), \<open>Logging\<close> (\<open>Logger.h/.cc\<close>,
    \<open>Timestamp::toString\<close>), \<open>Threads\<close> (\<open>Thread\<close>, \<open>CurrentThread\<close>), \<open>Sockets\<close> (\<open>Socket.h/.cc\<close>).
  \<^item> \<open>Buffer\<close> (\<open>Buffer.h/.cc\<close>): the vector with its two indices; it implements the locale
    \<open>byte_queue\<close>, a queue of bytes.  \<open>BufferQueue\<close>: any sequence of its operations, against a plain list.
  \<^item> \<open>Channel\<close>, \<open>EPollPoller\<close>, \<open>EventLoop\<close>: the reactor.  \<open>poller_inv\<close> ties the poller's map, the
    \<open>index_\<close> of every channel and the kernel's interest list together; every operation keeps it.
  \<^item> \<open>TimerQueue\<close> (\<open>Timer\<close>, \<open>TimerId\<close>, \<open>TimerQueue\<close>, the constructors of \<open>EventLoop\<close>): \<open>timers_wf\<close>
    and \<open>timers_armed\<close>.
  \<^item> \<open>TcpConnection\<close>: all its member functions.  \<open>TcpStream\<close>: sending, as a refinement of an
    unbounded output stream (\<open>spec_op\<close>, \<open>abs_conn\<close>).  \<open>TcpLife\<close>: establishing, reading, closing,
    destroying.
  \<^item> \<open>Acceptor\<close>, \<open>Connector\<close>, \<open>ThreadPool\<close> (\<open>EventLoopThreadPool\<close>), \<open>TcpServer\<close>, \<open>TcpClient\<close>: one
    group of definitions per class, with \<open>acceptor_rel\<close>, \<open>connector_rel\<close>, \<open>pool_inv\<close>, \<open>server_inv\<close>.
    \<open>ClientLife\<close>: a client's connection from the connect to its destruction.
  \<^item> \<open>Dispatch\<close>: which callbacks an event of a channel runs, against a reference list, and what a run of
    the whole loop keeps.
  \<^item> \<open>System\<close>: the world of all components, what every callback does, a turn of the loop, and the
    chains of calls from \<open>accept\<close> to an established connection and from a close event to its
    destruction.
  \<^item> \<open>Wakeup\<close>: the loop and other threads, as a step relation over the shared fields; its locale
    \<open>transition_system\<close> is in \<open>Prelude\<close>.  The sequential \<open>queueInLoop\<close> and \<open>doPendingFunctors\<close> are
    shown to be runs of it.  \<open>LoopThread\<close>: the handshake of \<open>EventLoopThread\<close>.
  \<^item> \<open>Locality\<close>, \<open>ConnSteps\<close>: every operation of a connection in every state it can meet, with what it
    leaves alone.  \<open>ServerInv\<close>: the invariant \<open>server_sys\<close> of a server with its base loop and the loops of
    its pool (their pollers, channels and queues, the connections in whichever loop they live, and the
    \<open>shared_ptr\<close> references to them).  \<open>ServerSafety\<close>, \<open>ServerEvents\<close>, \<open>ServerTurn\<close>: every callback, every
    event, every functor and every release of a functor, in the thread of its loop, keeps it and succeeds,
    so a turn of a loop does.  \<open>ServerStart\<close>: the constructors and \<open>start()\<close>, which constructs one loop
    per thread, lead into it.  \<open>ServerLoops\<close>: the threads of all loops, interleaved callback by callback
    (\<open>loop_step\<close>, \<open>run_schedule\<close>); every schedule keeps the invariant, and a loop that is left alone
    goes through the turn of \<open>EventLoop::loop\<close>.  \<open>Echo\<close>, \<open>EchoSafe\<close>: the programs of \<open>src/examples\<close>, as an
    application of the library.  \<open>RunningServer\<close>: the properties of the whole server, and \<open>main\<close> of
    \<open>src/examples/echoserver.cc\<close> with its four threads.
  \<^item> \<open>ClientInv\<close>: the invariant \<open>client_sys\<close> of a client with its connector, the connection it makes, the timer
    with which it tries again, and their loop.  \<open>ClientSteps\<close>, \<open>ClientConn\<close>: the steps and the events of the
    connection keep it; \<open>ClientLink\<close>, \<open>ClientDial\<close>, \<open>ClientEvents\<close>: connecting, every answer of
    \<open>connect\<close>, the handlers of the connector's channel, a retry, a connection; \<open>ClientTimer\<close>: the timer that
    starts the connector again; \<open>ClientTurn\<close>, \<open>ClientRounds\<close>: a round of the loop, with the destruction of the
    functors and of the connection nobody refers to (\<open>client_turn\<close>), and any number of them.
    \<open>ClientUp\<close>, \<open>RunningClient\<close>: it comes up, and \<open>main\<close> of \<open>src/examples/echoMoreClient.cc\<close>.
  \<^item> \<open>Scenario\<close>: a small running server, at which the properties are applied.  \<open>Guarantees\<close>: the
    properties of single components.  This theory: the properties that span components.

  \<^bold>\<open>Bounds.\<close>  \<open>EventLoop::loop\<close> may run for ever and is a \<open>partial_function\<close> without fuel: not
  returning is \<open>None\<close>.  All other loops of the program run over lists.  A buffer is shown correct up
  to \<open>max_size\<close> of \<open>std::vector<char>\<close>, \<open>2 ^ 63 - 1\<close> bytes.  Times are sane between the epoch and
  \<open>2 ^ 62\<close> microseconds, the clock below \<open>2 ^ 40\<close> seconds.
  The theorems on the running server are about schedules for which connection numbers (an \<open>int\<close>) and buffers
  have room for one more callback, \<open>server_room\<close>; they name running out of them as the only way to stop.

  \<^bold>\<open>The running server.\<close>  \<open>server_sys\<close> covers a server with any number of threads of its own, without timers in
  its loops, and an application whose callbacks keep the invariant (\<open>app_safe\<close>): they may send, shut down
  and close in the loop of their connection, but queue no functors of their own and keep no
  \<open>shared_ptr\<close> to a connection.  A connection is destroyed when the server's map has let it go and the
  last functor that holds it is destroyed, at the end of \<open>doPendingFunctors\<close>.  The kernel may report any
  events in any order; \<open>accept\<close> returns descriptors that are not open, the allocator fresh addresses.
  The threads are interleaved at the borders of callbacks: what threads share within a callback is the
  queue of a loop, which a mutex protects, and the protocol around that queue is modelled access by
  access in \<open>Wakeup\<close>.  The loops run for as long as the schedule says; nobody calls \<open>quit()\<close>.

  \<^bold>\<open>The running client.\<close>  \<open>client_sys\<close> covers a client alone in its loop that does not connect again once its
  connection is lost (the default, \<open>retry_\<close> unset; \<open>TcpClient_enableRetry\<close> and \<open>Connector_restart\<close> are modelled, and
  \<open>client_close_releases\<close> is about them).  The kernel may answer \<open>connect\<close> and \<open>SO_ERROR\<close> with anything and report any events
  in any order.  Assumed of it (\<open>dial_ok\<close>): \<open>socket\<close> returns a descriptor that is not one of the loop's,
  \<open>getsockname\<close> and \<open>getpeername\<close> succeed (\<open>newConnection\<close> does not look at their results), \<open>getsockopt\<close> does not fail with
  \<open>errno\<close> zero; and of the allocator that a new timer is at a fresh address that is not the constant with
  which \<open>getExpired\<close> searches.  \<open>timely\<close> says that less than the five seconds of a retry pass between two calls of
  \<open>epoll_wait\<close>: otherwise the retry timer may fire before the functor that frees the old
  channel, which then frees the new one.  At most four descriptors are watched, so the event list never
  grows, and a round needs room for \<open>turn_room\<close> callbacks in the buffers of the connection.

  \<^bold>\<open>Not modelled.\<close>  The log calls inside the components (\<open>Logging\<close> models the logger itself);
  \<open>localtime\<close>, which is an argument; \<open>std::thread\<close> and the semaphore in
  \<open>Thread::start\<close>; exceptions thrown by \<open>new\<close>.  The references to a connection are tracked for the running
  server and for the running client that does not retry.  Of the examples the
  output to \<open>std::cout\<close>, \<open>sleep\<close>, and the mains that only build objects are left out.  \<open>copyable.h\<close>,
  \<open>nocopyable.h\<close> and the build files have no behaviour of the library.
\<close>


section \<open>Properties that span components\<close>

subsection \<open>A connection from its acceptance to its destruction\<close>


lemma ex_accept_fin: "fin_state ex_hist 109 = (False, False)"
  by (simp add: fin_state_def ex_hist_def ex_added_def)

lemma ex_next_loop: "EventLoopThreadPool_getNextLoop (sv_pool ex_server) = Inr (0, ex_base_pool)"
  "pool_inv ex_base_pool" "sint (sv_nextConnId ex_server) < 2 ^ 31 - 1"
  by (simp_all add: ex_server_def ex_server0_def ex_base_pool_def EventLoopThreadPool_getNextLoop_def pool_inv_def)



definition ex_app :: "'w app" where
  "ex_app = \<lparr>app_functor = (\<lambda>_. Inr), app_threadInit = (\<lambda>_ _. Inr), app_connection = (\<lambda>_ _. Inr),
     app_message = (\<lambda>_ _ _. Inr), app_writeComplete = (\<lambda>_ _. Inr), app_highWaterMark = (\<lambda>_ _ _. Inr)\<rparr>"


text \<open>Whatever loop the pool chooses, a new connection is registered under a new name, with the
  callbacks of the server, before it is handed to its loop: in the thread of that loop
  \<open>connectEstablished\<close> runs at once, from another thread it is queued there.\<close>

lemma newConnection_registers:
  assumes "server_inv w s sv" "EventLoopThreadPool_getNextLoop (sv_pool sv) = Inr (L, pl)" "pool_inv pl"
    and "sint (sv_nextConnId sv) < 2 ^ 31 - 1"
    and "chans w (al_channel al (chans w)) = None" "conns w (al_conn al (conns w)) = None"
    and "poller_inv L w" "po_channels (pollers w L) sockfd = None" "lp_wakeupFd (loops w L) \<noteq> sockfd"
  shows "\<exists>w1 sv1 cn ch. TcpServer_newConnection os al env s sockfd peer w =
      EventLoop_runInLoop os L (Bind_TcpConnection_connectEstablished (al_conn al (conns w)))
        (TcpConnection_connectEstablished os env (al_conn al (conns w))) w1 \<and>
    conn_fresh w1 (al_conn al (conns w)) cn ch \<and> cn_state cn = kConnecting \<and> cn_loop cn = L \<and>
    cn_connectionCallback cn = sv_connectionCallback sv \<and>
    cn_messageCallback cn = sv_messageCallback sv \<and> server_inv w1 s sv1 \<and>
    sint (sv_nextConnId sv1) = sint (sv_nextConnId sv) + 1 \<and>
    sv_connections sv1 = (sv_connections sv)(cn_name cn \<mapsto> al_conn al (conns w)) \<and>
    sv_connections sv (cn_name cn) = None"
  using newConnection_ok [OF assms] by blast

lemma newConnection_registers_example:
  "\<exists>w1 sv1 cn ch. TcpServer_newConnection sim_os ex_alloc ex_env 0 33 (1, 2) ex_world =
      EventLoop_runInLoop sim_os 0 (Bind_TcpConnection_connectEstablished 50)
        (TcpConnection_connectEstablished sim_os ex_env 50) w1 \<and>
    conn_fresh w1 50 cn ch \<and> server_inv w1 0 sv1"
  using newConnection_registers [OF ex_server_inv ex_next_loop, of ex_alloc 33 sim_os ex_env "(1, 2)"]
  by (auto simp: ex_alloc_def ex_poller_inv ex_loop_def)

subsection \<open>The life of a client's connection\<close>




definition ex_client_cn :: conn where
  "ex_client_cn = ex_cn\<lparr>cn_closeCallback := Some (Bind_TcpClient_removeConnection 0)\<rparr>"

definition ex_client_world :: client_world where
  "ex_client_world = ex_world\<lparr>conns := [0 \<mapsto> ex_client_cn]\<rparr>"

lemma ex_client_rel: "conn_rel ex_client_world 0 ex_client_cn ex_ch"
proof -
  have "poller_inv 0 ex_client_world"
    using ex_poller_inv poller_inv_cong [of ex_client_world ex_world 0] by (simp add: ex_client_world_def)
  then show ?thesis
    by (simp add: conn_rel_def ex_client_world_def ex_client_cn_def ex_cn_def ex_ch_def ex_loop_def)
qed


subsection \<open>A conversation\<close>


definition ex_echo_cn :: conn where
  "ex_echo_cn = ex_cn\<lparr>cn_messageCallback := Some (App_message 0)\<rparr>"

definition ex_echo_world :: client_world where
  "ex_echo_world = ex_world\<lparr>conns := [0 \<mapsto> ex_echo_cn]\<rparr>"

lemma ex_echo_inv: "stream_inv ex_echo_world 0 ex_echo_cn ex_ch"
proof -
  have "poller_inv 0 ex_echo_world"
    using ex_poller_inv poller_inv_cong [of ex_echo_world ex_world 0] by (simp add: ex_echo_world_def)
  then show ?thesis
    using ex_stream_inv
    by (simp add: stream_inv_def conn_rel_def conn_open_def isInLoopThread_def ex_echo_world_def
        ex_echo_cn_def ex_cn_def ex_ch_def)
qed

lemma ex_toString: "Timestamp_toString ex_localtime (Timestamp 5000000) = ''1970/01/01 00:00:05''"
  by code_simp


subsection \<open>A new loop\<close>

end
